(* ===== verification/Prelude.thy ===== *)
theory Prelude
  imports Main "HOL-Library.Word" "HOL-Library.Monad_Syntax"
begin

text \<open>
  Generic material shared by every component: machine words and byte strings,
  the big- and little-endian byte codecs of the standard library, bounds-checked
  indexing and slicing (a Rust panic is the value \<open>None\<close> of the \<open>option\<close> monad),
  and the model of \<open>str\<close>.  A Rust string is the list of its UTF-8 bytes, one
  \<^typ>\<open>char\<close> per byte, so that lengths and offsets are the byte counts Rust uses.
  The collections \<open>bounds\<close> (facts that discharge index checks) and \<open>codec\<close>
  (byte codec equations) are filled here and used by the component theories.
\<close>

unbundle bit_operations_syntax

named_theorems bounds
named_theorems codec

type_synonym u8 = "8 word"
type_synonym u16 = "16 word"
type_synonym u32 = "32 word"
type_synonym u64 = "64 word"
type_synonym bytes = "u8 list"

section \<open>Panics, indexing and slicing\<close>

text \<open>\<open>xs[i]\<close> and \<open>&xs[a..b]\<close>: out of range is a panic.\<close>

definition idx :: "'a list \<Rightarrow> nat \<Rightarrow> 'a option" where
  "idx xs i = (if i < length xs then Some (xs ! i) else None)"

definition slice :: "'a list \<Rightarrow> nat \<Rightarrow> nat \<Rightarrow> 'a list option" where
  "slice xs a b = (if a \<le> b \<and> b \<le> length xs then Some (take (b - a) (drop a xs)) else None)"

definition slice_from :: "'a list \<Rightarrow> nat \<Rightarrow> 'a list option" where
  "slice_from xs a = (if a \<le> length xs then Some (drop a xs) else None)"

definition vec_set :: "'a list \<Rightarrow> nat \<Rightarrow> 'a \<Rightarrow> 'a list option" where
  "vec_set xs i x = (if i < length xs then Some (xs[i := x]) else None)"

lemma idx_ok [simp, bounds]: "i < length xs \<Longrightarrow> idx xs i = Some (xs ! i)"
  by (simp add: idx_def)

lemma idx_panic: "length xs \<le> i \<Longrightarrow> idx xs i = None"
  by (simp add: idx_def)

lemma slice_ok [simp, bounds]:
  "a \<le> b \<Longrightarrow> b \<le> length xs \<Longrightarrow> slice xs a b = Some (take (b - a) (drop a xs))"
  by (simp add: slice_def)

lemma slice_panic: "b < a \<or> length xs < b \<Longrightarrow> slice xs a b = None"
  by (auto simp: slice_def)

lemma slice_from_ok [simp, bounds]: "a \<le> length xs \<Longrightarrow> slice_from xs a = Some (drop a xs)"
  by (simp add: slice_from_def)

lemma slice_some_iff:
  "slice xs a b = Some ys \<longleftrightarrow> a \<le> b \<and> b \<le> length xs \<and> ys = take (b - a) (drop a xs)"
  by (auto simp: slice_def)

text \<open>\<open>Option::unwrap_or\<close>\<close>

definition default_to :: "'a \<Rightarrow> 'a option \<Rightarrow> 'a" where
  "default_to d m = (case m of None \<Rightarrow> d | Some x \<Rightarrow> x)"

text \<open>\<open>Result<T, E>\<close> is a sum, \<open>Inl\<close> the error; \<open>?\<close> is this bind.\<close>

fun res_bind :: "'e + 'a \<Rightarrow> ('a \<Rightarrow> 'e + 'b) \<Rightarrow> 'e + 'b" where
  "res_bind (Inl e) f = Inl e"
| "res_bind (Inr x) f = f x"

lemma res_bind_Inr: "res_bind m f = Inr y \<longleftrightarrow> (\<exists>x. m = Inr x \<and> f x = Inr y)"
  by (cases m) auto

fun map_err :: "('e \<Rightarrow> 'f) \<Rightarrow> 'e + 'a \<Rightarrow> 'f + 'a" where
  "map_err g (Inl e) = Inl (g e)"
| "map_err g (Inr x) = Inr x"

section \<open>Byte codecs\<close>

text \<open>\<open>from_be_bytes\<close>, \<open>to_be_bytes\<close> and their little-endian twins, for any width.\<close>

definition from_be :: "bytes \<Rightarrow> nat" where
  "from_be bs = foldl (\<lambda>acc b. acc * 256 + unat b) 0 bs"

definition from_le :: "bytes \<Rightarrow> nat" where
  "from_le bs = from_be (rev bs)"

fun to_be :: "nat \<Rightarrow> nat \<Rightarrow> bytes" where
  "to_be 0 n = []"
| "to_be (Suc k) n = to_be k (n div 256) @ [word_of_nat n]"

definition to_le :: "nat \<Rightarrow> nat \<Rightarrow> bytes" where
  "to_le k n = rev (to_be k n)"

lemma from_be_Nil [simp, codec]: "from_be [] = 0"
  by (simp add: from_be_def)

lemma from_be_snoc [simp, codec]: "from_be (bs @ [b]) = from_be bs * 256 + unat b"
  by (simp add: from_be_def)

lemma length_to_be [simp, codec]: "length (to_be k n) = k"
  by (induction k arbitrary: n) auto

lemma length_to_le [simp, codec]: "length (to_le k n) = k"
  by (simp add: to_le_def)

lemma unat_of_nat_less: "n < 2 ^ LENGTH('a) \<Longrightarrow> unat (word_of_nat n :: 'a::len word) = n"
  by (simp add: unat_of_nat)

lemma unat_of_nat_u8 [simp]: "unat (word_of_nat n :: u8) = n mod 256"
  by (simp add: unat_of_nat)

lemma unat_u8_less [simp]: "unat (b :: u8) < 256"
  using unsigned_less [of b, where 'a = nat] by simp

lemma unat_u16_less: "unat (w :: u16) < 65536"
  using unsigned_less [of w, where 'a = nat] by simp

lemma unat_u32_less: "unat (w :: u32) < 4294967296"
  using unsigned_less [of w, where 'a = nat] by simp

lemma of_nat_u8_snoc [simp]: "(word_of_nat (n * 256 + unat b) :: u8) = b"
proof -
  have "unat (word_of_nat (n * 256 + unat b) :: u8) = unat b"
    by (simp only: unat_of_nat_u8) simp
  then show ?thesis by (simp only: word_unat_eq_iff)
qed

lemma from_be_less: "from_be bs < 256 ^ length bs"
proof (induction bs rule: rev_induct)
  case Nil
  then show ?case by simp
next
  case (snoc b bs)
  have "unat b < 256" by (rule unat_u8_less)
  with snoc have "from_be bs * 256 + unat b < (from_be bs + 1) * 256" by simp
  also have "\<dots> \<le> 256 ^ length bs * 256" using snoc by (intro mult_le_mono1) simp
  finally show ?case by (simp add: mult.commute)
qed

lemma from_be_to_be [simp, codec]: "from_be (to_be k n) = n mod 256 ^ k"
proof (induction k arbitrary: n)
  case 0
  then show ?case by simp
next
  case (Suc k)
  have "n mod 256 ^ Suc k = 256 * (n div 256 mod 256 ^ k) + n mod 256"
    by (simp add: mod_mult2_eq)
  with Suc show ?case by simp
qed

lemma to_be_from_be [simp, codec]: "to_be (length bs) (from_be bs) = bs"
proof (induction bs rule: rev_induct)
  case Nil
  then show ?case by simp
next
  case (snoc b bs)
  then show ?case by (simp del: of_nat_add of_nat_mult)
qed

lemma from_le_to_le [simp, codec]: "from_le (to_le k n) = n mod 256 ^ k"
  by (simp add: from_le_def to_le_def)

lemma from_le_less: "from_le bs < 256 ^ length bs"
  using from_be_less [of "rev bs"] by (simp add: from_le_def)

lemma from_be_1 [simp]: "from_be [a] = unat a"
  by (simp add: from_be_def)

lemma from_be_2: "from_be [a, b] = unat a * 256 + unat b"
  by (simp add: from_be_def)

lemma from_be_4:
  "from_be [a, b, c, d] = ((unat a * 256 + unat b) * 256 + unat c) * 256 + unat d"
  by (simp add: from_be_def)

text \<open>\<open>u16::from_be_bytes([a, b])\<close> and \<open>u32::from_be_bytes([a, b, c, d])\<close> as words.\<close>

definition be16 :: "u8 \<Rightarrow> u8 \<Rightarrow> u16" where
  "be16 a b = word_of_nat (from_be [a, b])"

definition le16 :: "u8 \<Rightarrow> u8 \<Rightarrow> u16" where
  "le16 a b = word_of_nat (from_le [a, b])"

definition be32 :: "u8 \<Rightarrow> u8 \<Rightarrow> u8 \<Rightarrow> u8 \<Rightarrow> u32" where
  "be32 a b c d = word_of_nat (from_be [a, b, c, d])"

definition le32 :: "u8 \<Rightarrow> u8 \<Rightarrow> u8 \<Rightarrow> u8 \<Rightarrow> u32" where
  "le32 a b c d = word_of_nat (from_le [a, b, c, d])"

lemma unat_be16: "unat (be16 a b) = unat a * 256 + unat b"
  unfolding be16_def using from_be_less [of "[a, b]"]
  by (subst unat_of_nat_less) (simp_all add: from_be_2)

lemma unat_be32:
  "unat (be32 a b c d) = ((unat a * 256 + unat b) * 256 + unat c) * 256 + unat d"
  unfolding be32_def using from_be_less [of "[a, b, c, d]"]
  by (subst unat_of_nat_less) (simp_all add: from_be_4)

text \<open>\<open>to_be_bytes\<close> of a word.\<close>

definition u16_be :: "u16 \<Rightarrow> bytes" where
  "u16_be w = to_be 2 (unat w)"

definition u32_be :: "u32 \<Rightarrow> bytes" where
  "u32_be w = to_be 4 (unat w)"

lemma to_be_2: "to_be 2 n = [word_of_nat (n div 256), word_of_nat n]"
  by (simp add: numeral_2_eq_2)

lemma to_be_4:
  "to_be 4 n = [word_of_nat (n div 256 div 256 div 256), word_of_nat (n div 256 div 256),
     word_of_nat (n div 256), word_of_nat n]"
proof -
  have four: "(4::nat) = Suc (Suc (Suc (Suc 0)))" by simp
  show ?thesis by (simp only: four to_be.simps append_Nil append_Cons)
qed

lemma be16_u16_be [simp, codec]: "be16 (word_of_nat (unat w div 256)) (word_of_nat (unat w)) = w"
proof -
  have "unat (be16 (word_of_nat (unat w div 256)) (word_of_nat (unat w))) = unat w"
    using unat_u16_less [of w] by (simp only: unat_be16 unat_of_nat_u8) simp
  then show ?thesis by (simp only: word_unat_eq_iff)
qed

end
