(* ===== verification/RustStr.thy ===== *)
theory RustStr
  imports Prelude
begin

text \<open>
  The part of \<open>str\<close>, \<open>String\<close>, \<open>core::fmt\<close> and \<open>core::num\<close> that the program uses.
  A string is the list of its UTF-8 bytes.  White space is Unicode's \<open>White_Space\<close>,
  recognised by the byte sequences that encode it, and \<open>from_utf8\<close> /
  \<open>from_utf8_lossy\<close> follow the well-formed byte sequences of the Unicode standard.
\<close>

section \<open>Bytes and characters\<close>

definition byte_of_chr :: "char \<Rightarrow> u8" where
  "byte_of_chr c = word_of_nat (of_char c)"

definition chr_of_byte :: "u8 \<Rightarrow> char" where
  "chr_of_byte b = char_of (unat b)"

definition as_bytes :: "string \<Rightarrow> bytes" where
  "as_bytes s = map byte_of_chr s"

definition str_of :: "bytes \<Rightarrow> string" where
  "str_of bs = map chr_of_byte bs"

lemma byte_of_chr_inverse [simp]: "chr_of_byte (byte_of_chr c) = c"
  by (simp add: byte_of_chr_def chr_of_byte_def)

lemma chr_of_byte_inverse [simp]: "byte_of_chr (chr_of_byte b) = b"
  by (simp add: byte_of_chr_def chr_of_byte_def)

lemma str_of_as_bytes [simp]: "str_of (as_bytes s) = s"
  by (simp add: str_of_def as_bytes_def o_def)

lemma as_bytes_str_of [simp]: "as_bytes (str_of bs) = bs"
  by (simp add: str_of_def as_bytes_def o_def)

lemma length_as_bytes [simp]: "length (as_bytes s) = length s"
  by (simp add: as_bytes_def)

lemma length_str_of [simp]: "length (str_of bs) = length bs"
  by (simp add: str_of_def)

lemma as_bytes_append [simp]: "as_bytes (s @ t) = as_bytes s @ as_bytes t"
  by (simp add: as_bytes_def)

lemma as_bytes_simps [simp]:
  "as_bytes [] = []" "as_bytes (c # s) = byte_of_chr c # as_bytes s"
  by (simp_all add: as_bytes_def)

lemma str_of_simps [simp]:
  "str_of [] = []" "str_of (b # bs) = chr_of_byte b # str_of bs"
  by (simp_all add: str_of_def)

section \<open>Searching and splitting\<close>

definition starts_with :: "'a list \<Rightarrow> 'a list \<Rightarrow> bool" where
  "starts_with s p \<longleftrightarrow> take (length p) s = p"

definition ends_with :: "'a list \<Rightarrow> 'a list \<Rightarrow> bool" where
  "ends_with s p \<longleftrightarrow> starts_with (rev s) (rev p)"

definition strip_prefix :: "'a list \<Rightarrow> 'a list \<Rightarrow> 'a list option" where
  "strip_prefix s p = (if starts_with s p then Some (drop (length p) s) else None)"

fun find_sub :: "'a list \<Rightarrow> 'a list \<Rightarrow> nat option" where
  "find_sub [] p = (if p = [] then Some 0 else None)"
| "find_sub (c # s) p =
     (if starts_with (c # s) p then Some 0 else map_option Suc (find_sub s p))"

definition contains :: "'a list \<Rightarrow> 'a list \<Rightarrow> bool" where
  "contains s p \<longleftrightarrow> find_sub s p \<noteq> None"

definition split_once :: "char \<Rightarrow> string \<Rightarrow> (string \<times> string) option" where
  "split_once c s =
     (case find_sub s [c] of None \<Rightarrow> None | Some i \<Rightarrow> Some (take i s, drop (Suc i) s))"

definition rsplit_once :: "char \<Rightarrow> string \<Rightarrow> (string \<times> string) option" where
  "rsplit_once c s =
     map_option (\<lambda>(b, a). (rev a, rev b)) (split_once c (rev s))"

fun split_chr :: "char \<Rightarrow> string \<Rightarrow> string list" where
  "split_chr c [] = [[]]"
| "split_chr c (x # s) =
     (if x = c then [] # split_chr c s
      else case split_chr c s of [] \<Rightarrow> [[x]] | p # ps \<Rightarrow> (x # p) # ps)"

text \<open>\<open>splitn(n, c)\<close>: at most \<open>n\<close> parts, the last one the rest.\<close>

fun splitn :: "nat \<Rightarrow> char \<Rightarrow> string \<Rightarrow> string list" where
  "splitn 0 c s = []"
| "splitn (Suc n) c s =
     (if n = 0 then [s]
      else case split_once c s of None \<Rightarrow> [s] | Some (a, b) \<Rightarrow> a # splitn n c b)"

text \<open>\<open>lines()\<close>: a line ends with a line feed, less a carriage return before it.\<close>

definition str_lines :: "string \<Rightarrow> string list" where
  "str_lines s =
     (let ps = split_chr (CHR 10) s in
      map (\<lambda>l. if l \<noteq> [] \<and> last l = CHR 13 then butlast l else l) (butlast ps)
      @ (if last ps = [] then [] else [last ps]))"

fun join :: "string \<Rightarrow> string list \<Rightarrow> string" where
  "join sep [] = []"
| "join sep [p] = p"
| "join sep (p # q # ps) = p @ sep @ join sep (q # ps)"

lemma starts_with_append [simp]: "starts_with (p @ s) p"
  by (simp add: starts_with_def)

lemma starts_with_iff: "starts_with s p \<longleftrightarrow> (\<exists>t. s = p @ t)"
  by (auto simp: starts_with_def) (metis append_take_drop_id)

lemma starts_with_length: "starts_with s p \<Longrightarrow> length p \<le> length s"
  by (auto simp: starts_with_iff)

lemma ends_with_iff: "ends_with s p \<longleftrightarrow> (\<exists>t. s = t @ p)"
proof
  assume "ends_with s p"
  then obtain t where "rev s = rev p @ t" by (auto simp: ends_with_def starts_with_iff)
  then have "s = rev t @ p" by (metis rev_append rev_rev_ident)
  then show "\<exists>t. s = t @ p" ..
qed (auto simp: ends_with_def starts_with_iff)

lemma strip_prefix_append [simp]: "strip_prefix (p @ s) p = Some s"
  by (simp add: strip_prefix_def)

lemma strip_prefix_Some: "strip_prefix s p = Some t \<longleftrightarrow> s = p @ t"
  by (auto simp: strip_prefix_def starts_with_def) (metis append_take_drop_id)

lemma find_sub_Some: "find_sub s p = Some i \<Longrightarrow> starts_with (drop i s) p \<and> i \<le> length s"
  by (induction s arbitrary: i) (auto simp: starts_with_def split: if_splits)

lemma find_sub_first: "find_sub s p = Some i \<Longrightarrow> j < i \<Longrightarrow> \<not> starts_with (drop j s) p"
proof (induction s arbitrary: i j)
  case Nil
  then show ?case by (simp split: if_splits)
next
  case (Cons c s)
  then show ?case by (cases j) (auto split: if_splits)
qed

lemma contains_iff: "contains s p \<longleftrightarrow> (\<exists>a b. s = a @ p @ b)"
proof (induction s)
  case Nil
  then show ?case by (auto simp: contains_def)
next
  case (Cons c s)
  have "contains (c # s) p \<longleftrightarrow> starts_with (c # s) p \<or> contains s p"
    by (auto simp: contains_def)
  also have "\<dots> \<longleftrightarrow> (\<exists>a b. c # s = a @ p @ b)"
    unfolding Cons.IH starts_with_iff by (auto simp: append_eq_Cons_conv Cons_eq_append_conv)
  finally show ?case .
qed

section \<open>Case, white space and trimming\<close>

definition lower_chr :: "char \<Rightarrow> char" where
  "lower_chr c =
     (let n = (of_char c :: nat) in if 65 \<le> n \<and> n \<le> 90 then char_of (n + 32) else c)"

definition to_lower :: "string \<Rightarrow> string" where
  "to_lower s = map lower_chr s"

definition eq_ignore_case :: "string \<Rightarrow> string \<Rightarrow> bool" where
  "eq_ignore_case s t \<longleftrightarrow> to_lower s = to_lower t"

text \<open>The byte length of the white space character a string starts with, 0 if none.\<close>

definition ws_codes :: "nat list list" where
  "ws_codes = [[9], [10], [11], [12], [13], [32], [194, 133], [194, 160], [225, 154, 128],
     [226, 128, 128], [226, 128, 129], [226, 128, 130], [226, 128, 131], [226, 128, 132],
     [226, 128, 133], [226, 128, 134], [226, 128, 135], [226, 128, 136], [226, 128, 137],
     [226, 128, 138], [226, 128, 168], [226, 128, 169], [226, 128, 175], [226, 129, 159],
     [227, 128, 128]]"

definition ws_len :: "string \<Rightarrow> nat" where
  "ws_len s =
     (case find (\<lambda>w. starts_with (map of_char s) w) ws_codes of None \<Rightarrow> 0 | Some w \<Rightarrow> length w)"

definition ws_len_end :: "string \<Rightarrow> nat" where
  "ws_len_end s =
     (case find (\<lambda>w. ends_with (map of_char s) w) ws_codes of None \<Rightarrow> 0 | Some w \<Rightarrow> length w)"

lemma ws_codes_nonempty: "w \<in> set ws_codes \<Longrightarrow> 0 < length w"
  by (auto simp: ws_codes_def)

lemma ws_len_le: "ws_len s \<le> length s"
proof (cases "find (\<lambda>w. starts_with (map of_char s) w) ws_codes")
  case (Some w)
  then have "starts_with (map of_char s :: nat list) w" by (auto simp: find_Some_iff)
  from starts_with_length [OF this] Some show ?thesis by (simp add: ws_len_def)
qed (simp add: ws_len_def)

lemma ws_len_shrinks: "0 < ws_len s \<Longrightarrow> length s - ws_len s < length s"
  using ws_len_le [of s] by linarith

function trim_start :: "string \<Rightarrow> string" where
  "trim_start s = (if ws_len s = 0 then s else trim_start (drop (ws_len s) s))"
  by pat_completeness auto
termination
  by (relation "measure length") (auto simp: ws_len_shrinks)

function trim_end :: "string \<Rightarrow> string" where
  "trim_end s =
     (if ws_len_end s = 0 \<or> s = [] then s else trim_end (take (length s - ws_len_end s) s))"
  by pat_completeness auto
termination
  by (relation "measure length") auto

definition trim :: "string \<Rightarrow> string" where
  "trim s = trim_end (trim_start s)"

declare trim_start.simps [simp del] trim_end.simps [simp del]

lemma trim_start_suffix: "\<exists>k. trim_start s = drop k s"
proof (induction s rule: trim_start.induct)
  case (1 s)
  show ?case
  proof (cases "ws_len s = 0")
    case True
    then have "trim_start s = drop 0 s" by (simp add: trim_start.simps [of s])
    then show ?thesis ..
  next
    case False
    with 1 obtain k where "trim_start (drop (ws_len s) s) = drop k (drop (ws_len s) s)" by blast
    with False have "trim_start s = drop (k + ws_len s) s" by (simp add: trim_start.simps [of s])
    then show ?thesis ..
  qed
qed

lemma length_trim_start: "length (trim_start s) \<le> length s"
  using trim_start_suffix [of s] by auto

lemma length_trim_end: "length (trim_end s) \<le> length s"
proof (induction s rule: trim_end.induct)
  case (1 s)
  then show ?case by (subst trim_end.simps) force
qed

lemma length_trim: "length (trim s) \<le> length s"
  unfolding trim_def using length_trim_end length_trim_start le_trans by blast

function split_ws_aux :: "string \<Rightarrow> string \<Rightarrow> string list" where
  "split_ws_aux cur s =
     (case s of
        [] \<Rightarrow> if cur = [] then [] else [cur]
      | c # s' \<Rightarrow>
          if ws_len s = 0 then split_ws_aux (cur @ [c]) s'
          else (if cur = [] then [] else [cur]) @ split_ws_aux [] (drop (ws_len s) s))"
  by pat_completeness auto
termination
  by (relation "measure (\<lambda>(cur, s). length s)") auto

declare split_ws_aux.simps [simp del]

definition split_whitespace :: "string \<Rightarrow> string list" where
  "split_whitespace s = split_ws_aux [] s"

definition trim_matches :: "char \<Rightarrow> string \<Rightarrow> string" where
  "trim_matches c s = rev (dropWhile (\<lambda>x. x = c) (rev (dropWhile (\<lambda>x. x = c) s)))"

text \<open>\<open>trim_start_matches\<close> with a non-empty pattern.\<close>

function trim_start_matches :: "string \<Rightarrow> string \<Rightarrow> string" where
  "trim_start_matches p s =
     (if p \<noteq> [] \<and> starts_with s p then trim_start_matches p (drop (length p) s) else s)"
  by pat_completeness auto
termination
  by (relation "measure (\<lambda>(p, s). length s)") (auto simp: starts_with_iff)

declare trim_start_matches.simps [simp del]

section \<open>UTF-8 validation\<close>

definition cont :: "u8 \<Rightarrow> bool" where
  "cont b \<longleftrightarrow> 128 \<le> unat b \<and> unat b \<le> 191"

definition in_range :: "u8 \<Rightarrow> nat \<Rightarrow> nat \<Rightarrow> bool" where
  "in_range b lo hi \<longleftrightarrow> lo \<le> unat b \<and> unat b \<le> hi"

text \<open>
  \<open>utf8_step bs\<close> looks at the first character of a non-empty byte string: \<open>(n, True)\<close>
  when the first \<open>n\<close> bytes are a well-formed sequence, \<open>(n, False)\<close> when they are a
  maximal ill-formed subpart.
\<close>

definition second_ok :: "u8 \<Rightarrow> u8 \<Rightarrow> bool" where
  "second_ok a b =
     (if unat a = 0xE0 then in_range b 0xA0 0xBF
      else if unat a = 0xED then in_range b 0x80 0x9F
      else if unat a = 0xF0 then in_range b 0x90 0xBF
      else if unat a = 0xF4 then in_range b 0x80 0x8F
      else cont b)"

definition seq_len :: "u8 \<Rightarrow> nat" where
  "seq_len a =
     (if unat a < 0x80 then 1 else if in_range a 0xC2 0xDF then 2
      else if in_range a 0xE0 0xEF then 3 else if in_range a 0xF0 0xF4 then 4 else 0)"

fun utf8_step :: "bytes \<Rightarrow> nat \<times> bool" where
  "utf8_step [] = (0, False)"
| "utf8_step (a # r) =
     (if seq_len a = 0 then (1, False)
      else if seq_len a = 1 then (1, True)
      else case r of
        [] \<Rightarrow> (1, False)
      | b # r2 \<Rightarrow>
          if \<not> second_ok a b then (1, False)
          else if seq_len a = 2 then (2, True)
          else case r2 of
            [] \<Rightarrow> (2, False)
          | c # r3 \<Rightarrow>
              if \<not> cont c then (2, False)
              else if seq_len a = 3 then (3, True)
              else case r3 of
                [] \<Rightarrow> (3, False)
              | d # _ \<Rightarrow> if cont d then (4, True) else (3, False))"

lemma utf8_step_pos: "bs \<noteq> [] \<Longrightarrow> 0 < fst (utf8_step bs)"
  by (cases bs) (auto split: list.splits)

lemma utf8_step_le: "fst (utf8_step bs) \<le> length bs"
  by (cases bs) (auto split: list.splits)

lemma utf8_step_shrinks: "bs \<noteq> [] \<Longrightarrow> length bs - fst (utf8_step bs) < length bs"
  using utf8_step_pos [of bs] by (simp add: diff_less)

declare utf8_step.simps [simp del]

function utf8_valid :: "bytes \<Rightarrow> bool" where
  "utf8_valid bs =
     (if bs = [] then True
      else if snd (utf8_step bs) then utf8_valid (drop (fst (utf8_step bs)) bs) else False)"
  by pat_completeness auto
termination
  by (relation "measure length") (simp_all add: utf8_step_shrinks)

function from_utf8_lossy :: "bytes \<Rightarrow> string" where
  "from_utf8_lossy bs =
     (if bs = [] then []
      else (if snd (utf8_step bs) then str_of (take (fst (utf8_step bs)) bs)
            else [CHR 0xEF, CHR 0xBF, CHR 0xBD])
           @ from_utf8_lossy (drop (fst (utf8_step bs)) bs))"
  by pat_completeness auto
termination
  by (relation "measure length") (simp_all add: utf8_step_shrinks)

declare utf8_valid.simps [simp del] from_utf8_lossy.simps [simp del]

definition from_utf8 :: "bytes \<Rightarrow> string option" where
  "from_utf8 bs = (if utf8_valid bs then Some (str_of bs) else None)"

lemma utf8_valid_Nil [simp]: "utf8_valid []"
  by (subst utf8_valid.simps) (simp only: if_True simp_thms)

lemma utf8_valid_ascii:
  assumes "\<forall>b \<in> set bs. unat b < 128"
  shows "utf8_valid bs"
  using assms
proof (induction bs)
  case Nil
  then show ?case by simp
next
  case (Cons b bs)
  then show ?case by (subst utf8_valid.simps) (simp add: seq_len_def utf8_step.simps)
qed

text \<open>Valid strings survive the lossy conversion unchanged.\<close>

lemma from_utf8_lossy_valid: "utf8_valid bs \<Longrightarrow> from_utf8_lossy bs = str_of bs"
proof (induction bs rule: utf8_valid.induct)
  case (1 bs)
  show ?case
  proof (cases "bs = []")
    case True
    then show ?thesis by (simp add: from_utf8_lossy.simps)
  next
    case False
    obtain n ok where step: "utf8_step bs = (n, ok)" by force
    from 1(2) False step have ok: ok "utf8_valid (drop n bs)"
      by (auto simp: utf8_valid.simps [of bs] split: if_splits)
    with 1(1) False step have "from_utf8_lossy (drop n bs) = str_of (drop n bs)" by simp
    then have "from_utf8_lossy bs = str_of (take n bs) @ str_of (drop n bs)"
      using False step ok by (simp add: from_utf8_lossy.simps [of bs])
    also have "\<dots> = str_of bs" by (simp add: str_of_def flip: map_append)
    finally show ?thesis .
  qed
qed

section \<open>Numbers as text\<close>

definition digit_chr :: "nat \<Rightarrow> char" where
  "digit_chr d = (if d < 10 then char_of (48 + d) else char_of (87 + d))"

fun radix_str :: "nat \<Rightarrow> nat \<Rightarrow> string" where
  "radix_str r n =
     (if n < r \<or> r < 2 then [digit_chr n] else radix_str r (n div r) @ [digit_chr (n mod r)])"

declare radix_str.simps [simp del]

definition dec :: "nat \<Rightarrow> string" where
  "dec n = radix_str 10 n"

definition hex :: "nat \<Rightarrow> string" where
  "hex n = radix_str 16 n"

definition pad0 :: "nat \<Rightarrow> string \<Rightarrow> string" where
  "pad0 w s = replicate (w - length s) (CHR ''0'') @ s"

text \<open>\<open>{:02x}\<close>, \<open>{:04x}\<close>; \<open>{:#04x}\<close>, \<open>{:#06x}\<close> and \<open>{:#010x}\<close>, whose width counts \<open>0x\<close>.\<close>

definition hex02 :: "nat \<Rightarrow> string" where
  "hex02 n = pad0 2 (hex n)"

definition hex04 :: "nat \<Rightarrow> string" where
  "hex04 n = pad0 4 (hex n)"

definition hex_alt :: "nat \<Rightarrow> nat \<Rightarrow> string" where
  "hex_alt w n = ''0x'' @ pad0 (w - 2) (hex n)"

definition bool_str :: "bool \<Rightarrow> string" where
  "bool_str b = (if b then ''true'' else ''false'')"

datatype int_error = IntEmpty | InvalidDigit | PosOverflow

fun int_error_str :: "int_error \<Rightarrow> string" where
  "int_error_str IntEmpty = ''cannot parse integer from empty string''"
| "int_error_str InvalidDigit = ''invalid digit found in string''"
| "int_error_str PosOverflow = ''number too large to fit in target type''"

definition digit_val :: "char \<Rightarrow> nat option" where
  "digit_val c =
     (let n = (of_char c :: nat) in if 48 \<le> n \<and> n \<le> 57 then Some (n - 48) else None)"

fun parse_digits :: "nat \<Rightarrow> nat \<Rightarrow> string \<Rightarrow> int_error + nat" where
  "parse_digits mx acc [] = Inr acc"
| "parse_digits mx acc (c # cs) =
     (case digit_val c of
        None \<Rightarrow> Inl InvalidDigit
      | Some d \<Rightarrow> if mx < acc * 10 + d then Inl PosOverflow else parse_digits mx (acc * 10 + d) cs)"

text \<open>\<open>str::parse\<close> at an unsigned type with maximum \<open>mx\<close>; one leading \<open>+\<close> is accepted.\<close>

definition parse_uint :: "nat \<Rightarrow> string \<Rightarrow> int_error + nat" where
  "parse_uint mx s =
     (case s of
        [] \<Rightarrow> Inl IntEmpty
      | [c] \<Rightarrow> if c = CHR ''+'' \<or> c = CHR ''-'' then Inl InvalidDigit else parse_digits mx 0 s
      | c # cs \<Rightarrow> if c = CHR ''+'' then parse_digits mx 0 cs else parse_digits mx 0 s)"

definition u16_max :: nat where "u16_max = 65535"
definition u32_max :: nat where "u32_max = 4294967295"
definition usize_max :: nat where "usize_max = 18446744073709551615"

lemma digit_val_digit_chr [simp]: "d < 10 \<Longrightarrow> digit_val (digit_chr d) = Some d"
  by (simp add: digit_val_def digit_chr_def of_char_of)

lemma radix_str_nonempty [simp]: "radix_str r n \<noteq> []"
  by (simp add: radix_str.simps [of r n])

lemma dec_rec: "10 \<le> n \<Longrightarrow> dec n = dec (n div 10) @ [digit_chr (n mod 10)]"
  by (simp add: dec_def radix_str.simps [of 10 n])

lemma dec_small: "n < 10 \<Longrightarrow> dec n = [digit_chr n]"
  by (simp add: dec_def radix_str.simps [of 10 n])

lemma digit_chr_char: "d < 10 \<Longrightarrow> digit_chr d = char_of (48 + d)"
  by (simp add: digit_chr_def)

lemma digit_chr_ne_sign: "d < 10 \<Longrightarrow> digit_chr d \<noteq> CHR ''+'' \<and> digit_chr d \<noteq> CHR ''-'' \<and> digit_chr d \<noteq> CHR '':''"
  using digit_val_digit_chr [of d] by (auto simp: digit_val_def)

lemma parse_digits_append:
  "parse_digits mx acc (xs @ ys) =
     (case parse_digits mx acc xs of Inl e \<Rightarrow> Inl e | Inr a \<Rightarrow> parse_digits mx a ys)"
  by (induction mx acc xs rule: parse_digits.induct) (auto split: option.splits)

lemma parse_digits_dec: "n \<le> mx \<Longrightarrow> parse_digits mx 0 (dec n) = Inr n"
proof (induction n rule: less_induct)
  case (less n)
  show ?case
  proof (cases "n < 10")
    case True
    with less show ?thesis by (simp add: dec_small)
  next
    case False
    then have "parse_digits mx 0 (dec (n div 10)) = Inr (n div 10)" using less by simp
    with False less.prems show ?thesis
      by (simp add: dec_rec parse_digits_append)
  qed
qed

lemma dec_digits: "c \<in> set (dec n) \<Longrightarrow> \<exists>d < 10. c = digit_chr d"
proof (induction n rule: less_induct)
  case (less n)
  show ?case
  proof (cases "n < 10")
    case True
    with less.prems show ?thesis by (auto simp: dec_small)
  next
    case False
    with less.prems consider "c \<in> set (dec (n div 10))" | "c = digit_chr (n mod 10)"
      by (auto simp: dec_rec)
    then show ?thesis
    proof cases
      case 1
      with less.IH [of "n div 10"] False show ?thesis by simp
    qed (metis mod_less_divisor zero_less_numeral)
  qed
qed

text \<open>Printing a number and parsing it at a type it fits gives it back.\<close>

lemma parse_uint_dec: 
  assumes "n \<le> mx"
  shows "parse_uint mx (dec n) = Inr n"
proof -
  obtain c cs where dn: "dec n = c # cs" by (cases "dec n") (auto simp: dec_def)
  have "c \<in> set (dec n)" unfolding dn by simp
  then obtain d where "d < 10" "c = digit_chr d" by (blast dest: dec_digits)
  then have "c \<noteq> CHR ''+'' \<and> c \<noteq> CHR ''-''" by (simp only: digit_chr_ne_sign simp_thms)
  moreover have "parse_digits mx 0 (c # cs) = Inr n"
    using parse_digits_dec [OF assms] unfolding dn .
  ultimately show ?thesis
    by (cases cs) (simp_all only: dn parse_uint_def list.case if_False simp_thms)
qed

lemma digit_chr_table [simp]:
  "digit_chr 0 = CHR ''0''"
  "digit_chr 1 = CHR ''1''"
  "digit_chr 2 = CHR ''2''"
  "digit_chr 3 = CHR ''3''"
  "digit_chr 4 = CHR ''4''"
  "digit_chr 5 = CHR ''5''"
  "digit_chr 6 = CHR ''6''"
  "digit_chr 7 = CHR ''7''"
  "digit_chr 8 = CHR ''8''"
  "digit_chr 9 = CHR ''9''"
  "digit_chr 10 = CHR ''a''"
  "digit_chr 11 = CHR ''b''"
  "digit_chr 12 = CHR ''c''"
  "digit_chr 13 = CHR ''d''"
  "digit_chr 14 = CHR ''e''"
  "digit_chr 15 = CHR ''f''"
  by (simp_all add: digit_chr_def char_of_def bit_Suc_0_iff)

lemma digit_chr_Suc_0 [simp]: "digit_chr (Suc 0) = CHR ''1''"
  using digit_chr_table(2) by simp

lemma hex_two: "n < 256 \<Longrightarrow> hex02 n = [digit_chr (n div 16), digit_chr (n mod 16)]"
proof -
  assume "n < 256"
  then have "n div 16 < 16" by (simp add: less_mult_imp_div_less)
  then show ?thesis
    by (simp add: hex02_def hex_def pad0_def radix_str.simps [of 16 n]
        radix_str.simps [of 16 "n div 16"])
qed

lemma length_hex02 [simp]: "n < 256 \<Longrightarrow> length (hex02 n) = 2"
  by (simp add: hex_two)

section \<open>Characters of a string\<close>

function chars :: "string \<Rightarrow> string list" where
  "chars s =
     (if s = [] then []
      else take (fst (utf8_step (as_bytes s))) s # chars (drop (fst (utf8_step (as_bytes s))) s))"
  by pat_completeness auto
termination
proof (relation "measure length")
  fix s :: string
  assume "s \<noteq> []"
  then have "as_bytes s \<noteq> []" by (cases s) simp_all
  from utf8_step_pos [OF this] \<open>s \<noteq> []\<close>
  show "(drop (fst (utf8_step (as_bytes s))) s, s) \<in> measure length" by simp
qed simp

declare chars.simps [simp del]

lemma chars_Nil [simp]: "chars [] = []"
  by (simp add: chars.simps [of "[]"])

lemma concat_chars: "concat (chars s) = s"
proof (induction s rule: chars.induct)
  case (1 s)
  then show ?case by (cases "s = []") (simp_all add: chars.simps [of s])
qed

lemma chars_ascii: "\<forall>c \<in> set s. (of_char c :: nat) < 128 \<Longrightarrow> chars s = map (\<lambda>c. [c]) s"
proof (induction s)
  case (Cons c s)
  have "utf8_step (as_bytes (c # s)) = (1, True)"
    using Cons.prems by (simp add: utf8_step.simps seq_len_def byte_of_chr_def)
  with Cons show ?case by (simp add: chars.simps [of "c # s"])
qed simp

section \<open>Words of visible characters\<close>

text \<open>Visible ASCII: no white space character starts or ends with one.\<close>

definition graphic :: "char \<Rightarrow> bool" where
  "graphic c \<longleftrightarrow> 33 \<le> (of_char c :: nat) \<and> (of_char c :: nat) < 128"

lemma ws_codes_ends:
  "\<forall>w \<in> set ws_codes. w \<noteq> [] \<and> (hd w < 33 \<or> 128 \<le> hd w) \<and> (last w < 33 \<or> 128 \<le> last w)"
  by (simp add: ws_codes_def)

lemma ws_len_graphic:
  assumes "graphic c"
  shows "ws_len (c # s) = 0"
proof -
  have "\<not> starts_with (of_char c # map of_char s) w" if "w \<in> set ws_codes" for w
    using assms bspec [OF ws_codes_ends that] by (cases w) (auto simp: graphic_def starts_with_iff)
  then have "find (\<lambda>w. starts_with (map of_char (c # s)) w) ws_codes = None"
    by (simp add: find_None_iff)
  then show ?thesis by (simp add: ws_len_def)
qed

lemma ws_len_end_graphic:
  assumes "graphic c"
  shows "ws_len_end (s @ [c]) = 0"
proof -
  have "\<not> ends_with (map of_char s @ [of_char c]) w" if "w \<in> set ws_codes" for w
    using assms bspec [OF ws_codes_ends that] by (cases w rule: rev_cases) (auto simp: graphic_def ends_with_iff)
  then have "find (\<lambda>w. ends_with (map of_char (s @ [c])) w) ws_codes = None"
    by (simp add: find_None_iff)
  then show ?thesis by (simp add: ws_len_end_def)
qed

lemma trim_graphic:
  assumes "s \<noteq> []" "graphic (hd s)" "graphic (last s)"
  shows "trim s = s"
proof -
  have "ws_len s = 0" using assms by (cases s) (auto simp: ws_len_graphic)
  moreover have "ws_len_end s = 0" using assms by (cases s rule: rev_cases) (auto simp: ws_len_end_graphic)
  ultimately show ?thesis
    by (simp add: trim_def trim_start.simps [of s] trim_end.simps [of s])
qed

lemma split_ws_word:
  "list_all graphic w \<Longrightarrow> split_ws_aux cur (w @ rest) = split_ws_aux (cur @ w) rest"
proof (induction w arbitrary: cur)
  case (Cons c w)
  then show ?case by (simp add: split_ws_aux.simps [of cur "c # _"] ws_len_graphic)
qed simp

lemma split_ws_space:
  "split_ws_aux cur (CHR '' '' # s) = (if cur = [] then [] else [cur]) @ split_ws_aux [] s"
proof -
  have "ws_len (CHR '' '' # s) = 1" by (simp add: ws_len_def ws_codes_def starts_with_def)
  then show ?thesis by (simp add: split_ws_aux.simps [of cur "CHR '' '' # s"])
qed

lemma split_ws_end: "split_ws_aux cur [] = (if cur = [] then [] else [cur])"
  by (simp add: split_ws_aux.simps)

lemma split_words:
  "list_all (\<lambda>w. w \<noteq> [] \<and> list_all graphic w) ws \<Longrightarrow> split_whitespace (join '' '' ws) = ws"
proof (induction "'' ''" ws rule: join.induct)
  case (2 p)
  then show ?case using split_ws_word [of p "[]" "[]"] by (simp add: split_whitespace_def split_ws_end)
next
  case (3 p q ps)
  then show ?case by (simp add: split_whitespace_def split_ws_word split_ws_space)
qed (simp add: split_whitespace_def split_ws_end)

lemma split_two_words:
  "list_all graphic a \<Longrightarrow> list_all graphic b \<Longrightarrow> a \<noteq> [] \<Longrightarrow> b \<noteq> [] \<Longrightarrow>
   split_whitespace (a @ CHR '' '' # b) = [a, b]"
  using split_words [of "[a, b]"] by simp

lemma split_three_words:
  "list_all graphic a \<Longrightarrow> list_all graphic b \<Longrightarrow> list_all graphic c \<Longrightarrow> a \<noteq> [] \<Longrightarrow> b \<noteq> [] \<Longrightarrow> c \<noteq> [] \<Longrightarrow>
   split_whitespace (a @ CHR '' '' # b @ CHR '' '' # c) = [a, b, c]"
  using split_words [of "[a, b, c]"] by simp

text \<open>Parts without the separator are split off as they were joined.\<close>

lemma split_chr_none: "c \<notin> set s \<Longrightarrow> split_chr c s = [s]"
  by (induction s) auto

lemma split_chr_append: "c \<notin> set p \<Longrightarrow> split_chr c (p @ c # s) = p # split_chr c s"
  by (induction p) auto

lemma split_chr_join: "ps \<noteq> [] \<Longrightarrow> list_all (\<lambda>p. c \<notin> set p) ps \<Longrightarrow> split_chr c (join [c] ps) = ps"
  by (induction "[c]" ps rule: join.induct) (simp_all add: split_chr_none split_chr_append)

section \<open>Searching past what cannot match\<close>

lemma find_sub_skip:
  "a \<notin> set w \<Longrightarrow> find_sub (w @ s) (a # p) = map_option ((+) (length w)) (find_sub s (a # p))"
  by (induction w) (cases "find_sub s (a # p)"; auto simp: starts_with_def)+

lemma find_sub_chr_none: "c \<notin> set s \<Longrightarrow> find_sub s [c] = None"
  by (induction s) (auto simp: starts_with_def)

lemma find_sub_chr: "c \<notin> set p \<Longrightarrow> find_sub (p @ c # q) [c] = Some (length p)"
  by (induction p) (auto simp: starts_with_def)

lemma split_once_chr: "c \<notin> set a \<Longrightarrow> split_once c (a @ c # b) = Some (a, b)"
  by (simp add: split_once_def find_sub_chr)

lemma rsplit_once_append: "c \<notin> set q \<Longrightarrow> rsplit_once c (p @ c # q) = Some (p, q)"
  using find_sub_chr [of c "rev q" "rev p"] by (simp add: rsplit_once_def split_once_def)

lemma trim_space: "trim (CHR '' '' # s) = trim s"
proof -
  have "ws_len (CHR '' '' # s) = 1" by (simp add: ws_len_def ws_codes_def starts_with_def)
  then show ?thesis by (simp add: trim_def trim_start.simps [of "CHR '' '' # s"])
qed

lemma less16_cases:
  "(n :: nat) < 16 \<Longrightarrow> n \<in> {0, 1, 2, 3, 4, 5, 6, 7, 8, 9, 10, 11, 12, 13, 14, 15}"
  by simp arith

lemma digit_chr_graphic: "d < 10 \<Longrightarrow> graphic (digit_chr d)"
  by (simp add: digit_chr_char graphic_def)

lemma dec_chars: "c \<in> set (dec n) \<Longrightarrow> graphic c \<and> c \<noteq> CHR '':'' \<and> c \<noteq> CHR ''-''"
  using dec_digits [of c n] digit_chr_graphic digit_chr_ne_sign by metis

lemma dec_codes: "c \<in> set (dec n) \<Longrightarrow> 48 \<le> (of_char c :: nat) \<and> (of_char c :: nat) \<le> 57"
  using dec_digits [of c n] by (auto simp: digit_chr_char of_char_of)

lemma trim_dec: "trim (dec n) = dec n"
  using dec_chars [OF hd_in_set [of "dec n"]] dec_chars [OF last_in_set [of "dec n"]]
  by (intro trim_graphic) (simp_all add: dec_def)

section \<open>Padded numbers\<close>

lemma parse_zeros: "parse_digits mx 0 (replicate k (CHR ''0'') @ s) = parse_digits mx 0 s"
  by (induction k) (simp_all add: digit_val_def)

lemma parse_uint_pad0:
  assumes "n \<le> mx"
  shows "parse_uint mx (pad0 w (dec n)) = Inr n"
proof (cases "w - length (dec n)")
  case 0
  then show ?thesis using parse_uint_dec [OF assms] by (simp add: pad0_def)
next
  case (Suc k)
  then obtain c cs where s: "pad0 w (dec n) = CHR ''0'' # c # cs"
    by (cases "replicate k (CHR ''0'') @ dec n") (auto simp: pad0_def dec_def)
  have "parse_digits mx 0 (pad0 w (dec n)) = Inr n"
    using parse_digits_dec [OF assms] by (simp add: pad0_def parse_zeros)
  then show ?thesis by (simp add: s parse_uint_def)
qed

end
