(* ===== verification/Framing.thy ===== *)
theory Framing
  imports RustStr
begin

text \<open>
  Stream framing (\<open>src/src/framing.rs\<close>) and the read loop that drains a receive buffer
  through it (\<open>drain_frames\<close> of \<open>src/src/transport/tcp.rs\<close>).  \<open>LinesCodec\<close> of
  \<open>tokio_util\<close> is a parameter.  The locale \<open>frame_decoder\<close> states what a \<open>Decoder\<close>
  promises to a read loop; the length-prefixed codec is shown to keep it.
\<close>

section \<open>Data\<close>

datatype framing_kind = FramingNone | FramingNewline | FramingLengthPrefixed
datatype endian = Big | Little

datatype framing_error = IoError string | LinesError string | TooLarge nat | InvalidLength

record framing_config =
  fc_kind :: framing_kind
  fc_prefix_size :: nat
  fc_endian :: endian
  fc_max_frame :: nat

definition default_framing :: framing_config where
  "default_framing = \<lparr>fc_kind = FramingNone, fc_prefix_size = 4, fc_endian = Big,
     fc_max_frame = 16 * 1024 * 1024\<rparr>"

definition framing_from_args :: "framing_kind \<Rightarrow> nat \<Rightarrow> endian \<Rightarrow> framing_config" where
  "framing_from_args k p e = \<lparr>fc_kind = k,
     fc_prefix_size = (if p = 1 \<or> p = 2 \<or> p = 4 \<or> p = 8 then p else 4),
     fc_endian = e, fc_max_frame = 16 * 1024 * 1024\<rparr>"

datatype lp_state = LpLength | LpBody nat

record lp_codec =
  lp_prefix_size :: nat
  lp_endian :: endian
  lp_max_frame :: nat
  lp_st :: lp_state

definition lp_new :: "nat \<Rightarrow> endian \<Rightarrow> nat \<Rightarrow> lp_codec" where
  "lp_new p e m = \<lparr>lp_prefix_size = p, lp_endian = e, lp_max_frame = m, lp_st = LpLength\<rparr>"

section \<open>The length prefix\<close>

definition from_bytes :: "endian \<Rightarrow> bytes \<Rightarrow> nat" where
  "from_bytes e bs = (case e of Big \<Rightarrow> from_be bs | Little \<Rightarrow> from_le bs)"

definition to_bytes :: "endian \<Rightarrow> nat \<Rightarrow> nat \<Rightarrow> bytes" where
  "to_bytes e k n = (case e of Big \<Rightarrow> to_be k n | Little \<Rightarrow> to_le k n)"

text \<open>
  \<open>read_len\<close>: the outer option is a panic (an index out of range).  On a 64-bit target
  \<open>usize::try_from\<close> of a \<open>u64\<close> succeeds.
\<close>

definition read_len :: "lp_codec \<Rightarrow> bytes \<Rightarrow> (framing_error + nat) option" where
  "read_len c src =
     (let p = lp_prefix_size c; e = lp_endian c in
      if p = 1 \<or> p = 2 \<or> p = 4 \<or> p = 8 then do {
        bs \<leftarrow> slice src 0 p;
        let n = from_bytes e bs;
        Some (if lp_max_frame c < n then Inl (TooLarge n) else Inr n) }
      else Some (Inl InvalidLength))"

definition write_len :: "lp_codec \<Rightarrow> nat \<Rightarrow> bytes \<Rightarrow> framing_error + bytes" where
  "write_len c len dst =
     (let p = lp_prefix_size c; e = lp_endian c in
      if p = 1 \<or> p = 2 \<or> p = 4 then
        (if 256 ^ p \<le> len then Inl (TooLarge len) else Inr (dst @ to_bytes e p len))
      else if p = 8 then Inr (dst @ to_bytes e 8 len)
      else Inl InvalidLength)"

section \<open>Decoder and encoder\<close>

type_synonym 's decoded = "(framing_error + bytes option) \<times> 's \<times> bytes"

text \<open>The \<open>loop\<close> of \<open>decode\<close>: reading the length moves on to the body in the same call.\<close>

function lp_decode :: "lp_codec \<Rightarrow> bytes \<Rightarrow> lp_codec decoded option" where
  "lp_decode c src =
     (case lp_st c of
        LpLength \<Rightarrow>
          (let n = lp_prefix_size c in
           if length src < n then Some (Inr None, c, src)
           else case read_len c (take n src) of
               None \<Rightarrow> None
             | Some (Inl e) \<Rightarrow> Some (Inl e, c, src)
             | Some (Inr len) \<Rightarrow> lp_decode (c\<lparr>lp_st := LpBody len\<rparr>) (drop n src))
      | LpBody len \<Rightarrow>
          if length src < len then Some (Inr None, c, src)
          else Some (Inr (Some (take len src)), c\<lparr>lp_st := LpLength\<rparr>, drop len src))"
  by pat_completeness auto
termination
  by (relation "measure (\<lambda>(c, src). case lp_st c of LpLength \<Rightarrow> 1 | LpBody _ \<Rightarrow> 0)") auto

declare lp_decode.simps [simp del]

definition lp_encode :: "lp_codec \<Rightarrow> bytes \<Rightarrow> bytes \<Rightarrow> framing_error + bytes" where
  "lp_encode c item dst = res_bind (write_len c (length item) dst) (\<lambda>d. Inr (d @ item))"

definition newline :: u8 where "newline = 10"

definition newline_encode :: "bytes \<Rightarrow> bytes \<Rightarrow> bytes" where
  "newline_encode item dst =
     dst @ (if ends_with item [newline] then item else item @ [newline])"

text \<open>\<open>NewlineFramer::decode\<close> around the external \<open>LinesCodec\<close> (parameter \<open>lines\<close>).\<close>

definition newline_decode ::
    "('l \<Rightarrow> bytes \<Rightarrow> (string + string option) \<times> 'l \<times> bytes) \<Rightarrow> 'l \<Rightarrow> bytes \<Rightarrow> 'l decoded" where
  "newline_decode lines l src =
     (case lines l src of (r, l', src') \<Rightarrow>
        (map_err LinesError (case r of Inl e \<Rightarrow> Inl e | Inr o1 \<Rightarrow> Inr (map_option as_bytes o1)), l', src'))"

definition encode_outbound :: "framing_config \<Rightarrow> bytes \<Rightarrow> framing_error + bytes" where
  "encode_outbound cfg payload =
     (case fc_kind cfg of
        FramingNone \<Rightarrow> Inr payload
      | FramingNewline \<Rightarrow>
          Inr (if ends_with payload [newline] then payload else payload @ [newline])
      | FramingLengthPrefixed \<Rightarrow>
          lp_encode (lp_new (fc_prefix_size cfg) (fc_endian cfg) (fc_max_frame cfg)) payload [])"

section \<open>The read loop\<close>

text \<open>
  \<open>while let Ok(Some(item)) = codec.decode(buf) { out.push(item) }\<close>, with fuel: \<open>None\<close>
  when it runs out or the decoder panics.
\<close>

fun drain :: "nat \<Rightarrow> ('s \<Rightarrow> bytes \<Rightarrow> 's decoded option) \<Rightarrow> 's \<Rightarrow> bytes \<Rightarrow>
    (bytes list \<times> 's \<times> bytes) option" where
  "drain 0 d s buf = None"
| "drain (Suc k) d s buf = do {
     (r, s', buf') \<leftarrow> d s buf;
     case r of
       Inr (Some f) \<Rightarrow> do {
         (fs, t) \<leftarrow> drain k d s' buf';
         Some (f # fs, t) }
     | _ \<Rightarrow> Some ([], s', buf') }"

definition drain_fuel :: "bytes \<Rightarrow> nat" where
  "drain_fuel buf = 2 * length buf + 3"

text \<open>\<open>drain_frames\<close>: the frames delivered and the buffer kept for the next read.\<close>

definition drain_frames ::
    "('l \<Rightarrow> bytes \<Rightarrow> (string + string option) \<times> 'l \<times> bytes) \<Rightarrow> (nat \<Rightarrow> 'l) \<Rightarrow>
     bytes \<Rightarrow> framing_config \<Rightarrow> (bytes list \<times> bytes) option" where
  "drain_frames lines new_lines buf cfg =
     (case fc_kind cfg of
        FramingNone \<Rightarrow> Some (if buf = [] then ([], buf) else ([buf], []))
      | FramingNewline \<Rightarrow>
          map_option (\<lambda>(fs, _, b). (fs, b))
            (drain (drain_fuel buf) (\<lambda>s b. Some (newline_decode lines s b))
               (new_lines (fc_max_frame cfg)) buf)
      | FramingLengthPrefixed \<Rightarrow>
          map_option (\<lambda>(fs, _, b). (fs, b))
            (drain (drain_fuel buf) lp_decode
               (lp_new (fc_prefix_size cfg) (fc_endian cfg) (fc_max_frame cfg)) buf))"

text \<open>
  The read arm of \<open>run_stream_io\<close>: each received chunk is appended to the buffer and
  drained; the codec lives only as long as the call.
\<close>

fun tcp_session ::
    "('l \<Rightarrow> bytes \<Rightarrow> (string + string option) \<times> 'l \<times> bytes) \<Rightarrow> (nat \<Rightarrow> 'l) \<Rightarrow>
     framing_config \<Rightarrow> bytes \<Rightarrow> bytes list \<Rightarrow> (bytes list \<times> bytes) option" where
  "tcp_session lines new_lines cfg buf [] = Some ([], buf)"
| "tcp_session lines new_lines cfg buf (x # xs) = do {
     (fs, b) \<leftarrow> drain_frames lines new_lines (buf @ x) cfg;
     (gs, b') \<leftarrow> tcp_session lines new_lines cfg b xs;
     Some (fs @ gs, b') }"

section \<open>What a decoder promises to a read loop\<close>

text \<open>
  A frame, a request for more input and an error do not change when bytes arrive behind
  those already looked at, and every frame makes progress.
\<close>

locale frame_decoder =
  fixes d :: "'s \<Rightarrow> bytes \<Rightarrow> 's decoded option"
    and rank :: "'s \<Rightarrow> bytes \<Rightarrow> nat"
  assumes total: "d s b \<noteq> None"
    and frame_ext: "d s b = Some (Inr (Some f), s', b') \<Longrightarrow>
      d s (b @ x) = Some (Inr (Some f), s', b' @ x)"
    and wait_ext: "d s b = Some (Inr None, s', b') \<Longrightarrow> d s (b @ x) = d s' (b' @ x)"
    and err_ext: "d s b = Some (Inl e, s', b') \<Longrightarrow> d s (b @ x) = d s' (b' @ x)"
    and progress: "d s b = Some (Inr (Some f), s', b') \<Longrightarrow> rank s' b' < rank s b"
begin

lemma drain_total: "rank s b < k \<Longrightarrow> drain k d s b \<noteq> None"
proof (induction k arbitrary: s b)
  case 0
  then show ?case by simp
next
  case (Suc k)
  obtain r s' b' where dec: "d s b = Some (r, s', b')" using total [of s b] by auto
  show ?case
  proof (cases "\<exists>f. r = Inr (Some f)")
    case True
    then obtain f where f: "r = Inr (Some f)" by blast
    with dec progress have "rank s' b' < k" using Suc.prems by fastforce
    then have "drain k d s' b' \<noteq> None" by (rule Suc.IH)
    with dec f show ?thesis by auto
  next
    case False
    with dec show ?thesis by (auto split: sum.splits option.splits)
  qed
qed

lemma drain_fuel_mono: "drain k d s b = Some t \<Longrightarrow> k \<le> k' \<Longrightarrow> drain k' d s b = Some t"
proof (induction k arbitrary: k' s b t)
  case 0
  then show ?case by simp
next
  case (Suc k)
  then obtain j where j: "k' = Suc j" "k \<le> j" by (cases k') auto
  obtain r s' b' where dec: "d s b = Some (r, s', b')" using total [of s b] by auto
  show ?case
  proof (cases "\<exists>f. r = Inr (Some f)")
    case True
    then obtain f where f: "r = Inr (Some f)" by blast
    with dec Suc.prems(1) obtain u where "drain k d s' b' = Some u" by (auto simp: bind_eq_Some_conv)
    with Suc.IH j(2) have "drain j d s' b' = Some u" by blast
    with dec f Suc.prems(1) j \<open>drain k d s' b' = Some u\<close> show ?thesis by simp
  next
    case False
    with dec Suc.prems(1) j show ?thesis by (auto split: sum.splits option.splits)
  qed
qed

text \<open>Draining a prefix and then the rest is draining everything at once.\<close>

lemma drain_split:
  "drain k d s b = Some (fs, s1, b1) \<Longrightarrow> drain k' d s1 (b1 @ x) = Some (gs, t) \<Longrightarrow>
   drain (k + k') d s (b @ x) = Some (fs @ gs, t)"
proof (induction k arbitrary: s b fs)
  case 0
  then show ?case by simp
next
  case (Suc k)
  obtain r s' b' where dec: "d s b = Some (r, s', b')" using total [of s b] by auto
  show ?case
  proof (cases "\<exists>f. r = Inr (Some f)")
    case True
    then obtain f where f: "r = Inr (Some f)" by blast
    with dec Suc.prems(1) obtain fs' where fs': "drain k d s' b' = Some (fs', s1, b1)" "fs = f # fs'"
      by (auto simp: bind_eq_Some_conv)
    from Suc.IH [OF fs'(1) Suc.prems(2)] frame_ext [OF dec [unfolded f]] fs'(2)
    show ?thesis by simp
  next
    case False
    with dec Suc.prems(1) have eqs: "fs = []" "s1 = s'" "b1 = b'"
      by (auto split: sum.splits option.splits)
    from False dec have "d s (b @ x) = d s' (b' @ x)"
      by (cases r) (auto dest: wait_ext err_ext)
    then have "drain (Suc (k + k')) d s (b @ x) = drain (Suc (k + k')) d s1 (b1 @ x)"
      using eqs by simp
    also have "\<dots> = Some (gs, t)" using Suc.prems(2) by (rule drain_fuel_mono) simp
    finally show ?thesis using eqs by simp
  qed
qed

end

section \<open>The length-prefixed codec keeps it\<close>

lemma lp_decode_body:
  "lp_st c = LpBody n \<Longrightarrow> lp_decode c src =
     (if length src < n then Some (Inr None, c, src)
      else Some (Inr (Some (take n src)), c\<lparr>lp_st := LpLength\<rparr>, drop n src))"
  by (simp add: lp_decode.simps [of c])

lemma read_len_total: "read_len c (take (lp_prefix_size c) src) \<noteq> None \<or> length src < lp_prefix_size c"
  by (auto simp: read_len_def Let_def slice_def Suc_le_eq)

lemma lp_decode_length:
  "lp_st c = LpLength \<Longrightarrow> lp_prefix_size c \<le> length src \<Longrightarrow> lp_decode c src =
     (case read_len c (take (lp_prefix_size c) src) of
        None \<Rightarrow> None
      | Some (Inl e) \<Rightarrow> Some (Inl e, c, src)
      | Some (Inr len) \<Rightarrow> lp_decode (c\<lparr>lp_st := LpBody len\<rparr>) (drop (lp_prefix_size c) src))"
  by (subst lp_decode.simps) (simp add: Let_def)

lemma lp_decode_short:
  "lp_st c = LpLength \<Longrightarrow> length src < lp_prefix_size c \<Longrightarrow> lp_decode c src = Some (Inr None, c, src)"
  by (subst lp_decode.simps) (simp add: Let_def)

lemma read_len_prefix_pos: "read_len c b = Some (Inr n) \<Longrightarrow> 0 < lp_prefix_size c"
  by (auto simp: read_len_def Let_def split: if_splits)

text \<open>The three ways a call of \<open>decode\<close> can go.\<close>

lemma lp_decode_cases:
  obtains (short) "lp_st c = LpLength" "length src < lp_prefix_size c"
  | (bad) e where "lp_st c = LpLength" "lp_prefix_size c \<le> length src"
      "read_len c (take (lp_prefix_size c) src) = Some (Inl e)"
  | (len) n where "lp_st c = LpLength" "lp_prefix_size c \<le> length src"
      "read_len c (take (lp_prefix_size c) src) = Some (Inr n)"
  | (body) n where "lp_st c = LpBody n"
proof (cases "lp_st c")
  case LpLength
  show ?thesis
  proof (cases "length src < lp_prefix_size c")
    case False
    with read_len_total [of c src] obtain r where
      "read_len c (take (lp_prefix_size c) src) = Some r" by auto
    with False LpLength bad len show ?thesis by (cases r) auto
  qed (use LpLength short in blast)
qed (use body in blast)

lemmas lp_decode_eqs = lp_decode_body lp_decode_length lp_decode_short

definition lp_rank :: "lp_codec \<Rightarrow> bytes \<Rightarrow> nat" where
  "lp_rank c b = 2 * length b + (case lp_st c of LpLength \<Rightarrow> 0 | LpBody _ \<Rightarrow> 1)"

interpretation lp: frame_decoder lp_decode lp_rank
proof
  fix c b
  show "lp_decode c b \<noteq> None"
    by (rule lp_decode_cases [of c b]) (auto simp: lp_decode_eqs)
next
  fix c b f c' b' x
  assume "lp_decode c b = Some (Inr (Some f), c', b')"
  then show "lp_decode c (b @ x) = Some (Inr (Some f), c', b' @ x)"
    by (rule_tac lp_decode_cases [of c b]) (auto simp: lp_decode_eqs split: if_splits)
next
  fix c b c' b' x
  assume "lp_decode c b = Some (Inr None, c', b')"
  then show "lp_decode c (b @ x) = lp_decode c' (b' @ x)"
    by (rule_tac lp_decode_cases [of c b]) (auto simp: lp_decode_eqs split: if_splits)
next
  fix c b e c' b' x
  assume "lp_decode c b = Some (Inl e, c', b')"
  then show "lp_decode c (b @ x) = lp_decode c' (b' @ x)"
    by (rule_tac lp_decode_cases [of c b]) (auto simp: lp_decode_eqs split: if_splits)
next
  fix c b f c' b'
  assume "lp_decode c b = Some (Inr (Some f), c', b')"
  then show "lp_rank c' b' < lp_rank c b"
    by (rule_tac lp_decode_cases [of c b])
      (auto simp: lp_decode_eqs lp_rank_def split: if_splits dest: read_len_prefix_pos)
qed

section \<open>Wire format\<close>

abbreviation codec_of :: "framing_config \<Rightarrow> lp_codec" where
  "codec_of cfg \<equiv> lp_new (fc_prefix_size cfg) (fc_endian cfg) (fc_max_frame cfg)"

definition lp_config :: "framing_config \<Rightarrow> bool" where
  "lp_config cfg \<longleftrightarrow> fc_kind cfg = FramingLengthPrefixed \<and> fc_prefix_size cfg \<in> {1, 2, 4, 8}"

definition fits :: "framing_config \<Rightarrow> bytes \<Rightarrow> bool" where
  "fits cfg p \<longleftrightarrow> length p \<le> fc_max_frame cfg \<and> length p < 256 ^ fc_prefix_size cfg"

definition header :: "framing_config \<Rightarrow> nat \<Rightarrow> bytes" where
  "header cfg n = to_bytes (fc_endian cfg) (fc_prefix_size cfg) n"

lemma length_to_bytes [simp]: "length (to_bytes e k n) = k"
  by (simp add: to_bytes_def split: endian.splits)

lemma length_header [simp]: "length (header cfg n) = fc_prefix_size cfg"
  by (simp add: header_def)

lemma from_to_bytes: "n < 256 ^ k \<Longrightarrow> from_bytes e (to_bytes e k n) = n"
  by (simp add: from_bytes_def to_bytes_def split: endian.splits)

lemma lp_new_simps [simp]:
  "lp_prefix_size (lp_new p e m) = p" "lp_endian (lp_new p e m) = e"
  "lp_max_frame (lp_new p e m) = m" "lp_st (lp_new p e m) = LpLength"
  "(lp_new p e m)\<lparr>lp_st := LpLength\<rparr> = lp_new p e m"
  by (simp_all add: lp_new_def)

lemma read_len_header:
  "lp_config cfg \<Longrightarrow> fits cfg p \<Longrightarrow> read_len (codec_of cfg) (header cfg (length p)) = Some (Inr (length p))"
  by (auto simp: read_len_def lp_config_def fits_def header_def from_to_bytes)

lemma lp_encode_eq:
  "lp_config cfg \<Longrightarrow> length p < 256 ^ fc_prefix_size cfg \<Longrightarrow>
   lp_encode (codec_of cfg) p [] = Inr (header cfg (length p) @ p)"
  by (auto simp: lp_encode_def write_len_def lp_config_def header_def not_le)

lemma encode_outbound_lp:
  "lp_config cfg \<Longrightarrow> fits cfg p \<Longrightarrow> encode_outbound cfg p = Inr (header cfg (length p) @ p)"
  by (simp add: encode_outbound_def lp_encode_eq fits_def lp_config_def [THEN iffD1, THEN conjunct1])

lemma lp_decode_header:
  "lp_config cfg \<Longrightarrow> fits cfg p \<Longrightarrow>
   lp_decode (codec_of cfg) (header cfg (length p) @ r) =
     lp_decode ((codec_of cfg)\<lparr>lp_st := LpBody (length p)\<rparr>) r"
  by (simp add: lp_decode_length read_len_header)

lemma lp_decode_frame:
  "lp_config cfg \<Longrightarrow> fits cfg p \<Longrightarrow>
   lp_decode (codec_of cfg) (header cfg (length p) @ p @ r) =
     Some (Inr (Some p), codec_of cfg, r)"
  by (simp add: lp_decode_header lp_decode_body)

lemma lp_decode_partial:
  "lp_config cfg \<Longrightarrow> fits cfg p \<Longrightarrow> length a < length p \<Longrightarrow>
   lp_decode (codec_of cfg) (header cfg (length p) @ a) =
     Some (Inr None, (codec_of cfg)\<lparr>lp_st := LpBody (length p)\<rparr>, a)"
  by (simp add: lp_decode_header lp_decode_body)

lemma lp_config_prefix_pos: "lp_config cfg \<Longrightarrow> 0 < fc_prefix_size cfg"
  by (auto simp: lp_config_def)

definition wire :: "framing_config \<Rightarrow> bytes list \<Rightarrow> bytes" where
  "wire cfg ps = concat (map (\<lambda>p. header cfg (length p) @ p) ps)"

lemma wire_simps [simp]:
  "wire cfg [] = []" "wire cfg (p # ps) = header cfg (length p) @ p @ wire cfg ps"
  by (simp_all add: wire_def)

lemma drain_wire:
  "lp_config cfg \<Longrightarrow> \<forall>p \<in> set ps. fits cfg p \<Longrightarrow> length r < fc_prefix_size cfg \<Longrightarrow>
   length ps < k \<Longrightarrow> drain k lp_decode (codec_of cfg) (wire cfg ps @ r) = Some (ps, codec_of cfg, r)"
proof (induction ps arbitrary: k)
  case Nil
  then show ?case by (cases k) (simp_all add: lp_decode_short)
next
  case (Cons p ps)
  then obtain j where "k = Suc j" "length ps < j" by (cases k) auto
  with Cons show ?case by (simp add: lp_decode_frame)
qed

lemma length_wire: "lp_config cfg \<Longrightarrow> length ps \<le> length (wire cfg ps)"
  by (induction ps) (auto dest: lp_config_prefix_pos)

lemma drain_frames_lp:
  "lp_config cfg \<Longrightarrow> drain_frames lines nl buf cfg =
     map_option (\<lambda>(fs, _, b). (fs, b)) (drain (drain_fuel buf) lp_decode (codec_of cfg) buf)"
  by (simp add: drain_frames_def lp_config_def)

lemma drain_frames_wire:
  assumes cfg: "lp_config cfg" and fit: "\<forall>p \<in> set ps. fits cfg p"
    and rest: "length r < fc_prefix_size cfg"
  shows "drain_frames lines nl (wire cfg ps @ r) cfg = Some (ps, r)"
proof -
  have "length ps < drain_fuel (wire cfg ps @ r)"
    using length_wire [OF cfg, of ps] by (simp add: drain_fuel_def)
  from drain_wire [OF cfg fit rest this] show ?thesis
    by (simp add: drain_frames_lp [OF cfg])
qed

section \<open>Properties\<close>



text \<open>C4: with one codec kept across reads, how the bytes are cut into reads does not
  matter: draining a first chunk and then the rest delivers the same frames, the same
  codec state and the same buffered bytes as draining everything at once (and draining
  always returns).\<close>

theorem lp_chunking_irrelevant:
  "\<exists>fs c1 b1 gs t.
     drain (drain_fuel b) lp_decode c b = Some (fs, c1, b1) \<and>
     drain (drain_fuel (b1 @ x)) lp_decode c1 (b1 @ x) = Some (gs, t) \<and>
     drain (drain_fuel (b @ x)) lp_decode c (b @ x) = Some (fs @ gs, t)"
proof -
  have enough: "drain (drain_fuel b) lp_decode c b \<noteq> None" for c b
    by (rule lp.drain_total) (simp add: drain_fuel_def lp_rank_def split: lp_state.splits)
  then obtain fs c1 b1 where 1: "drain (drain_fuel b) lp_decode c b = Some (fs, c1, b1)"
    by force
  from enough obtain gs t where
    2: "drain (drain_fuel (b1 @ x)) lp_decode c1 (b1 @ x) = Some (gs, t)" by force
  from enough obtain u where 3: "drain (drain_fuel (b @ x)) lp_decode c (b @ x) = Some u" by blast
  from lp.drain_split [OF 1 2] have
    4: "drain (drain_fuel b + drain_fuel (b1 @ x)) lp_decode c (b @ x) = Some (fs @ gs, t)" .
  from lp.drain_fuel_mono [OF 3 max.cobounded1] lp.drain_fuel_mono [OF 4 max.cobounded2]
  have "u = (fs @ gs, t)" by (metis option.inject)
  with 1 2 3 show ?thesis by blast
qed



text \<open>a declared length above \<open>max_frame\<close> is refused before anything is consumed, so
  the buffer never drains again; the encoder on the sending side does not check the limit
  and produces such frames.\<close>

theorem oversize_frame_stuck:
  assumes cfg: "lp_config cfg" and big: "fc_max_frame cfg < length p"
    and len: "length p < 256 ^ fc_prefix_size cfg"
  shows "encode_outbound cfg p = Inr (wire cfg [p]) \<and>
    lp_decode (codec_of cfg) (wire cfg [p] @ r) =
      Some (Inl (TooLarge (length p)), codec_of cfg, wire cfg [p] @ r) \<and>
    drain_frames lines nl (wire cfg [p] @ r) cfg = Some ([], wire cfg [p] @ r)"
proof -
  have enc: "encode_outbound cfg p = Inr (wire cfg [p])"
    using cfg len by (simp add: encode_outbound_def lp_encode_eq lp_config_def)
  have "read_len (codec_of cfg) (header cfg (length p)) = Some (Inl (TooLarge (length p)))"
    using cfg big len by (auto simp: read_len_def lp_config_def header_def from_to_bytes)
  then have dec: "lp_decode (codec_of cfg) (wire cfg [p] @ r) =
      Some (Inl (TooLarge (length p)), codec_of cfg, wire cfg [p] @ r)"
    by (simp add: lp_decode_length)
  then have "drain_frames lines nl (wire cfg [p] @ r) cfg = Some ([], wire cfg [p] @ r)"
    by (simp add: drain_frames_lp [OF cfg] drain_fuel_def numeral_3_eq_3)
  with enc dec show ?thesis by simp
qed

theorem oversize_frame_stuck_witness:
  "encode_outbound \<lparr>fc_kind = FramingLengthPrefixed, fc_prefix_size = 1, fc_endian = Big, fc_max_frame = 1\<rparr> [7, 8]
     = Inr [2, 7, 8]"
  using oversize_frame_stuck [THEN conjunct1, of
    "\<lparr>fc_kind = FramingLengthPrefixed, fc_prefix_size = 1, fc_endian = Big, fc_max_frame = 1\<rparr>" "[7, 8]"]
  by (simp add: lp_config_def wire_def header_def to_bytes_def)

end
