(* ===== verification/Frame.thy ===== *)
theory Frame
  imports RustStr
begin

text \<open>
  Frames of a stream session, their preview and filter, and the bounded frame buffer
  (\<open>src/src/frame.rs\<close>).  Times come from the environment: \<open>wall\<close> is in nanoseconds
  relative to the Unix epoch.  The locale \<open>id_ring\<close> is the contract of a bounded buffer
  that numbers what it stores; \<open>FrameBuffer\<close> here and \<open>PacketStore\<close> in \<open>Packet\<close>
  interpret it.
\<close>

section \<open>Frames\<close>

datatype direction = DirIn | DirOut

fun arrow :: "direction \<Rightarrow> string" where
  "arrow DirIn = ''<-''"
| "arrow DirOut = ''->''"

record frame =
  fr_id :: nat
  fr_at :: nat
  fr_wall :: int
  fr_direction :: direction
  fr_payload :: bytes
  fr_peer :: "string option"
  fr_meta :: "string option"

definition frame_new :: "nat \<Rightarrow> int \<Rightarrow> nat \<Rightarrow> direction \<Rightarrow> bytes \<Rightarrow> frame" where
  "frame_new at_now wall_now n d p = \<lparr>fr_id = n, fr_at = at_now, fr_wall = wall_now,
     fr_direction = d, fr_payload = p, fr_peer = None, fr_meta = None\<rparr>"

definition wall_hms_millis :: "frame \<Rightarrow> string" where
  "wall_hms_millis f =
     (let dur = nat (max 0 (fr_wall f));
          total_secs = dur div 1000000000;
          millis = dur mod 1000000000 div 1000000;
          secs = total_secs mod 60;
          mins = total_secs div 60 mod 60;
          hours = total_secs div 3600 mod 24
      in pad0 2 (dec hours) @ '':'' @ pad0 2 (dec mins) @ '':'' @ pad0 2 (dec secs) @ ''.''
         @ pad0 3 (dec millis))"

section \<open>Preview\<close>

definition esc_byte :: "u8 \<Rightarrow> string" where
  "esc_byte b =
     (if b = 10 then [CHR 92, CHR ''n''] else if b = 13 then [CHR 92, CHR ''r'']
      else if b = 9 then [CHR 92, CHR ''t'']
      else if 32 \<le> unat b \<and> unat b \<le> 126 then [chr_of_byte b]
      else [CHR 92, CHR ''x''] @ hex02 (unat b))"

definition ellipsis :: string where
  "ellipsis = [CHR 0xE2, CHR 0x80, CHR 0xA6]"

fun preview_loop :: "string \<Rightarrow> bytes \<Rightarrow> nat \<Rightarrow> string" where
  "preview_loop out [] mx = out"
| "preview_loop out (b # bs) mx =
     (if mx \<le> length out then out @ ellipsis else preview_loop (out @ esc_byte b) bs mx)"

definition preview_bytes :: "bytes \<Rightarrow> nat \<Rightarrow> string" where
  "preview_bytes payload mx = (if payload = [] then [] else preview_loop [] payload mx)"

section \<open>Hex input\<close>

text \<open>\<open>b as char\<close> and its UTF-8 encoding.\<close>

definition latin1_str :: "u8 \<Rightarrow> string" where
  "latin1_str b =
     (if unat b < 128 then [chr_of_byte b]
      else [char_of (192 + unat b div 64), char_of (128 + unat b mod 64)])"

definition hex_nibble :: "u8 \<Rightarrow> string + u8" where
  "hex_nibble b =
     (if 48 \<le> unat b \<and> unat b \<le> 57 then Inr (b - 48)
      else if 97 \<le> unat b \<and> unat b \<le> 102 then Inr (b - 97 + 10)
      else if 65 \<le> unat b \<and> unat b \<le> 70 then Inr (b - 65 + 10)
      else Inl (''invalid hex digit '' @ latin1_str b))"

lemma div16_less: "unat (b :: u8) div 16 < 16"
  using unat_u8_less [of b] by (simp add: less_mult_imp_div_less)

lemma hex_nibble_digit: "n < 16 \<Longrightarrow> hex_nibble (byte_of_chr (digit_chr n)) = Inr (word_of_nat n)"
  by (drule less16_cases) (auto simp: hex_nibble_def byte_of_chr_def)

text \<open>\<open>chars().filter(...)\<close>: white space, \<open>:\<close> and \<open>-\<close> are dropped.\<close>

function clean_hex :: "string \<Rightarrow> string" where
  "clean_hex s =
     (if s = [] then []
      else if 0 < ws_len s then clean_hex (drop (ws_len s) s)
      else if hd s = CHR '':'' \<or> hd s = CHR ''-'' then clean_hex (tl s)
      else hd s # clean_hex (tl s))"
  by pat_completeness auto
termination
  by (relation "measure length") auto

declare clean_hex.simps [simp del]

fun hex_pairs :: "bytes \<Rightarrow> string + bytes" where
  "hex_pairs (a # b # bs) =
     res_bind (hex_nibble a) (\<lambda>hi.
     res_bind (hex_nibble b) (\<lambda>lo.
     res_bind (hex_pairs bs) (\<lambda>out. Inr ((push_bit 4 hi OR lo) # out))))"
| "hex_pairs _ = Inr []"

definition parse_hex_bytes :: "string \<Rightarrow> string + bytes" where
  "parse_hex_bytes s =
     (let cleaned = clean_hex s in
      if length cleaned mod 2 \<noteq> 0 then Inl ''odd hex length'' else hex_pairs (as_bytes cleaned))"

section \<open>Filter\<close>

text \<open>\<open>Frame::matches_filter\<close>; \<open>windows(n).any\<close> for a non-empty needle is a substring test.\<close>

definition matches_filter :: "frame \<Rightarrow> string \<Rightarrow> bool" where
  "matches_filter f query =
     (if query = [] then True
      else let q = trim query in
      case strip_prefix q ''hex:'' of
        Some hx \<Rightarrow>
          (case parse_hex_bytes (trim hx) of
             Inr needle \<Rightarrow> needle \<noteq> [] \<and> contains (fr_payload f) needle
           | Inl _ \<Rightarrow> False)
      | None \<Rightarrow>
      case strip_prefix q ''dir:'' of
        Some dir \<Rightarrow>
          (let d = to_lower (trim dir) in
           if d \<in> set [''in'', ''<-'', ''rx''] then fr_direction f = DirIn
           else if d \<in> set [''out'', ''->'', ''tx''] then fr_direction f = DirOut
           else False)
      | None \<Rightarrow>
          (let low = to_lower q in
           contains (to_lower (preview_bytes (fr_payload f) 256)) low
           \<or> (case from_utf8 (fr_payload f) of
                Some txt \<Rightarrow> contains (to_lower txt) low | None \<Rightarrow> False)
           \<or> (case fr_peer f of Some p \<Rightarrow> contains (to_lower p) low | None \<Rightarrow> False)))"

section \<open>The frame buffer\<close>

definition u64_max :: nat where "u64_max = 18446744073709551615"

record frame_buffer =
  fb_frames :: "frame list"
  fb_capacity :: nat
  fb_next_id :: nat

definition fb_new :: "nat \<Rightarrow> frame_buffer" where
  "fb_new capacity = \<lparr>fb_frames = [], fb_capacity = max capacity 1, fb_next_id = 1\<rparr>"

text \<open>
  \<open>push_full\<close>: the frame carries everything but the identifier, which the buffer sets;
  a full buffer drops its oldest frame.
\<close>

definition fb_insert :: "frame \<Rightarrow> frame_buffer \<Rightarrow> frame_buffer" where
  "fb_insert f b =
     (let n = fb_next_id b;
          fs = (if fb_capacity b \<le> length (fb_frames b) then tl (fb_frames b) else fb_frames b)
      in b\<lparr>fb_frames := fs @ [f\<lparr>fr_id := n\<rparr>], fb_next_id := min (n + 1) u64_max\<rparr>)"

definition fb_push_full ::
    "nat \<Rightarrow> int \<Rightarrow> direction \<Rightarrow> bytes \<Rightarrow> string option \<Rightarrow> string option \<Rightarrow> frame_buffer \<Rightarrow> frame_buffer" where
  "fb_push_full at_now wall_now d p peer meta b =
     fb_insert ((frame_new at_now wall_now (fb_next_id b) d p)\<lparr>fr_peer := peer, fr_meta := meta\<rparr>) b"

definition fb_push :: "nat \<Rightarrow> int \<Rightarrow> direction \<Rightarrow> bytes \<Rightarrow> frame_buffer \<Rightarrow> frame_buffer" where
  "fb_push at_now wall_now d p b = fb_push_full at_now wall_now d p None None b"

definition fb_len :: "frame_buffer \<Rightarrow> nat" where
  "fb_len b = length (fb_frames b)"

definition fb_get :: "frame_buffer \<Rightarrow> nat \<Rightarrow> frame option" where
  "fb_get b i = idx (fb_frames b) i"

definition fb_get_by_id :: "frame_buffer \<Rightarrow> nat \<Rightarrow> frame option" where
  "fb_get_by_id b n = find (\<lambda>f. fr_id f = n) (fb_frames b)"

definition fb_filtered :: "frame_buffer \<Rightarrow> string \<Rightarrow> frame list" where
  "fb_filtered b q = filter (\<lambda>f. matches_filter f q) (fb_frames b)"

section \<open>Bounded buffers that number their entries\<close>

locale id_ring =
  fixes items :: "'s \<Rightarrow> 'e list"
    and cap :: "'s \<Rightarrow> nat"
    and nxt :: "'s \<Rightarrow> nat"
    and eid :: "'e \<Rightarrow> nat"
    and stamp :: "nat \<Rightarrow> 'e \<Rightarrow> 'e"
    and push :: "'e \<Rightarrow> 's \<Rightarrow> 's"
  assumes items_push: "items (push e s) =
      (if cap s \<le> length (items s) then tl (items s) else items s) @ [stamp (nxt s) e]"
    and cap_push: "cap (push e s) = cap s"
    and nxt_push: "nxt (push e s) = min (nxt s + 1) u64_max"
    and eid_stamp: "eid (stamp n e) = n"
begin

definition ring_inv :: "'s \<Rightarrow> bool" where
  "ring_inv s \<longleftrightarrow> 0 < cap s \<and> length (items s) \<le> cap s \<and> length (items s) < nxt s \<and>
     map eid (items s) = [nxt s - length (items s) ..< nxt s]"

lemma upt_tl_snoc: "a < b \<Longrightarrow> tl [a..<b] @ [b] = [Suc a..<Suc b]"
  by (simp add: upt_conv_Cons [of a b])

lemma ring_inv_push:
  assumes "ring_inv s" and "nxt s < u64_max"
  shows "ring_inv (push e s)"
proof (cases "cap s \<le> length (items s)")
  case False
  with assms show ?thesis
    by (auto simp: ring_inv_def items_push cap_push nxt_push eid_stamp Suc_diff_le)
next
  case True
  with assms have full: "length (items s) = cap s" and ids: "map eid (items s) = [nxt s - cap s..<nxt s]"
    and pos: "0 < cap s" "cap s < nxt s"
    by (auto simp: ring_inv_def)
  have "map eid (tl (items s)) @ [nxt s] = [Suc (nxt s - cap s)..<Suc (nxt s)]"
    unfolding map_tl ids using pos by (intro upt_tl_snoc) simp
  with True full pos assms(2) show ?thesis
    by (auto simp: ring_inv_def items_push cap_push nxt_push eid_stamp Suc_diff_le)
qed

lemma find_by_id:
  assumes "ring_inv s"
  shows "find (\<lambda>e. eid e = n) (items s) =
    (if nxt s - length (items s) \<le> n \<and> n < nxt s
     then Some (items s ! (n - (nxt s - length (items s)))) else None)"
proof -
  let ?a = "nxt s - length (items s)"
  have ids: "eid (items s ! i) = ?a + i" if "i < length (items s)" for i
  proof -
    have "eid (items s ! i) = map eid (items s) ! i" using that by simp
    also have "\<dots> = [?a ..< nxt s] ! i" using assms by (simp add: ring_inv_def)
    also have "\<dots> = ?a + i" using that assms by (subst nth_upt) (auto simp: ring_inv_def)
    finally show ?thesis .
  qed
  show ?thesis
  proof (cases "?a \<le> n \<and> n < nxt s")
    case True
    then have "n - ?a < length (items s)" using assms by (auto simp: ring_inv_def)
    then show ?thesis using True ids by (auto simp: find_Some_iff)
  next
    case False
    then have "\<forall>e \<in> set (items s). eid e \<noteq> n"
      using ids assms by (auto simp: in_set_conv_nth ring_inv_def)
    then show ?thesis using False by (auto simp: find_None_iff)
  qed
qed

text \<open>After any number of pushes the buffer holds the newest entries, oldest first.\<close>

definition push_all :: "'e list \<Rightarrow> 's \<Rightarrow> 's" where
  "push_all es s = fold push es s"

definition last_n :: "nat \<Rightarrow> 'x list \<Rightarrow> 'x list" where
  "last_n k xs = drop (length xs - k) xs"

fun stamped :: "nat \<Rightarrow> 'e list \<Rightarrow> 'e list" where
  "stamped n [] = []"
| "stamped n (e # es) = stamp n e # stamped (Suc n) es"

lemma cap_push_all: "cap (push_all es s) = cap s"
  by (induction es arbitrary: s) (auto simp: push_all_def cap_push)

lemma items_push_all:
  "0 < cap s \<Longrightarrow> length (items s) \<le> cap s \<Longrightarrow> nxt s + length es \<le> u64_max \<Longrightarrow>
   items (push_all es s) = last_n (cap s) (items s @ stamped (nxt s) es)"
proof (induction es arbitrary: s)
  case Nil
  then show ?case by (simp add: push_all_def last_n_def)
next
  case (Cons e es)
  have len: "length (items (push e s)) \<le> cap (push e s)"
    using Cons.prems by (auto simp: items_push cap_push)
  have nx: "nxt (push e s) = Suc (nxt s)" using Cons.prems by (simp add: nxt_push)
  have "items (push_all (e # es) s) = items (push_all es (push e s))"
    by (simp add: push_all_def)
  also have "\<dots> = last_n (cap s) (items (push e s) @ stamped (Suc (nxt s)) es)"
    using Cons.IH [of "push e s"] Cons.prems len nx by (simp add: cap_push)
  also have "\<dots> = last_n (cap s) (items s @ stamped (nxt s) (e # es))"
    using Cons.prems
    by (auto simp: items_push last_n_def tl_append2 drop_Suc [symmetric] drop_tl
        neq_Nil_conv split: list.splits)
  finally show ?case .
qed

end

interpretation fb: id_ring fb_frames fb_capacity fb_next_id fr_id "\<lambda>n f. f\<lparr>fr_id := n\<rparr>" fb_insert
  by unfold_locales (auto simp: fb_insert_def Let_def)

section \<open>Properties\<close>

lemma fb_new_inv [intro]: "fb.ring_inv (fb_new c)"
  by (simp add: fb.ring_inv_def fb_new_def)

text \<open>pushing keeps the buffer invariant: never more frames than the capacity, and
  the identifiers are consecutive, ending just below the next one to be given out.\<close>

theorem fb_push_invariant:
  assumes "fb.ring_inv b" and "fb_next_id b < u64_max"
  shows "fb.ring_inv (fb_push_full at_now wall_now d p peer meta b) \<and>
    fb_len (fb_push_full at_now wall_now d p peer meta b) \<le> fb_capacity b"
proof -
  from assms have "fb.ring_inv (fb_push_full at_now wall_now d p peer meta b)"
    unfolding fb_push_full_def by (rule fb.ring_inv_push)
  then show ?thesis by (simp add: fb.ring_inv_def fb_len_def fb_push_full_def fb_insert_def Let_def)
qed

theorem fb_push_invariant_witness:
  "fb_len (fb_push_full 0 0 DirIn [1] None None (fb_new 0)) \<le> 1"
  using fb_push_invariant [of "fb_new 0" 0 0 DirIn "[1]" None None, OF fb_new_inv]
  by (simp add: fb_new_def u64_max_def)

text \<open>C19: after any sequence of pushes into a new buffer, it holds exactly the most recent
  \<open>capacity\<close> frames in order, numbered from 1 by arrival (until identifiers run out).\<close>

theorem fb_keeps_newest:
  assumes "length fs < u64_max"
  shows "fb_frames (fb.push_all fs (fb_new c)) = fb.last_n (max c 1) (fb.stamped 1 fs)"
  using fb.items_push_all [of "fb_new c" fs] assms by (simp add: fb_new_def)

theorem fb_keeps_newest_witness:
  "fb_frames (fb.push_all [frame_new 0 0 9 DirIn [65], frame_new 0 0 9 DirIn [66]] (fb_new 1)) =
     [frame_new 0 0 2 DirIn [66]]"
  using fb_keeps_newest [of "[frame_new 0 0 9 DirIn [65], frame_new 0 0 9 DirIn [66]]" 1]
  by (simp add: u64_max_def fb.last_n_def frame_new_def)

text \<open>under the invariant \<open>get_by_id\<close> finds a frame exactly when its identifier is
  among the retained ones, and then it is the frame at the corresponding position.\<close>

theorem fb_get_by_id_correct:
  assumes "fb.ring_inv b"
  shows "fb_get_by_id b n =
    (let oldest = fb_next_id b - fb_len b in
     if oldest \<le> n \<and> n < fb_next_id b then fb_get b (n - oldest) else None)"
proof -
  have "fb_len b < fb_next_id b" using assms by (simp add: fb.ring_inv_def fb_len_def)
  then show ?thesis
    unfolding fb_get_by_id_def fb.find_by_id [OF assms] fb_get_def idx_def fb_len_def Let_def
    by auto
qed

theorem fb_get_by_id_correct_witness:
  "fb_get_by_id (fb_new 4) 1 = None"
  using fb_get_by_id_correct [of "fb_new 4" 1, OF fb_new_inv] by (simp add: fb_new_def fb_len_def)

lemma length_esc_byte: "1 \<le> length (esc_byte b) \<and> length (esc_byte b) \<le> 4"
  by (simp add: esc_byte_def length_hex02)

lemma preview_loop_bound:
  "length out \<le> mx + 3 \<Longrightarrow> length (preview_loop out bs mx) \<le> mx + 6"
proof (induction out bs mx rule: preview_loop.induct)
  case (2 out b bs mx)
  show ?case
  proof (cases "mx \<le> length out")
    case True
    with 2 show ?thesis by (simp add: ellipsis_def)
  next
    case False
    then have "length (out @ esc_byte b) \<le> mx + 3" using length_esc_byte [of b] by simp
    with 2 False show ?thesis by simp
  qed
qed simp

lemma preview_loop_full:
  "length (concat (map esc_byte bs)) + length out \<le> mx \<Longrightarrow>
   preview_loop out bs mx = out @ concat (map esc_byte bs)"
proof (induction bs arbitrary: out)
  case (Cons b bs)
  have "1 \<le> length (esc_byte b)" by (rule length_esc_byte [THEN conjunct1])
  with Cons show ?case by simp
qed simp

text \<open>the preview is at most six bytes longer than asked for, and when the whole
  escaped payload fits it is shown in full, without an ellipsis.\<close>

theorem preview_bytes_bound:
  "length (preview_bytes bs mx) \<le> mx + 6 \<and>
   (length (concat (map esc_byte bs)) \<le> mx \<longrightarrow> preview_bytes bs mx = concat (map esc_byte bs))"
  using preview_loop_bound [of "[]" mx bs] preview_loop_full [of bs "[]" mx]
  by (simp add: preview_bytes_def)

theorem preview_bytes_bound_witness:
  "preview_bytes [104, 0] 5 = concat (map esc_byte [104, 0])"
proof -
  have "length (concat (map esc_byte [104, 0])) \<le> 5"
    by (simp add: esc_byte_def length_hex02)
  with preview_bytes_bound [of "[104, 0]" 5] show ?thesis by blast
qed

end
