(* ===== verification/Composer.thy ===== *)
theory Composer
  imports Frame
begin

text \<open>
  The composer's payload codec (\<open>src/src/composer.rs\<close>): text with escapes or hex pairs
  to bytes and back.  The outer option of \<open>decode_utf8_escapes\<close> is a panic: slicing
  \<open>text[i..]\<close> inside a character.
\<close>

datatype composer_mode = ModeUtf8 | ModeHex

definition hex_digit :: "u8 \<Rightarrow> string + u8" where
  "hex_digit b =
     (if 48 \<le> unat b \<and> unat b \<le> 57 then Inr (b - 48)
      else if 97 \<le> unat b \<and> unat b \<le> 102 then Inr (b - 97 + 10)
      else if 65 \<le> unat b \<and> unat b \<le> 70 then Inr (b - 65 + 10)
      else Inl (''invalid hex digit '' @ latin1_str b))"

text \<open>The scanning loop; 92 is the backslash, then \<open>n\<close>, \<open>r\<close>, \<open>t\<close> and \<open>x\<close>.\<close>

function esc_loop :: "bytes \<Rightarrow> bytes \<Rightarrow> (string + bytes) option" where
  "esc_loop out bs =
     (case bs of
        [] \<Rightarrow> Some (Inr out)
      | b # r \<Rightarrow>
          if b = 92 then
            (case r of
               [] \<Rightarrow> Some (Inl ''trailing backslash'')
             | c # r2 \<Rightarrow>
                 if c = 110 then esc_loop (out @ [10]) r2
                 else if c = 114 then esc_loop (out @ [13]) r2
                 else if c = 116 then esc_loop (out @ [9]) r2
                 else if c = 92 then esc_loop (out @ [92]) r2
                 else if c = 120 then
                   (case r2 of
                      h # l # r3 \<Rightarrow>
                        (case hex_digit h of
                           Inl e \<Rightarrow> Some (Inl e)
                         | Inr hi \<Rightarrow>
                             (case hex_digit l of
                                Inl e \<Rightarrow> Some (Inl e)
                              | Inr lo \<Rightarrow> esc_loop (out @ [push_bit 4 hi OR lo]) r3))
                    | _ \<Rightarrow> Some (Inl (''incomplete '' @ [CHR 92] @ ''x escape'')))
                 else esc_loop (out @ [92, c]) r2)
          else if cont b then None
          else esc_loop (out @ take (fst (utf8_step bs)) bs) (drop (fst (utf8_step bs)) bs))"
  by pat_completeness auto
termination
  by (relation "measure (\<lambda>(out, bs). length bs)")
    (auto, metis length_Cons list.discI utf8_step_shrinks)

declare esc_loop.simps [simp del]

definition decode_utf8_escapes :: "string \<Rightarrow> (string + bytes) option" where
  "decode_utf8_escapes text = esc_loop [] (as_bytes text)"

definition decode_payload :: "string \<Rightarrow> composer_mode \<Rightarrow> (string + bytes) option" where
  "decode_payload text mode =
     (case mode of ModeUtf8 \<Rightarrow> decode_utf8_escapes text | ModeHex \<Rightarrow> Some (parse_hex_bytes text))"

text \<open>\<open>chars().all(|c| !c.is_control() || c is \n, \r or \t)\<close> on valid UTF-8.\<close>

fun no_controls :: "bytes \<Rightarrow> bool" where
  "no_controls [] = True"
| "no_controls (b # r) =
     ((if unat b < 32 then b = 10 \<or> b = 13 \<or> b = 9
       else if unat b = 127 then False
       else if unat b = 194 then (case r of [] \<Rightarrow> True | c # _ \<Rightarrow> \<not> (128 \<le> unat c \<and> unat c \<le> 159))
       else True) \<and> no_controls r)"

definition edit_byte :: "u8 \<Rightarrow> string" where
  "edit_byte b =
     (if b = 10 then [CHR 92, CHR ''n''] else if b = 13 then [CHR 92, CHR ''r'']
      else if b = 9 then [CHR 92, CHR ''t''] else if b = 92 then [CHR 92, CHR 92]
      else if 32 \<le> unat b \<and> unat b \<le> 126 then [chr_of_byte b]
      else [CHR 92, CHR ''x''] @ hex02 (unat b))"

definition encode_for_edit :: "bytes \<Rightarrow> composer_mode \<Rightarrow> string" where
  "encode_for_edit payload mode =
     (case mode of
        ModeUtf8 \<Rightarrow>
          (if utf8_valid payload \<and> no_controls payload then str_of payload
           else concat (map edit_byte payload))
      | ModeHex \<Rightarrow> join '' '' (map (\<lambda>b. hex02 (unat b)) payload))"

section \<open>Hex mode\<close>

definition hex_pair :: "u8 \<Rightarrow> bytes" where
  "hex_pair b = as_bytes (hex02 (unat b))"

lemma hex_digit_of_digit: "n < 16 \<Longrightarrow> hex_digit (byte_of_chr (digit_chr n)) = Inr (word_of_nat n)"
  by (drule less16_cases) (auto simp: hex_digit_def byte_of_chr_def)

lemma hex_digit_nibble: "hex_digit = hex_nibble"
  by (simp add: fun_eq_iff hex_digit_def hex_nibble_def)

lemma nibbles_join: "push_bit 4 (word_of_nat (unat b div 16)) OR word_of_nat (unat b mod 16) = (b :: u8)"
proof -
  have "unat (drop_bit 4 b) = drop_bit 4 (unat b)" by (rule unat_drop_bit_eq)
  then have "unat b div 16 = unat (drop_bit 4 b)" by (simp only: drop_bit_eq_div) simp
  then have 1: "(word_of_nat (unat b div 16) :: u8) = drop_bit 4 b" by simp
  have "unat (take_bit 4 b) = take_bit 4 (unat b)" by (rule unsigned_take_bit_eq)
  then have "unat b mod 16 = unat (take_bit 4 b)" by (simp only: take_bit_eq_mod) simp
  then have 2: "(word_of_nat (unat b mod 16) :: u8) = take_bit 4 b" by simp
  show ?thesis unfolding 1 2
    by (rule bit_word_eqI) (auto simp: bit_or_iff bit_push_bit_iff bit_drop_bit_eq bit_take_bit_iff)
qed

lemma hex_pairs_concat: "hex_pairs (concat (map hex_pair bs)) = Inr bs"
proof (induction bs)
  case (Cons b bs)
  then show ?case
    by (simp add: hex_pair_def hex_two div16_less nibbles_join
        hex_digit_of_digit [unfolded hex_digit_nibble])
qed simp

text \<open>Hex digits are neither white space nor separators, so cleaning keeps them.\<close>

lemma ws_len_ascii:
  assumes "(of_char c :: nat) < 128"
  shows "ws_len (c # s) = (if of_char c \<in> {9, 10, 11, 12, 13, 32 :: nat} then 1 else 0)"
  using assms by (simp add: ws_len_def ws_codes_def starts_with_def)

lemma clean_hex_Nil [simp]: "clean_hex [] = []"
  by (simp add: clean_hex.simps [of "[]"])

lemma clean_hex_space [simp]: "clean_hex (CHR '' '' # s) = clean_hex s"
  by (simp add: clean_hex.simps [of "CHR '' '' # s"] ws_len_ascii)

lemma digit_chr_code: "n < 16 \<Longrightarrow>
  48 \<le> (of_char (digit_chr n) :: nat) \<and> (of_char (digit_chr n) :: nat) \<le> 102 \<and>
  digit_chr n \<noteq> CHR '':''"
  by (drule less16_cases) auto

lemma clean_hex_digit [simp]: "n < 16 \<Longrightarrow> clean_hex (digit_chr n # s) = digit_chr n # clean_hex s"
  using digit_chr_code [of n]
  by (subst clean_hex.simps) (auto simp: ws_len_ascii)

lemma clean_hex_join:
  "clean_hex (join '' '' (map (\<lambda>b. hex02 (unat (b :: u8))) bs)) = concat (map (\<lambda>b. hex02 (unat b)) bs)"
proof (induction bs)
  case (Cons b bs)
  then show ?case by (cases bs) (simp_all add: hex_two div16_less)
qed simp

lemma hex_mode_decodes:
  "decode_payload (encode_for_edit bs ModeHex) ModeHex = Some (Inr bs)"
proof -
  have *: "as_bytes (concat (map (\<lambda>b. hex02 (unat b)) bs)) = concat (map hex_pair bs)"
    by (induction bs) (simp_all add: hex_pair_def)
  have "length (concat (map (\<lambda>b. hex02 (unat (b :: u8))) bs)) = 2 * length bs"
    by (induction bs) simp_all
  then show ?thesis
    by (simp add: decode_payload_def encode_for_edit_def parse_hex_bytes_def Let_def
        clean_hex_join * hex_pairs_concat)
qed

text \<open>hex mode round-trips: what the composer shows for any bytes decodes to them.\<close>

theorem hex_mode_roundtrip:
  "decode_payload (encode_for_edit bs ModeHex) ModeHex = Some (Inr bs)"
  by (rule hex_mode_decodes)

section \<open>Escape mode\<close>

lemma esc_loop_Nil [simp]: "esc_loop out [] = Some (Inr out)"
  by (simp add: esc_loop.simps [of out "[]"])

lemma esc_loop_simple [simp]:
  "esc_loop out (92 # 110 # r) = esc_loop (out @ [10]) r"
  "esc_loop out (92 # 114 # r) = esc_loop (out @ [13]) r"
  "esc_loop out (92 # 116 # r) = esc_loop (out @ [9]) r"
  "esc_loop out (92 # 92 # r) = esc_loop (out @ [92]) r"
  by (simp_all add: esc_loop.simps [of out "92 # _ # r"])

lemma esc_loop_hex [simp]:
  "esc_loop out (92 # 120 # hex_pair b @ r) = esc_loop (out @ [b]) r"
  by (simp add: esc_loop.simps [of out "92 # 120 # _"] hex_pair_def hex_two div16_less
      hex_digit_of_digit nibbles_join)

lemma esc_loop_ascii [simp]:
  assumes "unat b < 128" "b \<noteq> 92"
  shows "esc_loop out (b # r) = esc_loop (out @ [b]) r"
proof -
  have "utf8_step (b # r) = (1, True)" using assms by (simp add: utf8_step.simps seq_len_def)
  with assms show ?thesis by (simp add: esc_loop.simps [of out "b # r"] cont_def)
qed

lemma byte_of_chr_consts [simp]:
  "byte_of_chr (CHR 92) = 92" "byte_of_chr (CHR ''n'') = 110" "byte_of_chr (CHR ''r'') = 114"
  "byte_of_chr (CHR ''t'') = 116" "byte_of_chr (CHR ''x'') = 120"
  by (simp_all add: byte_of_chr_def)

lemma esc_loop_edit_byte: "esc_loop out (as_bytes (edit_byte b) @ r) = esc_loop (out @ [b]) r"
proof -
  consider "b = 10" | "b = 13" | "b = 9" | "b = 92"
    | "b \<notin> {10, 13, 9, 92}" "32 \<le> unat b \<and> unat b \<le> 126"
    | "b \<notin> {10, 13, 9, 92}" "\<not> (32 \<le> unat b \<and> unat b \<le> 126)" by auto
  then show ?thesis
  proof cases
    case 6
    then have "as_bytes (edit_byte b) = 92 # 120 # hex_pair b"
      by (auto simp: edit_byte_def hex_pair_def)
    then show ?thesis by simp
  qed (simp_all add: edit_byte_def)
qed

lemma esc_loop_edit: "esc_loop out (as_bytes (concat (map edit_byte bs))) = Some (Inr (out @ bs))"
  by (induction bs arbitrary: out) (simp_all add: esc_loop_edit_byte)

lemma esc_loop_plain:
  "utf8_valid bs \<Longrightarrow> 92 \<notin> set bs \<Longrightarrow> esc_loop out bs = Some (Inr (out @ bs))"
proof (induction bs arbitrary: out rule: utf8_valid.induct)
  case (1 bs)
  show ?case
  proof (cases bs)
    case (Cons b r)
    let ?n = "fst (utf8_step bs)"
    have v: "snd (utf8_step bs)" "utf8_valid (drop ?n bs)"
      using 1(2) by (simp_all add: Cons utf8_valid.simps [of "b # r"] split: if_splits)
    have "92 \<notin> set (drop ?n bs)" using 1(3) by (meson in_set_dropD)
    then have "esc_loop (out @ take ?n bs) (drop ?n bs) = Some (Inr (out @ bs))"
      using 1(1) [OF _ v] Cons by simp
    moreover have "\<not> cont b" using v(1) Cons
      by (auto simp: utf8_step.simps seq_len_def cont_def in_range_def split: if_splits)
    ultimately show ?thesis using Cons 1(3) by (simp add: esc_loop.simps [of out "b # r"])
  qed simp
qed

text \<open>escape mode round-trips for every payload that needs escaping, and for every
  payload shown verbatim that contains no backslash.\<close>

theorem escape_mode_roundtrip:
  assumes "utf8_valid bs \<and> no_controls bs \<longrightarrow> 92 \<notin> set bs"
  shows "decode_payload (encode_for_edit bs ModeUtf8) ModeUtf8 = Some (Inr bs)"
  using assms esc_loop_edit [of "[]" bs] esc_loop_plain [of bs "[]"]
  by (auto simp: decode_payload_def encode_for_edit_def decode_utf8_escapes_def)

theorem escape_mode_roundtrip_witness:
  "decode_payload (encode_for_edit [0, 92, 255] ModeUtf8) ModeUtf8 = Some (Inr [0, 92, 255])"
  by (rule escape_mode_roundtrip) simp

text \<open>A payload shown verbatim is not escaped, so a backslash in it is read back as an
  escape: the two printable bytes \<open>\\n\<close> come back as one line feed.\<close>

theorem verbatim_backslash_changes:
  "encode_for_edit [92, 110] ModeUtf8 = [CHR 92, CHR ''n''] \<and>
   decode_payload (encode_for_edit [92, 110] ModeUtf8) ModeUtf8 = Some (Inr [10])"
proof -
  have "utf8_valid [92, 110]" by (rule utf8_valid_ascii) simp
  then have "encode_for_edit [92, 110] ModeUtf8 = [CHR 92, CHR ''n'']"
    by (simp add: encode_for_edit_def chr_of_byte_def char_of_def bit_Suc_0_iff)
  then show ?thesis by (simp add: decode_payload_def decode_utf8_escapes_def)
qed

text \<open>a backslash before a character that takes more than one byte makes the decoder
  panic: it steps into the middle of the character and slices there.  Text in ASCII
  never makes it panic.\<close>

theorem backslash_multibyte_panics:
  "128 \<le> unat a \<Longrightarrow> cont b \<Longrightarrow> \<forall>x \<in> set pre. unat x < 128 \<and> x \<noteq> 92 \<Longrightarrow>
   decode_payload (str_of (pre @ [92, a, b] @ r)) ModeUtf8 = None"
proof -
  assume a: "128 \<le> unat a" "cont b" and pre: "\<forall>x \<in> set pre. unat x < 128 \<and> x \<noteq> 92"
  from a(2) have "b \<noteq> 92" by (auto simp: cont_def)
  with a(2) have b: "esc_loop out (b # r) = None" for out by (simp add: esc_loop.simps [of out "b # r"])
  have "a \<notin> {110, 114, 116, 92, 120}" using a(1) by auto
  then have tail: "esc_loop out (92 # a # b # r) = None" for out
    by (simp add: esc_loop.simps [of out "92 # a # b # r"] b)
  from pre have "esc_loop out (pre @ 92 # a # b # r) = None" for out
    by (induction pre arbitrary: out) (simp_all add: tail)
  then show ?thesis by (simp add: decode_payload_def decode_utf8_escapes_def)
qed

theorem backslash_multibyte_panics_witness:
  "decode_payload (str_of [97, 92, 195, 169]) ModeUtf8 = None"
  using backslash_multibyte_panics [of 195 169 "[97]" "[]"] by (simp add: cont_def)

end
