(* ===== verification/Fuzz.thy ===== *)
theory Fuzz
  imports RustStr
begin

text \<open>
  The payload mutators and their xorshift generator (\<open>src/src/fuzz.rs\<close>).  The generator's
  state is threaded explicitly; every index is checked, so a panic would be \<open>None\<close>.
\<close>

section \<open>The generator\<close>

definition xs_new :: "u64 \<Rightarrow> u64" where
  "xs_new seed = max seed 1"

definition next_u64 :: "u64 \<Rightarrow> u64" where
  "next_u64 s =
     (let x = s XOR push_bit 13 s;
          x = x XOR drop_bit 7 x
      in x XOR push_bit 17 x)"

definition gen_range :: "nat \<Rightarrow> u64 \<Rightarrow> nat \<times> u64" where
  "gen_range mx s = (if mx = 0 then (0, s) else (unat (next_u64 s) mod mx, next_u64 s))"

definition gen_u8 :: "u64 \<Rightarrow> u8 \<times> u64" where
  "gen_u8 s = (ucast (next_u64 s), next_u64 s)"

fun gen_bytes :: "nat \<Rightarrow> u64 \<Rightarrow> bytes \<times> u64" where
  "gen_bytes 0 s = ([], s)"
| "gen_bytes (Suc n) s =
     (let (b, s) = gen_u8 s; (bs, s) = gen_bytes n s in (b # bs, s))"

section \<open>The mutators\<close>

datatype mutator =
  BitFlip | ByteInsert | ByteDelete | Truncate | JunkSuffix | BreakJson | CorruptLengthPrefix

definition all_mutators :: "mutator list" where
  "all_mutators =
     [BitFlip, ByteInsert, ByteDelete, Truncate, JunkSuffix, BreakJson, CorruptLengthPrefix]"

fun mutator_label :: "mutator \<Rightarrow> string" where
  "mutator_label BitFlip = ''bit-flip''"
| "mutator_label ByteInsert = ''byte-insert''"
| "mutator_label ByteDelete = ''byte-delete''"
| "mutator_label Truncate = ''truncate''"
| "mutator_label JunkSuffix = ''junk-suffix''"
| "mutator_label BreakJson = ''break-json''"
| "mutator_label CorruptLengthPrefix = ''corrupt-len''"

text \<open>\<open>Vec::insert\<close> and \<open>Vec::remove\<close> panic out of range.\<close>

definition vec_insert :: "'a list \<Rightarrow> nat \<Rightarrow> 'a \<Rightarrow> 'a list option" where
  "vec_insert xs i x = (if i \<le> length xs then Some (take i xs @ x # drop i xs) else None)"

definition vec_remove :: "'a list \<Rightarrow> nat \<Rightarrow> 'a list option" where
  "vec_remove xs i = (if i < length xs then Some (take i xs @ drop (Suc i) xs) else None)"

definition mutate :: "bytes \<Rightarrow> mutator \<Rightarrow> u64 \<Rightarrow> bytes option" where
  "mutate payload m seed =
     (let rng = xs_new seed in
      case m of
        BitFlip \<Rightarrow>
          (let out = (if payload = [] then [0] else payload);
               (i, rng) = gen_range (length out) rng;
               (k, rng) = gen_range 8 rng
           in do { b \<leftarrow> idx out i; vec_set out i (b XOR push_bit k 1) })
      | ByteInsert \<Rightarrow>
          (let (i, rng) = gen_range (length payload + 1) rng;
               (b, rng) = gen_u8 rng
           in vec_insert payload i b)
      | ByteDelete \<Rightarrow>
          (if payload = [] then Some payload
           else let (i, rng) = gen_range (length payload) rng in vec_remove payload i)
      | Truncate \<Rightarrow>
          (if 1 < length payload
           then let (n, rng) = gen_range (length payload) rng in Some (take (max n 1) payload)
           else Some [])
      | JunkSuffix \<Rightarrow>
          (let (n, rng) = gen_range 16 rng;
               (bs, rng) = gen_bytes (1 + n) rng
           in Some (payload @ bs))
      | BreakJson \<Rightarrow>
          (if payload = [] then Some [123]
           else do {
             b \<leftarrow> idx payload 0;
             if b = 123 then vec_insert payload 1 44 else Some (payload @ [125]) })
      | CorruptLengthPrefix \<Rightarrow>
          (if 4 \<le> length payload
           then let (a, rng) = gen_u8 rng; (b, rng) = gen_u8 rng
                in do { out \<leftarrow> vec_set payload 0 a; vec_set out 1 b }
           else Some ([255, 255, 255, 255] @ payload)))"

section \<open>Properties\<close>

lemma gen_range_less: "0 < mx \<Longrightarrow> fst (gen_range mx s) < mx"
  by (simp add: gen_range_def)

lemma length_gen_bytes: "length (fst (gen_bytes n s)) = n"
  by (induction n arbitrary: s) (simp_all add: case_prod_unfold Let_def gen_u8_def)

lemmas fuzz_ops = vec_insert_def vec_remove_def vec_set_def

text \<open>no mutator panics, whatever the payload and the seed, and each changes the length
  the way its name says: flips and prefix corruption keep it (an empty payload gains a
  byte, a short one a four-byte prefix), insertion adds one, deletion removes one,
  truncation leaves a non-empty proper prefix, junk adds one to sixteen bytes.\<close>

theorem mutate_total_and_length:
  "\<exists>out. mutate p m seed = Some out \<and>
     (case m of
        BitFlip \<Rightarrow> length out = max 1 (length p)
      | ByteInsert \<Rightarrow> length out = length p + 1
      | ByteDelete \<Rightarrow> length out = length p - 1
      | Truncate \<Rightarrow> (if 1 < length p then \<exists>n. 1 \<le> n \<and> n < length p \<and> out = take n p else out = [])
      | JunkSuffix \<Rightarrow> \<exists>junk. out = p @ junk \<and> 1 \<le> length junk \<and> length junk \<le> 16
      | BreakJson \<Rightarrow> length out = length p + 1
      | CorruptLengthPrefix \<Rightarrow> length out = (if 4 \<le> length p then length p else length p + 4))"
proof (cases m)
  case BitFlip
  then show ?thesis
    using gen_range_less [of "max 1 (length p)" "xs_new seed"]
    by (cases p) (auto simp: mutate_def Let_def case_prod_unfold fuzz_ops split: nat.split)
next
  case ByteInsert
  then show ?thesis
    using gen_range_less [of "length p + 1" "xs_new seed"]
    by (auto simp: mutate_def Let_def case_prod_unfold fuzz_ops)
next
  case ByteDelete
  then show ?thesis
    using gen_range_less [of "length p" "xs_new seed"]
    by (auto simp: mutate_def Let_def case_prod_unfold fuzz_ops)
next
  case Truncate
  let ?n = "fst (gen_range (length p) (xs_new seed))"
  have "1 < length p \<Longrightarrow> max ?n 1 < length p"
    using gen_range_less [of "length p" "xs_new seed"] by (cases p) auto
  with Truncate show ?thesis
    by (auto simp: mutate_def Let_def case_prod_unfold intro!: exI [of _ "max ?n 1"])
next
  case JunkSuffix
  then show ?thesis
    using gen_range_less [of 16 "xs_new seed"]
    by (auto simp: mutate_def Let_def case_prod_unfold length_gen_bytes)
next
  case BreakJson
  then show ?thesis
    by (cases p) (auto simp: mutate_def Let_def fuzz_ops)
next
  case CorruptLengthPrefix
  then show ?thesis
    by (auto simp: mutate_def Let_def case_prod_unfold fuzz_ops)
qed

text \<open>a bit flip changes exactly one bit: one byte is replaced by its exclusive or with
  a power of two, every other byte stays.\<close>

theorem bit_flip_one_bit:
  assumes "p \<noteq> []"
  shows "\<exists>i k. i < length p \<and> k < 8 \<and> mutate p BitFlip seed = Some (p[i := p ! i XOR push_bit k 1])"
proof -
  let ?r = "gen_range (length p) (xs_new seed)"
  have "fst ?r < length p" using assms by (simp add: gen_range_less)
  moreover have "fst (gen_range 8 (snd ?r)) < 8" by (simp add: gen_range_less)
  ultimately show ?thesis using assms
    by (auto simp: mutate_def Let_def case_prod_unfold fuzz_ops)
qed

theorem bit_flip_one_bit_witness:
  "\<exists>i k. i < length [1, 2 :: u8] \<and> k < 8 \<and>
     mutate [1, 2] BitFlip 7 = Some ([1, 2][i := [1, 2] ! i XOR push_bit k 1])"
  by (rule bit_flip_one_bit) simp

lemma xor_zero_eq: "x XOR y = (0 :: u64) \<Longrightarrow> x = y"
  by (simp add: bit_eq_iff bit_xor_iff)

lemma shift_left_xor_zero:
  fixes x :: u64
  assumes "0 < k" "x XOR push_bit k x = 0"
  shows "x = 0"
proof (rule bit_word_eqI)
  fix n
  assume "n < LENGTH(64)"
  from assms(2) have eq: "x = push_bit k x" by (rule xor_zero_eq)
  show "bit x n \<longleftrightarrow> bit 0 n"
  proof (induction n rule: less_induct)
    case (less n)
    have "bit x n \<longleftrightarrow> bit (push_bit k x) n" using eq by simp
    also have "\<dots> \<longleftrightarrow> k \<le> n \<and> n < 64 \<and> bit x (n - k)" by (simp add: bit_push_bit_iff)
    also have "\<dots> \<longleftrightarrow> False" using less [of "n - k"] assms(1) by auto
    finally show ?case by simp
  qed
qed

lemma shift_right_xor_zero:
  fixes x :: u64
  assumes "0 < k" "x XOR drop_bit k x = 0"
  shows "x = 0"
proof -
  from assms(2) have eq: "x = drop_bit k x" by (rule xor_zero_eq)
  have "bit x n \<longleftrightarrow> False" for n
  proof (induction "64 - n" arbitrary: n rule: less_induct)
    case less
    have "bit x n \<longleftrightarrow> bit (drop_bit k x) n" using eq by simp
    also have "\<dots> \<longleftrightarrow> bit x (k + n)" by (simp add: bit_drop_bit_eq)
    finally have step: "bit x n \<longleftrightarrow> bit x (k + n)" .
    show ?case
    proof (cases "n < 64")
      case True
      then have "\<not> bit x (k + n)" using less [of "k + n"] assms(1) by simp
      with step show ?thesis by simp
    next
      case False
      then show ?thesis using bit_imp_le_length [of x n] by auto
    qed
  qed
  then show ?thesis by (intro bit_word_eqI) simp
qed

text \<open>The generator never gets stuck at zero: from a non-zero state, the next state is
  non-zero, and seeding never produces the zero state.\<close>

theorem xorshift_never_zero: "xs_new seed \<noteq> 0 \<and> (s \<noteq> 0 \<longrightarrow> next_u64 s \<noteq> 0)"
proof
  show "xs_new seed \<noteq> 0"
    by (auto simp: xs_new_def max_def word_le_nat_alt)
  show "s \<noteq> 0 \<longrightarrow> next_u64 s \<noteq> 0"
  proof (intro impI notI)
    assume s: "s \<noteq> 0" and z: "next_u64 s = 0"
    let ?x = "s XOR push_bit 13 s" let ?y = "?x XOR drop_bit 7 ?x"
    from z have "?y XOR push_bit 17 ?y = 0" by (simp only: next_u64_def Let_def)
    then have "?y = 0" by (rule shift_left_xor_zero [rotated]) simp
    then have "?x = 0" by (rule shift_right_xor_zero [rotated]) simp
    then have "s = 0" by (rule shift_left_xor_zero [rotated]) simp
    with s show False by contradiction
  qed
qed

theorem xorshift_never_zero_witness: "next_u64 1 \<noteq> 0"
  using xorshift_never_zero [of 0 1] by simp

end
