(* ===== verification/Tree.thy ===== *)
theory Tree
  imports RustStr "HOL-Library.Multiset"
begin

text \<open>
  The protocol tree (\<open>src/src/dissect/tree.rs\<close>): nodes in one vector, linked by index,
  each with the byte range of the frame it describes.  \<open>walk_visible\<close> recurses along the
  indices, so it gets fuel; on the trees the operations build, the number of nodes is
  enough.
\<close>

record proto_node =
  pn_label :: string
  pn_value :: string
  pn_offset :: nat
  pn_len :: nat
  pn_children :: "nat list"
  pn_expanded :: bool

record proto_tree =
  pt_nodes :: "proto_node list"
  pt_roots :: "nat list"

definition node_display :: "proto_node \<Rightarrow> string" where
  "node_display n =
     (if pn_value n = [] then pn_label n else pn_label n @ '': '' @ pn_value n)"

definition tree_new :: proto_tree where
  "tree_new = \<lparr>pt_nodes = [], pt_roots = []\<rparr>"

definition mk_node :: "string \<Rightarrow> string \<Rightarrow> nat \<Rightarrow> nat \<Rightarrow> proto_node" where
  "mk_node label value offset n = \<lparr>pn_label = label, pn_value = value, pn_offset = offset,
     pn_len = n, pn_children = [], pn_expanded = True\<rparr>"

definition add_root :: "string \<Rightarrow> nat \<Rightarrow> nat \<Rightarrow> proto_tree \<Rightarrow> nat \<times> proto_tree" where
  "add_root label offset n t =
     (let i = length (pt_nodes t)
      in (i, t\<lparr>pt_nodes := pt_nodes t @ [mk_node label [] offset n],
               pt_roots := pt_roots t @ [i]\<rparr>))"

definition push_child :: "nat \<Rightarrow> nat \<Rightarrow> proto_node list \<Rightarrow> proto_node list" where
  "push_child parent i ns =
     (if parent < length ns
      then ns[parent := (ns ! parent)\<lparr>pn_children := pn_children (ns ! parent) @ [i]\<rparr>] else ns)"

definition add_child ::
    "nat \<Rightarrow> string \<Rightarrow> string \<Rightarrow> nat \<Rightarrow> nat \<Rightarrow> proto_tree \<Rightarrow> nat \<times> proto_tree" where
  "add_child parent label value offset n t =
     (let i = length (pt_nodes t)
      in (i, t\<lparr>pt_nodes := push_child parent i (pt_nodes t @ [mk_node label value offset n])\<rparr>))"

definition add_section :: "nat \<Rightarrow> string \<Rightarrow> nat \<Rightarrow> nat \<Rightarrow> proto_tree \<Rightarrow> nat \<times> proto_tree" where
  "add_section parent label offset n t = add_child parent label [] offset n t"

definition toggle :: "nat \<Rightarrow> proto_tree \<Rightarrow> proto_tree" where
  "toggle i t =
     (if i < length (pt_nodes t) \<and> pn_children (pt_nodes t ! i) \<noteq> []
      then t\<lparr>pt_nodes := (pt_nodes t)[i := (pt_nodes t ! i)\<lparr>pn_expanded := \<not> pn_expanded (pt_nodes t ! i)\<rparr>]\<rparr>
      else t)"

text \<open>\<open>walk_visible\<close>: depth and index, in display order; \<open>None\<close> when fuel runs out.\<close>

fun walk_visible :: "nat \<Rightarrow> proto_tree \<Rightarrow> nat \<Rightarrow> nat \<Rightarrow> (nat \<times> nat) list option" where
  "walk_visible 0 t i depth = None"
| "walk_visible (Suc k) t i depth =
     (case idx (pt_nodes t) i of
        None \<Rightarrow> Some [(depth, i)]
      | Some n \<Rightarrow>
          if pn_expanded n
          then map_option (\<lambda>xs. (depth, i) # concat xs)
                 (those (map (\<lambda>c. walk_visible k t c (depth + 1)) (pn_children n)))
          else Some [(depth, i)])"

definition visible :: "proto_tree \<Rightarrow> (nat \<times> nat) list option" where
  "visible t =
     map_option concat (those (map (\<lambda>r. walk_visible (length (pt_nodes t) + 1) t r 0) (pt_roots t)))"

section \<open>Well-formed trees\<close>

abbreviation children :: "proto_tree \<Rightarrow> nat \<Rightarrow> nat list" where
  "children t i \<equiv> pn_children (pt_nodes t ! i)"

definition linked :: "proto_tree \<Rightarrow> nat list" where
  "linked t = pt_roots t @ concat (map pn_children (pt_nodes t))"

definition tree_wf :: "proto_tree \<Rightarrow> bool" where
  "tree_wf t \<longleftrightarrow>
     (\<forall>r \<in> set (pt_roots t). r < length (pt_nodes t)) \<and>
     (\<forall>i < length (pt_nodes t). \<forall>c \<in> set (children t i). i < c \<and> c < length (pt_nodes t)) \<and>
     distinct (linked t)"

definition tree_within :: "nat \<Rightarrow> proto_tree \<Rightarrow> bool" where
  "tree_within N t \<longleftrightarrow> (\<forall>n \<in> set (pt_nodes t). pn_offset n + pn_len n \<le> N)"

lemma mk_node_simps [simp]:
  "pn_children (mk_node l v off n) = []" "pn_offset (mk_node l v off n) = off"
  "pn_len (mk_node l v off n) = n" "pn_label (mk_node l v off n) = l"
  "pn_value (mk_node l v off n) = v"
  by (simp_all add: mk_node_def)

lemma fst_add_child [simp]: "fst (add_child p l v off n t) = length (pt_nodes t)"
  by (simp add: add_child_def Let_def)

lemma fst_add_section [simp]: "fst (add_section p l off n t) = length (pt_nodes t)"
  by (simp add: add_section_def)

lemma fst_add_root [simp]: "fst (add_root l off n t) = length (pt_nodes t)"
  by (simp add: add_root_def Let_def)

lemma length_push_child [simp]: "length (push_child p i ns) = length ns"
  by (simp add: push_child_def)

lemma length_nodes_add_child [simp]:
  "length (pt_nodes (snd (add_child p l v off n t))) = Suc (length (pt_nodes t))"
  by (simp add: add_child_def Let_def)

lemma tree_within_new [simp]: "tree_within N tree_new"
  by (simp add: tree_within_def tree_new_def)

lemma tree_within_add_root [simp]:
  "tree_within N (snd (add_root l off n t)) \<longleftrightarrow> tree_within N t \<and> off + n \<le> N"
  by (auto simp: tree_within_def add_root_def Let_def)

lemma tree_within_add_child:
  "tree_within N t \<Longrightarrow> off + n \<le> N \<Longrightarrow> tree_within N (snd (add_child p l v off n t))"
  by (auto simp: tree_within_def add_child_def Let_def push_child_def nth_append
      dest!: in_set_conv_nth [THEN iffD1] split: if_splits) (auto simp: nth_list_update nth_append)

lemma concat_update_mset:
  "p < length ns \<Longrightarrow>
   mset (concat (map pn_children (ns[p := (ns ! p)\<lparr>pn_children := pn_children (ns ! p) @ [i]\<rparr>]))) =
   add_mset i (mset (concat (map pn_children ns)))"
proof (induction ns arbitrary: p)
  case (Cons a ns)
  then show ?case by (cases p) simp_all
qed simp

subsection \<open>The operations keep trees well-formed\<close>

lemma tree_wfI:
  assumes "\<And>r. r \<in> set (pt_roots t) \<Longrightarrow> r < length (pt_nodes t)"
    and "\<And>i c. i < length (pt_nodes t) \<Longrightarrow> c \<in> set (children t i) \<Longrightarrow> i < c \<and> c < length (pt_nodes t)"
    and "distinct (linked t)"
  shows "tree_wf t"
  using assms unfolding tree_wf_def by blast

lemma wf_root: "tree_wf t \<Longrightarrow> r \<in> set (pt_roots t) \<Longrightarrow> r < length (pt_nodes t)"
  unfolding tree_wf_def by blast

lemma wf_child_gt: "tree_wf t \<Longrightarrow> c \<in> set (children t i) \<Longrightarrow> i < length (pt_nodes t) \<Longrightarrow> i < c"
  unfolding tree_wf_def by blast

lemma wf_child_less:
  "tree_wf t \<Longrightarrow> c \<in> set (children t i) \<Longrightarrow> i < length (pt_nodes t) \<Longrightarrow> c < length (pt_nodes t)"
  unfolding tree_wf_def by blast

lemma wf_distinct: "tree_wf t \<Longrightarrow> distinct (linked t)"
  unfolding tree_wf_def by blast

lemmas wf_facts = wf_root wf_child_gt wf_child_less wf_distinct

lemma tree_wf_new [simp]: "tree_wf tree_new"
  by (rule tree_wfI) (simp_all add: tree_new_def linked_def)

lemma linked_less:
  assumes "tree_wf t" "j \<in> set (linked t)"
  shows "j < length (pt_nodes t)"
proof -
  from assms(2) consider "j \<in> set (pt_roots t)" | n where "n \<in> set (pt_nodes t)" "j \<in> set (pn_children n)"
    by (auto simp: linked_def)
  then show ?thesis
  proof cases
    case 2
    then obtain i where "i < length (pt_nodes t)" "pt_nodes t ! i = n" by (auto simp: in_set_conv_nth)
    with 2 show ?thesis using wf_child_less [OF assms(1)] by blast
  qed (rule wf_root [OF assms(1)])
qed

lemma distinct_add_mset:
  assumes "mset xs = add_mset i (mset ys)" "distinct ys" "i \<notin> set ys"
  shows "distinct xs"
proof -
  have "mset xs = mset (i # ys)" using assms(1) by simp
  then show ?thesis using assms(2,3) by (metis distinct.simps(2) mset_eq_imp_distinct_iff)
qed

lemma fresh_linked: "tree_wf t \<Longrightarrow> length (pt_nodes t) \<notin> set (linked t)"
  using linked_less by blast

lemma tree_wf_add_root:
  assumes "tree_wf t"
  shows "tree_wf (snd (add_root l off n t))"
proof (rule tree_wfI)
  let ?t = "snd (add_root l off n t)" let ?m = "length (pt_nodes t)"
  have roots: "pt_roots ?t = pt_roots t @ [?m]" and len: "length (pt_nodes ?t) = Suc ?m"
    by (simp_all add: add_root_def Let_def)
  have kids: "children ?t i = (if i < ?m then children t i else [])" if "i < Suc ?m" for i
    using that by (auto simp: add_root_def Let_def nth_append less_Suc_eq)
  show "r < length (pt_nodes ?t)" if "r \<in> set (pt_roots ?t)" for r
    using that roots len wf_root [OF assms, of r] by auto
  show "i < c \<and> c < length (pt_nodes ?t)" if "i < length (pt_nodes ?t)" "c \<in> set (children ?t i)" for i c
    using that len kids [of i] wf_child_gt [OF assms, of c i] wf_child_less [OF assms, of c i]
    by (simp split: if_splits)
  have "mset (linked ?t) = add_mset ?m (mset (linked t))"
    by (simp add: linked_def add_root_def Let_def)
  then show "distinct (linked ?t)"
    by (rule distinct_add_mset) (simp_all add: assms wf_distinct fresh_linked)
qed

lemma tree_wf_add_child:
  assumes "tree_wf t" "p < length (pt_nodes t)"
  shows "tree_wf (snd (add_child p l v off n t))"
proof (rule tree_wfI)
  let ?m = "length (pt_nodes t)" let ?t = "snd (add_child p l v off n t)"
  have roots: "pt_roots ?t = pt_roots t" by (simp add: add_child_def Let_def)
  have kids: "children ?t i = (if i = ?m then [] else if i = p then children t i @ [?m] else children t i)"
    if "i < Suc ?m" for i
    using that assms(2)
    by (simp add: add_child_def Let_def push_child_def nth_append nth_list_update)
  show "r < length (pt_nodes ?t)" if "r \<in> set (pt_roots ?t)" for r
    using that roots wf_root [OF assms(1), of r] by simp
  show "i < c \<and> c < length (pt_nodes ?t)" if "i < length (pt_nodes ?t)" "c \<in> set (children ?t i)" for i c
    using that kids [of i] wf_child_gt [OF assms(1), of c i] wf_child_less [OF assms(1), of c i] assms(2)
    by (auto split: if_splits)
  have "mset (linked ?t) = add_mset ?m (mset (linked t))"
    using assms(2) concat_update_mset [of p "pt_nodes t @ [mk_node l v off n]" ?m]
    by (simp add: linked_def add_child_def Let_def push_child_def)
  then show "distinct (linked ?t)"
    by (rule distinct_add_mset) (simp_all add: assms wf_distinct fresh_linked)
qed

lemma map_children_toggle: "map pn_children (pt_nodes (toggle i t)) = map pn_children (pt_nodes t)"
  by (simp add: toggle_def map_update list_update_same_conv)

lemma length_nodes_toggle [simp]: "length (pt_nodes (toggle i t)) = length (pt_nodes t)"
  by (simp add: toggle_def)

lemma roots_toggle [simp]: "pt_roots (toggle i t) = pt_roots t"
  by (simp add: toggle_def)

lemma tree_wf_toggle: "tree_wf t \<Longrightarrow> tree_wf (toggle i t)"
proof (rule tree_wfI)
  have kids: "children (toggle i t) j = children t j" if "j < length (pt_nodes t)" for j
    using arg_cong [OF map_children_toggle [of i t], of "\<lambda>xs. xs ! j"] that by simp
  assume t: "tree_wf t"
  show "distinct (linked (toggle i t))"
    using wf_distinct [OF t] by (simp add: linked_def map_children_toggle)
  show "j < c \<and> c < length (pt_nodes (toggle i t))"
    if "j < length (pt_nodes (toggle i t))" "c \<in> set (children (toggle i t) j)" for j c
    using that kids [of j] wf_child_gt [OF t, of c j] wf_child_less [OF t, of c j] by simp
qed (simp add: wf_root)

subsection \<open>Walking\<close>

lemma those_map_Some:
  "(\<forall>x \<in> set xs. f x \<noteq> None) \<Longrightarrow> those (map f xs) = Some (map (\<lambda>x. the (f x)) xs)"
  by (induction xs) auto

lemma distinct_concat_nth:
  "distinct (concat xss) \<Longrightarrow> a < b \<Longrightarrow> b < length xss \<Longrightarrow>
   set (xss ! a) \<inter> set (xss ! b) = {}"
proof (induction xss arbitrary: a b)
  case (Cons xs xss)
  then obtain b' where b: "b = Suc b'" by (cases b) auto
  show ?case
  proof (cases a)
    case 0
    have "set (xss ! b') \<subseteq> set (concat xss)" using Cons.prems b by (auto intro!: nth_mem)
    with Cons.prems(1) 0 b show ?thesis by auto
  next
    case (Suc a')
    with Cons b show ?thesis by simp
  qed
qed simp

lemma unique_parent:
  assumes "tree_wf t" "a < length (pt_nodes t)" "b < length (pt_nodes t)"
    and "j \<in> set (children t a)" "j \<in> set (children t b)"
  shows "a = b"
proof (rule ccontr)
  have d: "distinct (concat (map pn_children (pt_nodes t)))"
    using wf_distinct [OF assms(1)] by (simp add: linked_def)
  assume "a \<noteq> b"
  then consider "a < b" | "b < a" by linarith
  then show False
    using distinct_concat_nth [OF d, of a b] distinct_concat_nth [OF d, of b a] assms(2-)
    by cases auto
qed

definition walked :: "nat \<Rightarrow> proto_tree \<Rightarrow> nat \<Rightarrow> nat \<Rightarrow> nat list" where
  "walked k t i d = map snd (the (walk_visible k t i d))"

lemma child_fuel:
  "tree_wf t \<Longrightarrow> c \<in> set (children t i) \<Longrightarrow> i < length (pt_nodes t) \<Longrightarrow>
   length (pt_nodes t) - i \<le> Suc k \<Longrightarrow> length (pt_nodes t) - c \<le> k"
  using wf_child_gt [of t c i] by simp

lemma walk_total:
  "tree_wf t \<Longrightarrow> i < length (pt_nodes t) \<Longrightarrow> length (pt_nodes t) - i \<le> k \<Longrightarrow>
   walk_visible k t i d \<noteq> None"
proof (induction k arbitrary: i d)
  case (Suc k)
  have "\<forall>c \<in> set (children t i). walk_visible k t c (d + 1) \<noteq> None"
    using Suc.IH [OF Suc.prems(1)] wf_child_less [OF Suc.prems(1)] child_fuel [OF Suc.prems(1)]
      Suc.prems(2,3) by blast
  with Suc.prems show ?case by (simp add: those_map_Some)
qed simp

lemma walked_Suc:
  assumes "tree_wf t" "i < length (pt_nodes t)" "length (pt_nodes t) - i \<le> Suc k"
  shows "walked (Suc k) t i d =
    i # (if pn_expanded (pt_nodes t ! i)
         then concat (map (\<lambda>c. walked k t c (d + 1)) (children t i)) else [])"
proof -
  have "\<forall>c \<in> set (children t i). walk_visible k t c (d + 1) \<noteq> None"
    using walk_total [OF assms(1)] wf_child_less [OF assms(1)] child_fuel [OF assms(1)] assms(2,3) by blast
  then show ?thesis using assms(2)
    by (simp add: walked_def those_map_Some map_concat o_def)
qed

text \<open>A node of a walk is its start or lies in the walk of a child of the start.\<close>

lemma walked_cases:
  assumes "tree_wf t" "i < length (pt_nodes t)" "length (pt_nodes t) - i \<le> Suc k"
    and "j \<in> set (walked (Suc k) t i d)"
  obtains "j = i"
  | c where "c \<in> set (children t i)" "j \<in> set (walked k t c (d + 1))" "pn_expanded (pt_nodes t ! i)"
      "i < c" "c < length (pt_nodes t)" "length (pt_nodes t) - c \<le> k"
  using assms(4) walked_Suc [OF assms(1-3), of d] wf_child_gt [OF assms(1)]
    wf_child_less [OF assms(1)] child_fuel [OF assms(1)] assms(2,3)
  by (auto split: if_splits)

lemma walked_child:
  assumes "tree_wf t" "i < length (pt_nodes t)" "length (pt_nodes t) - i \<le> Suc k"
    and "c \<in> set (children t i)" "q \<in> set (walked k t c (d + 1))" "pn_expanded (pt_nodes t ! i)"
  shows "q \<in> set (walked (Suc k) t i d)"
  using walked_Suc [OF assms(1-3), of d] assms(4-) by auto

lemma start_in_walked:
  assumes "tree_wf t" "i < length (pt_nodes t)" "length (pt_nodes t) - i \<le> Suc k"
  shows "i \<in> set (walked (Suc k) t i d)"
  using walked_Suc [OF assms, of d] by simp

lemma walked_range:
  "tree_wf t \<Longrightarrow> i < length (pt_nodes t) \<Longrightarrow> length (pt_nodes t) - i \<le> k \<Longrightarrow>
   j \<in> set (walked k t i d) \<Longrightarrow> i \<le> j \<and> j < length (pt_nodes t)"
proof (induction k arbitrary: i d)
  case (Suc k)
  from Suc.prems show ?case
  proof (cases rule: walked_cases)
    case (2 c)
    then show ?thesis using Suc.IH [OF Suc.prems(1), of c "d + 1"] by simp
  qed (use Suc.prems in simp)
qed simp

lemma walked_parent:
  "tree_wf t \<Longrightarrow> i < length (pt_nodes t) \<Longrightarrow> length (pt_nodes t) - i \<le> k \<Longrightarrow>
   j \<in> set (walked k t i d) \<Longrightarrow> j \<noteq> i \<Longrightarrow>
   \<exists>q \<in> set (walked k t i d). q < length (pt_nodes t) \<and> j \<in> set (children t q)"
proof (induction k arbitrary: i d)
  case (Suc k)
  from Suc.prems(1-4) show ?case
  proof (cases rule: walked_cases)
    case (2 c)
    show ?thesis
    proof (cases "j = c")
      case True
      with 2 Suc.prems(1-3) start_in_walked show ?thesis by blast
    next
      case False
      with Suc.IH [OF Suc.prems(1) 2(5,6,2)] 2 Suc.prems(1-3) walked_child show ?thesis by blast
    qed
  qed (use Suc.prems(5) in blast)
qed simp

text \<open>Two walks neither of which reaches the other's start have no node in common.\<close>

lemma walks_disjoint:
  assumes t: "tree_wf t"
    and a: "a < length (pt_nodes t)" "length (pt_nodes t) - a \<le> k"
    and b: "b < length (pt_nodes t)" "length (pt_nodes t) - b \<le> k"
    and ab: "a \<notin> set (walked k t b d)" "b \<notin> set (walked k t a d)"
  shows "set (walked k t a d) \<inter> set (walked k t b d) = {}"
proof -
  have "j \<in> set (walked k t a d) \<Longrightarrow> j \<in> set (walked k t b d) \<Longrightarrow> False" for j
  proof (induction j rule: less_induct)
    case (less j)
    then have "j \<noteq> a" "j \<noteq> b" using ab by auto
    with walked_parent [OF t a less.prems(1)] walked_parent [OF t b less.prems(2)]
    obtain p q where
      p: "p \<in> set (walked k t a d)" "p < length (pt_nodes t)" "j \<in> set (children t p)" and
      q: "q \<in> set (walked k t b d)" "q < length (pt_nodes t)" "j \<in> set (children t q)" by blast
    then have "p = q" using unique_parent [OF t] by blast
    moreover have "p < j" using p wf_child_gt [OF t] by blast
    ultimately show False using less.IH p q by blast
  qed
  then show ?thesis by blast
qed

lemma siblings_apart:
  assumes t: "tree_wf t" and i: "i < length (pt_nodes t)"
    and c: "c \<in> set (children t i)" "c' \<in> set (children t i)" "c \<noteq> c'"
    and k: "length (pt_nodes t) - i \<le> Suc k"
  shows "c \<notin> set (walked k t c' d)"
proof
  assume in': "c \<in> set (walked k t c' d)"
  have c': "i < c'" "c' < length (pt_nodes t)" "length (pt_nodes t) - c' \<le> k"
    using wf_child_gt [OF t c(2) i] wf_child_less [OF t c(2) i] child_fuel [OF t c(2) i k] by auto
  from walked_parent [OF t c'(2,3) in' c(3)] obtain q where
    q: "q \<in> set (walked k t c' d)" "q < length (pt_nodes t)" "c \<in> set (children t q)" by blast
  then have "q = i" using unique_parent [OF t _ i _ c(1)] by blast
  with walked_range [OF t c'(2,3) q(1)] c' show False by simp
qed

lemma distinct_concat_map:
  "distinct xs \<Longrightarrow> (\<And>x. x \<in> set xs \<Longrightarrow> distinct (f x)) \<Longrightarrow>
   (\<And>x y. x \<in> set xs \<Longrightarrow> y \<in> set xs \<Longrightarrow> x \<noteq> y \<Longrightarrow> set (f x) \<inter> set (f y) = {}) \<Longrightarrow>
   distinct (concat (map f xs))"
  by (induction xs) (auto simp: disjoint_iff)

lemma distinct_children: "tree_wf t \<Longrightarrow> i < length (pt_nodes t) \<Longrightarrow> distinct (children t i)"
  by (drule wf_distinct) (auto simp: linked_def distinct_concat_iff)

lemma distinct_walked:
  "tree_wf t \<Longrightarrow> i < length (pt_nodes t) \<Longrightarrow> length (pt_nodes t) - i \<le> k \<Longrightarrow>
   distinct (walked k t i d)"
proof (induction k arbitrary: i d)
  case (Suc k)
  note t = Suc.prems(1) and i = Suc.prems(2) and k = Suc.prems(3)
  have kids: "i < c" "c < length (pt_nodes t)" "length (pt_nodes t) - c \<le> k"
    if "c \<in> set (children t i)" for c
    using wf_child_gt [OF t that i] wf_child_less [OF t that i] child_fuel [OF t that i k] by auto
  have "distinct (concat (map (\<lambda>c. walked k t c (d + 1)) (children t i)))"
  proof (rule distinct_concat_map [OF distinct_children [OF t i]])
    fix x y
    assume xy: "x \<in> set (children t i)" "y \<in> set (children t i)" "x \<noteq> y"
    show "set (walked k t x (d + 1)) \<inter> set (walked k t y (d + 1)) = {}"
      using kids [OF xy(1)] kids [OF xy(2)] xy siblings_apart [OF t i _ _ _ k]
      by (intro walks_disjoint [OF t]) auto
  qed (use kids Suc.IH t in blast)
  moreover have "i \<notin> set (walked k t c (d + 1))" if "c \<in> set (children t i)" for c
    using walked_range [OF t kids(2,3) [OF that], of i "d + 1"] kids(1) [OF that] by auto
  ultimately show ?case using walked_Suc [OF t i k, of d] by auto
qed simp

section \<open>Properties\<close>

text \<open>C32: the three operations that change a tree keep it well-formed (links go from lower
  to higher indices inside the vector, and no node is linked twice) as long as children
  are added under nodes that exist.\<close>

theorem tree_operations_wf:
  assumes "tree_wf t"
  shows "tree_wf (snd (add_root l off n t)) \<and> tree_wf (toggle i t) \<and>
    (p < length (pt_nodes t) \<longrightarrow> tree_wf (snd (add_child p l v off n t)))"
  using tree_wf_add_root [OF assms] tree_wf_toggle [OF assms] tree_wf_add_child [OF assms] by blast

theorem tree_operations_wf_witness:
  "tree_wf (snd (add_root ''Frame'' 0 4 tree_new))"
  using tree_operations_wf [OF tree_wf_new] by blast

text \<open>C33: displaying a well-formed tree terminates within the number of its nodes, lists
  only nodes that exist, and lists none of them twice, so a screen never holds more lines
  than the tree has nodes.\<close>

theorem visible_terminates:
  assumes t: "tree_wf t"
  shows "\<exists>xs. visible t = Some xs \<and> distinct (map snd xs) \<and>
    (\<forall>(d, i) \<in> set xs. i < length (pt_nodes t)) \<and> length xs \<le> length (pt_nodes t)"
proof -
  let ?N = "length (pt_nodes t)" let ?k = "?N + 1"
  let ?w = "\<lambda>r. the (walk_visible ?k t r 0)"
  have fuel: "r < ?N \<and> ?N - r \<le> ?k" if "r \<in> set (pt_roots t)" for r
    using wf_root [OF t that] by simp
  have all: "\<forall>r \<in> set (pt_roots t). walk_visible ?k t r 0 \<noteq> None"
    using fuel walk_total [OF t] by blast
  have vis: "visible t = Some (concat (map ?w (pt_roots t)))"
    unfolding visible_def those_map_Some [OF all] by (simp only: option.map)
  have snds: "map snd (concat (map ?w (pt_roots t))) = concat (map (\<lambda>r. walked ?k t r 0) (pt_roots t))"
    by (simp add: map_concat walked_def o_def)
  have apart: "r \<notin> set (walked ?k t r' 0)"
    if r: "r \<in> set (pt_roots t)" and r': "r' \<in> set (pt_roots t)" and ne: "r \<noteq> r'" for r r'
  proof
    assume "r \<in> set (walked ?k t r' 0)"
    with walked_parent [OF t _ _ _ ne] fuel [OF r'] obtain q where
      "q < ?N" "r \<in> set (children t q)" by blast
    with r wf_distinct [OF t] show False
      by (auto simp: linked_def disjoint_iff)
  qed
  have dist: "distinct (concat (map (\<lambda>r. walked ?k t r 0) (pt_roots t)))"
  proof (rule distinct_concat_map)
    show "distinct (pt_roots t)" using wf_distinct [OF t] by (simp add: linked_def)
    show "distinct (walked ?k t r 0)" if "r \<in> set (pt_roots t)" for r
      using distinct_walked [OF t] fuel [OF that] by blast
    show "set (walked ?k t r 0) \<inter> set (walked ?k t r' 0) = {}"
      if "r \<in> set (pt_roots t)" "r' \<in> set (pt_roots t)" "r \<noteq> r'" for r r'
      using walks_disjoint [OF t] fuel that apart by metis
  qed
  have range: "i < ?N" if "i \<in> set (concat (map (\<lambda>r. walked ?k t r 0) (pt_roots t)))" for i
  proof -
    from that obtain r where "r \<in> set (pt_roots t)" "i \<in> set (walked ?k t r 0)" by auto
    then show ?thesis using walked_range [OF t] fuel by blast
  qed
  from card_mono [of "{..< ?N}" "set (concat (map (\<lambda>r. walked ?k t r 0) (pt_roots t)))"] range
  have "card (set (concat (map (\<lambda>r. walked ?k t r 0) (pt_roots t)))) \<le> ?N" by auto
  then have "length (map snd (concat (map ?w (pt_roots t)))) \<le> ?N"
    unfolding snds distinct_card [OF dist] .
  then have "length (concat (map ?w (pt_roots t))) \<le> ?N" by (simp only: length_map)
  moreover have "i < ?N" if "(d, i) \<in> set (concat (map ?w (pt_roots t)))" for d i
  proof -
    from that have "i \<in> set (map snd (concat (map ?w (pt_roots t))))"
      unfolding set_map by (rule image_eqI [rotated]) (simp only: snd_conv)
    then show ?thesis unfolding snds by (rule range)
  qed
  moreover have "distinct (map snd (concat (map ?w (pt_roots t))))" unfolding snds by (rule dist)
  ultimately show ?thesis using vis by blast
qed

theorem visible_terminates_witness:
  "visible (snd (add_child 0 ''Source'' ''a'' 0 6 (snd (add_root ''Frame'' 0 14 tree_new)))) =
     Some [(0, 0), (1, 1)]"
proof -
  let ?t = "snd (add_child 0 ''Source'' ''a'' 0 6 (snd (add_root ''Frame'' 0 14 tree_new)))"
  have "tree_wf ?t"
    by (intro tree_wf_add_child tree_wf_add_root tree_wf_new) (simp add: add_root_def Let_def)
  from visible_terminates [OF this] obtain xs where "visible ?t = Some xs" by blast
  then show ?thesis
    by (simp add: visible_def add_child_def add_root_def Let_def tree_new_def push_child_def
        mk_node_def)
qed

end
