(* ===== verification/Packet.thy ===== *)
theory Packet
  imports Frame Tree
begin

text \<open>
  Packets, their summary, protocol flags and display fields, and the bounded packet store
  (\<open>src/src/dissect/packet.rs\<close>), with the data types of \<open>src/src/dissect/expert.rs\<close> they
  carry.  The store is a second interpretation of \<open>id_ring\<close>.
\<close>

section \<open>Link types\<close>

datatype link_type =
  LtNull | LtEthernet | LtIeee80211 | LtIeee80211Radio | LtRaw | LtLinuxSll | LtLinuxSll2
| LtUnknown nat

definition link_from_u32 :: "nat \<Rightarrow> link_type" where
  "link_from_u32 v =
     (if v = 0 then LtNull else if v = 1 then LtEthernet else if v = 12 then LtRaw
      else if v = 105 then LtIeee80211 else if v = 127 then LtIeee80211Radio
      else if v = 113 then LtLinuxSll else if v = 276 then LtLinuxSll2 else LtUnknown v)"

fun link_as_u32 :: "link_type \<Rightarrow> nat" where
  "link_as_u32 LtNull = 0"
| "link_as_u32 LtEthernet = 1"
| "link_as_u32 LtRaw = 12"
| "link_as_u32 LtIeee80211 = 105"
| "link_as_u32 LtIeee80211Radio = 127"
| "link_as_u32 LtLinuxSll = 113"
| "link_as_u32 LtLinuxSll2 = 276"
| "link_as_u32 (LtUnknown v) = v"

section \<open>Summary, flags and expert information\<close>

record packet_summary =
  ps_src :: string
  ps_dst :: string
  ps_protocol :: string
  ps_info :: string
  ps_len :: nat

definition default_summary :: packet_summary where
  "default_summary = \<lparr>ps_src = [], ps_dst = [], ps_protocol = [], ps_info = [], ps_len = 0\<rparr>"

record protocol_flags =
  pf_ethernet :: bool
  pf_vlan :: bool
  pf_arp :: bool
  pf_ipv4 :: bool
  pf_ipv6 :: bool
  pf_icmp :: bool
  pf_icmpv6 :: bool
  pf_tcp :: bool
  pf_udp :: bool
  pf_dns :: bool
  pf_mdns :: bool
  pf_llmnr :: bool
  pf_dhcp :: bool
  pf_http :: bool
  pf_http2 :: bool
  pf_tls :: bool
  pf_websocket :: bool
  pf_quic_looking :: bool
  pf_wifi :: bool
  pf_sip :: bool
  pf_rtp :: bool

definition default_flags :: protocol_flags where
  "default_flags = \<lparr>pf_ethernet = False, pf_vlan = False, pf_arp = False, pf_ipv4 = False,
     pf_ipv6 = False, pf_icmp = False, pf_icmpv6 = False, pf_tcp = False, pf_udp = False,
     pf_dns = False, pf_mdns = False, pf_llmnr = False, pf_dhcp = False, pf_http = False,
     pf_http2 = False, pf_tls = False, pf_websocket = False, pf_quic_looking = False,
     pf_wifi = False, pf_sip = False, pf_rtp = False\<rparr>"

definition flags_any :: "protocol_flags \<Rightarrow> bool" where
  "flags_any f \<longleftrightarrow>
     pf_ethernet f \<or> pf_arp f \<or> pf_ipv4 f \<or> pf_ipv6 f \<or> pf_icmp f \<or> pf_icmpv6 f \<or> pf_tcp f
     \<or> pf_udp f \<or> pf_dns f \<or> pf_http f \<or> pf_tls f"

definition protocol_name :: "protocol_flags \<Rightarrow> string" where
  "protocol_name f =
     (if pf_websocket f then ''WebSocket'' else if pf_http2 f then ''HTTP2''
      else if pf_http f then ''HTTP'' else if pf_tls f then ''TLS''
      else if pf_dhcp f then ''DHCP'' else if pf_mdns f then ''MDNS''
      else if pf_llmnr f then ''LLMNR'' else if pf_dns f then ''DNS''
      else if pf_quic_looking f then ''QUIC'' else if pf_tcp f then ''TCP''
      else if pf_udp f then ''UDP'' else if pf_icmp f then ''ICMP''
      else if pf_icmpv6 f then ''ICMPv6'' else if pf_arp f then ''ARP''
      else if pf_ipv6 f then ''IPv6'' else if pf_ipv4 f then ''IPv4''
      else if pf_ethernet f then ''Ethernet'' else ''Data'')"

datatype expert_severity = SevComment | SevNote | SevWarn | SevError

text \<open>The derived \<open>PartialOrd\<close> orders the severities as they are declared.\<close>

fun severity_rank :: "expert_severity \<Rightarrow> nat" where
  "severity_rank SevComment = 0"
| "severity_rank SevNote = 1"
| "severity_rank SevWarn = 2"
| "severity_rank SevError = 3"

instantiation expert_severity :: linorder
begin

definition less_eq_expert_severity :: "expert_severity \<Rightarrow> expert_severity \<Rightarrow> bool" where
  "a \<le> b \<longleftrightarrow> severity_rank a \<le> severity_rank b"

definition less_expert_severity :: "expert_severity \<Rightarrow> expert_severity \<Rightarrow> bool" where
  "a < b \<longleftrightarrow> severity_rank a < severity_rank b"

instance
proof
  fix a b :: expert_severity
  show "a \<le> b \<Longrightarrow> b \<le> a \<Longrightarrow> a = b"
    by (cases a; cases b) (simp_all add: less_eq_expert_severity_def)
qed (auto simp: less_eq_expert_severity_def less_expert_severity_def)

end

fun severity_str :: "expert_severity \<Rightarrow> string" where
  "severity_str SevComment = ''Comment''"
| "severity_str SevNote = ''Note''"
| "severity_str SevWarn = ''Warn''"
| "severity_str SevError = ''Error''"

record expert_info =
  ei_severity :: expert_severity
  ei_group :: string
  ei_message :: string

type_synonym display_fields = "string \<rightharpoonup> string"

record dissected_packet =
  dp_tree :: proto_tree
  dp_summary :: packet_summary
  dp_flags :: protocol_flags
  dp_expert :: "expert_info list"
  dp_payload_offset :: nat
  dp_payload :: bytes
  dp_decrypted :: "bytes option"
  dp_fields :: display_fields

record packet_record =
  pr_id :: nat
  pr_at :: nat
  pr_wall :: int
  pr_interface :: string
  pr_link_type :: link_type
  pr_orig_len :: nat
  pr_data :: bytes
  pr_summary :: packet_summary
  pr_flags :: protocol_flags
  pr_expert :: "expert_info list"
  pr_tree :: "proto_tree option"
  pr_decrypted :: "bytes option"
  pr_fields :: display_fields

text \<open>A captured packet of which only the bytes are known.\<close>

definition raw_record :: "bytes \<Rightarrow> link_type \<Rightarrow> packet_record" where
  "raw_record data lt = \<lparr>pr_id = 0, pr_at = 0, pr_wall = 0, pr_interface = [], pr_link_type = lt,
     pr_orig_len = length data, pr_data = data, pr_summary = default_summary, pr_flags = default_flags,
     pr_expert = [], pr_tree = None, pr_decrypted = None, pr_fields = Map.empty\<rparr>"

record layer_result =
  lr_payload :: bytes
  lr_offset :: nat

section \<open>Display fields\<close>

datatype field_slice = SliceIndex nat | SliceRange nat nat

definition apply_field_slice :: "string \<Rightarrow> field_slice option \<Rightarrow> string" where
  "apply_field_slice value s =
     (case s of
        None \<Rightarrow> value
      | Some (SliceIndex i) \<Rightarrow>
          (case idx (chars value) i of None \<Rightarrow> [] | Some c \<Rightarrow> c)
      | Some (SliceRange a b) \<Rightarrow>
          (let cs = chars value in
           if length cs \<le> a \<or> b \<le> a then [] else concat (take (min b (length cs) - a) (drop a cs))))"

definition field_candidates :: "string \<Rightarrow> string list" where
  "field_candidates name =
     (if name = ''http.host'' then [''http.request.host'', ''http.host'', ''Host''] else [name])"

definition strip_host_port :: "string \<Rightarrow> string" where
  "strip_host_port endpoint =
     (case rsplit_once (CHR '':'') endpoint of Some (host, _) \<Rightarrow> host | None \<Rightarrow> endpoint)"

definition endpoint_port :: "string \<Rightarrow> nat option" where
  "endpoint_port endpoint =
     (case rsplit_once (CHR '':'') endpoint of
        None \<Rightarrow> None
      | Some (_, port) \<Rightarrow> (case parse_uint u16_max port of Inl _ \<Rightarrow> None | Inr n \<Rightarrow> Some n))"

definition field_heuristic :: "string \<Rightarrow> protocol_flags \<Rightarrow> packet_summary \<Rightarrow> string option" where
  "field_heuristic name f s =
     (if name = ''http.request.method'' \<and> pf_http f then idx (split_whitespace (ps_info s)) 0
      else if name = ''http.response.code'' \<and> pf_http f \<and> starts_with (ps_info s) ''HTTP ''
        then idx (split_whitespace (ps_info s)) 1
      else if name = ''dns.qry.name'' \<and> pf_dns f then strip_prefix (ps_info s) ''Standard query ''
      else None)"

definition field_computed :: "string \<Rightarrow> packet_summary \<Rightarrow> string option" where
  "field_computed name s =
     (if name = ''ip.src'' then Some (strip_host_port (ps_src s))
      else if name = ''ip.dst'' then Some (strip_host_port (ps_dst s))
      else if name = ''tcp.srcport'' \<or> name = ''udp.srcport'' then map_option dec (endpoint_port (ps_src s))
      else if name = ''tcp.dstport'' \<or> name = ''udp.dstport'' then map_option dec (endpoint_port (ps_dst s))
      else if name = ''udp.port'' then
        map_option dec (case endpoint_port (ps_src s) of
            Some p \<Rightarrow> Some p | None \<Rightarrow> endpoint_port (ps_dst s))
      else None)"

fun first_field :: "packet_record \<Rightarrow> string list \<Rightarrow> string option" where
  "first_field p [] = None"
| "first_field p (c # cs) =
     (case pr_fields p c of
        Some v \<Rightarrow> Some v
      | None \<Rightarrow>
          (case field_heuristic c (pr_flags p) (pr_summary p) of
             Some v \<Rightarrow> Some v
           | None \<Rightarrow>
               (case field_computed c (pr_summary p) of
                  Some v \<Rightarrow> Some v | None \<Rightarrow> first_field p cs)))"

definition packet_field :: "packet_record \<Rightarrow> string \<Rightarrow> string option" where
  "packet_field p name = first_field p (field_candidates name)"

definition field_sliced :: "packet_record \<Rightarrow> string \<Rightarrow> field_slice option \<Rightarrow> string option" where
  "field_sliced p name s = map_option (\<lambda>v. apply_field_slice v s) (packet_field p name)"

section \<open>The packet store\<close>

record packet_store =
  st_packets :: "packet_record list"
  st_max :: nat
  st_next_id :: nat
  st_dropped :: nat

definition store_new :: "nat \<Rightarrow> packet_store" where
  "store_new mx = \<lparr>st_packets = [], st_max = max mx 1, st_next_id = 1, st_dropped = 0\<rparr>"

definition store_clear :: "packet_store \<Rightarrow> packet_store" where
  "store_clear s = s\<lparr>st_packets := [], st_dropped := 0\<rparr>"

definition store_push :: "packet_record \<Rightarrow> packet_store \<Rightarrow> packet_store" where
  "store_push r s =
     (let full = (st_max s \<le> length (st_packets s));
          s = (if full then s\<lparr>st_packets := tl (st_packets s), st_dropped := st_dropped s + 1\<rparr> else s);
          n = st_next_id s
      in s\<lparr>st_next_id := min (n + 1) u64_max, st_packets := st_packets s @ [r\<lparr>pr_id := n\<rparr>]\<rparr>)"

definition store_get :: "packet_store \<Rightarrow> nat \<Rightarrow> packet_record option" where
  "store_get s i = idx (st_packets s) i"

definition store_get_by_id :: "packet_store \<Rightarrow> nat \<Rightarrow> packet_record option" where
  "store_get_by_id s n = find (\<lambda>p. pr_id p = n) (st_packets s)"

definition store_filtered :: "packet_store \<Rightarrow> (packet_record \<Rightarrow> bool) \<Rightarrow> (nat \<times> packet_record) list" where
  "store_filtered s pred = filter (\<lambda>(i, p). pred p) (List.enumerate 0 (st_packets s))"

interpretation st: id_ring st_packets st_max st_next_id pr_id "\<lambda>n p. p\<lparr>pr_id := n\<rparr>" store_push
  by unfold_locales (auto simp: store_push_def Let_def)

section \<open>Properties\<close>

text \<open>Link-type numbers survive the enumeration: every 32-bit number is recovered from
  the variant it maps to.\<close>

theorem link_type_roundtrip: "link_as_u32 (link_from_u32 v) = v"
  by (simp add: link_from_u32_def)

lemma store_new_inv: "st.ring_inv (store_new m)"
  by (simp add: st.ring_inv_def store_new_def)

text \<open>pushing and clearing keep the store's invariant (bounded, identifiers
  consecutive), and the dropped counter goes up exactly when a packet is evicted: the
  packets held and dropped together count every push since the last clear.\<close>

theorem store_invariant:
  assumes "st.ring_inv s"
  shows "st.ring_inv (store_clear s) \<and>
    (st_next_id s < u64_max \<longrightarrow> st.ring_inv (store_push r s) \<and>
       length (st_packets (store_push r s)) + st_dropped (store_push r s) =
         Suc (length (st_packets s) + st_dropped s))"
proof (intro conjI impI)
  show "st.ring_inv (store_clear s)"
    using assms by (auto simp: st.ring_inv_def store_clear_def)
next
  assume "st_next_id s < u64_max"
  then show "st.ring_inv (store_push r s)" using assms by (intro st.ring_inv_push)
next
  have "st_packets s \<noteq> []" if "st_max s \<le> length (st_packets s)"
    using that assms by (auto simp: st.ring_inv_def)
  then show "length (st_packets (store_push r s)) + st_dropped (store_push r s) =
      Suc (length (st_packets s) + st_dropped s)"
    by (auto simp: store_push_def Let_def)
qed

theorem store_invariant_witness: "st.ring_inv (store_push (raw_record [1, 2] LtRaw) (store_new 3))"
  using store_invariant [OF store_new_inv [of 3], of "raw_record [1, 2] LtRaw"]
  by (simp add: store_new_def u64_max_def)

lemma colon_not_in_dec: "CHR '':'' \<notin> set (dec n)"
  using dec_digits digit_chr_ne_sign by metis

text \<open>the port and host an endpoint string shows are read back by the display fields:
  \<open>host:port\<close> splits at its last colon.\<close>

theorem endpoint_fields_roundtrip:
  "n \<le> u16_max \<Longrightarrow>
   strip_host_port (host @ '':'' @ dec n) = host \<and> endpoint_port (host @ '':'' @ dec n) = Some n"
  by (simp add: strip_host_port_def endpoint_port_def rsplit_once_append [OF colon_not_in_dec]
      parse_uint_dec)

theorem endpoint_fields_roundtrip_witness: "endpoint_port (''10.0.0.1'' @ '':'' @ dec 80) = Some 80"
  using endpoint_fields_roundtrip [of 80 "''10.0.0.1''"] by (simp add: u16_max_def)

end
