(* ===== verification/Expert.thy ===== *)
theory Expert
  imports Packet
begin

text \<open>
  Expert information (\<open>src/src/dissect/expert.rs\<close>): the HTTP status rule and the check of the
  IPv4 header checksum, with the arithmetic of the Internet checksum that the pcap writer
  shares.  The 32-bit accumulators are naturals: a header has at most 60 bytes.
\<close>

section \<open>The Internet checksum\<close>

text \<open>\<open>while sum >> 16 != 0\<close>: the carries are folded into the low 16 bits.\<close>

function fold16 :: "nat \<Rightarrow> nat" where
  "fold16 n = (if n < 65536 then n else fold16 (n mod 65536 + n div 65536))"
  by pat_completeness auto
termination
proof (relation "measure id")
  fix n :: nat
  assume "\<not> n < 65536"
  then have "0 < n div 65536" by (simp add: div_greater_zero_iff)
  moreover have "n = n mod 65536 + n div 65536 * 65536" by simp
  ultimately have "n mod 65536 + n div 65536 < n" by linarith
  then show "(n mod 65536 + n div 65536, n) \<in> measure id" by simp
qed simp

declare fold16.simps [simp del]

text \<open>The word at \<open>i\<close>; an odd last byte is the high half of its word.\<close>

definition word_at :: "bytes \<Rightarrow> nat \<Rightarrow> nat" where
  "word_at hdr i =
     (if i + 1 < length hdr then unat (be16 (hdr ! i) (hdr ! (i + 1))) else unat (be16 (hdr ! i) 0))"

definition even_offsets :: "nat \<Rightarrow> nat list" where
  "even_offsets n = map ((*) 2) [0..<(n + 1) div 2]"

definition ipv4_checksum :: "bytes \<Rightarrow> nat" where
  "ipv4_checksum hdr =
     65535 - fold16 (sum_list (map (\<lambda>i. if i = 10 then 0 else word_at hdr i) (even_offsets (length hdr))))"

section \<open>Rules\<close>

definition extract_http_status :: "string \<Rightarrow> nat option" where
  "extract_http_status info =
     (case split_whitespace info of
        p0 # p1 # _ \<Rightarrow>
          if p0 = ''HTTP'' then (case parse_uint u16_max p1 of Inr c \<Rightarrow> Some c | Inl _ \<Rightarrow> None) else None
      | _ \<Rightarrow> None)"

fun find_ipv4_offset :: "bytes \<Rightarrow> link_type \<Rightarrow> nat option" where
  "find_ipv4_offset data LtEthernet =
     (if length data < 14 then None
      else let tagged = (be16 (data ! 12) (data ! 13) = 0x8100 \<and> 18 \<le> length data);
               off = (if tagged then 18 else 14)
           in if be16 (data ! (off - 2)) (data ! (off - 1)) = 0x0800 then Some off else None)"
| "find_ipv4_offset data LtLinuxSll =
     (if 16 \<le> length data then if be16 (data ! 14) (data ! 15) = 0x0800 then Some 16 else None else None)"
| "find_ipv4_offset data LtNull = (if 4 \<le> length data then Some 4 else None)"
| "find_ipv4_offset data LtRaw = Some 0"
| "find_ipv4_offset data _ = None"

definition http_expert :: "string \<Rightarrow> expert_info list" where
  "http_expert info =
     (case extract_http_status info of
        Some code \<Rightarrow>
          if 400 \<le> code
          then [\<lparr>ei_severity = (if 500 \<le> code then SevError else SevWarn), ei_group = ''HTTP'',
                 ei_message = ''HTTP status '' @ dec code\<rparr>]
          else []
      | None \<Rightarrow> [])"

definition checksum_expert :: "bytes \<Rightarrow> link_type \<Rightarrow> expert_info list" where
  "checksum_expert data lt =
     (case find_ipv4_offset data lt of
        None \<Rightarrow> []
      | Some ip_off \<Rightarrow>
          if ip_off + 20 \<le> length data then
            (let ihl = unat (data ! ip_off AND 0x0f) * 4 in
             if 20 \<le> ihl \<and> ip_off + ihl \<le> length data then
               (let expected = ipv4_checksum (take ihl (drop ip_off data));
                    actual = unat (be16 (data ! (ip_off + 10)) (data ! (ip_off + 11)))
                in if expected \<noteq> actual \<and> actual \<noteq> 0
                   then [\<lparr>ei_severity = SevError, ei_group = ''Checksum'',
                          ei_message = ''IPv4 checksum bad (got '' @ hex_alt 6 actual @ '', expected ''
                            @ hex_alt 6 expected @ '')''\<rparr>]
                   else [])
             else [])
          else [])"

definition collect_expert ::
    "bytes \<Rightarrow> link_type \<Rightarrow> protocol_flags \<Rightarrow> packet_summary \<Rightarrow> expert_info list" where
  "collect_expert data lt flags summary =
     (if pf_http flags then http_expert (ps_info summary) else []) @ checksum_expert data lt"

section \<open>Folding and congruence\<close>

text \<open>Folding keeps the value modulo 65535, and only 0 folds to 0.\<close>

lemma fold16_less: "fold16 n < 65536"
  by (induction n rule: fold16.induct) (subst fold16.simps, simp)

lemma fold_step_mod: "(n mod 65536 + n div 65536) mod 65535 = n mod (65535 :: nat)"
proof -
  have "n = n mod 65536 + n div 65536 + 65535 * (n div 65536)" by simp
  then show ?thesis by (metis mod_mult_self2)
qed

lemma fold16_mod: "fold16 n mod 65535 = n mod 65535"
proof (induction n rule: fold16.induct)
  case (1 n)
  then show ?case using fold_step_mod [of n] by (subst fold16.simps) simp
qed

lemma fold16_zero: "fold16 n = 0 \<longleftrightarrow> n = 0"
proof (induction n rule: fold16.induct)
  case (1 n)
  have "\<not> n < 65536 \<Longrightarrow> n mod 65536 + n div 65536 \<noteq> 0" by (auto simp: div_eq_0_iff)
  with 1 show ?case by (subst fold16.simps) auto
qed

lemma fold16_small: "n < 65536 \<Longrightarrow> fold16 n = n"
  by (subst fold16.simps) simp

text \<open>Adding the complement of a folded sum folds to all ones: the receiver's check.\<close>

lemma fold16_complement: "fold16 (n + (65535 - fold16 n)) = 65535"
proof -
  let ?m = "n + (65535 - fold16 n)"
  have le: "fold16 n \<le> 65535" using fold16_less [of n] by simp
  have pos: "?m \<noteq> 0"
  proof
    assume z: "?m = 0"
    then have "n = 0" "fold16 n = 65535" using le by auto
    then show False using fold16_zero [of 0] by simp
  qed
  have "?m mod 65535 = (fold16 n + (65535 - fold16 n)) mod 65535"
    by (metis fold16_mod mod_add_left_eq)
  also have "\<dots> = 0" using le by simp
  finally have "fold16 ?m mod 65535 = 0" by (simp add: fold16_mod)
  moreover have "fold16 ?m \<noteq> 0" using pos by (simp only: fold16_zero not_False_eq_True)
  ultimately show ?thesis using fold16_less [of ?m] by (auto simp: mod_eq_0_iff_dvd dvd_def)
qed

end
