(* ===== verification/Pcap.thy ===== *)
theory Pcap
  imports Expert
begin

text \<open>
  Export of application frames as a capture file (\<open>src/src/pcap.rs\<close>): the invented Ethernet,
  IPv4 and TCP headers and the packets in the order they are written.  The file format is the
  \<open>pcap_file\<close> library's.
\<close>

record socket_addr =
  sa_ip :: "u8 \<times> u8 \<times> u8 \<times> u8"
  sa_port :: u16

definition octets :: "u8 \<times> u8 \<times> u8 \<times> u8 \<Rightarrow> bytes" where
  "octets ip = (case ip of (a, b, c, d) \<Rightarrow> [a, b, c, d])"

definition ip_checksum :: "bytes \<Rightarrow> nat" where
  "ip_checksum header =
     65535 - fold16 (sum_list (map (\<lambda>i. unat (be16 (header ! i) (header ! (i + 1))))
       (map ((*) 2) [0..<length header div 2])))"

definition ip_header :: "socket_addr \<Rightarrow> socket_addr \<Rightarrow> nat \<Rightarrow> bytes" where
  "ip_header src dst total_len =
     [0x45, 0] @ to_be 2 total_len @ to_be 2 0 @ to_be 2 0 @ [64, 6] @ to_be 2 0
     @ octets (sa_ip src) @ octets (sa_ip dst)"

definition build_tcp_packet :: "socket_addr \<Rightarrow> socket_addr \<Rightarrow> bytes \<Rightarrow> nat \<Rightarrow> bytes" where
  "build_tcp_packet src dst payload seq_no =
     (let eth = [2, 0, 0, 0, 0, 2, 2, 0, 0, 0, 0, 1, 8, 0];
          ip_payload_len = 20 + length payload;
          ip = ip_header src dst (20 + ip_payload_len);
          csum = ip_checksum ip;
          ip = ip[10 := word_of_nat (csum div 256), 11 := word_of_nat (csum mod 256)];
          tcp = to_be 2 (unat (sa_port src)) @ to_be 2 (unat (sa_port dst)) @ to_be 4 seq_no
            @ to_be 4 0 @ [0x50, 0x18] @ to_be 2 8192 @ to_be 2 0 @ to_be 2 0 @ payload
      in eth @ ip @ tcp)"

definition default_addrs :: "socket_addr \<times> socket_addr" where
  "default_addrs = (\<lparr>sa_ip = (10, 0, 0, 1), sa_port = 12345\<rparr>, \<lparr>sa_ip = (10, 0, 0, 2), sa_port = 80\<rparr>)"

text \<open>
  \<open>write_frames_pcap\<close>: the packets given to the writer, with their time since the epoch (zero
  for an earlier clock) and their length.
\<close>

definition frame_packet :: "socket_addr \<Rightarrow> socket_addr \<Rightarrow> frame \<Rightarrow> nat \<times> nat \<times> bytes" where
  "frame_packet src dst f =
     (let (s, d) = (case fr_direction f of DirOut \<Rightarrow> (src, dst) | DirIn \<Rightarrow> (dst, src));
          packet = build_tcp_packet s d (fr_payload f) (fr_id f mod 2 ^ 32)
      in (nat (fr_wall f), length packet mod 2 ^ 32, packet))"

definition write_frames_pcap ::
    "frame list \<Rightarrow> socket_addr \<Rightarrow> socket_addr \<Rightarrow> (nat \<times> nat \<times> bytes) list" where
  "write_frames_pcap frames src dst = map (frame_packet src dst) frames"

section \<open>The header and its checksum\<close>

text \<open>The header with its checksum, by byte.\<close>

definition sealed_header :: "socket_addr \<Rightarrow> socket_addr \<Rightarrow> nat \<Rightarrow> bytes" where
  "sealed_header src dst total_len =
     (let csum = ip_checksum (ip_header src dst total_len) in
      (ip_header src dst total_len)[10 := word_of_nat (csum div 256), 11 := word_of_nat (csum mod 256)])"

lemma length_ip_header [simp]: "length (ip_header src dst n) = 20"
  by (simp add: ip_header_def octets_def split: prod.split)

lemma length_sealed_header [simp]: "length (sealed_header src dst n) = 20"
  by (simp add: sealed_header_def Let_def)

lemma header_bytes:
  "ip_header src dst n =
     (case (sa_ip src, sa_ip dst) of ((a, b, c, d), (e, f, g, h)) \<Rightarrow>
        [0x45, 0, word_of_nat (n div 256), word_of_nat n, 0, 0, 0, 0, 64, 6, 0, 0, a, b, c, d, e, f, g, h])"
  by (simp add: ip_header_def octets_def to_be_2 split: prod.split)

lemma ip_checksum_less: "ip_checksum h < 65536"
  by (simp add: ip_checksum_def)

lemma offsets_20: "map ((*) 2) [0..<10] = [0, 2, 4, 6, 8, 10, 12, 14, 16, 18 :: nat]"
  by (simp add: upt_conv_Cons)

lemma sealed_checksum: "ipv4_checksum (sealed_header src dst n) = ip_checksum (ip_header src dst n)"
  by (cases "sa_ip src"; cases "sa_ip dst")
    (simp add: ipv4_checksum_def ip_checksum_def even_offsets_def offsets_20 sealed_header_def Let_def
      header_bytes word_at_def unat_be16)

lemma sealed_field:
  "unat (be16 (sealed_header src dst n ! 10) (sealed_header src dst n ! 11)) = ip_checksum (ip_header src dst n)"
  using ip_checksum_less [of "ip_header src dst n"]
  by (simp add: sealed_header_def Let_def unat_be16 unat_of_nat_u8 less_mult_imp_div_less)

definition eth_header :: bytes where
  "eth_header = [2, 0, 0, 0, 0, 2, 2, 0, 0, 0, 0, 1, 8, 0]"

definition tcp_segment :: "socket_addr \<Rightarrow> socket_addr \<Rightarrow> bytes \<Rightarrow> nat \<Rightarrow> bytes" where
  "tcp_segment src dst payload seq_no =
     to_be 2 (unat (sa_port src)) @ to_be 2 (unat (sa_port dst)) @ to_be 4 seq_no @ to_be 4 0
     @ [0x50, 0x18] @ to_be 2 8192 @ to_be 2 0 @ to_be 2 0 @ payload"

lemma build_tcp_packet_eq:
  "build_tcp_packet src dst payload seq_no =
     eth_header @ sealed_header src dst (40 + length payload) @ tcp_segment src dst payload seq_no"
  by (simp add: build_tcp_packet_def eth_header_def sealed_header_def tcp_segment_def Let_def)

lemma length_eth_header [simp]: "length eth_header = 14"
  by (simp add: eth_header_def)

lemma length_tcp_segment [simp]: "length (tcp_segment src dst payload seq_no) = 20 + length payload"
  by (simp add: tcp_segment_def length_to_be)

lemma length_built: "length (build_tcp_packet src dst payload seq_no) = 54 + length payload"
  by (simp add: build_tcp_packet_eq)

lemma header_sum:
  "sum_list (map (word_at (sealed_header src dst n)) (even_offsets 20)) =
     sum_list (map (\<lambda>i. unat (be16 (ip_header src dst n ! i) (ip_header src dst n ! (i + 1))))
       (map ((*) 2) [0..<10])) + ip_checksum (ip_header src dst n)"
  using ip_checksum_less [of "ip_header src dst n"]
  by (cases "sa_ip src"; cases "sa_ip dst")
    (simp add: even_offsets_def offsets_20 sealed_header_def Let_def header_bytes word_at_def unat_be16
      less_mult_imp_div_less)

lemma sealed_verifies: "fold16 (sum_list (map (word_at (sealed_header src dst n)) (even_offsets 20))) = 65535"
  unfolding header_sum ip_checksum_def length_ip_header using fold16_complement by simp

lemma exported_checksum_quiet: "checksum_expert (build_tcp_packet src dst payload seq_no) LtEthernet = []"
proof -
  let ?h = "sealed_header src dst (40 + length payload)" and ?p = "build_tcp_packet src dst payload seq_no"
  have nth: "?p ! (14 + i) = ?h ! i" if "i < 20" for i
    using that by (simp add: build_tcp_packet_eq nth_append)
  have h: "take 20 (drop 14 ?p) = ?h" by (simp add: build_tcp_packet_eq)
  have eth: "?p ! 12 = 8" "?p ! 13 = 0"
    by (simp_all add: build_tcp_packet_eq nth_append eth_header_def)
  have first: "?h ! 0 = 0x45" by (simp add: sealed_header_def Let_def ip_header_def)
  have off: "find_ipv4_offset ?p LtEthernet = Some 14"
    using length_built [of src dst payload seq_no] by (simp add: eth be16_def from_be_def)
  have fields: "?p ! 14 = 0x45" "?p ! 24 = ?h ! 10" "?p ! 25 = ?h ! 11"
    using nth [of 0] nth [of 10] nth [of 11] first by simp_all
  show ?thesis
    by (simp add: checksum_expert_def off Let_def length_built fields h sealed_checksum sealed_field
        del: find_ipv4_offset.simps)
qed

text \<open>
  The IPv4 header the exporter writes passes the receiver's check of RFC 1071 (its ten
  words, checksum included, fold to all ones), for every address, port and payload, and the
  expert rule that checks it in a dissected frame reports nothing.
\<close>

theorem exported_checksum_valid:
  "fold16 (sum_list (map (word_at (take 20 (drop 14 (build_tcp_packet src dst payload seq_no)))) (even_offsets 20))) = 65535
   \<and> checksum_expert (build_tcp_packet src dst payload seq_no) LtEthernet = []"
proof -
  have "take 20 (drop 14 (build_tcp_packet src dst payload seq_no)) = sealed_header src dst (40 + length payload)"
    by (simp add: build_tcp_packet_eq)
  then show ?thesis using sealed_verifies exported_checksum_quiet by simp
qed

end
