(* ===== verification/Layers.thy ===== *)
theory Layers
  imports Packet
begin

text \<open>
  What the dissectors share.  They mutate one protocol tree, one set of flags and one
  summary; the model threads the three as a \<open>dstate\<close>.  A dissector takes the parent node,
  its bytes and their offset in the frame, and returns the bytes it leaves to the next
  layer; \<open>None\<close> is a panic.  The locale \<open>layer\<close> is the contract of a dissector, and
  \<open>l7_env\<close> holds the third-party parsers the application layer calls.
\<close>

section \<open>State\<close>

record dstate =
  ds_tree :: proto_tree
  ds_flags :: protocol_flags
  ds_summary :: packet_summary

type_synonym layer_fun = "nat \<Rightarrow> bytes \<Rightarrow> nat \<Rightarrow> dstate \<Rightarrow> (layer_result \<times> dstate) option"

definition child :: "nat \<Rightarrow> string \<Rightarrow> string \<Rightarrow> nat \<Rightarrow> nat \<Rightarrow> dstate \<Rightarrow> dstate" where
  "child p label value offset n st =
     st\<lparr>ds_tree := snd (add_child p label value offset n (ds_tree st))\<rparr>"

definition sect :: "nat \<Rightarrow> string \<Rightarrow> nat \<Rightarrow> nat \<Rightarrow> dstate \<Rightarrow> nat \<times> dstate" where
  "sect p label offset n st =
     (fst (add_section p label offset n (ds_tree st)),
      st\<lparr>ds_tree := snd (add_section p label offset n (ds_tree st))\<rparr>)"

definition set_flags :: "(protocol_flags \<Rightarrow> protocol_flags) \<Rightarrow> dstate \<Rightarrow> dstate" where
  "set_flags f st = st\<lparr>ds_flags := f (ds_flags st)\<rparr>"

definition set_src :: "string \<Rightarrow> dstate \<Rightarrow> dstate" where
  "set_src s st = st\<lparr>ds_summary := (ds_summary st)\<lparr>ps_src := s\<rparr>\<rparr>"

definition set_dst :: "string \<Rightarrow> dstate \<Rightarrow> dstate" where
  "set_dst s st = st\<lparr>ds_summary := (ds_summary st)\<lparr>ps_dst := s\<rparr>\<rparr>"

definition set_protocol :: "string \<Rightarrow> dstate \<Rightarrow> dstate" where
  "set_protocol s st = st\<lparr>ds_summary := (ds_summary st)\<lparr>ps_protocol := s\<rparr>\<rparr>"

definition set_info :: "string \<Rightarrow> dstate \<Rightarrow> dstate" where
  "set_info s st = st\<lparr>ds_summary := (ds_summary st)\<lparr>ps_info := s\<rparr>\<rparr>"

text \<open>A loop of \<open>add_child\<close> calls with empty ranges at one offset: labels and values.\<close>

definition add_labels :: "nat \<Rightarrow> nat \<Rightarrow> (string \<times> string) list \<Rightarrow> dstate \<Rightarrow> dstate" where
  "add_labels p offset xs st = fold (\<lambda>(l, v). child p l v offset 0) xs st"

definition node_count :: "dstate \<Rightarrow> nat" where
  "node_count st = length (pt_nodes (ds_tree st))"

text \<open>\<open>return LayerResult { payload, payload_offset }\<close>\<close>

definition ret :: "bytes \<Rightarrow> nat \<Rightarrow> dstate \<Rightarrow> (layer_result \<times> dstate) option" where
  "ret payload offset st = Some (\<lparr>lr_payload = payload, lr_offset = offset\<rparr>, st)"

section \<open>Formatting\<close>

definition arrow_str :: string where
  "arrow_str = [CHR '' '', CHR 0xE2, CHR 0x86, CHR 0x92, CHR '' '']"

definition decu :: "'a::len word \<Rightarrow> string" where
  "decu w = dec (unat w)"

definition ipv4_str :: "u8 \<Rightarrow> u8 \<Rightarrow> u8 \<Rightarrow> u8 \<Rightarrow> string" where
  "ipv4_str a b c d = decu a @ ''.'' @ decu b @ ''.'' @ decu c @ ''.'' @ decu d"

definition colon_hex :: "bytes \<Rightarrow> string" where
  "colon_hex bs = join '':'' (map (\<lambda>b. hex02 (unat b)) bs)"

section \<open>Third-party parsers\<close>

text \<open>A hello carries its random, the client's its extensions too, application data its bytes.\<close>

datatype tls_record_type =
  TlsChangeCipherSpec | TlsAlert | TlsHandshake | TlsApplicationData | TlsHeartbeat | TlsOther

datatype tls_message =
  ClientHello bytes "bytes option" | ServerHello bytes | Certificate | OtherHandshake string
| AppDataMsg bytes | OtherMsg

record tls_record =
  tr_type :: tls_record_type
  tr_type_debug :: string
  tr_version_debug :: string
  tr_len :: nat
  tr_msgs :: "tls_message list"

record http_head =
  hh_len :: nat
  hh_method :: "string option"
  hh_path :: "string option"
  hh_code :: "nat option"
  hh_reason :: "string option"
  hh_headers :: "(string \<times> bytes) list"

record dns_message =
  dm_response :: bool
  dm_id :: nat
  dm_queries :: "(string \<times> string) list"
  dm_answers :: "(string \<times> string) list"

text \<open>
  \<open>hickory_proto::Message::from_bytes\<close>, \<open>httparse\<close> (\<open>Some\<close> for a complete head),
  \<open>hpack::Decoder\<close> (a function of the blocks decoded before), \<open>tls_parser\<close>, and the
  primitives of \<open>aws_lc_rs\<close>: HMAC-SHA256, HKDF's extract (with the empty salt) and expand,
  one AES-128 block, and opening AES-128-GCM and AES-256-GCM (key, nonce, associated data,
  bytes with the tag).  Opening happens in place; \<open>e_left\<close> is what it leaves in the buffer
  behind the plaintext.  \<open>e_traffic_secret\<close> is what the key log active during the dissection
  answers to \<open>quic_traffic_secret\<close>, \<open>None\<close> where there is no key log.
\<close>

record l7_env =
  e_dns :: "bytes \<Rightarrow> string + dns_message"
  e_http_request :: "bytes \<Rightarrow> http_head option"
  e_http_response :: "bytes \<Rightarrow> http_head option"
  e_hpack :: "bytes list \<Rightarrow> bytes \<Rightarrow> (bytes \<times> bytes) list option"
  e_tls :: "bytes \<Rightarrow> (bytes \<times> tls_record) option"
  e_hmac :: "bytes \<Rightarrow> bytes \<Rightarrow> bytes"
  e_extract :: "bytes \<Rightarrow> bytes"
  e_expand :: "bytes \<Rightarrow> bytes \<Rightarrow> nat \<Rightarrow> bytes option"
  e_aes128 :: "bytes \<Rightarrow> bytes \<Rightarrow> bytes option"
  e_open128 :: "bytes \<Rightarrow> bytes \<Rightarrow> bytes \<Rightarrow> bytes \<Rightarrow> bytes option"
  e_open256 :: "bytes \<Rightarrow> bytes \<Rightarrow> bytes \<Rightarrow> bytes \<Rightarrow> bytes option"
  e_left :: "bytes \<Rightarrow> bytes \<Rightarrow> bytes"
  e_traffic_secret :: "string option option"

text \<open>
  What the code relies on: \<open>parse_tls_plaintext\<close> returns a proper suffix behind at least a
  five-byte record header, an AES block is 16 bytes, a SHA-256 tag 32, and AEAD opening
  returns no more bytes than it was given.
\<close>

definition env_ok :: "l7_env \<Rightarrow> bool" where
  "env_ok env \<longleftrightarrow>
     (\<forall>r m t. e_tls env r = Some (m, t) \<longrightarrow> (\<exists>k. 5 \<le> k \<and> k \<le> length r \<and> m = drop k r)) \<and>
     (\<forall>k s m. e_aes128 env k s = Some m \<longrightarrow> length m = 16) \<and>
     (\<forall>k m. length (e_hmac env k m) = 32) \<and>
     (\<forall>k iv a c p. e_open128 env k iv a c = Some p \<longrightarrow> length p \<le> length c)"

text \<open>An environment in which every parser refuses its input and every cipher fails.\<close>

definition refusing_env :: l7_env where
  "refusing_env = \<lparr>e_dns = (\<lambda>_. Inl ''unexpected end of input''), e_http_request = (\<lambda>_. None),
     e_http_response = (\<lambda>_. None), e_hpack = (\<lambda>_ _. None), e_tls = (\<lambda>_. None),
     e_hmac = (\<lambda>_ _. replicate 32 0), e_extract = (\<lambda>_. replicate 32 0), e_expand = (\<lambda>_ _ _. None),
     e_aes128 = (\<lambda>_ _. None), e_open128 = (\<lambda>_ _ _ _. None), e_open256 = (\<lambda>_ _ _ _. None), e_left = (\<lambda>_ _. []),
     e_traffic_secret = None\<rparr>"

lemma refusing_env_ok: "env_ok refusing_env"
  by (simp add: env_ok_def refusing_env_def)

section \<open>The contract of a layer\<close>

definition st_ok :: "nat \<Rightarrow> dstate \<Rightarrow> bool" where
  "st_ok N st \<longleftrightarrow> tree_wf (ds_tree st) \<and> tree_within N (ds_tree st)"

text \<open>The result's payload is a part of the bytes given, at its offset, or empty.\<close>

definition part_of :: "bytes \<Rightarrow> nat \<Rightarrow> layer_result \<Rightarrow> bool" where
  "part_of data offset r \<longleftrightarrow>
     lr_payload r = [] \<or>
     (\<exists>k. lr_offset r = offset + k \<and> k + length (lr_payload r) \<le> length data \<and>
        lr_payload r = take (length (lr_payload r)) (drop k data))"

lemma node_count_simps [simp]:
  "node_count (child p l v off n st) = Suc (node_count st)"
  "node_count (set_flags f st) = node_count st"
  "node_count (set_src s st) = node_count st"
  "node_count (set_dst s st) = node_count st"
  "node_count (set_protocol s st) = node_count st"
  "node_count (set_info s st) = node_count st"
  by (simp_all add: node_count_def child_def set_flags_def set_src_def set_dst_def
      set_protocol_def set_info_def)

lemma ds_simps [simp]:
  "ds_summary (child p l v off n st) = ds_summary st"
  "ds_flags (child p l v off n st) = ds_flags st"
  "ds_summary (set_flags f st) = ds_summary st"
  "ds_flags (set_flags f st) = f (ds_flags st)"
  "ds_flags (set_src s st) = ds_flags st"
  "ds_flags (set_dst s st) = ds_flags st"
  "ds_flags (set_protocol s st) = ds_flags st"
  "ds_flags (set_info s st) = ds_flags st"
  "ds_summary (set_src s st) = (ds_summary st)\<lparr>ps_src := s\<rparr>"
  "ds_summary (set_dst s st) = (ds_summary st)\<lparr>ps_dst := s\<rparr>"
  "ds_summary (set_protocol s st) = (ds_summary st)\<lparr>ps_protocol := s\<rparr>"
  "ds_summary (set_info s st) = (ds_summary st)\<lparr>ps_info := s\<rparr>"
  by (simp_all add: child_def set_flags_def set_src_def set_dst_def set_protocol_def set_info_def)

lemma sect_eq [simp]: "sect p l off n st = (node_count st, child p l [] off n st)"
  by (simp add: sect_def node_count_def child_def add_section_def)

lemma st_ok_child [simp]:
  "st_ok N st \<Longrightarrow> p < node_count st \<Longrightarrow> off + n \<le> N \<Longrightarrow> st_ok N (child p l v off n st)"
  by (simp add: st_ok_def child_def node_count_def tree_wf_add_child tree_within_add_child)

lemma st_ok_updates [simp]:
  "st_ok N (set_flags f st) \<longleftrightarrow> st_ok N st"
  "st_ok N (set_src s st) \<longleftrightarrow> st_ok N st"
  "st_ok N (set_dst s st) \<longleftrightarrow> st_ok N st"
  "st_ok N (set_protocol s st) \<longleftrightarrow> st_ok N st"
  "st_ok N (set_info s st) \<longleftrightarrow> st_ok N st"
  by (simp_all add: st_ok_def set_flags_def set_src_def set_dst_def set_protocol_def set_info_def)

lemma add_labels_simps [simp]:
  "node_count (add_labels p off xs st) = node_count st + length xs"
  "ds_summary (add_labels p off xs st) = ds_summary st"
  "ds_flags (add_labels p off xs st) = ds_flags st"
  by (induction xs arbitrary: st) (auto simp: add_labels_def)

lemma st_ok_add_labels [simp]:
  "st_ok N st \<Longrightarrow> p < node_count st \<Longrightarrow> off \<le> N \<Longrightarrow> st_ok N (add_labels p off xs st)"
  by (induction xs arbitrary: st) (auto simp: add_labels_def)

lemma part_of_empty [simp]: "part_of data offset \<lparr>lr_payload = [], lr_offset = off\<rparr>"
  by (simp add: part_of_def)

lemma part_of_all [simp]: "part_of data offset \<lparr>lr_payload = data, lr_offset = offset\<rparr>"
  unfolding part_of_def by (rule disjI2, rule exI [of _ 0]) simp

lemma part_of_drop [simp]:
  "k \<le> length data \<Longrightarrow> part_of data offset \<lparr>lr_payload = drop k data, lr_offset = offset + k\<rparr>"
  unfolding part_of_def by (rule disjI2, rule exI [of _ k]) simp

lemma part_of_slice [simp]:
  "k \<le> e \<Longrightarrow> e \<le> length data \<Longrightarrow>
   part_of data offset \<lparr>lr_payload = take (e - k) (drop k data), lr_offset = offset + k\<rparr>"
  unfolding part_of_def by (rule disjI2, rule exI [of _ k]) simp

lemma part_of_trans:
  assumes "k \<le> e" "e \<le> length data" "part_of (take (e - k) (drop k data)) (offset + k) r"
  shows "part_of data offset r"
proof (cases "lr_payload r = []")
  case False
  with assms(3) obtain j where j: "lr_offset r = offset + k + j" "j + length (lr_payload r) \<le> e - k"
      "lr_payload r = take (length (lr_payload r)) (drop j (take (e - k) (drop k data)))"
    using assms(1,2) by (auto simp: part_of_def)
  from j(2) have "length (lr_payload r) \<le> e - (j + k)" by linarith
  with j(3) have "lr_payload r = take (length (lr_payload r)) (drop (k + j) data)"
    by (simp add: drop_take take_take add.commute min_def)
  with j assms(1,2) show ?thesis unfolding part_of_def by (intro disjI2 exI [of _ "k + j"]) simp
qed (simp add: part_of_def)

lemma part_of_trans_drop:
  "k \<le> length data \<Longrightarrow> part_of (drop k data) (offset + k) r \<Longrightarrow> part_of data offset r"
  using part_of_trans [of k "length data" data offset r] by simp

text \<open>
  A layer given bytes inside the frame, a parent that exists and a good tree does not
  panic, leaves a good tree whose nodes cover bytes of the frame only, keeps every node,
  and returns a part of its bytes.
\<close>

definition delivers :: "nat \<Rightarrow> dstate \<Rightarrow> bytes \<Rightarrow> nat \<Rightarrow> (layer_result \<times> dstate) option \<Rightarrow> bool" where
  "delivers N st data offset m \<longleftrightarrow>
     (\<exists>r st'. m = Some (r, st') \<and> st_ok N st' \<and> node_count st \<le> node_count st' \<and>
        part_of data offset r)"

lemma delivers_ret [simp]:
  "delivers N st data offset (ret p off st') \<longleftrightarrow>
     st_ok N st' \<and> node_count st \<le> node_count st' \<and> part_of data offset \<lparr>lr_payload = p, lr_offset = off\<rparr>"
  by (simp add: delivers_def ret_def)

lemma delivers_mono:
  "delivers N st1 data offset m \<Longrightarrow> node_count st \<le> node_count st1 \<Longrightarrow> delivers N st data offset m"
  by (fastforce simp: delivers_def)

text \<open>Running a step whose results satisfy \<open>P\<close> before the rest.\<close>

lemma delivers_bind:
  assumes "\<exists>x. m = Some x \<and> P x" and "\<And>x. P x \<Longrightarrow> delivers N st data offset (k x)"
  shows "delivers N st data offset (Option.bind m k)"
  using assms by auto

text \<open>A step that threads the state: it succeeds, and keeps the tree good and growing.\<close>

definition threads :: "nat \<Rightarrow> dstate \<Rightarrow> ('a \<times> dstate) option \<Rightarrow> bool" where
  "threads N st m \<longleftrightarrow> (\<exists>x st'. m = Some (x, st') \<and> st_ok N st' \<and> node_count st \<le> node_count st')"

lemma threads_Some [simp]:
  "threads N st (Some (x, st')) \<longleftrightarrow> st_ok N st' \<and> node_count st \<le> node_count st'"
  by (simp add: threads_def)

lemma threads_mono: "threads N st1 m \<Longrightarrow> node_count st \<le> node_count st1 \<Longrightarrow> threads N st m"
  by (fastforce simp: threads_def)

lemma delivers_thread:
  assumes "threads N st m"
    and "\<And>x st'. st_ok N st' \<Longrightarrow> node_count st \<le> node_count st' \<Longrightarrow> delivers N st data offset (k (x, st'))"
  shows "delivers N st data offset (Option.bind m k)"
  using assms by (auto simp: threads_def)

locale layer =
  fixes f :: layer_fun
  assumes contract: "st_ok N st \<Longrightarrow> p < node_count st \<Longrightarrow> offset + length data \<le> N \<Longrightarrow>
    delivers N st data offset (f p data offset st)"
begin

text \<open>Handing a slice of the bytes to the layer keeps the caller's contract.\<close>

lemma call_slice:
  assumes "st_ok N st1" "p < node_count st1" "offset + length data \<le> N"
    and "k \<le> e" "e \<le> length data" "node_count st \<le> node_count st1"
  shows "delivers N st data offset (f p (take (e - k) (drop k data)) (offset + k) st1)"
proof -
  have "delivers N st1 (take (e - k) (drop k data)) (offset + k) (f p (take (e - k) (drop k data)) (offset + k) st1)"
    by (rule contract) (use assms in auto)
  then show ?thesis
    using assms(4-6) part_of_trans by (fastforce simp: delivers_def)
qed

lemma call_drop:
  assumes "st_ok N st1" "p < node_count st1" "offset + length data \<le> N"
    and "k \<le> length data" "node_count st \<le> node_count st1"
  shows "delivers N st data offset (f p (drop k data) (offset + k) st1)"
  using call_slice [OF assms(1-4) order.refl assms(5)] by simp

end

end
