(* ===== verification/L7.thy ===== *)
theory L7
  imports Layers
begin

text \<open>
  Application-layer dissectors (\<open>src/src/dissect/dhcp.rs\<close>, \<open>dns.rs\<close>, \<open>http1.rs\<close>,
  \<open>http2.rs\<close>, \<open>tls_dissect.rs\<close>, \<open>websocket.rs\<close>, \<open>voip.rs\<close>), each with the lemma that it
  keeps the contract \<open>layer\<close>.
\<close>

section \<open>DHCP\<close>

definition dhcp_msg_type :: "u8 \<Rightarrow> string" where
  "dhcp_msg_type v =
     (if v = 1 then ''Discover'' else if v = 2 then ''Offer'' else if v = 3 then ''Request''
      else if v = 4 then ''Decline'' else if v = 5 then ''ACK'' else if v = 6 then ''NAK''
      else if v = 7 then ''Release'' else if v = 8 then ''Inform'' else ''DHCP'')"

function dhcp_options ::
    "bytes \<Rightarrow> nat \<Rightarrow> nat \<Rightarrow> nat \<Rightarrow> string \<Rightarrow> dstate \<Rightarrow> (string \<times> dstate) option" where
  "dhcp_options data sec offset i mt st =
     (if i + 1 < length data then
        if data ! i = 255 then Some (mt, st)
        else if data ! i = 0 then dhcp_options data sec offset (i + 1) mt st
        else let len = unat (data ! (i + 1)) in
          if length data < i + 2 + len then Some (mt, st)
          else if data ! i = 53 \<and> 1 \<le> len then
            (case idx data (i + 2) of
               None \<Rightarrow> None
             | Some v \<Rightarrow>
                 dhcp_options data sec offset (i + 2 + len) (dhcp_msg_type v)
                   (child sec ''Option 53 Message Type'' (dhcp_msg_type v) (offset + i) (2 + len) st))
          else dhcp_options data sec offset (i + 2 + len) mt st
      else Some (mt, st))"
  by pat_completeness auto
termination
  by (relation "measure (\<lambda>(data, sec, offset, i, mt, st). length data - i)") auto

declare dhcp_options.simps [simp del]

definition dissect_dhcp :: layer_fun where
  "dissect_dhcp parent data offset st =
     (let st = set_protocol ''DHCP'' (set_flags (pf_dhcp_update (\<lambda>_. True)) st);
          (sec, st) = sect parent ''Dynamic Host Configuration Protocol'' offset (min (length data) 240) st
      in if length data < 240 then ret data offset (set_info ''DHCP (truncated)'' st)
      else do {
        op1 \<leftarrow> idx data 0;
        xid \<leftarrow> map_option from_be (slice data 4 8);
        y \<leftarrow> slice data 16 20;
        let yiaddr = ipv4_str (y ! 0) (y ! 1) (y ! 2) (y ! 3);
        ch \<leftarrow> slice data 28 34;
        let chaddr = colon_hex ch;
        let st = child sec ''Message op'' (if op1 = 1 then ''BOOTREQUEST'' else ''BOOTREPLY'') offset 1 st;
        let st = child sec ''Transaction ID'' (hex_alt 10 xid) (offset + 4) 4 st;
        let st = child sec ''Your IP'' yiaddr (offset + 16) 4 st;
        let st = child sec ''Client MAC'' chaddr (offset + 28) 6 st;
        (msg_type, st) \<leftarrow>
          (if 240 < length data then do {
             cookie \<leftarrow> slice data 236 240;
             if cookie = [0x63, 0x82, 0x53, 0x63] then dhcp_options data sec offset 240 ''DHCP'' st
             else Some (''DHCP'', st) }
           else Some (''DHCP'', st));
        ret [] (offset + length data)
          (set_info (''DHCP '' @ msg_type @ '' xid='' @ hex_alt 2 xid @ '' yiaddr='' @ yiaddr
             @ '' chaddr='' @ chaddr) st) })"

lemma dhcp_options_ok:
  "st_ok N st \<Longrightarrow> sec < node_count st \<Longrightarrow> offset + length data \<le> N \<Longrightarrow>
   \<exists>mt' st'. dhcp_options data sec offset i mt st = Some (mt', st') \<and> st_ok N st' \<and>
     node_count st \<le> node_count st' \<and> ds_flags st' = ds_flags st"
proof (induction data sec offset i mt st rule: dhcp_options.induct)
  case (1 data sec offset i mt st)
  let ?len = "unat (data ! (i + 1))"
  consider (stop) "\<not> i + 1 < length data \<or> data ! i = 255"
    | (pad) "i + 1 < length data" "data ! i \<noteq> 255" "data ! i = 0"
    | (over) "i + 1 < length data" "data ! i \<noteq> 255" "data ! i \<noteq> 0" "length data < i + 2 + ?len"
    | (type) "i + 1 < length data" "data ! i \<noteq> 255" "data ! i \<noteq> 0" "\<not> length data < i + 2 + ?len"
        "data ! i = 53 \<and> 1 \<le> ?len"
    | (other) "i + 1 < length data" "data ! i \<noteq> 255" "data ! i \<noteq> 0" "\<not> length data < i + 2 + ?len"
        "\<not> (data ! i = 53 \<and> 1 \<le> ?len)"
    by blast
  then show ?case
  proof cases
    case stop
    then show ?thesis using "1.prems" by (subst dhcp_options.simps) auto
  next
    case pad
    with "1.IH"(1) "1.prems" show ?thesis by (subst dhcp_options.simps) simp
  next
    case over
    with "1.prems" show ?thesis by (subst dhcp_options.simps) (auto simp: Let_def)
  next
    case type
    let ?v = "data ! (i + 2)"
    let ?st = "child sec ''Option 53 Message Type'' (dhcp_msg_type ?v) (offset + i) (2 + ?len) st"
    have v: "idx data (i + 2) = Some ?v" using type by simp
    have "st_ok N ?st" using "1.prems" type by simp
    with "1.IH"(2) [OF type(1-3) refl type(4,5) v] "1.prems" show ?thesis
      using type v by (subst dhcp_options.simps) (fastforce simp: Let_def)
  next
    case other
    with "1.IH"(3) "1.prems" show ?thesis by (subst dhcp_options.simps) (auto simp: Let_def)
  qed
qed

interpretation dhcp: layer dissect_dhcp
proof
  fix N st p offset and data :: bytes
  assume a: "st_ok N st" "p < node_count st" "offset + length data \<le> N"
  show "delivers N st data offset (dissect_dhcp p data offset st)"
  proof (cases "length data < 240")
    case True
    with a show ?thesis by (simp add: dissect_dhcp_def Let_def)
  next
    case False
    then have ne: "data \<noteq> []" by auto
    have opts: "threads N st (dhcp_options data sec offset i mt st1)"
      if "st_ok N st1" "sec < node_count st1" "node_count st \<le> node_count st1" for st1 sec i mt
      using dhcp_options_ok [OF that(1,2) a(3)] that(3) by (fastforce simp: threads_def)
    from False ne a show ?thesis
      by (auto simp: dissect_dhcp_def Let_def opts intro!: delivers_thread)
  qed
qed

section \<open>DNS\<close>

definition dissect_dns :: "l7_env \<Rightarrow> layer_fun" where
  "dissect_dns env parent data offset st =
     (let st = set_protocol ''DNS'' (set_flags (pf_dns_update (\<lambda>_. True)) st);
          (sec, st) = sect parent ''Domain Name System'' offset (length data) st;
          st = (case e_dns env data of
              Inr msg \<Rightarrow>
                (let qr = (if dm_response msg then ''response'' else ''query'');
                     st = child sec ''Transaction ID'' (hex_alt 6 (dm_id msg)) offset 2 st;
                     st = child sec ''Flags'' qr (offset + 2) 2 st;
                     names = map fst (dm_queries msg);
                     st = add_labels sec offset
                       (map (\<lambda>(n, t). (''Query'', n @ '' '' @ t)) (dm_queries msg)) st;
                     st = add_labels sec offset
                       (map (\<lambda>(n, t). (''Answer'', n @ '' '' @ t)) (dm_answers msg)) st
                 in set_info (if names = [] then ''DNS '' @ qr
                      else ''DNS '' @ qr @ '' '' @ join '', '' names) st)
            | Inl e \<Rightarrow> set_info ''DNS (malformed)'' (child sec ''Parse error'' e offset 0 st))
      in ret [] (offset + length data) st)"

text \<open>
  A DNS message of fewer than four bytes does not parse (its header has twelve), so the
  ranges of the two header fields lie inside the data.
\<close>

definition dns_ok :: "l7_env \<Rightarrow> bool" where
  "dns_ok env \<longleftrightarrow> (\<forall>d msg. e_dns env d = Inr msg \<longrightarrow> 12 \<le> length d)"

lemma layer_dns: "dns_ok env \<Longrightarrow> layer (dissect_dns env)"
proof
  fix N st p offset and data :: bytes
  assume env: "dns_ok env" and a: "st_ok N st" "p < node_count st" "offset + length data \<le> N"
  show "delivers N st data offset (dissect_dns env p data offset st)"
  proof (cases "e_dns env data")
    case (Inr msg)
    then have "12 \<le> length data" using env by (auto simp: dns_ok_def)
    with Inr a show ?thesis by (auto simp: dissect_dns_def Let_def)
  qed (use a in \<open>auto simp: dissect_dns_def Let_def\<close>)
qed

section \<open>WebSocket\<close>

definition ws_op_name :: "u8 \<Rightarrow> string" where
  "ws_op_name opcode =
     (if opcode = 0 then ''Continuation'' else if opcode = 1 then ''Text''
      else if opcode = 2 then ''Binary'' else if opcode = 8 then ''Close''
      else if opcode = 9 then ''Ping'' else if opcode = 10 then ''Pong'' else ''Unknown'')"

text \<open>Payload length and header size; the extended lengths only when their bytes are there.\<close>

definition ws_lengths :: "bytes \<Rightarrow> (nat \<times> nat) option" where
  "ws_lengths data = do {
     b1 \<leftarrow> idx data 1;
     let plen = unat (b1 AND 0x7f);
     (plen, hdr) \<leftarrow>
       (if plen = 126 \<and> 4 \<le> length data then map_option (\<lambda>x. (from_be x, 4)) (slice data 2 4)
        else if plen = 127 \<and> 10 \<le> length data then map_option (\<lambda>x. (from_be x, 10)) (slice data 2 10)
        else Some (plen, 2));
     Some (plen, if b1 AND 0x80 \<noteq> 0 then hdr + 4 else hdr) }"

definition dissect_websocket :: layer_fun where
  "dissect_websocket parent data offset st =
     (let st = set_protocol ''WebSocket'' (set_flags (pf_websocket_update (\<lambda>_. True)) st)
      in if length data < 2 then ret data offset st
      else let (sec, st) = sect parent ''WebSocket'' offset (length data) st in do {
        b0 \<leftarrow> idx data 0;
        b1 \<leftarrow> idx data 1;
        let opcode = b0 AND 0x0f;
        let masked = (b1 AND 0x80 \<noteq> 0);
        (plen, hdr) \<leftarrow> ws_lengths data;
        let st = child sec ''FIN'' (bool_str (b0 AND 0x80 \<noteq> 0)) offset 1 st;
        let st = child sec ''Opcode'' (decu opcode @ '' ('' @ ws_op_name opcode @ '')'') offset 1 st;
        let st = child sec ''Masked'' (bool_str masked) (offset + 1) 1 st;
        let st = child sec ''Payload length'' (dec plen) (offset + 1) 1 st;
        let st = set_info (''WebSocket '' @ ws_op_name opcode @ '' len='' @ dec plen) st;
        ret (if hdr < length data then drop hdr data else []) (offset + hdr) st })"

lemma ws_lengths_total: "2 \<le> length data \<Longrightarrow> \<exists>plen hdr. ws_lengths data = Some (plen, hdr)"
  by (cases data; cases "tl data") (auto simp: ws_lengths_def Let_def)

interpretation websocket: layer dissect_websocket
proof
  fix N st p offset and data :: bytes
  assume a: "st_ok N st" "p < node_count st" "offset + length data \<le> N"
  show "delivers N st data offset (dissect_websocket p data offset st)"
  proof (cases "length data < 2")
    case True
    with a show ?thesis by (simp add: dissect_websocket_def Let_def)
  next
    case False
    then obtain plen hdr where "ws_lengths data = Some (plen, hdr)" using ws_lengths_total [of data] by auto
    moreover from False have "data \<noteq> []" by auto
    ultimately show ?thesis using a False by (simp add: dissect_websocket_def Let_def)
  qed
qed

section \<open>SIP and RTP\<close>

definition looks_like_sip :: "bytes \<Rightarrow> bool" where
  "looks_like_sip payload \<longleftrightarrow>
     (let s = from_utf8_lossy (take (min (length payload) 16) payload) in
      starts_with s ''SIP/2.0'' \<or> starts_with s ''INVITE '' \<or> starts_with s ''REGISTER ''
      \<or> starts_with s ''ACK '' \<or> starts_with s ''BYE '' \<or> starts_with s ''OPTIONS ''
      \<or> starts_with s ''CANCEL '')"

text \<open>\<open>text.lines().next()\<close>: up to the first line feed, less a carriage return before it.\<close>

definition first_line :: "string \<Rightarrow> string option" where
  "first_line s =
     (if s = [] then None
      else let l = takeWhile (\<lambda>c. c \<noteq> CHR 10) s in
        Some (if length l < length s \<and> l \<noteq> [] \<and> last l = CHR 13 then butlast l else l))"

definition dissect_sip :: "nat \<Rightarrow> bytes \<Rightarrow> dstate \<Rightarrow> dstate" where
  "dissect_sip parent payload st =
     (let st = set_flags (pf_sip_update (\<lambda>_. True)) st;
          first = (case first_line (from_utf8_lossy payload) of Some l \<Rightarrow> l | None \<Rightarrow> ''SIP'');
          st = set_info (concat (take 80 (chars first))) (set_protocol ''SIP'' st)
      in child parent ''SIP'' first 0 (min (length payload) 64) st)"

definition looks_like_rtp :: "bytes \<Rightarrow> bool option" where
  "looks_like_rtp payload =
     (if length payload < 12 then Some False
      else do { b \<leftarrow> idx payload 0; Some (drop_bit 6 b = 2) })"

definition dissect_rtp :: "nat \<Rightarrow> bytes \<Rightarrow> dstate \<Rightarrow> dstate option" where
  "dissect_rtp parent payload st =
     (if length payload < 12 then Some st
      else do {
        b1 \<leftarrow> idx payload 1;
        sq \<leftarrow> slice payload 2 4;
        ssrc \<leftarrow> slice payload 8 12;
        let st = set_protocol ''RTP'' (set_flags (pf_rtp_update (\<lambda>_. True)) st);
        let info = ''PT='' @ decu (b1 AND 0x7f) @ '' seq='' @ dec (from_be sq) @ '' SSRC=''
          @ hex_alt 10 (from_be ssrc);
        Some (child parent ''RTP'' info 0 12 (set_info info st)) })"

lemma looks_like_rtp_total: "looks_like_rtp payload \<noteq> None"
  by (cases payload) (auto simp: looks_like_rtp_def)

lemma st_ok_sip:
  "st_ok N st \<Longrightarrow> p < node_count st \<Longrightarrow> length payload \<le> N \<Longrightarrow>
   st_ok N (dissect_sip p payload st) \<and> node_count (dissect_sip p payload st) = Suc (node_count st)"
  by (simp add: dissect_sip_def Let_def)

lemma st_ok_rtp:
  "st_ok N st \<Longrightarrow> p < node_count st \<Longrightarrow> length payload \<le> N \<Longrightarrow>
   \<exists>st'. dissect_rtp p payload st = Some st' \<and> st_ok N st' \<and> node_count st \<le> node_count st'"
  by (simp add: dissect_rtp_def Let_def)

section \<open>HTTP/1\<close>

definition header_labels :: "(string \<times> bytes) list \<Rightarrow> (string \<times> string) list" where
  "header_labels hs = map (\<lambda>(n, v). (n, case from_utf8 v of Some s \<Rightarrow> s | None \<Rightarrow> ''?'')) hs"

text \<open>What both heads do: the first line, the headers, the summary, the body.\<close>

definition http1_head ::
    "string \<Rightarrow> string \<Rightarrow> http_head \<Rightarrow> nat \<Rightarrow> bytes \<Rightarrow> nat \<Rightarrow> dstate \<Rightarrow> (layer_result \<times> dstate) option" where
  "http1_head label line h sec data offset st =
     (let n = hh_len h;
          st = child sec label line offset (min n (length data)) st;
          st = add_labels sec offset (header_labels (hh_headers h)) st;
          st = set_info line st;
          body = (if n < length data then drop n data else []);
          st = (if body \<noteq> [] then
              child sec ''Body'' (dec (length body) @ '' bytes'') (offset + n) (length body) st else st)
      in ret body (offset + n) st)"

definition dissect_http1 :: "l7_env \<Rightarrow> layer_fun" where
  "dissect_http1 env parent data offset st =
     (let st = set_protocol ''HTTP'' (set_flags (pf_http_update (\<lambda>_. True)) st);
          (sec, st) = sect parent ''Hypertext Transfer Protocol'' offset (length data) st
      in case e_http_request env data of
        Some h \<Rightarrow>
          http1_head ''Request Line''
            (default_to ''?'' (hh_method h) @ '' '' @ default_to ''/'' (hh_path h)) h sec data offset st
      | None \<Rightarrow>
      case e_http_response env data of
        Some h \<Rightarrow>
          http1_head ''Status Line''
            (''HTTP '' @ dec (default_to 0 (hh_code h)) @ '' '' @ default_to [] (hh_reason h))
            h sec data offset st
      | None \<Rightarrow>
          ret data offset
            (set_info ''HTTP (partial)''
               (child sec ''Data'' (trim (from_utf8_lossy (take (min (length data) 80) data)))
                  offset (length data) st)))"

lemma http1_head_delivers:
  "st_ok N st1 \<Longrightarrow> sec < node_count st1 \<Longrightarrow> node_count st \<le> node_count st1 \<Longrightarrow>
   offset + length data \<le> N \<Longrightarrow>
   delivers N st data offset (http1_head label line h sec data offset st1)"
  by (auto simp: http1_head_def Let_def)

lemma layer_http1: "layer (dissect_http1 env)"
proof
  fix N st p offset and data :: bytes
  assume a: "st_ok N st" "p < node_count st" "offset + length data \<le> N"
  then show "delivers N st data offset (dissect_http1 env p data offset st)"
    by (auto simp: dissect_http1_def Let_def intro!: http1_head_delivers split: option.split)
qed

section \<open>HTTP/2\<close>

definition preface :: bytes where
  "preface = as_bytes (''PRI * HTTP/2.0'' @ [CHR 13, CHR 10, CHR 13, CHR 10] @ ''SM''
     @ [CHR 13, CHR 10, CHR 13, CHR 10])"

definition frame_type_name :: "u8 \<Rightarrow> string" where
  "frame_type_name t =
     (if t = 0 then ''DATA'' else if t = 1 then ''HEADERS'' else if t = 2 then ''PRIORITY''
      else if t = 3 then ''RST_STREAM'' else if t = 4 then ''SETTINGS''
      else if t = 5 then ''PUSH_PROMISE'' else if t = 6 then ''PING''
      else if t = 7 then ''GOAWAY'' else if t = 8 then ''WINDOW_UPDATE''
      else if t = 9 then ''CONTINUATION'' else ''UNKNOWN'')"

text \<open>The payload of one frame: HPACK for HEADERS (with the decoder's history), a size for DATA.\<close>

definition http2_payload ::
    "l7_env \<Rightarrow> bytes list \<Rightarrow> nat \<Rightarrow> nat \<Rightarrow> u8 \<Rightarrow> u8 \<Rightarrow> bytes \<Rightarrow> dstate \<Rightarrow> bytes list \<times> dstate" where
  "http2_payload env hist fr off typ fl payload st =
     (if typ = 1 then
        (let hdr_start = (if fl AND 0x20 \<noteq> 0 \<and> 5 \<le> length payload then 5 else 0) in
         if hdr_start < length payload then
           (let block = drop hdr_start payload in
            (hist @ [block],
             case e_hpack env hist block of
               Some hs \<Rightarrow> add_labels fr off (map (\<lambda>(k, v). (from_utf8_lossy k, from_utf8_lossy v)) hs) st
             | None \<Rightarrow> child fr ''HEADERS'' (dec (length payload) @ '' bytes (HPACK incomplete)'') off
                 (length payload) st))
         else (hist, st))
      else if typ = 0 then
        (hist, child fr ''DATA'' (dec (length payload) @ '' bytes'') off (length payload) st)
      else (hist, st))"

function http2_frames ::
    "l7_env \<Rightarrow> nat \<Rightarrow> nat \<Rightarrow> bytes \<Rightarrow> nat \<Rightarrow> nat \<Rightarrow> bytes list \<Rightarrow> string list \<Rightarrow> dstate \<Rightarrow>
     (string list \<times> dstate) option" where
  "http2_frames env parent sec data offset cur hist infos st =
     (if cur + 9 \<le> length data then
        let len = from_be (take 3 (drop cur data));
            typ = data ! (cur + 3); fl = data ! (cur + 4);
            stream = from_be ((data ! (cur + 5) AND 0x7f) # take 3 (drop (cur + 6) data));
            frame_end = cur + 9 + len
        in if length data < frame_end then
             Some (infos, child sec ''Truncated frame'' (''type='' @ decu typ @ '' len='' @ dec len)
                     (offset + cur) (length data - cur) st)
           else
             (let name = frame_type_name typ;
                  (fr, st) = sect parent (''HTTP2 '' @ name) (offset + cur) (9 + len) st;
                  st = child fr ''Length'' (dec len) (offset + cur) 3 st;
                  st = child fr ''Type'' (decu typ @ '' ('' @ name @ '')'') (offset + cur + 3) 1 st;
                  st = child fr ''Flags'' (hex_alt 4 (unat fl)) (offset + cur + 4) 1 st;
                  st = child fr ''Stream'' (dec stream) (offset + cur + 5) 4 st;
                  p = http2_payload env hist fr (offset + cur + 9) typ fl
                        (take len (drop (cur + 9) data)) st
              in http2_frames env parent sec data offset frame_end (fst p)
                   (infos @ [name @ '' sid='' @ dec stream]) (snd p))
      else Some (infos, st))"
  by pat_completeness auto
termination
  by (relation "measure (\<lambda>(env, parent, sec, data, offset, cur, hist, infos, st). length data - cur)") auto

declare http2_frames.simps [simp del]

definition dissect_http2 :: "l7_env \<Rightarrow> layer_fun" where
  "dissect_http2 env parent data offset st =
     (let st = set_protocol ''HTTP2'' (set_flags (pf_http2_update (\<lambda>_. True)) st);
          (sec, st) = sect parent ''HyperText Transfer Protocol 2'' offset (length data) st;
          pre = starts_with data preface;
          st = (if pre then child sec ''Connection Preface'' ''PRI * HTTP/2.0'' offset (length preface) st
                else st)
      in do {
        (infos, st) \<leftarrow> http2_frames env parent sec data offset (if pre then length preface else 0) [] [] st;
        let st = set_info (if infos = [] then ''HTTP/2'' else ''HTTP/2 '' @ join '', '' infos) st;
        ret [] (offset + length data) st })"

lemma http2_payload_ok:
  assumes "st_ok N st" "fr < node_count st" "off + length payload \<le> N"
  shows "st_ok N (snd (http2_payload env hist fr off typ fl payload st)) \<and>
    node_count st \<le> node_count (snd (http2_payload env hist fr off typ fl payload st))"
  using assms by (auto simp: http2_payload_def Let_def split: option.split)

lemma http2_frames_ok:
  "st_ok N st \<Longrightarrow> parent < node_count st \<Longrightarrow> sec < node_count st \<Longrightarrow> offset + length data \<le> N \<Longrightarrow>
   threads N st (http2_frames env parent sec data offset cur hist infos st)"
proof (induction env parent sec data offset cur hist infos st rule: http2_frames.induct)
  case (1 env parent sec data offset cur hist infos st)
  let ?len = "from_be (take 3 (drop cur data))"
  show ?case
  proof (cases "cur + 9 \<le> length data \<and> \<not> length data < cur + 9 + ?len")
    case False
    with "1.prems" show ?thesis by (subst http2_frames.simps) (auto simp: Let_def)
  next
    case True
    let ?name = "frame_type_name (data ! (cur + 3))"
    let ?stream = "from_be ((data ! (cur + 5) AND 0x7f) # take 3 (drop (cur + 6) data))"
    let ?fr = "node_count st"
    let ?st0 = "child parent (''HTTP2 '' @ ?name) [] (offset + cur) (9 + ?len) st"
    let ?st1 = "child ?fr ''Length'' (dec ?len) (offset + cur) 3 ?st0"
    let ?st2 = "child ?fr ''Type'' (decu (data ! (cur + 3)) @ '' ('' @ ?name @ '')'') (offset + cur + 3) 1 ?st1"
    let ?st3 = "child ?fr ''Flags'' (hex_alt 4 (unat (data ! (cur + 4)))) (offset + cur + 4) 1 ?st2"
    let ?st4 = "child ?fr ''Stream'' (dec ?stream) (offset + cur + 5) 4 ?st3"
    let ?p = "http2_payload env hist ?fr (offset + cur + 9) (data ! (cur + 3)) (data ! (cur + 4))
        (take ?len (drop (cur + 9) data)) ?st4"
    have "st_ok N ?st4" using True "1.prems" by simp
    moreover have "offset + cur + 9 + length (take ?len (drop (cur + 9) data)) \<le> N"
      using True "1.prems" by (auto simp: min_def)
    ultimately have p: "st_ok N (snd ?p) \<and> node_count ?st4 \<le> node_count (snd ?p)"
      by (intro http2_payload_ok) simp_all
    have eq: "http2_frames env parent sec data offset cur hist infos st =
        http2_frames env parent sec data offset (cur + 9 + ?len) (fst ?p)
          (infos @ [?name @ '' sid='' @ dec ?stream]) (snd ?p)"
      using True by (subst http2_frames.simps) (simp only: Let_def sect_eq prod.case if_True if_False simp_thms)
    have "threads N (snd ?p) (http2_frames env parent sec data offset (cur + 9 + ?len) (fst ?p)
        (infos @ [?name @ '' sid='' @ dec ?stream]) (snd ?p))"
      by (rule "1.IH" [OF _ refl refl refl refl refl _ refl sect_eq [symmetric, unfolded prod.inject] ])
        (use True p "1.prems" in auto)
    then show ?thesis unfolding eq by (rule threads_mono) (use p in simp)
  qed
qed

lemma layer_http2: "layer (dissect_http2 env)"
proof
  fix N st p offset and data :: bytes
  assume a: "st_ok N st" "p < node_count st" "offset + length data \<le> N"
  have "length preface \<le> length data" if "starts_with data preface"
    using starts_with_length [OF that] .
  moreover have fr: "threads N st (http2_frames env p sec data offset cur hist infos st1)"
    if "st_ok N st1" "sec < node_count st1" "node_count st \<le> node_count st1" for sec cur hist infos st1
    using http2_frames_ok [of N st1 p sec offset data env cur hist infos] that a threads_mono by fastforce
  ultimately show "delivers N st data offset (dissect_http2 env p data offset st)"
    using a by (auto simp: dissect_http2_def Let_def fr intro!: delivers_thread)
qed

section \<open>TLS records\<close>

fun tls_type_name :: "tls_record_type \<Rightarrow> string" where
  "tls_type_name TlsChangeCipherSpec = ''ChangeCipherSpec''"
| "tls_type_name TlsAlert = ''Alert''"
| "tls_type_name TlsHandshake = ''Handshake''"
| "tls_type_name TlsApplicationData = ''Application Data''"
| "tls_type_name TlsHeartbeat = ''Heartbeat''"
| "tls_type_name TlsOther = ''Record''"

text \<open>The walk over extensions for the server name; the position grows by at least four.\<close>

function extract_sni :: "bytes \<Rightarrow> nat \<Rightarrow> string option" where
  "extract_sni ext i =
     (if i + 4 \<le> length ext then
        let typ = from_be (take 2 (drop i ext)); len = from_be (take 2 (drop (i + 2) ext)); j = i + 4
        in if length ext < j + len then None
           else if typ = 0 \<and> 5 \<le> len \<and> j + 5 + from_be (take 2 (drop (j + 3) ext)) \<le> length ext
             then Some (from_utf8_lossy (take (from_be (take 2 (drop (j + 3) ext))) (drop (j + 5) ext)))
           else extract_sni ext (j + len)
      else None)"
  by pat_completeness auto
termination
  by (relation "measure (\<lambda>(ext, i). length ext - i)") auto

declare extract_sni.simps [simp del]

fun tls_message_step ::
    "nat \<Rightarrow> nat \<Rightarrow> tls_message \<Rightarrow> string list \<times> dstate \<Rightarrow> string list \<times> dstate" where
  "tls_message_step rc off (ClientHello random ext) (infos, st) =
     (let infos = infos @ [''ClientHello'']; st = child rc ''Handshake'' ''ClientHello'' (off + 5) 0 st in
      case ext of
        None \<Rightarrow> (infos, st)
      | Some e \<Rightarrow>
          (case extract_sni e 0 of
             None \<Rightarrow> (infos, st)
           | Some sni \<Rightarrow> (infos @ [''SNI='' @ sni], child rc ''SNI'' sni (off + 5) 0 st)))"
| "tls_message_step rc off (ServerHello random) (infos, st) =
     (infos @ [''ServerHello''], child rc ''Handshake'' ''ServerHello'' (off + 5) 0 st)"
| "tls_message_step rc off Certificate (infos, st) =
     (infos @ [''Certificate''], child rc ''Handshake'' ''Certificate'' (off + 5) 0 st)"
| "tls_message_step rc off (OtherHandshake dbg) (infos, st) =
     (let short = takeWhile (\<lambda>c. c \<noteq> CHR ''('') dbg
      in (infos @ [short], child rc ''Handshake'' short (off + 5) 0 st))"
| "tls_message_step rc off (AppDataMsg blob) (infos, st) = (infos @ [''AppData''], st)"
| "tls_message_step rc off OtherMsg (infos, st) = (infos, st)"

text \<open>
  The record loop, with fuel.  \<open>rest.len() - remain.len()\<close> panics when the parser returns
  more than it was given.
\<close>

fun tls_records ::
    "l7_env \<Rightarrow> nat \<Rightarrow> nat \<Rightarrow> nat \<Rightarrow> bytes \<Rightarrow> nat \<Rightarrow> string list \<Rightarrow> dstate \<Rightarrow>
     (string list \<times> dstate) option" where
  "tls_records env 0 parent sec rest off infos st = None"
| "tls_records env (Suc k) parent sec rest off infos st =
     (if rest = [] then Some (infos, st)
      else case e_tls env rest of
        Some (remain, tr) \<Rightarrow>
          if length rest < length remain then None
          else
            (let consumed = length rest - length remain;
                 (rc, st) = sect parent (''TLS Record ('' @ tls_type_name (tr_type tr) @ '')'') off consumed st;
                 st = child rc ''Content Type'' (tr_type_debug tr) off 1 st;
                 st = child rc ''Version'' (tr_version_debug tr) (off + 1) 2 st;
                 st = child rc ''Length'' (dec (tr_len tr)) (off + 3) 2 st;
                 r = fold (tls_message_step rc off) (tr_msgs tr) (infos, st)
             in tls_records env k parent sec remain (off + consumed) (fst r) (snd r))
      | None \<Rightarrow>
          (let n = dec (length rest) @ '' bytes'' in
           Some (if infos = [] then [n] else infos, child sec ''Data'' n off (length rest) st)))"

definition dissect_tls :: "l7_env \<Rightarrow> layer_fun" where
  "dissect_tls env parent data offset st =
     (let st = set_protocol ''TLS'' (set_flags (pf_tls_update (\<lambda>_. True)) st);
          (sec, st) = sect parent ''Transport Layer Security'' offset (length data) st
      in do {
        (infos, st) \<leftarrow> tls_records env (length data + 1) parent sec data offset [] st;
        let st = set_info (if infos = [] then ''TLS'' else ''TLS '' @ join '', '' infos) st;
        ret [] (offset + length data) st })"

lemma tls_message_step_ok:
  "st_ok N (snd is) \<Longrightarrow> rc < node_count (snd is) \<Longrightarrow> off + 5 \<le> N \<Longrightarrow>
   st_ok N (snd (tls_message_step rc off m is)) \<and>
   node_count (snd is) \<le> node_count (snd (tls_message_step rc off m is))"
  by (cases "is"; cases m) (auto simp: Let_def split: option.split)

lemma tls_messages_ok:
  "st_ok N (snd is) \<Longrightarrow> rc < node_count (snd is) \<Longrightarrow> off + 5 \<le> N \<Longrightarrow>
   st_ok N (snd (fold (tls_message_step rc off) ms is)) \<and>
   node_count (snd is) \<le> node_count (snd (fold (tls_message_step rc off) ms is))"
proof (induction ms arbitrary: "is")
  case (Cons m ms)
  from tls_message_step_ok [OF Cons.prems, of m]
  have s: "st_ok N (snd (tls_message_step rc off m is))"
    "node_count (snd is) \<le> node_count (snd (tls_message_step rc off m is))" by auto
  with Cons.IH [of "tls_message_step rc off m is"] Cons.prems show ?case by simp
qed simp

lemma tls_records_ok:
  assumes env: "env_ok env"
  shows "st_ok N st \<Longrightarrow> parent < node_count st \<Longrightarrow> sec < node_count st \<Longrightarrow>
    off + length rest \<le> N \<Longrightarrow> length rest < k \<Longrightarrow>
    threads N st (tls_records env k parent sec rest off infos st)"
proof (induction k arbitrary: rest off infos st)
  case (Suc k)
  show ?case
  proof (cases "rest = [] \<or> e_tls env rest = None")
    case True
    with Suc.prems show ?thesis by (auto simp: Let_def)
  next
    case False
    then obtain remain tr where tls: "e_tls env rest = Some (remain, tr)" by auto
    with env obtain c where c: "5 \<le> c" "c \<le> length rest" "remain = drop c rest"
      unfolding env_ok_def by blast
    then have len: "length rest - length remain = c" "length remain \<le> length rest" by auto
    let ?rc = "node_count st"
    let ?st = "child ?rc ''Length'' (dec (tr_len tr)) (off + 3) 2
      (child ?rc ''Version'' (tr_version_debug tr) (off + 1) 2
      (child ?rc ''Content Type'' (tr_type_debug tr) off 1
      (child parent (''TLS Record ('' @ tls_type_name (tr_type tr) @ '')'') [] off c st)))"
    let ?r = "fold (tls_message_step ?rc off) (tr_msgs tr) (infos, ?st)"
    have st: "st_ok N ?st" "?rc < node_count ?st" "off + 5 \<le> N" using Suc.prems c by simp_all
    from tls_messages_ok [of N "(infos, ?st)" ?rc off "tr_msgs tr"] st
    have r: "st_ok N (snd ?r)" "node_count ?st \<le> node_count (snd ?r)" by simp_all
    have "threads N (snd ?r) (tls_records env k parent sec remain (off + c) (fst ?r) (snd ?r))"
      by (rule Suc.IH) (use r Suc.prems c in auto)
    then have "threads N st (tls_records env k parent sec remain (off + c) (fst ?r) (snd ?r))"
      by (rule threads_mono) (use r in simp)
    with False tls len show ?thesis by (simp add: Let_def)
  qed
qed simp

lemma layer_tls: "env_ok env \<Longrightarrow> layer (dissect_tls env)"
proof
  fix N st p offset and data :: bytes
  assume env: "env_ok env" and a: "st_ok N st" "p < node_count st" "offset + length data \<le> N"
  have "threads N st (tls_records env (length data + 1) p sec data offset infos st1)"
    if "st_ok N st1" "sec < node_count st1" "node_count st \<le> node_count st1" for sec infos st1
    using tls_records_ok [OF env, of N st1 p sec offset data "length data + 1" infos] that a threads_mono
    by fastforce
  then show "delivers N st data offset (dissect_tls env p data offset st)"
    using a by (auto simp: dissect_tls_def Let_def intro!: delivers_thread)
qed

end
