(* ===== verification/Quic.thy ===== *)
theory Quic
  imports Layers
begin

text \<open>
  QUIC Initial and 1-RTT packets (\<open>src/src/dissect/quic.rs\<close>).  HMAC, HKDF's expand, AES and
  AEAD are the library's (\<open>l7_env\<close>); the key schedule, header parsing, header protection, the
  search for a packet number and the walk over CRYPTO frames are the code's.
\<close>

definition looks_like_quic_initial :: "bytes \<Rightarrow> bool option" where
  "looks_like_quic_initial udp =
     (if length udp < 7 then Some False
      else do { b0 \<leftarrow> idx udp 0; Some (b0 AND 0xf0 = 0xc0 \<or> b0 AND 0xf0 = 0xd0) })"

definition looks_like_quic_short :: "bytes \<Rightarrow> bool option" where
  "looks_like_quic_short udp =
     (if udp = [] then Some False else do { b0 \<leftarrow> idx udp 0; Some (b0 AND 0x80 = 0) })"

definition hex_bytes :: "bytes \<Rightarrow> string" where
  "hex_bytes b = concat (map (\<lambda>x. hex02 (unat x)) b)"

text \<open>A variable-length integer: its value and the offset behind it.\<close>

definition read_varint :: "bytes \<Rightarrow> nat \<Rightarrow> (nat \<times> nat) option" where
  "read_varint payload off =
     (if length payload \<le> off then None
      else let b0 = payload ! off; n = 2 ^ unat (drop_bit 6 b0) in
        if length payload \<le> off + n - 1 then None
        else Some (from_be ((b0 AND 0x3f) # take (n - 1) (drop (off + 1) payload)), off + n))"

lemma read_varint_bounds:
  "read_varint payload off = Some (v, off') \<Longrightarrow> off < off' \<and> off' \<le> length payload"
proof -
  assume a: "read_varint payload off = Some (v, off')"
  have "0 < (2 :: nat) ^ unat (drop_bit 6 (payload ! off))" by simp
  with a show ?thesis by (auto simp: read_varint_def Let_def split: if_splits)
qed

section \<open>CRYPTO frames\<close>

function annotate_crypto_frames :: "nat \<Rightarrow> bytes \<Rightarrow> nat \<Rightarrow> nat \<Rightarrow> dstate \<Rightarrow> dstate" where
  "annotate_crypto_frames parent plain off i st =
     (if i < length plain then
        if plain ! i = 6 then
          (case read_varint plain (i + 1) of
             None \<Rightarrow> st
           | Some (crypto_off, p2) \<Rightarrow>
               (case read_varint plain p2 of
                  None \<Rightarrow> st
                | Some (crypto_len, p) \<Rightarrow>
                    if p \<le> i then st
                    else annotate_crypto_frames parent plain off (p + crypto_len)
                      (child parent ''CRYPTO'' (''offset='' @ dec crypto_off @ '' len='' @ dec crypto_len)
                        (off + i) (min (p - i) (length plain - i)) st)))
        else if plain ! i = 0 then annotate_crypto_frames parent plain off (i + 1) st
        else if plain ! i = 1 then
          annotate_crypto_frames parent plain off (i + 1) (child parent ''PING'' [] (off + i) 1 st)
        else st
      else st)"
  by pat_completeness auto
termination
  by (relation "measure (\<lambda>(parent, plain, off, i, st). length plain - i)")
    (simp_all add: diff_less_mono2)

declare annotate_crypto_frames.simps [simp del]

text \<open>The guard \<open>p \<le> i\<close> above is never true: an integer read ends behind where it starts.\<close>

lemma varint_guard:
  "read_varint plain (i + 1) = Some (a, p2) \<Longrightarrow> read_varint plain p2 = Some (b, p) \<Longrightarrow> \<not> p \<le> i"
  by (auto dest!: read_varint_bounds)

lemma annotate_ok:
  "st_ok N st \<Longrightarrow> parent < node_count st \<Longrightarrow> off + length plain \<le> N \<Longrightarrow>
   st_ok N (annotate_crypto_frames parent plain off i st) \<and>
   node_count st \<le> node_count (annotate_crypto_frames parent plain off i st)"
proof (induction parent plain off i st rule: annotate_crypto_frames.induct)
  case (1 parent plain off i st)
  consider (stop) "\<not> i < length plain \<or> plain ! i \<notin> {6, 0, 1}"
    | (crypto) "i < length plain" "plain ! i = 6"
    | (pad) "i < length plain" "plain ! i = 0" | (ping) "i < length plain" "plain ! i = 1"
    by blast
  then show ?case
  proof cases
    case stop
    with "1.prems" show ?thesis by (subst (1 2) annotate_crypto_frames.simps) auto
  next
    case crypto
    show ?thesis
    proof (cases "read_varint plain (i + 1)")
      case None
      with crypto "1.prems" show ?thesis by (subst (1 2) annotate_crypto_frames.simps) simp
    next
      case (Some v)
      obtain crypto_off p2 where v: "v = (crypto_off, p2)" by force
      show ?thesis
      proof (cases "read_varint plain p2")
        case None
        with crypto Some v "1.prems" show ?thesis
          by (subst (1 2) annotate_crypto_frames.simps) simp
      next
        case (Some w)
        obtain crypto_len q where w: "w = (crypto_len, q)" by force
        have q: "\<not> q \<le> i" using varint_guard \<open>read_varint plain (i + 1) = Some v\<close> Some v w by blast
        let ?st = "child parent ''CRYPTO'' (''offset='' @ dec crypto_off @ '' len='' @ dec crypto_len)
            (off + i) (min (q - i) (length plain - i)) st"
        have st: "st_ok N ?st" using "1.prems" crypto by simp
        have eq: "annotate_crypto_frames parent plain off i st =
            annotate_crypto_frames parent plain off (q + crypto_len) ?st"
          using crypto \<open>read_varint plain (i + 1) = Some v\<close> Some v w q
          by (subst annotate_crypto_frames.simps) simp
        from "1.IH"(1) [OF crypto \<open>read_varint plain (i + 1) = Some v\<close> v [symmetric] Some w [symmetric] q st] "1.prems"
        show ?thesis unfolding eq by simp
      qed
    qed
  next
    case pad
    with "1.IH"(2) "1.prems" show ?thesis by (subst (1 2) annotate_crypto_frames.simps) simp
  next
    case ping
    have "st_ok N (child parent ''PING'' [] (off + i) 1 st)" using "1.prems" ping by simp
    with "1.IH"(3) "1.prems" ping show ?thesis
      by (subst (1 2) annotate_crypto_frames.simps) simp
  qed
qed

section \<open>Keys\<close>

record quic_keys =
  qk_client_key :: bytes
  qk_client_iv :: bytes
  qk_client_hp :: bytes
  qk_server_key :: bytes
  qk_server_iv :: bytes
  qk_server_hp :: bytes

text \<open>The label of HKDF-Expand-Label with an empty context (\<open>info\<close>).\<close>

definition hkdf_info :: "string \<Rightarrow> nat \<Rightarrow> bytes" where
  "hkdf_info label len =
     (let full_label = as_bytes (''tls13 '' @ label) in
      to_be 2 len @ [word_of_nat (length full_label)] @ full_label @ [0])"

definition hkdf_expand_label :: "l7_env \<Rightarrow> bytes \<Rightarrow> string \<Rightarrow> nat \<Rightarrow> bytes option" where
  "hkdf_expand_label env secret label len = e_expand env secret (hkdf_info label len) len"

text \<open>\<open>.try_into().ok()\<close> into an array of \<open>n\<close> bytes.\<close>

definition sized :: "nat \<Rightarrow> bytes option \<Rightarrow> bytes option" where
  "sized n b = (case b of None \<Rightarrow> None | Some x \<Rightarrow> if length x = n then Some x else None)"

definition initial_salt_v1 :: bytes where
  "initial_salt_v1 = [0x38, 0x76, 0x2c, 0xf7, 0xf5, 0x59, 0x34, 0xb3, 0x4d, 0x17, 0x9a, 0xe6, 0xa4,
     0xc8, 0x0c, 0xad, 0xcc, 0xbb, 0x7f, 0x0a]"

definition derive_initial_keys :: "l7_env \<Rightarrow> bytes \<Rightarrow> quic_keys option" where
  "derive_initial_keys env dcid =
     (let initial_secret = e_hmac env initial_salt_v1 dcid in do {
        client_secret \<leftarrow> hkdf_expand_label env initial_secret ''client in'' 32;
        server_secret \<leftarrow> hkdf_expand_label env initial_secret ''server in'' 32;
        ck \<leftarrow> sized 16 (hkdf_expand_label env client_secret ''quic key'' 16);
        ci \<leftarrow> sized 12 (hkdf_expand_label env client_secret ''quic iv'' 12);
        ch \<leftarrow> sized 16 (hkdf_expand_label env client_secret ''quic hp'' 16);
        sk \<leftarrow> sized 16 (hkdf_expand_label env server_secret ''quic key'' 16);
        si \<leftarrow> sized 12 (hkdf_expand_label env server_secret ''quic iv'' 12);
        sh \<leftarrow> sized 16 (hkdf_expand_label env server_secret ''quic hp'' 16);
        Some \<lparr>qk_client_key = ck, qk_client_iv = ci, qk_client_hp = ch,
          qk_server_key = sk, qk_server_iv = si, qk_server_hp = sh\<rparr> })"

text \<open>The key and nonce the 1-RTT dissector derives from a traffic secret.\<close>

definition quic_traffic_key :: "l7_env \<Rightarrow> bytes \<Rightarrow> (bytes \<times> bytes) option" where
  "quic_traffic_key env secret = do {
     key \<leftarrow> sized 16 (hkdf_expand_label env secret ''quic key'' 16);
     iv \<leftarrow> sized 12 (hkdf_expand_label env secret ''quic iv'' 12);
     Some (key, iv) }"

section \<open>Decryption\<close>

text \<open>\<open>decrypt_initial_payload\<close>: the packet number is mixed into the last eight nonce bytes.\<close>

definition decrypt_initial_payload ::
    "l7_env \<Rightarrow> bytes \<Rightarrow> bytes \<Rightarrow> nat \<Rightarrow> bytes \<Rightarrow> bytes \<Rightarrow> bytes option" where
  "decrypt_initial_payload env key iv pn header ct =
     (if length ct < 16 then None
      else e_open128 env key (take 4 iv @ map2 (XOR) (drop 4 iv) (to_be 8 pn)) header ct)"

definition remove_header_protection ::
    "l7_env \<Rightarrow> bytes \<Rightarrow> u8 \<Rightarrow> bytes \<Rightarrow> bytes \<Rightarrow> bool \<Rightarrow> (u8 \<times> bytes) option" where
  "remove_header_protection env hp first pn_bytes sample long =
     (if length sample < 16 then None
      else case e_aes128 env hp (take 16 sample) of
        None \<Rightarrow> None
      | Some msk \<Rightarrow>
          Some (first XOR (msk ! 0 AND (if long then 0x0f else 0x1f)),
            map (\<lambda>(i, b). if i + 1 < length msk then b XOR msk ! (1 + i) else b)
              (List.enumerate 0 pn_bytes)))"

lemma decrypt_shorter:
  "env_ok env \<Longrightarrow> decrypt_initial_payload env key iv pn h ct = Some p \<Longrightarrow> length p \<le> length ct"
  by (auto simp: decrypt_initial_payload_def env_ok_def split: if_splits)

lemma length_header_protection:
  "remove_header_protection env hp b pn s l = Some (b', pn') \<Longrightarrow> length pn' = length pn"
  by (auto simp: remove_header_protection_def split: if_splits option.splits)

section \<open>1-RTT packets\<close>

text \<open>\<open>hex::decode_loose\<close>: the hex digits of a string in pairs; a digit left over is dropped.\<close>

fun loose_pairs :: "bytes \<Rightarrow> bytes" where
  "loose_pairs (a # b # rest) = (16 * a + b) # loose_pairs rest"
| "loose_pairs _ = []"

definition decode_loose :: "string \<Rightarrow> bytes" where
  "decode_loose s =
     loose_pairs (concat (map (\<lambda>b. case hex_nibble b of Inr x \<Rightarrow> [x] | Inl _ \<Rightarrow> []) (as_bytes s)))"

text \<open>The first connection-identifier length and packet number that open the packet.\<close>

fun try_open_1rtt ::
    "l7_env \<Rightarrow> bytes \<Rightarrow> bytes \<Rightarrow> bytes \<Rightarrow> (nat \<times> nat) list \<Rightarrow> bytes option" where
  "try_open_1rtt env key iv payload [] = None"
| "try_open_1rtt env key iv payload ((dcid_len, pn) # rest) =
     (if length payload < 1 + dcid_len + 1 + 16 then try_open_1rtt env key iv payload rest
      else case decrypt_initial_payload env key iv pn (take (1 + dcid_len + 1) payload)
                  (drop (1 + dcid_len + 1) payload) of
        Some plain \<Rightarrow> Some plain
      | None \<Rightarrow> try_open_1rtt env key iv payload rest)"

definition dissect_quic_1rtt :: "l7_env \<Rightarrow> nat \<Rightarrow> bytes \<Rightarrow> nat \<Rightarrow> dstate \<Rightarrow> dstate option" where
  "dissect_quic_1rtt env parent payload payload_off st =
     (let (sec, st) = sect parent ''QUIC 1-RTT'' payload_off (min (length payload) 32) st
      in do {
        b0 \<leftarrow> idx payload 0;
        let st = child sec ''First byte'' (''0x'' @ hex02 (unat b0)) payload_off 1 st;
        let note = (\<lambda>msg. Some (set_info ''QUIC encrypted'' (child sec ''Note'' msg payload_off 0 st)));
        case e_traffic_secret env of
          None \<Rightarrow> note ''QUIC encrypted (no keylog)''
        | Some None \<Rightarrow> note ''QUIC encrypted (no traffic secret)''
        | Some (Some secret_hex) \<Rightarrow>
            let secret = decode_loose secret_hex in
            if length secret < 16 then note ''QUIC encrypted''
            else case quic_traffic_key env secret of
              None \<Rightarrow> Some (set_info ''QUIC encrypted'' st)
            | Some (key, iv) \<Rightarrow>
                (case try_open_1rtt env key iv payload
                        (concat (map (\<lambda>d. map (\<lambda>pn. (d, pn)) [0..<4]) [0..<9])) of
                   Some plain \<Rightarrow>
                     let st = child sec ''Decrypted'' (hex_bytes (take (min (length plain) 16) plain)) payload_off 0 st;
                         st = annotate_crypto_frames sec plain payload_off 0 st
                     in Some (set_info ''QUIC 1-RTT (decrypted)'' st)
                 | None \<Rightarrow> note ''QUIC encrypted'') })"

lemma try_open_shorter:
  "env_ok env \<Longrightarrow> try_open_1rtt env key iv payload cs = Some p \<Longrightarrow> length p \<le> length payload"
  by (induction cs) (auto dest!: decrypt_shorter split: if_splits option.splits)

definition keeps :: "nat \<Rightarrow> dstate \<Rightarrow> dstate option \<Rightarrow> bool" where
  "keeps N st m \<longleftrightarrow> (\<exists>st'. m = Some st' \<and> st_ok N st' \<and> node_count st \<le> node_count st')"

lemma keeps_Some [simp]:
  "keeps N st (Some st') \<longleftrightarrow> st_ok N st' \<and> node_count st \<le> node_count st'"
  by (simp add: keeps_def)

lemma quic_1rtt_ok:
  assumes "env_ok env" "st_ok N st" "p < node_count st" "off + length payload \<le> N" "payload \<noteq> []"
  shows "keeps N st (dissect_quic_1rtt env p payload off st)"
proof -
  have "Suc off \<le> N" using assms(4,5) by (cases payload) auto
  moreover have "keeps N st (Some (set_info x (annotate_crypto_frames sec plain off 0 st1)))"
    if "try_open_1rtt env key iv payload cs = Some plain" "st_ok N st1" "sec < node_count st1"
      "node_count st \<le> node_count st1" for x sec plain st1 key iv cs
    using annotate_ok [OF that(2,3), of off plain 0] try_open_shorter [OF assms(1) that(1)] that(4) assms(4)
    by simp
  ultimately show ?thesis using assms
    by (auto simp del: keeps_Some simp: dissect_quic_1rtt_def Let_def split: option.split)
       auto
qed

section \<open>Initial packets\<close>

text \<open>The QUIC dissector's early return, with the generic info text.\<close>

definition quic_encrypted :: "dstate \<Rightarrow> dstate option" where
  "quic_encrypted st = Some (set_info ''QUIC encrypted'' st)"

text \<open>
  Header protection: the client's key, and where it is refused the server's.  The first byte
  and the packet number's bytes are written back into the packet.
\<close>

definition quic_unprotect ::
    "l7_env \<Rightarrow> quic_keys \<Rightarrow> bytes \<Rightarrow> nat \<Rightarrow> nat \<Rightarrow> (bool \<times> bytes) option" where
  "quic_unprotect env keys packet pos pn_len_guess =
     (let sample_off = pos + 4 in
      if sample_off + 16 \<le> length packet then do {
        sample \<leftarrow> slice packet sample_off (sample_off + 16);
        first \<leftarrow> idx packet 0;
        pn_buf \<leftarrow> slice packet pos (pos + pn_len_guess);
        let opened = (case remove_header_protection env (qk_client_hp keys) first pn_buf sample True of
          Some r \<Rightarrow> Some r
        | None \<Rightarrow> remove_header_protection env (qk_server_hp keys) first pn_buf sample True);
        Some (case opened of
          None \<Rightarrow> (False, packet)
        | Some (first, pn_buf) \<Rightarrow>
            (let packet = packet[0 := first] in
             (True, take pos packet @ pn_buf @ drop (pos + pn_len_guess) packet))) }
      else Some (False, packet))"

text \<open>The last resort: packet numbers 0 to 7 under either side's key.\<close>

fun quic_try_pns :: "l7_env \<Rightarrow> quic_keys \<Rightarrow> bytes \<Rightarrow> bytes \<Rightarrow> nat list \<Rightarrow> bytes option" where
  "quic_try_pns env keys hdr ct [] = None"
| "quic_try_pns env keys hdr ct (pn # pns) =
     (case decrypt_initial_payload env (qk_client_key keys) (qk_client_iv keys) pn hdr ct of
        Some plain \<Rightarrow> Some plain
      | None \<Rightarrow>
          (case decrypt_initial_payload env (qk_server_key keys) (qk_server_iv keys) pn hdr ct of
             Some plain \<Rightarrow> Some plain
           | None \<Rightarrow> quic_try_pns env keys hdr ct pns))"

definition quic_initial_open ::
    "l7_env \<Rightarrow> quic_keys \<Rightarrow> nat \<Rightarrow> nat \<Rightarrow> bytes \<Rightarrow> nat \<Rightarrow> nat \<Rightarrow> nat \<Rightarrow> nat \<Rightarrow> dstate \<Rightarrow> dstate option" where
  "quic_initial_open env keys parent sec packet payload_off pos protected_len pn_len_guess st = do {
     b0 \<leftarrow> idx packet 0;
     let pn_len = unat (b0 AND 3) + 1;
     pn_bytes \<leftarrow> slice packet pos (pos + min pn_len (length packet - pos));
     let pn = from_be pn_bytes;
     let end_off = pos + protected_len;
     if end_off \<le> pos + pn_len \<or> length packet < end_off
     then Some (set_info ''QUIC Initial (keys ok, payload protected)'' st)
     else do {
       header \<leftarrow> slice packet 0 (pos + pn_len);
       ciphertext \<leftarrow> slice packet (pos + pn_len) end_off;
       case decrypt_initial_payload env (qk_client_key keys) (qk_client_iv keys) pn header ciphertext of
         Some plain \<Rightarrow>
           let (dec_sec, st) = sect parent ''QUIC Initial (decrypted)'' (payload_off + pos + pn_len)
                                 (min (length plain) 32) st;
               st = child dec_sec ''Plaintext'' (hex_bytes (take (min (length plain) 16) plain))
                      (payload_off + pos + pn_len) (min (length plain) 16) st
           in Some (set_info ''QUIC Initial (decrypted)''
                (annotate_crypto_frames dec_sec plain (payload_off + pos + pn_len) 0 st))
       | None \<Rightarrow>
       (case decrypt_initial_payload env (qk_server_key keys) (qk_server_iv keys) pn header ciphertext of
         Some plain \<Rightarrow>
           let (dec_sec, st) = sect parent ''QUIC Initial (decrypted, server)'' (payload_off + pos + pn_len)
                                 (min (length plain) 32) st
           in Some (set_info ''QUIC Initial (decrypted)''
                (annotate_crypto_frames dec_sec plain (payload_off + pos + pn_len) 0 st))
       | None \<Rightarrow> do {
           hdr \<leftarrow> slice packet 0 (pos + pn_len_guess);
           ct \<leftarrow> slice packet (pos + pn_len_guess) end_off;
           case quic_try_pns env keys hdr ct [0..<8] of
             Some plain \<Rightarrow>
               let (dec_sec, st) = sect parent ''QUIC Initial (decrypted)'' payload_off (min (length plain) 32) st
               in Some (set_info ''QUIC Initial (decrypted)''
                    (annotate_crypto_frames dec_sec plain payload_off 0 st))
           | None \<Rightarrow>
               Some (set_info ''QUIC Initial (keys ok, payload protected)''
                 (child sec ''Note'' ''QUIC Initial (keys ok, payload protected)'' payload_off 0 st)) }) } }"

text \<open>The connection identifiers, the token and the length: the header's end and fields.\<close>

definition dissect_quic_initial :: "l7_env \<Rightarrow> nat \<Rightarrow> bytes \<Rightarrow> nat \<Rightarrow> dstate \<Rightarrow> dstate option" where
  "dissect_quic_initial env parent payload payload_off st =
     (let st = set_protocol ''QUIC'' (set_flags (\<lambda>f. f\<lparr>pf_quic_looking := True\<rparr>) st) in
      if length payload < 7 then
        let st = set_info ''QUIC (short)'' st;
            (sec, st) = sect parent ''QUIC'' payload_off (length payload) st
        in Some (child sec ''Note'' ''Packet too short'' payload_off 0 st)
      else
        let (sec, st) = sect parent ''QUIC Initial'' payload_off (min (length payload) 64) st;
            packet = payload
        in do {
          b0 \<leftarrow> idx packet 0;
          let st = child sec ''First byte'' (''0x'' @ hex02 (unat b0)) payload_off 1 st;
          v \<leftarrow> slice packet 1 5;
          let st = child sec ''Version'' (''0x'' @ pad0 8 (hex (from_be v))) (payload_off + 1) 4 st;
          dcil_byte \<leftarrow> idx packet 5;
          let dcil = unat dcil_byte;
          if 20 < dcil \<or> length packet < 6 + dcil + 1
          then quic_encrypted (child sec ''Note'' ''QUIC encrypted'' payload_off 0 st)
          else do {
            dcid \<leftarrow> slice packet 6 (6 + dcil);
            let st = child sec ''DCID'' (hex_bytes dcid) (payload_off + 6) dcil st;
            let pos = 6 + dcil;
            scil_byte \<leftarrow> idx packet pos;
            let scil = unat scil_byte;
            let pos = pos + 1;
            if 20 < scil \<or> length packet < pos + scil then quic_encrypted st
            else case read_varint packet (pos + scil) of
              None \<Rightarrow> quic_encrypted st
            | Some (token_len, p) \<Rightarrow>
                (case read_varint packet (p + token_len) of
                   None \<Rightarrow> quic_encrypted st
                 | Some (protected_len, pos) \<Rightarrow>
                     let pn_len_guess = unat (b0 AND 3) + 1 in
                     if protected_len \<le> pn_len_guess \<or> length packet < pos + protected_len
                     then quic_encrypted st
                     else case derive_initial_keys env dcid of
                       None \<Rightarrow> quic_encrypted st
                     | Some keys \<Rightarrow> do {
                         let st = child sec ''Keys'' ''derived'' payload_off 0 st;
                         (hp_ok, packet) \<leftarrow> quic_unprotect env keys packet pos pn_len_guess;
                         let st = (if hp_ok then child sec ''HP'' ''removed'' payload_off 0 st else st);
                         quic_initial_open env keys parent sec packet payload_off pos protected_len
                           pn_len_guess st }) } })"

definition dissect_quic :: "l7_env \<Rightarrow> nat \<Rightarrow> bytes \<Rightarrow> nat \<Rightarrow> dstate \<Rightarrow> dstate option" where
  "dissect_quic env parent payload payload_off st =
     (let st = set_protocol ''QUIC'' (set_flags (\<lambda>f. f\<lparr>pf_quic_looking := True\<rparr>) st) in
      if payload = [] then Some (set_info ''QUIC (empty)'' st)
      else do {
        short \<leftarrow> looks_like_quic_short payload;
        if short then dissect_quic_1rtt env parent payload payload_off st
        else dissect_quic_initial env parent payload payload_off st })"

lemma keepsI:
  "st_ok N st' \<Longrightarrow> node_count st \<le> node_count st' \<Longrightarrow> keeps N st (Some st')"
  by simp

lemma quic_encrypted_ok [simp]:
  "keeps N st (quic_encrypted st') \<longleftrightarrow> st_ok N st' \<and> node_count st \<le> node_count st'"
  by (simp add: quic_encrypted_def)

lemma quic_unprotect_ok:
  assumes "packet \<noteq> []" "pos + k \<le> length packet"
  shows "\<exists>r. quic_unprotect env keys packet pos k = Some r \<and> length (snd r) = length packet"
  using assms
  by (auto simp: quic_unprotect_def Let_def idx_def slice_def dest!: length_header_protection
      split: option.split)

lemma quic_try_pns_shorter:
  "env_ok env \<Longrightarrow> quic_try_pns env keys hdr ct pns = Some p \<Longrightarrow> length p \<le> length ct"
  by (induction pns) (auto dest!: decrypt_shorter split: option.splits)

text \<open>A decrypted section whose plaintext fits behind its offset keeps the state good.\<close>

lemma annotate_section_ok:
  assumes "st_ok N st1" "parent < node_count st1" "node_count st \<le> node_count st1"
    and "off + length plain \<le> N"
  shows "keeps N st (Some (set_info x (annotate_crypto_frames (node_count st1) plain off 0
           (child parent l v off (min (length plain) n) st1))))"
    and "keeps N st (Some (set_info x (annotate_crypto_frames (node_count st1) plain off 0
           (child (node_count st1) l' v' off (min (length plain) n')
             (child parent l v off (min (length plain) n) st1)))))"
proof -
  let ?st = "child parent l v off (min (length plain) n) st1"
  have ok: "st_ok N ?st" using assms by simp
  from annotate_ok [OF ok _ assms(4), of "node_count st1" 0] assms(3)
  show "keeps N st (Some (set_info x (annotate_crypto_frames (node_count st1) plain off 0 ?st)))"
    by simp
  let ?st' = "child (node_count st1) l' v' off (min (length plain) n') ?st"
  have ok': "st_ok N ?st'" using assms ok by simp
  from annotate_ok [OF ok' _ assms(4), of "node_count st1" 0] assms(3)
  show "keeps N st (Some (set_info x (annotate_crypto_frames (node_count st1) plain off 0 ?st')))"
    by simp
qed

lemma quic_initial_open_ok:
  assumes "env_ok env" "st_ok N st1" "parent < node_count st1" "sec < node_count st1"
    and "node_count st \<le> node_count st1" "off + length packet \<le> N"
    and "k < plen" "pos + plen \<le> length packet"
  shows "keeps N st (quic_initial_open env keys parent sec packet off pos plen k st1)"
proof -
  have ne: "packet \<noteq> []" using assms(7,8) by auto
  have opened: "keeps N st (Some (set_info x (annotate_crypto_frames (node_count st1) plain o' 0
           (child parent l v o' (min (length plain) n) st1))))"
    "keeps N st (Some (set_info x (annotate_crypto_frames (node_count st1) plain o' 0
           (child (node_count st1) l' v' o' (min (length plain) n')
             (child parent l v o' (min (length plain) n) st1)))))"
    if "length plain + o' \<le> N" for x plain o' l v n l' v' n'
    using annotate_section_ok [OF assms(2,3,5), of o' plain] that by (simp_all add: add.commute)
  have bound: "length plain + (off + pos + m) \<le> N"
    if "length plain \<le> pos + plen - (pos + m)" "pos + m < pos + plen" for plain m
    using that assms(6,8) by linarith
  have bound0: "length plain + off \<le> N"
    if "length plain \<le> pos + plen - (pos + m)" for plain :: bytes and m
    using that assms(6,8) by linarith
  define b0 where "b0 = packet ! 0"
  define n where "n = unat (b0 AND 3) + 1"
  define e where "e = pos + plen"
  have i0: "idx packet 0 = Some b0" using ne by (simp add: idx_def b0_def)
  have sl: "slice packet a b = Some (take (b - a) (drop a packet))" if "a \<le> b" "b \<le> length packet" for a b
    using that by (simp add: slice_def)
  have pns: "slice packet pos (pos + min n (length packet - pos)) =
      Some (take (min n (length packet - pos)) (drop pos packet))"
    using assms(8) by (subst sl) auto
  note start = quic_initial_open_def i0 Let_def Option.bind.bind_lunit n_def [symmetric] e_def [symmetric] pns
  show ?thesis
  proof (cases "e \<le> pos + n \<or> length packet < e")
    case True
    then show ?thesis using assms(2,5) unfolding start by simp
  next
    case False
    let ?h = "take (pos + n) packet" and ?c = "take (e - (pos + n)) (drop (pos + n) packet)"
    let ?pn = "from_be (take (min n (length packet - pos)) (drop pos packet))"
    let ?C = "decrypt_initial_payload env (qk_client_key keys) (qk_client_iv keys) ?pn ?h ?c"
    let ?S = "decrypt_initial_payload env (qk_server_key keys) (qk_server_iv keys) ?pn ?h ?c"
    let ?T = "quic_try_pns env keys (take (pos + k) packet) (take (e - (pos + k)) (drop (pos + k) packet)) [0..<8]"
    have lt: "pos + n < e" "pos + k < e" "e \<le> length packet" using False assms(7) by (auto simp: e_def)
    have sls: "slice packet 0 (pos + n) = Some ?h" "slice packet (pos + n) e = Some ?c"
      "slice packet 0 (pos + k) = Some (take (pos + k) packet)"
      "slice packet (pos + k) e = Some (take (e - (pos + k)) (drop (pos + k) packet))"
      using lt by (simp_all add: sl)
    have C: "length p + (off + pos + n) \<le> N" if "?C = Some p \<or> ?S = Some p" for p
      using that lt assms(6) by (auto dest!: decrypt_shorter [OF assms(1)])
    have T: "length p + off \<le> N" if "?T = Some p" for p
      using quic_try_pns_shorter [OF assms(1) that] lt assms(6) by simp
    have noted: "keeps N st (Some (set_info x (child sec l v off 0 st1)))" for x l v
      using assms(2,4-6) by simp
    from False show ?thesis
      unfolding start Option.bind.bind_lunit sls
      by (cases ?C; cases ?S; cases ?T)
        (simp_all add: C T opened noted del: keeps_Some)
  qed
qed

lemma quic_initial_ok:
  assumes "env_ok env" "st_ok N st" "parent < node_count st" "off + length payload \<le> N"
  shows "keeps N st (dissect_quic_initial env parent payload off st)"
proof -
  have slices: "a \<le> b \<Longrightarrow> b \<le> length payload \<Longrightarrow> slice payload a b = Some (take (b - a) (drop a payload))"
    for a b by (simp add: slice_def)
  have bytes: "i < length payload \<Longrightarrow> idx payload i = Some (payload ! i)" for i
    by (simp add: idx_def)
  have first: "7 \<le> length payload \<Longrightarrow> idx payload 0 = Some (payload ! 0)"
    by (auto simp: idx_def)
  have guess: "k < plen \<Longrightarrow> \<not> length payload < pos + plen \<Longrightarrow>
      \<exists>r. quic_unprotect env keys payload pos k = Some r \<and> length (snd r) = length payload"
    for keys pos k plen by (rule quic_unprotect_ok) auto
  have opened: "keeps N st (Option.bind (quic_unprotect env keys payload pos k) (\<lambda>(hp_ok, packet).
        quic_initial_open env keys parent (node_count st) packet off pos plen k
          (if hp_ok then child (node_count st) l v off 0 st1 else st1)))"
    if "k < plen" "\<not> length payload < pos + plen" "st_ok N st1" "node_count st < node_count st1"
    for keys pos k plen l v st1
  proof -
    from guess [OF that(1,2), of keys] obtain b packet
      where r: "quic_unprotect env keys payload pos k = Some (b, packet)" "length packet = length payload"
      by auto
    show ?thesis unfolding r(1)
      using that r(2) assms by (auto intro!: quic_initial_open_ok simp del: keeps_Some)
  qed
  show ?thesis
    unfolding dissect_quic_initial_def
    using assms
    by (auto simp: Let_def slices bytes first not_less simp del: keeps_Some intro!: keepsI opened split: option.split)
qed

text \<open>The QUIC dissector does not panic and keeps the tree inside the frame.\<close>

lemma quic_ok:
  assumes "env_ok env" "st_ok N st" "parent < node_count st" "off + length payload \<le> N"
  shows "keeps N st (dissect_quic env parent payload off st)"
proof (cases "payload = []")
  case True
  with assms show ?thesis by (simp add: dissect_quic_def Let_def)
next
  case False
  let ?st = "set_protocol ''QUIC'' (set_flags (\<lambda>f. f\<lparr>pf_quic_looking := True\<rparr>) st)"
  have "keeps N ?st (dissect_quic_1rtt env parent payload off ?st)"
    "keeps N ?st (dissect_quic_initial env parent payload off ?st)"
    using assms False by (auto intro!: quic_1rtt_ok quic_initial_ok simp del: keeps_Some)
  then have "keeps N st (dissect_quic_1rtt env parent payload off ?st)"
    "keeps N st (dissect_quic_initial env parent payload off ?st)"
    by (simp_all add: keeps_def)
  with False show ?thesis
    by (simp add: dissect_quic_def Let_def looks_like_quic_short_def idx_def)
qed

end
