(* ===== verification/L4.thy ===== *)
theory L4
  imports L7 Quic
begin

text \<open>
  The transport layer (\<open>src/src/dissect/l4.rs\<close>): TCP and UDP headers, and the order in which
  ports and contents choose the application dissector.
\<close>

section \<open>Heuristics\<close>

definition format_tcp_flags :: "u8 \<Rightarrow> string" where
  "format_tcp_flags f =
     (let parts = (if f AND 0x01 \<noteq> 0 then [''FIN''] else []) @ (if f AND 0x02 \<noteq> 0 then [''SYN''] else [])
        @ (if f AND 0x04 \<noteq> 0 then [''RST''] else []) @ (if f AND 0x08 \<noteq> 0 then [''PSH''] else [])
        @ (if f AND 0x10 \<noteq> 0 then [''ACK''] else []) @ (if f AND 0x20 \<noteq> 0 then [''URG''] else [])
      in if parts = [] then hex_alt 4 (unat f) else join '','' parts)"

definition looks_like_tls :: "bytes \<Rightarrow> bool" where
  "looks_like_tls p \<longleftrightarrow>
     5 \<le> length p \<and> (p ! 0 = 0x16 \<or> p ! 0 = 0x17 \<or> p ! 0 = 0x15 \<or> p ! 0 = 0x14) \<and> p ! 1 = 3"

definition looks_like_http1 :: "bytes \<Rightarrow> bool" where
  "looks_like_http1 p =
     (let s = default_to [] (from_utf8 (take (min (length p) 16) p)) in
      starts_with s ''GET '' \<or> starts_with s ''POST '' \<or> starts_with s ''PUT ''
      \<or> starts_with s ''HEAD '' \<or> starts_with s ''DELETE '' \<or> starts_with s ''OPTIONS ''
      \<or> starts_with s ''PATCH '' \<or> starts_with s ''HTTP/1.'')"

definition looks_like_http2 :: "bytes \<Rightarrow> bool" where
  "looks_like_http2 p \<longleftrightarrow>
     \<not> length p < 9 \<and> p ! 3 \<le> 9 \<and> from_be (take 3 p) + 9 \<le> length p + 16384"

definition looks_like_ws_frame :: "bytes \<Rightarrow> bool" where
  "looks_like_ws_frame p \<longleftrightarrow>
     \<not> length p < 2 \<and> p ! 0 AND 0x0f \<in> {0, 1, 2, 8, 9, 10} \<and> p ! 0 AND 0x70 = 0"

text \<open>\<open>payload.windows(9).any(|w| w.eq_ignore_ascii_case(b"websocket"))\<close>\<close>

definition upgrades_to_websocket :: "bytes \<Rightarrow> bool" where
  "upgrades_to_websocket p \<longleftrightarrow>
     list_ex (\<lambda>i. eq_ignore_case (str_of (take 9 (drop i p))) ''websocket'') [0..<length p - 8]"

text \<open>\<open>summary.src = format!("{}:{}", summary.src, sport)\<close>, and the destination.\<close>

definition add_ports :: "nat \<Rightarrow> nat \<Rightarrow> dstate \<Rightarrow> dstate" where
  "add_ports sport dport st =
     (let st = (if ps_src (ds_summary st) \<noteq> [] then set_src (ps_src (ds_summary st) @ '':'' @ dec sport) st else st);
          st = (if ps_dst (ds_summary st) \<noteq> [] then set_dst (ps_dst (ds_summary st) @ '':'' @ dec dport) st else st)
      in st)"

section \<open>TCP\<close>

text \<open>The application dissector of a non-empty TCP payload.\<close>

definition tcp_payload :: "l7_env \<Rightarrow> nat \<Rightarrow> nat \<Rightarrow> layer_fun" where
  "tcp_payload env sport dport parent payload payload_off st =
     (if sport = 443 \<or> dport = 443 \<or> looks_like_tls payload
      then dissect_tls env parent payload payload_off st
      else if starts_with payload preface \<or> looks_like_http2 payload
      then dissect_http2 env parent payload payload_off st
      else if looks_like_http1 payload
      then do {
        (r, st) \<leftarrow> dissect_http1 env parent payload payload_off st;
        Some (r, if upgrades_to_websocket payload then set_flags (pf_websocket_update (\<lambda>_. True)) st else st) }
      else if pf_websocket (ds_flags st) \<or> looks_like_ws_frame payload
      then dissect_websocket parent payload payload_off st
      else if sport = 5060 \<or> dport = 5060 \<or> looks_like_sip payload
      then ret payload payload_off (dissect_sip parent payload st)
      else ret payload payload_off st)"

definition dissect_tcp :: "l7_env \<Rightarrow> layer_fun" where
  "dissect_tcp env parent data offset st =
     (if length data < 20 then ret data offset st
      else let st = set_flags (pf_tcp_update (\<lambda>_. True)) st in do {
        sport \<leftarrow> map_option from_be (slice data 0 2);
        dport \<leftarrow> map_option from_be (slice data 2 4);
        sq \<leftarrow> map_option from_be (slice data 4 8);
        ack \<leftarrow> map_option from_be (slice data 8 12);
        b12 \<leftarrow> idx data 12;
        fl \<leftarrow> idx data 13;
        window \<leftarrow> map_option from_be (slice data 14 16);
        let data_off = unat (drop_bit 4 b12) * 4;
        let hdr = min data_off (length data);
        let (sec, st) = sect parent ''Transmission Control Protocol'' offset hdr st;
        let st = child sec ''Source Port'' (dec sport) offset 2 st;
        let st = child sec ''Destination Port'' (dec dport) (offset + 2) 2 st;
        let st = child sec ''Sequence Number'' (dec sq) (offset + 4) 4 st;
        let st = child sec ''Acknowledgment Number'' (dec ack) (offset + 8) 4 st;
        let st = child sec ''Flags'' (format_tcp_flags fl) (offset + 13) 1 st;
        let st = child sec ''Window'' (dec window) (offset + 14) 2 st;
        let st = (if 20 < data_off \<and> data_off \<le> length data
            then child sec ''Options'' (dec (data_off - 20) @ '' bytes'') (offset + 20) (data_off - 20) st
            else st);
        let payload = (if hdr < length data then drop hdr data else []);
        let payload_off = offset + hdr;
        let st = set_protocol ''TCP'' (add_ports sport dport st);
        let st = set_info (dec sport @ arrow_str @ dec dport @ '' ['' @ format_tcp_flags fl @ ''] Seq=''
          @ dec sq @ '' Ack='' @ dec ack @ '' Win='' @ dec window @ '' Len='' @ dec (length payload)) st;
        if payload = [] then ret payload payload_off st
        else tcp_payload env sport dport parent payload payload_off st })"

section \<open>UDP\<close>

definition udp_is_quic :: "nat \<Rightarrow> nat \<Rightarrow> bytes \<Rightarrow> bool option" where
  "udp_is_quic sport dport payload = do {
     initial \<leftarrow> looks_like_quic_initial payload;
     if initial then Some True
     else do {
       short \<leftarrow> looks_like_quic_short payload;
       if short \<and> 20 < length payload then Some True
       else if (sport = 443 \<or> dport = 443) \<and> payload \<noteq> []
       then do { b0 \<leftarrow> idx payload 0; Some (b0 AND 0x80 \<noteq> 0) }
       else Some False } }"

text \<open>The application dissector of a UDP payload, which may be empty.\<close>

definition udp_payload :: "l7_env \<Rightarrow> nat \<Rightarrow> nat \<Rightarrow> layer_fun" where
  "udp_payload env sport dport parent payload payload_off st =
     (if sport = 53 \<or> dport = 53 \<or> sport = 5353 \<or> dport = 5353 \<or> sport = 5355 \<or> dport = 5355
      then do {
        (r, st) \<leftarrow> dissect_dns env parent payload payload_off st;
        Some (r,
          if sport = 5353 \<or> dport = 5353
          then set_protocol ''MDNS'' (set_flags (\<lambda>f. f\<lparr>pf_mdns := True, pf_dns := True\<rparr>) st)
          else if sport = 5355 \<or> dport = 5355
          then set_protocol ''LLMNR'' (set_flags (\<lambda>f. f\<lparr>pf_llmnr := True, pf_dns := True\<rparr>) st)
          else st) }
      else if sport = 67 \<or> dport = 67 \<or> sport = 68 \<or> dport = 68
      then dissect_dhcp parent payload payload_off st
      else if sport = 5060 \<or> dport = 5060 \<or> looks_like_sip payload
      then ret payload payload_off (dissect_sip parent payload st)
      else do {
        rtp \<leftarrow> looks_like_rtp payload;
        if rtp then do { st \<leftarrow> dissect_rtp parent payload st; ret payload payload_off st }
        else do {
          quic \<leftarrow> udp_is_quic sport dport payload;
          if quic then do {
            st \<leftarrow> dissect_quic env parent payload payload_off st;
            let info = ps_info (ds_summary st);
            ret payload payload_off
              (if info = [] \<or> starts_with info ''Len=''
               then set_info (dec sport @ arrow_str @ dec dport @ '' '' @ ps_protocol (ds_summary st)) st
               else st) }
          else ret payload payload_off st } })"

definition dissect_udp :: "l7_env \<Rightarrow> layer_fun" where
  "dissect_udp env parent data offset st =
     (if length data < 8 then ret data offset st
      else let st = set_flags (pf_udp_update (\<lambda>_. True)) st in do {
        sport \<leftarrow> map_option from_be (slice data 0 2);
        dport \<leftarrow> map_option from_be (slice data 2 4);
        len \<leftarrow> map_option from_be (slice data 4 6);
        let (sec, st) = sect parent ''User Datagram Protocol'' offset 8 st;
        let st = child sec ''Source Port'' (dec sport) offset 2 st;
        let st = child sec ''Destination Port'' (dec dport) (offset + 2) 2 st;
        let st = child sec ''Length'' (dec len) (offset + 4) 2 st;
        payload \<leftarrow> slice_from data 8;
        let st = set_protocol ''UDP'' (add_ports sport dport st);
        let st = set_info (dec sport @ arrow_str @ dec dport @ '' Len='' @ dec (length payload)) st;
        udp_payload env sport dport parent payload (offset + 8) st })"

section \<open>The contract\<close>

lemma add_ports_simps [simp]:
  "node_count (add_ports s d st) = node_count st"
  "st_ok N (add_ports s d st) = st_ok N st"
  "ds_flags (add_ports s d st) = ds_flags st"
  "ps_info (ds_summary (add_ports s d st)) = ps_info (ds_summary st)"
  "ps_protocol (ds_summary (add_ports s d st)) = ps_protocol (ds_summary st)"
  by (simp_all add: add_ports_def Let_def)

lemma delivers_map_state:
  assumes "delivers N st data offset m"
    and "\<And>st'. st_ok N (g st') = st_ok N st'" "\<And>st'. node_count (g st') = node_count st'"
  shows "delivers N st data offset (Option.bind m (\<lambda>(r, st'). Some (r, g st')))"
  using assms by (auto simp: delivers_def)

lemma delivers_keeps:
  assumes "keeps N st m"
    and "\<And>st'. st_ok N st' \<Longrightarrow> node_count st \<le> node_count st' \<Longrightarrow> delivers N st data offset (k st')"
  shows "delivers N st data offset (Option.bind m k)"
  using assms by (auto simp: keeps_def)

lemma layer_tcp_payload:
  assumes env: "env_ok env"
  shows "layer (tcp_payload env sport dport)"
proof
  fix N st p offset and data :: bytes
  assume a: "st_ok N st" "p < node_count st" "offset + length data \<le> N"
  have l: "delivers N st data offset (dissect_tls env p data offset st)"
    "delivers N st data offset (dissect_http2 env p data offset st)"
    "delivers N st data offset (dissect_http1 env p data offset st)"
    "delivers N st data offset (dissect_websocket p data offset st)"
    by (rule layer.contract [OF layer_tls [OF env] a] layer.contract [OF layer_http2 a]
        layer.contract [OF layer_http1 a] websocket.contract [OF a])+
  have "st_ok N (dissect_sip p data st) \<and> node_count (dissect_sip p data st) = Suc (node_count st)"
    by (rule st_ok_sip) (use a in auto)
  moreover have "delivers N st data offset (Option.bind (dissect_http1 env p data offset st) (\<lambda>(r, st').
      Some (r, if upgrades_to_websocket data then set_flags (pf_websocket_update (\<lambda>_. True)) st' else st')))"
    by (rule delivers_map_state [OF l(3)]) simp_all
  ultimately show "delivers N st data offset (tcp_payload env sport dport p data offset st)"
    unfolding tcp_payload_def using a l by simp
qed

lemma layer_tcp:
  assumes env: "env_ok env"
  shows "layer (dissect_tcp env)"
proof
  fix N st p offset and data :: bytes
  assume a: "st_ok N st" "p < node_count st" "offset + length data \<le> N"
  have l: "delivers N st data offset (tcp_payload env s d p (drop k data) (offset + k) st1)"
    if "st_ok N st1" "k \<le> length data" "node_count st \<le> node_count st1" for s d k st1
    using layer.call_drop [OF layer_tcp_payload [OF env], of N st1 p offset data k st s d] that a by simp
  show "delivers N st data offset (dissect_tcp env p data offset st)"
  proof (cases "length data < 20")
    case False
    then show ?thesis using a
      by (auto simp: dissect_tcp_def Let_def slice_def idx_def intro!: l)
  qed (use a in \<open>simp add: dissect_tcp_def\<close>)
qed

lemma udp_is_quic_total: "udp_is_quic s d payload \<noteq> None"
  by (cases payload) (auto simp: udp_is_quic_def looks_like_quic_initial_def looks_like_quic_short_def)

lemma layer_udp_payload:
  assumes env: "env_ok env" "dns_ok env"
  shows "layer (udp_payload env sport dport)"
proof
  fix N st p offset and data :: bytes
  assume a: "st_ok N st" "p < node_count st" "offset + length data \<le> N"
  have l: "delivers N st data offset (dissect_dns env p data offset st)"
    "delivers N st data offset (dissect_dhcp p data offset st)"
    by (rule layer.contract [OF layer_dns [OF env(2)] a] dhcp.contract [OF a])+
  have sip: "st_ok N (dissect_sip p data st) \<and> node_count (dissect_sip p data st) = Suc (node_count st)"
    by (rule st_ok_sip) (use a in auto)
  obtain strp where rtp: "dissect_rtp p data st = Some strp" "st_ok N strp" "node_count st \<le> node_count strp"
    using st_ok_rtp [of N st p data] a by auto
  obtain b where b: "looks_like_rtp data = Some b" using looks_like_rtp_total [of data] by blast
  obtain q where q: "udp_is_quic sport dport data = Some q" using udp_is_quic_total [of sport dport data] by blast
  have dns: "delivers N st data offset (Option.bind (dissect_dns env p data offset st) (\<lambda>(r, st').
      Some (r, if sport = 5353 \<or> dport = 5353
          then set_protocol ''MDNS'' (set_flags (\<lambda>f. f\<lparr>pf_mdns := True, pf_dns := True\<rparr>) st')
          else if sport = 5355 \<or> dport = 5355
          then set_protocol ''LLMNR'' (set_flags (\<lambda>f. f\<lparr>pf_llmnr := True, pf_dns := True\<rparr>) st')
          else st')))"
    by (rule delivers_map_state [OF l(1)]) simp_all
  have quic: "keeps N st (dissect_quic env p data offset st)" by (rule quic_ok) (use a env in auto)
  have quic': "delivers N st data offset (Option.bind (dissect_quic env p data offset st) (\<lambda>st'.
      ret data offset (if ps_info (ds_summary st') = [] \<or> starts_with (ps_info (ds_summary st')) ''Len=''
        then set_info (dec sport @ arrow_str @ dec dport @ '' '' @ ps_protocol (ds_summary st')) st' else st')))"
    by (rule delivers_keeps [OF quic]) simp
  show "delivers N st data offset (udp_payload env sport dport p data offset st)"
    unfolding udp_payload_def using a l dns sip rtp b q quic' by (simp add: Let_def)
qed

lemma layer_udp:
  assumes env: "env_ok env" "dns_ok env"
  shows "layer (dissect_udp env)"
proof
  fix N st p offset and data :: bytes
  assume a: "st_ok N st" "p < node_count st" "offset + length data \<le> N"
  have l: "delivers N st data offset (udp_payload env s d p (drop k data) (offset + k) st1)"
    if "st_ok N st1" "k \<le> length data" "node_count st \<le> node_count st1" for s d k st1
    using layer.call_drop [OF layer_udp_payload [OF env], of N st1 p offset data k st s d] that a by simp
  show "delivers N st data offset (dissect_udp env p data offset st)"
    using a by (auto simp: dissect_udp_def Let_def slice_def slice_from_def intro!: l)
qed

end
