(* ===== verification/L3.thy ===== *)
theory L3
  imports L4
begin

text \<open>
  The network layer (\<open>src/src/dissect/l3.rs\<close>): IPv4, IPv6 with its extension headers, ICMP
  and ICMPv6.  An ICMPv6 unreachable message quotes an IPv6 packet, which is dissected in
  turn; the depth of that recursion is the fuel of \<open>dissect_ipv6_fuel\<close>.
\<close>

section \<open>Names and addresses\<close>

definition proto_name :: "u8 \<Rightarrow> string" where
  "proto_name p =
     (if p = 1 then ''ICMP'' else if p = 6 then ''TCP'' else if p = 17 then ''UDP''
      else if p = 58 then ''ICMPv6'' else if p = 0 then ''HOPOPT'' else if p = 43 then ''IPv6-Route''
      else if p = 44 then ''IPv6-Frag'' else if p = 60 then ''IPv6-Opts'' else ''Unknown'')"

definition icmp_type_name :: "u8 \<Rightarrow> string" where
  "icmp_type_name t =
     (if t = 0 then ''Echo Reply'' else if t = 3 then ''Destination Unreachable''
      else if t = 8 then ''Echo Request'' else if t = 11 then ''Time Exceeded'' else ''Other'')"

definition icmpv6_type_name :: "u8 \<Rightarrow> string" where
  "icmpv6_type_name t =
     (if t = 1 then ''Destination Unreachable'' else if t = 2 then ''Packet Too Big''
      else if t = 3 then ''Time Exceeded'' else if t = 128 then ''Echo Request''
      else if t = 129 then ''Echo Reply'' else if t = 133 then ''Router Solicitation''
      else if t = 134 then ''Router Advertisement'' else if t = 135 then ''Neighbor Solicitation''
      else if t = 136 then ''Neighbor Advertisement'' else ''Other'')"

text \<open>
  \<open>Ipv6Addr::to_string\<close>: mapped IPv4 addresses in dotted form; otherwise the first longest
  run of two or more zero groups is written \<open>::\<close>.
\<close>

fun groups :: "bytes \<Rightarrow> nat list" where
  "groups (a # b # rest) = from_be [a, b] # groups rest"
| "groups _ = []"

definition zero_run :: "nat list \<Rightarrow> nat \<Rightarrow> nat" where
  "zero_run gs i = length (takeWhile (\<lambda>g. g = 0) (drop i gs))"

definition longest_run :: "nat list \<Rightarrow> nat \<times> nat" where
  "longest_run gs =
     fold (\<lambda>i (start, len). if len < zero_run gs i then (i, zero_run gs i) else (start, len))
       [0..<length gs] (0, 0)"

definition ipv6_str :: "bytes \<Rightarrow> string" where
  "ipv6_str b =
     (let gs = groups b; (start, len) = longest_run gs in
      if take 12 b = replicate 10 0 @ [0xff, 0xff]
      then ''::ffff:'' @ ipv4_str (b ! 12) (b ! 13) (b ! 14) (b ! 15)
      else if 1 < len
      then join '':'' (map hex (take start gs)) @ ''::'' @ join '':'' (map hex (drop (start + len) gs))
      else join '':'' (map hex gs))"

section \<open>ICMP\<close>

definition dissect_icmp :: layer_fun where
  "dissect_icmp parent data offset st =
     (let st = set_protocol ''ICMP'' (set_flags (pf_icmp_update (\<lambda>_. True)) st) in
      if length data < 4 then ret data offset st
      else do {
        typ \<leftarrow> idx data 0;
        code \<leftarrow> idx data 1;
        let (sec, st) = sect parent ''Internet Control Message Protocol'' offset (length data) st;
        let type_name = icmp_type_name typ;
        let st = child sec ''Type'' (decu typ @ '' ('' @ type_name @ '')'') offset 1 st;
        let st = child sec ''Code'' (decu code) (offset + 1) 1 st;
        st \<leftarrow>
          (if 8 \<le> length data \<and> (typ = 0 \<or> typ = 8) then do {
             ident \<leftarrow> map_option from_be (slice data 4 6);
             sq \<leftarrow> map_option from_be (slice data 6 8);
             let st = child sec ''Identifier'' (dec ident) (offset + 4) 2 st;
             let st = child sec ''Sequence'' (dec sq) (offset + 6) 2 st;
             Some (set_info (type_name @ '' id='' @ dec ident @ '' seq='' @ dec sq) st) }
           else Some (set_info (type_name @ '' code='' @ decu code) st));
        ret [] (offset + length data) st })"

text \<open>The target address of a neighbour message, when it is there.\<close>

definition neighbor_target ::
    "string \<Rightarrow> string \<Rightarrow> nat \<Rightarrow> bytes \<Rightarrow> nat \<Rightarrow> dstate \<Rightarrow> dstate option" where
  "neighbor_target text type_name sec data offset st =
     (if 24 \<le> length data then do {
        t \<leftarrow> slice data 8 24;
        let target = ipv6_str t;
        Some (set_info (text @ target) (child sec ''Target Address'' target (offset + 8) 16 st)) }
      else Some (set_info type_name st))"

text \<open>The quoted packet grows the tree; its flags and its summary are dropped.\<close>

definition quoted_packet :: "layer_fun \<Rightarrow> nat \<Rightarrow> bytes \<Rightarrow> nat \<Rightarrow> dstate \<Rightarrow> dstate option" where
  "quoted_packet dissect_inner sec data offset st = do {
     inner \<leftarrow> slice_from data 8;
     (_, st') \<leftarrow> dissect_inner sec inner (offset + 8)
       (st\<lparr>ds_flags := default_flags, ds_summary := default_summary\<rparr>);
     Some (st\<lparr>ds_tree := ds_tree st'\<rparr>) }"

definition dissect_icmpv6 :: "layer_fun \<Rightarrow> layer_fun" where
  "dissect_icmpv6 dissect_inner parent data offset st =
     (let st = set_protocol ''ICMPv6'' (set_flags (pf_icmpv6_update (\<lambda>_. True)) st) in
      if length data < 4 then ret data offset st
      else do {
        typ \<leftarrow> idx data 0;
        code \<leftarrow> idx data 1;
        let (sec, st) = sect parent ''Internet Control Message Protocol v6'' offset (length data) st;
        let type_name = icmpv6_type_name typ;
        let st = child sec ''Type'' (decu typ @ '' ('' @ type_name @ '')'') offset 1 st;
        let st = child sec ''Code'' (decu code) (offset + 1) 1 st;
        st \<leftarrow>
          (if (typ = 128 \<or> typ = 129) \<and> 8 \<le> length data then do {
             ident \<leftarrow> map_option from_be (slice data 4 6);
             sq \<leftarrow> map_option from_be (slice data 6 8);
             let st = child sec ''Identifier'' (dec ident) (offset + 4) 2 st;
             let st = child sec ''Sequence'' (dec sq) (offset + 6) 2 st;
             Some (set_info (type_name @ '' id='' @ dec ident @ '' seq='' @ dec sq) st) }
           else if typ = 133 then Some (set_info ''Router Solicitation'' st)
           else if typ = 134 then Some (set_info ''Router Advertisement'' st)
           else if typ = 135 then neighbor_target ''Neighbor Solicitation for '' type_name sec data offset st
           else if typ = 136 then neighbor_target ''Neighbor Advertisement '' type_name sec data offset st
           else if typ = 1 \<and> 8 < length data then
             quoted_packet dissect_inner sec data offset
               (set_info (''Destination Unreachable code='' @ decu code) st)
           else Some (set_info (type_name @ '' code='' @ decu code) st));
        ret [] (offset + length data) st })"

section \<open>IPv4\<close>

definition dissect_ipv4 :: "l7_env \<Rightarrow> layer_fun" where
  "dissect_ipv4 env parent data offset st =
     (if length data < 20 then ret data offset st
      else let st = set_flags (pf_ipv4_update (\<lambda>_. True)) st in do {
        b0 \<leftarrow> idx data 0;
        let ihl = unat (b0 AND 0x0f) * 4;
        if ihl < 20 \<or> length data < ihl then ret data offset st
        else do {
          total \<leftarrow> map_option from_be (slice data 2 4);
          ttl \<leftarrow> idx data 8;
          proto \<leftarrow> idx data 9;
          s \<leftarrow> slice data 12 16;
          d \<leftarrow> slice data 16 20;
          let src = ipv4_str (s ! 0) (s ! 1) (s ! 2) (s ! 3);
          let dst = ipv4_str (d ! 0) (d ! 1) (d ! 2) (d ! 3);
          let (sec, st) = sect parent ''Internet Protocol Version 4'' offset ihl st;
          let st = child sec ''Version'' ''4'' offset 1 st;
          let st = child sec ''Header Length'' (dec ihl @ '' bytes'') offset 1 st;
          let st = child sec ''Total Length'' (dec total) (offset + 2) 2 st;
          let st = child sec ''TTL'' (decu ttl) (offset + 8) 1 st;
          let st = child sec ''Protocol'' (decu proto @ '' ('' @ proto_name proto @ '')'') (offset + 9) 1 st;
          let st = child sec ''Source'' src (offset + 12) 4 st;
          let st = child sec ''Destination'' dst (offset + 16) 4 st;
          let st = set_protocol (proto_name proto) (set_dst dst (set_src src st));
          let end_off = max (min total (length data)) ihl;
          payload \<leftarrow> slice data ihl end_off;
          let payload_off = offset + ihl;
          if proto = 1 then dissect_icmp parent payload payload_off st
          else if proto = 6 then dissect_tcp env parent payload payload_off st
          else if proto = 17 then dissect_udp env parent payload payload_off st
          else ret payload payload_off
                 (set_info (src @ arrow_str @ dst @ '' proto='' @ proto_name proto) st) } })"

section \<open>IPv6\<close>

definition ext_name :: "u8 \<Rightarrow> string" where
  "ext_name nxt =
     (if nxt = 0 then ''IPv6 Hop-by-Hop Option'' else if nxt = 43 then ''IPv6 Routing''
      else if nxt = 44 then ''IPv6 Fragment'' else if nxt = 60 then ''IPv6 Destination Options''
      else ''IPv6 Extension'')"

text \<open>The walk over extension headers: the next header, the cursor and the state behind it.\<close>

function ext_headers :: "nat \<Rightarrow> bytes \<Rightarrow> nat \<Rightarrow> u8 \<Rightarrow> nat \<Rightarrow> dstate \<Rightarrow> u8 \<times> nat \<times> dstate" where
  "ext_headers parent data offset nxt cursor st =
     (if nxt \<in> {0, 43, 44, 60} \<and> \<not> length data < cursor + 2 then
        (let hdr_len = (if nxt = 44 then 8 else (unat (data ! (cursor + 1)) + 1) * 8);
             (ext, st) = sect parent (ext_name nxt) (offset + cursor) (min hdr_len (length data - cursor)) st;
             nh = data ! cursor;
             st = child ext ''Next Header'' (decu nh @ '' ('' @ proto_name nh @ '')'') (offset + cursor) 1 st
         in if length data < cursor + hdr_len then (nh, length data, st)
            else ext_headers parent data offset nh (cursor + hdr_len) st)
      else (nxt, cursor, st))"
  by pat_completeness auto
termination
  by (relation "measure (\<lambda>(parent, data, offset, nxt, cursor, st). length data - cursor)") auto

declare ext_headers.simps [simp del]

text \<open>The upper layer behind the extension headers.\<close>

fun ipv6_upper ::
    "l7_env \<Rightarrow> layer_fun \<Rightarrow> nat \<Rightarrow> bytes \<Rightarrow> nat \<Rightarrow> string \<Rightarrow> string \<Rightarrow> u8 \<times> nat \<times> dstate \<Rightarrow>
     (layer_result \<times> dstate) option" where
  "ipv6_upper env dissect_inner parent data offset src dst (nxt, cursor, st) = do {
     payload \<leftarrow> slice_from data cursor;
     let payload_off = offset + cursor;
     let st = set_protocol (proto_name nxt) st;
     if nxt = 58 then dissect_icmpv6 dissect_inner parent payload payload_off st
     else if nxt = 6 then dissect_tcp env parent payload payload_off st
     else if nxt = 17 then dissect_udp env parent payload payload_off st
     else ret payload payload_off (set_info (src @ arrow_str @ dst) st) }"

text \<open>One packet; \<open>dissect_inner\<close> dissects the packet an ICMPv6 message quotes.\<close>

definition ipv6_packet :: "l7_env \<Rightarrow> layer_fun \<Rightarrow> layer_fun" where
  "ipv6_packet env dissect_inner parent data offset st =
     (if length data < 40 then ret data offset st
      else let st = set_flags (pf_ipv6_update (\<lambda>_. True)) st in do {
        payload_len \<leftarrow> map_option from_be (slice data 4 6);
        nxt \<leftarrow> idx data 6;
        hop \<leftarrow> idx data 7;
        src \<leftarrow> map_option ipv6_str (slice data 8 24);
        dst \<leftarrow> map_option ipv6_str (slice data 24 40);
        let (sec, st) = sect parent ''Internet Protocol Version 6'' offset 40 st;
        let st = child sec ''Payload Length'' (dec payload_len) (offset + 4) 2 st;
        let st = child sec ''Next Header'' (decu nxt @ '' ('' @ proto_name nxt @ '')'') (offset + 6) 1 st;
        let st = child sec ''Hop Limit'' (decu hop) (offset + 7) 1 st;
        let st = child sec ''Source'' src (offset + 8) 16 st;
        let st = child sec ''Destination'' dst (offset + 24) 16 st;
        ipv6_upper env dissect_inner parent data offset src dst
          (ext_headers parent data offset nxt 40 (set_dst dst (set_src src st))) })"

primrec dissect_ipv6_fuel :: "nat \<Rightarrow> l7_env \<Rightarrow> layer_fun" where
  "dissect_ipv6_fuel 0 env = (\<lambda>parent data offset st. None)"
| "dissect_ipv6_fuel (Suc k) env = ipv6_packet env (dissect_ipv6_fuel k env)"

text \<open>A quoted packet is at least 48 bytes shorter, so its length is fuel enough.\<close>

definition dissect_ipv6 :: "l7_env \<Rightarrow> layer_fun" where
  "dissect_ipv6 env parent data offset st = dissect_ipv6_fuel (Suc (length data)) env parent data offset st"

section \<open>The contract\<close>

interpretation icmp: layer dissect_icmp
proof
  fix N st p offset and data :: bytes
  assume "st_ok N st" "p < node_count st" "offset + length data \<le> N"
  then show "delivers N st data offset (dissect_icmp p data offset st)"
    by (cases data) (auto simp: dissect_icmp_def Let_def slice_def idx_def)
qed

lemma delivers_st:
  assumes "keeps N st m"
    and "\<And>st'. st_ok N st' \<Longrightarrow> node_count st \<le> node_count st' \<Longrightarrow> delivers N st data offset (k st')"
  shows "delivers N st data offset (Option.bind m k)"
  using assms by (rule delivers_keeps)

lemma neighbor_target_ok:
  "st_ok N st1 \<Longrightarrow> sec < node_count st1 \<Longrightarrow> offset + length data \<le> N \<Longrightarrow> node_count st \<le> node_count st1 \<Longrightarrow>
   keeps N st (neighbor_target text tn sec data offset st1)"
  by (auto simp: neighbor_target_def Let_def slice_def)

text \<open>An ICMPv6 message keeps the contract when the packet it quotes is dissected by a layer that does.\<close>

lemma icmpv6_delivers:
  assumes inner: "\<And>p k st'. st_ok N st' \<Longrightarrow> p < node_count st' \<Longrightarrow> k \<le> length data \<Longrightarrow> 0 < k \<Longrightarrow>
      delivers N st' (drop k data) (offset + k) (f p (drop k data) (offset + k) st')"
    and a: "st_ok N st" "p < node_count st" "offset + length data \<le> N"
  shows "delivers N st data offset (dissect_icmpv6 f p data offset st)"
proof (cases "length data < 4")
  case True
  with a show ?thesis by (simp add: dissect_icmpv6_def Let_def)
next
  case False
  have ix: "idx data 0 = Some (data ! 0)" "idx data 1 = Some (data ! 1)"
    using False by (auto simp: idx_def)
  have quoted: "keeps N st (quoted_packet f sec data offset st1)"
    if "8 < length data" "st_ok N st1" "sec < node_count st1" "node_count st \<le> node_count st1" for sec st1
  proof -
    let ?st = "st1\<lparr>ds_flags := default_flags, ds_summary := default_summary\<rparr>"
    have "delivers N ?st (drop 8 data) (offset + 8) (f sec (drop 8 data) (offset + 8) ?st)"
      by (rule inner) (use that in \<open>auto simp: st_ok_def node_count_def\<close>)
    with that show ?thesis
      by (auto simp: quoted_packet_def delivers_def slice_from_def st_ok_def node_count_def)
  qed
  show ?thesis
    unfolding dissect_icmpv6_def Let_def ix
    using False a
    by (auto simp: slice_def simp del: keeps_Some intro!: delivers_st neighbor_target_ok quoted keepsI)
qed

lemma layer_ipv4:
  assumes env: "env_ok env" "dns_ok env"
  shows "layer (dissect_ipv4 env)"
proof
  fix N st p offset and data :: bytes
  assume a: "st_ok N st" "p < node_count st" "offset + length data \<le> N"
  have l: "delivers N st data offset (dissect_icmp p (take (e - k) (drop k data)) (offset + k) st1)"
    "delivers N st data offset (dissect_tcp env p (take (e - k) (drop k data)) (offset + k) st1)"
    "delivers N st data offset (dissect_udp env p (take (e - k) (drop k data)) (offset + k) st1)"
    if "st_ok N st1" "k \<le> e" "e \<le> length data" "node_count st \<le> node_count st1" for k e st1
    using that a
      icmp.call_slice [of N st1 p offset data k e st]
      layer.call_slice [OF layer_tcp [OF env(1)], of N st1 p offset data k e st]
      layer.call_slice [OF layer_udp [OF env], of N st1 p offset data k e st] by simp_all
  show "delivers N st data offset (dissect_ipv4 env p data offset st)"
  proof (cases "length data < 20")
    case False
    then have "data \<noteq> []" by auto
    with False a show ?thesis
      by (auto simp: dissect_ipv4_def Let_def slice_def intro!: l)
  qed (use a in \<open>simp add: dissect_ipv4_def\<close>)
qed

lemma ext_headers_ok:
  "st_ok N st \<Longrightarrow> parent < node_count st \<Longrightarrow> offset + length data \<le> N \<Longrightarrow> cursor \<le> length data \<Longrightarrow>
   \<exists>nxt' cursor' st'. ext_headers parent data offset nxt cursor st = (nxt', cursor', st') \<and>
     cursor \<le> cursor' \<and> cursor' \<le> length data \<and> st_ok N st' \<and> node_count st \<le> node_count st'"
proof (induction parent data offset nxt cursor st rule: ext_headers.induct)
  case (1 parent data offset nxt cursor st)
  show ?case
  proof (cases "nxt \<in> {0, 43, 44, 60} \<and> \<not> length data < cursor + 2")
    case False
    then have "ext_headers parent data offset nxt cursor st = (nxt, cursor, st)"
      by (subst ext_headers.simps) (simp only: if_False)
    with "1.prems" show ?thesis by simp
  next
    case True
    define n where "n = (if nxt = 44 then 8 else (unat (data ! (cursor + 1)) + 1) * 8)"
    let ?nh = "data ! cursor"
    let ?st = "child (node_count st) ''Next Header'' (decu ?nh @ '' ('' @ proto_name ?nh @ '')'') (offset + cursor) 1
        (child parent (ext_name nxt) [] (offset + cursor) (min n (length data - cursor)) st)"
    have "cursor + min n (length data - cursor) \<le> length data" "cursor + 2 \<le> length data"
      using "1.prems" True by auto
    then have st: "st_ok N ?st" using "1.prems" by simp
    have eq: "ext_headers parent data offset nxt cursor st =
        (if length data < cursor + n then (?nh, length data, ?st)
         else ext_headers parent data offset ?nh (cursor + n) ?st)"
      using True by (subst ext_headers.simps) (simp only: Let_def sect_eq prod.case if_True if_False simp_thms n_def)
    show ?thesis
    proof (cases "length data < cursor + n")
      case over: True
      with eq st "1.prems" show ?thesis by auto
    next
      case False
      have "\<exists>nxt' cursor' st'. ext_headers parent data offset ?nh (cursor + n) ?st = (nxt', cursor', st') \<and>
          cursor + n \<le> cursor' \<and> cursor' \<le> length data \<and> st_ok N st' \<and> node_count ?st \<le> node_count st'"
        by (rule "1.IH" [OF True n_def sect_eq [symmetric] refl refl refl False])
          (use st "1.prems" False in auto)
      then obtain nxt' cursor' st' where
        "ext_headers parent data offset ?nh (cursor + n) ?st = (nxt', cursor', st')"
        "cursor + n \<le> cursor'" "cursor' \<le> length data" "st_ok N st'" "node_count ?st \<le> node_count st'"
        by blast
      with eq False show ?thesis by (simp only: if_False) auto
    qed
  qed
qed

lemma ipv6_packet_delivers:
  assumes env: "env_ok env" "dns_ok env"
    and inner: "\<And>p k st'. st_ok N st' \<Longrightarrow> p < node_count st' \<Longrightarrow> k \<le> length data \<Longrightarrow> 0 < k \<Longrightarrow>
      delivers N st' (drop k data) (offset + k) (f p (drop k data) (offset + k) st')"
    and a: "st_ok N st" "p < node_count st" "offset + length data \<le> N"
  shows "delivers N st data offset (ipv6_packet env f p data offset st)"
proof (cases "length data < 40")
  case True
  with a show ?thesis by (simp add: ipv6_packet_def)
next
  case False
  have l: "delivers N st data offset (dissect_tcp env p (drop k data) (offset + k) st1)"
    "delivers N st data offset (dissect_udp env p (drop k data) (offset + k) st1)"
    "delivers N st data offset (dissect_icmpv6 f p (drop k data) (offset + k) st1)"
    if "st_ok N st1" "k \<le> length data" "node_count st \<le> node_count st1" for k st1
  proof -
    show "delivers N st data offset (dissect_tcp env p (drop k data) (offset + k) st1)"
      "delivers N st data offset (dissect_udp env p (drop k data) (offset + k) st1)"
      using that a
        layer.call_drop [OF layer_tcp [OF env(1)], of N st1 p offset data k st]
        layer.call_drop [OF layer_udp [OF env], of N st1 p offset data k st] by simp_all
    have "delivers N st1 (drop k data) (offset + k) (dissect_icmpv6 f p (drop k data) (offset + k) st1)"
    proof (rule icmpv6_delivers)
      fix q j st'
      assume "st_ok N st'" "q < node_count st'" "j \<le> length (drop k data)" "0 < j"
      with inner [of st' q "k + j"] that(2)
      show "delivers N st' (drop j (drop k data)) (offset + k + j)
          (f q (drop j (drop k data)) (offset + k + j) st')"
        by (simp add: add.commute add.left_commute)
    qed (use that a in auto)
    with that show "delivers N st data offset (dissect_icmpv6 f p (drop k data) (offset + k) st1)"
      using part_of_trans_drop by (fastforce simp: delivers_def)
  qed
  have walk: "delivers N st data offset 
      (ipv6_upper env f p data offset src dst (ext_headers p data offset nxt 40 st1))"
    if walk: "st_ok N st1" "node_count st \<le> node_count st1" for st1 nxt src dst
  proof -
    obtain nxt' c st' where "ext_headers p data offset nxt 40 st1 = (nxt', c, st')"
      "c \<le> length data" "st_ok N st'" "node_count st1 \<le> node_count st'"
      using ext_headers_ok [of N st1 p offset data 40 nxt] walk a False by auto
    with walk show ?thesis by (simp add: slice_from_def Let_def l)
  qed
  have ne: "data \<noteq> []" "idx data 6 = Some (data ! 6)" "idx data 7 = Some (data ! 7)" using False by auto
  show ?thesis
    unfolding ipv6_packet_def
    using False a ne by (simp add: slice_def walk del: ipv6_upper.simps)
qed

lemma dissect_ipv6_fuel_delivers:
  assumes env: "env_ok env" "dns_ok env"
  shows "length data < n \<Longrightarrow> st_ok N st \<Longrightarrow> p < node_count st \<Longrightarrow> offset + length data \<le> N \<Longrightarrow>
    delivers N st data offset (dissect_ipv6_fuel n env p data offset st)"
proof (induction n arbitrary: data offset p st)
  case (Suc n)
  show ?case
    unfolding dissect_ipv6_fuel.simps
    by (rule ipv6_packet_delivers [OF env]) (use Suc in auto)
qed simp

lemma layer_ipv6: "env_ok env \<Longrightarrow> dns_ok env \<Longrightarrow> layer (dissect_ipv6 env)"
  by unfold_locales (simp add: dissect_ipv6_def dissect_ipv6_fuel_delivers del: dissect_ipv6_fuel.simps)

end
