(* ===== verification/L2.thy ===== *)
theory L2
  imports L3
begin

text \<open>
  The link layer (\<open>src/src/dissect/l2.rs\<close>: Ethernet and VLAN tags, ARP, the two Linux cooked
  formats, BSD loopback, raw IP) and 802.11 management frames (\<open>src/src/dissect/wifi.rs\<close>).
  \<open>dissect_l2\<close> starts every frame at offset 0.
\<close>

section \<open>802.11\<close>

function find_ssid :: "bytes \<Rightarrow> nat \<Rightarrow> string option" where
  "find_ssid ies i =
     (if i + 2 \<le> length ies then
        let ident = ies ! i; len = unat (ies ! (i + 1)) in
        if length ies < i + 2 + len then None
        else if ident = 0 then Some (from_utf8_lossy (take len (drop (i + 2) ies)))
        else find_ssid ies (i + 2 + len)
      else None)"
  by pat_completeness auto
termination
  by (relation "measure (\<lambda>(ies, i). length ies - i)") auto

declare find_ssid.simps [simp del]

definition dot11_names :: "u16 \<Rightarrow> string" where
  "dot11_names fc =
     (let ftype = drop_bit 2 fc AND 3; subtype = drop_bit 4 fc AND 0xf in
      (if ftype = 0 then ''Mgmt'' else if ftype = 1 then ''Ctrl'' else if ftype = 2 then ''Data'' else ''Ext'')
      @ ''/'' @
      (if ftype = 0 \<and> subtype = 8 then ''Beacon'' else if ftype = 0 \<and> subtype = 4 then ''Probe Req''
       else if ftype = 0 \<and> subtype = 5 then ''Probe Resp'' else if ftype = 0 \<and> subtype = 11 then ''Auth''
       else if ftype = 0 \<and> subtype = 0 then ''Assoc Req'' else if ftype = 2 then ''Data'' else ''Other''))"

definition dissect_dot11 :: "nat \<Rightarrow> bytes \<Rightarrow> dstate \<Rightarrow> dstate option" where
  "dissect_dot11 parent data st =
     (if length data < 24 then Some st
      else let st = set_flags (pf_wifi_update (\<lambda>_. True)) st in do {
        b0 \<leftarrow> idx data 0;
        b1 \<leftarrow> idx data 1;
        let fc = le16 b0 b1;
        let st = set_info (dot11_names fc) (set_protocol ''802.11'' st);
        let st = child parent ''802.11'' (dot11_names fc) 0 (min (length data) 24) st;
        if drop_bit 2 fc AND 3 = 0 \<and> drop_bit 4 fc AND 0xf = 8 \<and> 36 < length data then do {
          ies \<leftarrow> slice_from data 36;
          Some (case find_ssid ies 0 of
            None \<Rightarrow> st
          | Some ssid \<Rightarrow> child parent ''SSID'' ssid 36 0 (set_info (''Beacon SSID='' @ ssid) st)) }
        else Some st })"

text \<open>The radiotap header's length when the frame was taken, and the state.\<close>

definition dissect_radiotap :: "nat \<Rightarrow> bytes \<Rightarrow> dstate \<Rightarrow> (nat option \<times> dstate) option" where
  "dissect_radiotap parent data st =
     (if length data < 8 then Some (None, st)
      else do {
        b2 \<leftarrow> idx data 2;
        b3 \<leftarrow> idx data 3;
        let it_len = unat (le16 b2 b3);
        if length data < it_len then Some (None, st)
        else let st = set_flags (pf_wifi_update (\<lambda>_. True)) st;
                 st = child parent ''Radiotap'' (''hdr '' @ dec it_len @ '' B'') 0 it_len st
             in do {
               wifi \<leftarrow> slice_from data it_len;
               st \<leftarrow> dissect_dot11 parent wifi st;
               Some (Some it_len, st) } })"

section \<open>ARP\<close>

definition fmt_mac :: "bytes \<Rightarrow> string" where
  "fmt_mac b =
     (if length b < 6 then ''['' @ join '', '' (map (\<lambda>x. hex02 (unat x)) b) @ '']''
      else colon_hex (take 6 b))"

definition dissect_arp :: layer_fun where
  "dissect_arp parent data offset st =
     (let st = set_protocol ''ARP'' (set_flags (pf_arp_update (\<lambda>_. True)) st);
          (sec, st) = sect parent ''Address Resolution Protocol'' offset (min (length data) 28) st
      in if length data < 8 then ret data offset st
      else do {
        oper \<leftarrow> map_option from_be (slice data 6 8);
        let op_s = (if oper = 1 then ''request'' else if oper = 2 then ''reply'' else ''unknown'');
        let st = child sec ''Opcode'' (dec oper @ '' ('' @ op_s @ '')'') (offset + 6) 2 st;
        st \<leftarrow>
          (if 28 \<le> length data then do {
             sha \<leftarrow> map_option fmt_mac (slice data 8 14);
             s \<leftarrow> slice data 14 18;
             tha \<leftarrow> map_option fmt_mac (slice data 18 24);
             t \<leftarrow> slice data 24 28;
             let spa = ipv4_str (s ! 0) (s ! 1) (s ! 2) (s ! 3);
             let tpa = ipv4_str (t ! 0) (t ! 1) (t ! 2) (t ! 3);
             let st = child sec ''Sender MAC'' sha (offset + 8) 6 st;
             let st = child sec ''Sender IP'' spa (offset + 14) 4 st;
             let st = child sec ''Target MAC'' tha (offset + 18) 6 st;
             let st = child sec ''Target IP'' tpa (offset + 24) 4 st;
             let st = set_dst tpa (set_src spa st);
             Some (set_info (if oper = 1 then ''Who has '' @ tpa @ ''? Tell '' @ spa
                             else spa @ '' is at '' @ sha) st) }
           else Some st);
        ret [] (offset + length data) st })"

section \<open>Link layers\<close>

text \<open>The network layer an EtherType chooses; \<open>other\<close> is the branch for any other type.\<close>

definition by_ethertype ::
    "l7_env \<Rightarrow> nat \<Rightarrow> (dstate \<Rightarrow> dstate) \<Rightarrow> layer_fun" where
  "by_ethertype env ethertype other parent payload payload_off st =
     (if ethertype = 0x0800 then dissect_ipv4 env parent payload payload_off st
      else if ethertype = 0x86dd then dissect_ipv6 env parent payload payload_off st
      else if ethertype = 0x0806 then dissect_arp parent payload payload_off st
      else ret payload payload_off (other st))"

definition dissect_ethernet :: "l7_env \<Rightarrow> layer_fun" where
  "dissect_ethernet env parent data offset st =
     (if length data < 14 then ret data offset st
      else let (eth, st) = sect parent ''Ethernet II'' offset 14
                 (set_flags (pf_ethernet_update (\<lambda>_. True)) st) in do {
        dst \<leftarrow> map_option fmt_mac (slice data 0 6);
        src \<leftarrow> map_option fmt_mac (slice data 6 12);
        let st = child eth ''Destination'' dst offset 6 st;
        let st = child eth ''Source'' src (offset + 6) 6 st;
        let st = set_dst dst (set_src src st);
        ethertype \<leftarrow> map_option from_be (slice data 12 14);
        let payload_off = offset + 14;
        let st = child eth ''Type'' (''0x'' @ hex04 ethertype) (offset + 12) 2 st;
        (ethertype, payload_off, st) \<leftarrow>
          (if ethertype = 0x8100 \<and> payload_off + 4 \<le> length data then
             let st = set_flags (pf_vlan_update (\<lambda>_. True)) st;
                 (vlan, st) = sect parent ''802.1Q Virtual LAN'' payload_off 4 st
             in do {
               t0 \<leftarrow> idx data payload_off;
               t1 \<leftarrow> idx data (payload_off + 1);
               let tci = be16 t0 t1;
               let st = child vlan ''Priority'' (decu (drop_bit 13 tci AND 7)) payload_off 2 st;
               let st = child vlan ''VLAN ID'' (decu (tci AND 0xfff)) payload_off 2 st;
               ethertype \<leftarrow> map_option from_be (slice data (payload_off + 2) (payload_off + 4));
               let st = child vlan ''Type'' (''0x'' @ hex04 ethertype) (payload_off + 2) 2 st;
               Some (ethertype, payload_off + 4, st) }
           else Some (ethertype, payload_off, st));
        payload \<leftarrow> slice_from data (min payload_off (length data));
        by_ethertype env ethertype
          (\<lambda>st. set_info (''EtherType 0x'' @ hex04 ethertype) (set_protocol (''0x'' @ hex04 ethertype) st))
          parent payload payload_off st })"

definition dissect_sll :: "l7_env \<Rightarrow> layer_fun" where
  "dissect_sll env parent data offset st =
     (if length data < 16 then ret data offset st
      else let (sec, st) = sect parent ''Linux cooked capture'' offset 16
                 (set_flags (pf_ethernet_update (\<lambda>_. True)) st) in do {
        pkttype \<leftarrow> map_option from_be (slice data 0 2);
        protocol \<leftarrow> map_option from_be (slice data 14 16);
        let st = child sec ''Packet type'' (dec pkttype) offset 2 st;
        let st = child sec ''Protocol'' (''0x'' @ hex04 protocol) (offset + 14) 2 st;
        payload \<leftarrow> slice_from data 16;
        by_ethertype env protocol (\<lambda>st. st) parent payload (offset + 16) st })"

definition dissect_sll2 :: "l7_env \<Rightarrow> layer_fun" where
  "dissect_sll2 env parent data offset st =
     (if length data < 20 then ret data offset st
      else let (sec, st) = sect parent ''Linux cooked capture v2'' offset 20
                 (set_flags (pf_ethernet_update (\<lambda>_. True)) st) in do {
        protocol \<leftarrow> map_option from_be (slice data 0 2);
        let st = child sec ''Protocol'' (''0x'' @ hex04 protocol) offset 2 st;
        payload \<leftarrow> slice_from data 20;
        by_ethertype env protocol (\<lambda>st. st) parent payload (offset + 20) st })"

text \<open>Raw IP by the version nibble: the fallback of the loopback format and the raw link type.\<close>

definition by_version :: "l7_env \<Rightarrow> layer_fun" where
  "by_version env parent payload payload_off st =
     (if payload \<noteq> [] \<and> drop_bit 4 (payload ! 0) = 4 then dissect_ipv4 env parent payload payload_off st
      else if payload \<noteq> [] \<and> drop_bit 4 (payload ! 0) = 6 then dissect_ipv6 env parent payload payload_off st
      else ret payload payload_off st)"

definition dissect_null :: "l7_env \<Rightarrow> layer_fun" where
  "dissect_null env parent data offset st =
     (if length data < 4 then ret data offset st
      else let (sec, st) = sect parent ''BSD loopback'' offset 4 st in do {
        family \<leftarrow> slice data 0 4;
        let af_le = from_le family;
        let af_be = from_be family;
        payload \<leftarrow> slice_from data 4;
        let af = (if af_le \<in> {2, 24, 28, 30} then af_le
                  else if af_be \<in> {2, 24, 28, 30} then af_be else af_le);
        let st = child sec ''Family'' (dec af) offset 4 st;
        let payload_off = offset + 4;
        if af = 2 then dissect_ipv4 env parent payload payload_off st
        else if af \<in> {24, 28, 30} then dissect_ipv6 env parent payload payload_off st
        else by_version env parent payload payload_off st })"

fun dissect_l2 :: "l7_env \<Rightarrow> nat \<Rightarrow> bytes \<Rightarrow> link_type \<Rightarrow> dstate \<Rightarrow> (layer_result \<times> dstate) option" where
  "dissect_l2 env parent data LtEthernet st = dissect_ethernet env parent data 0 st"
| "dissect_l2 env parent data LtLinuxSll st = dissect_sll env parent data 0 st"
| "dissect_l2 env parent data LtLinuxSll2 st = dissect_sll2 env parent data 0 st"
| "dissect_l2 env parent data LtNull st = dissect_null env parent data 0 st"
| "dissect_l2 env parent data LtRaw st = by_version env parent data 0 st"
| "dissect_l2 env parent data LtIeee80211Radio st = do {
     (_, st) \<leftarrow> dissect_radiotap parent data st;
     ret [] (length data) st }"
| "dissect_l2 env parent data LtIeee80211 st = do {
     st \<leftarrow> dissect_dot11 parent data st;
     ret [] (length data) st }"
| "dissect_l2 env parent data (LtUnknown v) st =
     (if 14 \<le> length data then dissect_ethernet env parent data 0 st else ret data 0 st)"

section \<open>The contract\<close>

lemma keeps_dot11:
  assumes "st_ok N st" "p < node_count st" "length data \<le> N"
  shows "keeps N st (dissect_dot11 p data st)"
proof (cases "length data < 24")
  case True
  with assms show ?thesis by (simp add: dissect_dot11_def)
next
  case False
  then have "idx data 0 = Some (data ! 0)" "idx data 1 = Some (data ! 1)" by (auto simp: idx_def)
  with False assms show ?thesis
    by (auto simp: dissect_dot11_def Let_def slice_from_def split: option.split)
qed

lemma radiotap_ok:
  assumes "st_ok N st" "p < node_count st" "length data \<le> N"
  shows "threads N st (dissect_radiotap p data st)"
proof (cases "length data < 8")
  case True
  with assms show ?thesis by (simp add: dissect_radiotap_def)
next
  case False
  have d: "keeps N st1 (dissect_dot11 p (drop k data) st1)" if "st_ok N st1" "p < node_count st1" for k st1
    using keeps_dot11 [OF that, of "drop k data"] assms by simp
  have r: "threads N st (Option.bind (dissect_dot11 p (drop k data) (child p l v 0 k st1)) (\<lambda>st. Some (x, st)))"
    if "st_ok N st1" "node_count st1 = node_count st" "k \<le> length data" for k st1 l v x
    using d [of "child p l v 0 k st1" k] that assms by (auto simp: keeps_def)
  with False assms show ?thesis
    by (auto simp: dissect_radiotap_def Let_def slice_from_def intro!: r)
qed

interpretation arp: layer dissect_arp
proof
  fix N st p offset and data :: bytes
  assume "st_ok N st" "p < node_count st" "offset + length data \<le> N"
  then show "delivers N st data offset (dissect_arp p data offset st)"
    by (auto simp: dissect_arp_def Let_def slice_def simp del: keeps_Some intro!: delivers_st keepsI)
qed

lemma layer_by_ethertype:
  assumes env: "env_ok env" "dns_ok env"
    and other: "\<And>N st. st_ok N (other st) = st_ok N st" "\<And>st. node_count (other st) = node_count st"
  shows "layer (by_ethertype env e other)"
proof
  fix N st p offset and data :: bytes
  assume a: "st_ok N st" "p < node_count st" "offset + length data \<le> N"
  show "delivers N st data offset (by_ethertype env e other p data offset st)"
    using layer.contract [OF layer_ipv4 [OF env] a] layer.contract [OF layer_ipv6 [OF env] a]
      arp.contract [OF a] other a by (simp add: by_ethertype_def)
qed

lemma layer_by_version:
  assumes env: "env_ok env" "dns_ok env"
  shows "layer (by_version env)"
proof
  fix N st p offset and data :: bytes
  assume a: "st_ok N st" "p < node_count st" "offset + length data \<le> N"
  show "delivers N st data offset (by_version env p data offset st)"
    using layer.contract [OF layer_ipv4 [OF env] a] layer.contract [OF layer_ipv6 [OF env] a] a
    by (simp add: by_version_def)
qed

text \<open>Ethernet indexes its VLAN tag from the start of the bytes, so it keeps the contract at offset 0.\<close>

lemma ethernet_delivers:
  assumes env: "env_ok env" "dns_ok env"
    and a: "st_ok N st" "p < node_count st" "length data \<le> N"
  shows "delivers N st data 0 (dissect_ethernet env p data 0 st)"
proof -
  have l: "delivers N st data 0 (by_ethertype env e (\<lambda>st. set_info x (set_protocol y st)) p (drop k data) k st1)"
    if "st_ok N st1" "k \<le> length data" "node_count st \<le> node_count st1" for e x y k st1
    using layer.call_drop [OF layer_by_ethertype [OF env], of "\<lambda>st. set_info x (set_protocol y st)" N st1 p 0 data k st e]
      that a by simp
  show ?thesis
    using a by (auto simp: dissect_ethernet_def Let_def slice_def slice_from_def min_def intro!: l)
qed

lemma cooked_delivers:
  assumes env: "env_ok env" "dns_ok env"
    and a: "st_ok N st" "p < node_count st" "offset + length data \<le> N"
  shows "delivers N st data offset (dissect_sll env p data offset st)"
    and "delivers N st data offset (dissect_sll2 env p data offset st)"
    and "delivers N st data offset (dissect_null env p data offset st)"
proof -
  have l: "delivers N st data offset (by_ethertype env e (\<lambda>st. st) p (drop k data) (offset + k) st1)"
    "delivers N st data offset (by_version env p (drop k data) (offset + k) st1)"
    "delivers N st data offset (dissect_ipv4 env p (drop k data) (offset + k) st1)"
    "delivers N st data offset (dissect_ipv6 env p (drop k data) (offset + k) st1)"
    if "st_ok N st1" "k \<le> length data" "node_count st \<le> node_count st1" for e k st1
    using that a
      layer.call_drop [OF layer_by_ethertype [OF env], of "\<lambda>st. st" N st1 p offset data k st e]
      layer.call_drop [OF layer_by_version [OF env], of N st1 p offset data k st]
      layer.call_drop [OF layer_ipv4 [OF env], of N st1 p offset data k st]
      layer.call_drop [OF layer_ipv6 [OF env], of N st1 p offset data k st] by simp_all
  show "delivers N st data offset (dissect_sll env p data offset st)"
    "delivers N st data offset (dissect_sll2 env p data offset st)"
    "delivers N st data offset (dissect_null env p data offset st)"
    using a by (auto simp: dissect_sll_def dissect_sll2_def dissect_null_def Let_def slice_def
        slice_from_def intro!: l)
qed

text \<open>Every link type: no panic, a good tree inside the frame, a part of the frame returned.\<close>

lemma l2_delivers:
  assumes env: "env_ok env" "dns_ok env"
    and a: "st_ok N st" "p < node_count st" "length data \<le> N"
  shows "delivers N st data 0 (dissect_l2 env p data lt st)"
proof -
  have a0: "0 + length data \<le> N" using a by simp
  have wifi: "delivers N st data 0 (Option.bind (dissect_radiotap p data st) (\<lambda>(_, st). ret [] (length data) st))"
    "delivers N st data 0 (Option.bind (dissect_dot11 p data st) (ret [] (length data)))"
    using delivers_thread [OF radiotap_ok [OF a]] delivers_st [OF keeps_dot11 [OF a]] by simp_all
  show ?thesis
    using cooked_delivers [OF env a(1,2) a0] ethernet_delivers [OF env a] wifi a
      layer.contract [OF layer_by_version [OF env] a(1,2) a0]
    by (cases lt) auto
qed

end
