(* ===== verification/Decrypt.thy ===== *)
theory Decrypt
  imports L2 "HOL-Library.AList"
begin

text \<open>
  TLS decryption with an NSS key log (\<open>src/src/dissect/decrypt.rs\<close>): parsing the log, finding
  the TLS bytes of a frame, and the decryption attempts.  A result is \<open>None\<close> where the code
  panics, \<open>Some None\<close> where it returns \<open>None\<close>.  Hash maps are association lists, whose order
  stands for the unspecified iteration order; log fields are lower-cased as ASCII.
\<close>

section \<open>Key log\<close>

record key_log =
  kl_client_random :: "(string \<times> string) list"
  kl_traffic_secrets :: "(string \<times> (string \<times> string) list) list"

definition kl_empty :: key_log where
  "kl_empty = \<lparr>kl_client_random = [], kl_traffic_secrets = []\<rparr>"

definition secret_labels :: "string list" where
  "secret_labels = [''CLIENT_HANDSHAKE_TRAFFIC_SECRET'', ''SERVER_HANDSHAKE_TRAFFIC_SECRET'',
     ''CLIENT_TRAFFIC_SECRET_0'', ''SERVER_TRAFFIC_SECRET_0'', ''EXPORTER_SECRET'',
     ''EARLY_EXPORTER_SECRET'', ''CLIENT_EARLY_TRAFFIC_SECRET'']"

definition kl_parse_line :: "key_log \<Rightarrow> string \<Rightarrow> key_log" where
  "kl_parse_line kl line0 =
     (let line = trim line0 in
      if line = [] \<or> starts_with line ''#'' then kl
      else case split_whitespace line of
        label # cr # secret # _ \<Rightarrow>
          let cr = to_lower cr; secret = to_lower secret in
          if label = ''CLIENT_RANDOM''
          then kl\<lparr>kl_client_random := AList.update cr secret (kl_client_random kl)\<rparr>
          else if label \<in> set secret_labels
          then kl\<lparr>kl_traffic_secrets :=
                 AList.update cr (default_to [] (map_of (kl_traffic_secrets kl) cr) @ [(label, secret)])
                   (kl_traffic_secrets kl)\<rparr>
          else kl
      | _ \<Rightarrow> kl)"

definition kl_parse :: "string \<Rightarrow> key_log" where
  "kl_parse text = foldl kl_parse_line kl_empty (str_lines text)"

definition has_secrets :: "key_log \<Rightarrow> bool" where
  "has_secrets kl \<longleftrightarrow> kl_client_random kl \<noteq> [] \<or> kl_traffic_secrets kl \<noteq> []"

definition preferred_labels :: "string list" where
  "preferred_labels = [''CLIENT_TRAFFIC_SECRET_0'', ''SERVER_TRAFFIC_SECRET_0'',
     ''CLIENT_HANDSHAKE_TRAFFIC_SECRET'', ''SERVER_HANDSHAKE_TRAFFIC_SECRET'']"

fun preferred_entry :: "string list \<Rightarrow> (string \<times> string) list \<Rightarrow> (string \<times> string) option" where
  "preferred_entry [] entries = (case entries of [] \<Rightarrow> None | e # _ \<Rightarrow> Some e)"
| "preferred_entry (pref # prefs) entries =
     (case find (\<lambda>(lab, _). lab = pref) entries of
        Some e \<Rightarrow> Some e
      | None \<Rightarrow> preferred_entry prefs entries)"

fun first_secret :: "(string \<times> (string \<times> string) list) list \<Rightarrow> (string \<times> string) option" where
  "first_secret [] = None"
| "first_secret ((_, entries) # rest) =
     (case preferred_entry preferred_labels entries of
        Some e \<Rightarrow> Some e
      | None \<Rightarrow> first_secret rest)"

definition quic_traffic_secret :: "key_log \<Rightarrow> (string \<times> string) option" where
  "quic_traffic_secret kl = first_secret (kl_traffic_secrets kl)"

definition has_early_secrets :: "key_log \<Rightarrow> string \<Rightarrow> bool" where
  "has_early_secrets kl cr =
     (case map_of (kl_traffic_secrets kl) (to_lower cr) of
        None \<Rightarrow> False
      | Some entries \<Rightarrow> list_ex (\<lambda>(l, _). l = ''CLIENT_EARLY_TRAFFIC_SECRET'' \<or> l = ''EARLY_EXPORTER_SECRET'') entries)"

section \<open>Hex\<close>

definition hex_encode :: "bytes \<Rightarrow> string" where
  "hex_encode bs = concat (map (\<lambda>b. hex02 (unat b)) bs)"

text \<open>\<open>u8::from_str_radix(s, 16)\<close> on two bytes: a leading plus sign is accepted.\<close>

definition byte_from_hex :: "char \<Rightarrow> char \<Rightarrow> u8 option" where
  "byte_from_hex a b =
     (case hex_nibble (byte_of_chr b) of
        Inl _ \<Rightarrow> None
      | Inr y \<Rightarrow>
          if a = CHR ''+'' then Some y
          else (case hex_nibble (byte_of_chr a) of Inl _ \<Rightarrow> None | Inr x \<Rightarrow> Some (16 * x + y)))"

text \<open>The iterator stops at the first pair that fails; a slice inside a character panics.\<close>

fun hex_decode_pairs :: "string \<Rightarrow> bytes option option" where
  "hex_decode_pairs (a # b # rest) =
     (if rest \<noteq> [] \<and> cont (byte_of_chr (hd rest)) then None
      else case byte_from_hex a b of
        None \<Rightarrow> Some None
      | Some x \<Rightarrow> map_option (map_option ((#) x)) (hex_decode_pairs rest))"
| "hex_decode_pairs _ = Some (Some [])"

definition hex_decode :: "string \<Rightarrow> bytes option option" where
  "hex_decode s0 =
     (let s = trim s0 in if length s mod 2 \<noteq> 0 then Some None else hex_decode_pairs s)"

text \<open>The question mark of the source on a result that may also be a panic.\<close>

definition and_then :: "'a option option \<Rightarrow> ('a \<Rightarrow> 'b option option) \<Rightarrow> 'b option option" where
  "and_then m k = (case m of None \<Rightarrow> None | Some None \<Rightarrow> Some None | Some (Some x) \<Rightarrow> k x)"

definition master_secret :: "key_log \<Rightarrow> string \<Rightarrow> bytes option option" where
  "master_secret kl cr =
     (case map_of (kl_client_random kl) (to_lower cr) of None \<Rightarrow> Some None | Some s \<Rightarrow> hex_decode s)"

definition traffic_secret :: "key_log \<Rightarrow> string \<Rightarrow> bool \<Rightarrow> bytes option option" where
  "traffic_secret kl cr from_client =
     (let label = (if from_client then ''CLIENT_TRAFFIC_SECRET_0'' else ''SERVER_TRAFFIC_SECRET_0'') in
      case map_of (kl_traffic_secrets kl) (to_lower cr) of
        None \<Rightarrow> Some None
      | Some entries \<Rightarrow>
          (case map_of entries label of None \<Rightarrow> Some None | Some s \<Rightarrow> hex_decode s))"

section \<open>The TLS bytes of a frame\<close>

fun is_unknown :: "link_type \<Rightarrow> bool" where
  "is_unknown (LtUnknown v) = True"
| "is_unknown _ = False"

definition l4_payload :: "bytes \<Rightarrow> link_type \<Rightarrow> bytes option option" where
  "l4_payload data lt =
     and_then
       (if lt = LtEthernet \<or> is_unknown lt then
          if length data < 14 then Some None
          else do {
            e \<leftarrow> map_option from_be (slice data 12 14);
            (et, off) \<leftarrow>
              (if e = 0x8100 \<and> 18 \<le> length data
               then map_option (\<lambda>x. (from_be x, 18)) (slice data 16 18) else Some (e, 14));
            if et \<noteq> 0x0800 then Some None
            else do { b \<leftarrow> idx data off; Some (Some (off, unat (b AND 0x0f) * 4)) } }
        else if lt = LtLinuxSll then
          if length data < 16 + 20 then Some None
          else do { b \<leftarrow> idx data 16; Some (Some (16, unat (b AND 0x0f) * 4)) }
        else if lt = LtRaw \<or> lt = LtNull then
          if data = [] then Some None
          else do { b \<leftarrow> idx data 0; Some (Some (0, unat (b AND 0x0f) * 4)) }
        else Some None)
       (\<lambda>(ip_off, ihl).
         let tcp_off = ip_off + ihl in
         if length data < tcp_off + 20 then Some None
         else do {
           b \<leftarrow> idx data (tcp_off + 12);
           let payload_off = tcp_off + unat (drop_bit 4 b) * 4;
           if length data < payload_off then Some None
           else map_option Some (slice_from data payload_off) })"

definition find_tls_payload :: "bytes \<Rightarrow> link_type \<Rightarrow> bytes option option" where
  "find_tls_payload data lt =
     and_then (l4_payload data lt) (\<lambda>l4.
       Some (if starts_with l4 [0x16, 0x03] \<or> starts_with l4 [0x17, 0x03] then Some l4 else None))"

text \<open>The first hello of a record run, with fuel; a record that does not parse ends the search.\<close>

fun first_client_random :: "tls_message list \<Rightarrow> bytes option" where
  "first_client_random [] = None"
| "first_client_random (ClientHello random _ # _) = Some random"
| "first_client_random (_ # ms) = first_client_random ms"

fun first_server_random :: "tls_message list \<Rightarrow> bytes option" where
  "first_server_random [] = None"
| "first_server_random (ServerHello random # _) = Some random"
| "first_server_random (_ # ms) = first_server_random ms"

fun find_random ::
    "nat \<Rightarrow> l7_env \<Rightarrow> (tls_message list \<Rightarrow> bytes option) \<Rightarrow> bytes \<Rightarrow> string option option" where
  "find_random 0 env first rest = None"
| "find_random (Suc k) env first rest =
     (if rest = [] then Some None
      else case e_tls env rest of
        None \<Rightarrow> Some None
      | Some (remain, tr) \<Rightarrow>
          (case (if tr_type tr = TlsHandshake then first (tr_msgs tr) else None) of
             Some r \<Rightarrow> Some (Some (hex_encode r))
           | None \<Rightarrow> find_random k env first remain))"

definition extract_client_random :: "l7_env \<Rightarrow> bytes \<Rightarrow> link_type \<Rightarrow> string option option" where
  "extract_client_random env data lt =
     and_then (find_tls_payload data lt) (\<lambda>tls. find_random (Suc (length tls)) env first_client_random tls)"

definition extract_server_random :: "l7_env \<Rightarrow> bytes \<Rightarrow> link_type \<Rightarrow> string option option" where
  "extract_server_random env data lt =
     and_then (find_tls_payload data lt) (\<lambda>tls. find_random (Suc (length tls)) env first_server_random tls)"

definition find_ext_002a :: "bytes \<Rightarrow> bool" where
  "find_ext_002a hs = list_ex (\<lambda>i. hs ! i = 0 \<and> hs ! (i + 1) = 0x2a) [0..<length hs - 3]"

fun early_data_scan :: "bytes \<Rightarrow> nat list \<Rightarrow> bool" where
  "early_data_scan tls [] = False"
| "early_data_scan tls (i # is) =
     (if tls ! i = 0x16 \<and> i + 5 < length tls \<and> tls ! (i + 5) = 1
      then find_ext_002a (drop (i + 5) tls)
      else early_data_scan tls is)"

definition client_hello_has_early_data :: "bytes \<Rightarrow> link_type \<Rightarrow> bool option" where
  "client_hello_has_early_data data lt =
     map_option (\<lambda>t. case t of None \<Rightarrow> False | Some tls \<Rightarrow> early_data_scan tls [0..<length tls - 4])
       (find_tls_payload data lt)"

section \<open>Keys and ciphers\<close>

definition build_hkdf_info :: "bytes \<Rightarrow> bytes \<Rightarrow> nat \<Rightarrow> bytes" where
  "build_hkdf_info label ctx len =
     to_be 2 len @ [word_of_nat (length label)] @ label @ [word_of_nat (length ctx)] @ ctx"

definition tls_expand_label :: "l7_env \<Rightarrow> bytes \<Rightarrow> string \<Rightarrow> bytes \<Rightarrow> nat \<Rightarrow> bytes option" where
  "tls_expand_label env secret label ctx len =
     e_expand env (e_extract env secret) (build_hkdf_info (as_bytes ''tls13 '' @ as_bytes label) ctx len) len"

text \<open>\<open>key.open_in_place\<close> on a buffer: what the buffer holds after it succeeds.\<close>

definition opened_buffer :: "l7_env \<Rightarrow> bytes \<Rightarrow> bytes option \<Rightarrow> bytes option" where
  "opened_buffer env buf plain = map_option (\<lambda>p. p @ e_left env buf p) plain"

text \<open>\<open>xor_nonce\<close>: twelve bytes of the nonce, the sequence number over the last eight.\<close>

definition xor_nonce :: "bytes \<Rightarrow> nat \<Rightarrow> bytes option" where
  "xor_nonce iv seq_no =
     map_option (\<lambda>n. take 4 n @ map2 (XOR) (drop 4 n) (to_be 8 seq_no)) (slice iv 0 12)"

definition decrypt_tls13_appdata :: "l7_env \<Rightarrow> bytes \<Rightarrow> bytes \<Rightarrow> nat \<Rightarrow> bytes option option" where
  "decrypt_tls13_appdata env secret ciphertext seq_no =
     (if length ciphertext < 17 then Some None
      else and_then (Some (tls_expand_label env secret ''key'' [] 16)) (\<lambda>key.
           and_then (Some (tls_expand_label env secret ''iv'' [] 12)) (\<lambda>iv_base. do {
             enc \<leftarrow> slice ciphertext 0 (length ciphertext - 16);
             nonce \<leftarrow> xor_nonce iv_base seq_no;
             Some (opened_buffer env enc (e_open128 env key nonce [] enc)) })))"

text \<open>\<open>p_hash_sha256\<close>: a block per turn; 32 bytes at a time, so \<open>out_len\<close> turns are enough.\<close>

fun p_hash :: "nat \<Rightarrow> l7_env \<Rightarrow> bytes \<Rightarrow> bytes \<Rightarrow> nat \<Rightarrow> bytes \<Rightarrow> bytes \<Rightarrow> bytes option" where
  "p_hash 0 env key seed out_len a out = (if length out < out_len then None else Some out)"
| "p_hash (Suc k) env key seed out_len a out =
     (if length out < out_len then
        let block = e_hmac env key (a @ seed);
            need = min (out_len - length out) (length block)
        in p_hash k env key seed out_len (e_hmac env key a) (out @ take need block)
      else Some out)"

definition tls12_prf :: "l7_env \<Rightarrow> bytes \<Rightarrow> string \<Rightarrow> bytes \<Rightarrow> nat \<Rightarrow> bytes option" where
  "tls12_prf env secret label seed out_len =
     (let label_seed = as_bytes label @ seed in
      p_hash out_len env secret label_seed out_len (e_hmac env secret label_seed) [])"

record tls12_key_block =
  kb_client_write_key :: bytes
  kb_server_write_key :: bytes
  kb_client_write_iv :: bytes
  kb_server_write_iv :: bytes

text \<open>The addition in \<open>need\<close> panics on overflow.\<close>

definition make_tls12_key_block ::
    "l7_env \<Rightarrow> bytes \<Rightarrow> bytes \<Rightarrow> bytes \<Rightarrow> nat \<Rightarrow> tls12_key_block option" where
  "make_tls12_key_block env master client_random server_random key_len =
     (let need = key_len * 2 + 8 in
      if usize_max < need then None
      else do {
        block \<leftarrow> tls12_prf env master ''key expansion'' (server_random @ client_random) need;
        ck \<leftarrow> slice block 0 key_len;
        sk \<leftarrow> slice block key_len (2 * key_len);
        ci \<leftarrow> slice block (2 * key_len) (2 * key_len + 4);
        si \<leftarrow> slice block (2 * key_len + 4) (2 * key_len + 8);
        Some \<lparr>kb_client_write_key = ck, kb_server_write_key = sk,
          kb_client_write_iv = ci, kb_server_write_iv = si\<rparr> })"

text \<open>\<open>UnboundKey::new\<close> refuses a key of another length than the algorithm's.\<close>

definition decrypt_tls12_gcm ::
    "l7_env \<Rightarrow> bytes \<Rightarrow> bytes \<Rightarrow> bytes \<Rightarrow> bytes \<Rightarrow> bool \<Rightarrow> nat \<Rightarrow> nat \<Rightarrow> bytes option option" where
  "decrypt_tls12_gcm env master client_random server_random fragment from_client seq_no key_len =
     (if length fragment < 8 + 16 then Some None
      else do {
        kb \<leftarrow> make_tls12_key_block env master client_random server_random key_len;
        let (write_key, fixed_iv) =
          (if from_client then (kb_client_write_key kb, kb_client_write_iv kb)
           else (kb_server_write_key kb, kb_server_write_iv kb));
        explicit \<leftarrow> slice fragment 0 8;
        ct \<leftarrow> slice_from fragment 8;
        let plain_len = length ct - 16;
        let nonce = fixed_iv @ explicit;
        let aad = to_be 8 seq_no @ [0x17, 3, 3] @ to_be 2 plain_len;
        let opened = (if key_len = 16 then e_open128 env write_key nonce aad ct
                      else if length write_key = 32 then e_open256 env write_key nonce aad ct else None);
        Some (map_option (\<lambda>plain. if 16 \<le> length plain then take (length plain - 16) plain else plain)
          (opened_buffer env ct opened)) })"

section \<open>Decryption attempts\<close>

record decrypt_outcome =
  do_plaintext :: "bytes option"
  do_notes :: "string list"

text \<open>The two fixture formats of the unit tests, which the code accepts from the wire.\<close>

definition decrypt_bitbeak_gcm_fixture ::
    "l7_env \<Rightarrow> bytes \<Rightarrow> key_log \<Rightarrow> string \<Rightarrow> bool \<Rightarrow> bytes option option" where
  "decrypt_bitbeak_gcm_fixture env ciphertext kl cr from_client =
     and_then (Some (from_utf8 ciphertext)) (\<lambda>text.
     and_then (Some (strip_prefix text ''BITBEAK_GCM:'')) (\<lambda>rest.
     and_then (Some (split_once (CHR '':'') rest)) (\<lambda>(nonce_hex, ct_hex).
     and_then (hex_decode nonce_hex) (\<lambda>nonce.
       if length nonce \<noteq> 12 then Some None
       else and_then (hex_decode ct_hex) (\<lambda>ct.
            and_then (traffic_secret kl cr from_client) (\<lambda>secret.
            and_then (Some (tls_expand_label env secret ''key'' [] 16)) (\<lambda>key.
              Some (opened_buffer env ct (e_open128 env key nonce [] ct)))))))))"

definition decrypt_bitbeak_tls12_fixture ::
    "l7_env \<Rightarrow> bytes \<Rightarrow> key_log \<Rightarrow> string \<Rightarrow> bool \<Rightarrow> bytes option option" where
  "decrypt_bitbeak_tls12_fixture env ciphertext kl cr from_client =
     and_then (Some (from_utf8 ciphertext)) (\<lambda>text.
     and_then (Some (strip_prefix text ''BITBEAK_TLS12_GCM:'')) (\<lambda>rest.
       case splitn 4 (CHR '':'') rest of
         [p0, p1, p2, p3] \<Rightarrow>
           (case (parse_uint usize_max p0, parse_uint u64_max p1) of
              (Inr key_len, Inr seq_no) \<Rightarrow>
                and_then (hex_decode p2) (\<lambda>explicit.
                and_then (hex_decode p3) (\<lambda>ct.
                  if length explicit \<noteq> 8 then Some None
                  else and_then (master_secret kl cr) (\<lambda>master.
                       and_then (hex_decode cr) (\<lambda>cr_bytes.
                         decrypt_tls12_gcm env master cr_bytes cr_bytes (explicit @ ct) from_client
                           seq_no key_len))))
            | _ \<Rightarrow> Some None)
       | _ \<Rightarrow> Some None))"

text \<open>The TLS 1.2 attempts: AES-128, then AES-256.\<close>

fun try_tls12 ::
    "l7_env \<Rightarrow> bytes \<Rightarrow> bytes \<Rightarrow> bytes \<Rightarrow> bytes \<Rightarrow> bool \<Rightarrow> nat \<Rightarrow> nat list \<Rightarrow> bytes option option" where
  "try_tls12 env master cr sr ciphertext from_client seq_no [] = Some None"
| "try_tls12 env master cr sr ciphertext from_client seq_no (key_len # ks) =
     (case decrypt_tls12_gcm env master cr sr ciphertext from_client seq_no key_len of
        Some None \<Rightarrow> try_tls12 env master cr sr ciphertext from_client seq_no ks
      | r \<Rightarrow> r)"

definition early_secrets_note :: string where
  "early_secrets_note = ''TLS 0-RTT / early data secrets present '' @ [CHR 0xE2, CHR 0x80, CHR 0x94]
     @ '' BitBeak does not decrypt early data''"

definition try_decrypt_appdata_ext ::
    "l7_env \<Rightarrow> key_log \<Rightarrow> string \<Rightarrow> bytes \<Rightarrow> bool \<Rightarrow> nat \<Rightarrow> bytes option \<Rightarrow> decrypt_outcome option" where
  "try_decrypt_appdata_ext env kl client_random_hex ciphertext from_client seq_no server_random =
     (let cr = to_lower client_random_hex;
          notes = (if has_early_secrets kl cr then [early_secrets_note] else []);
          outcome = map_option (\<lambda>p. \<lparr>do_plaintext = p, do_notes = notes\<rparr>)
      in outcome
        (if map_of (kl_client_random kl) cr = None \<and> map_of (kl_traffic_secrets kl) cr = None
         then Some None
         else if starts_with ciphertext (as_bytes ''BITBEAK_PLAIN:'')
         then Some (Some (drop (length ''BITBEAK_PLAIN:'') ciphertext))
         else if starts_with ciphertext (as_bytes ''BITBEAK_GCM:'')
         then decrypt_bitbeak_gcm_fixture env ciphertext kl cr from_client
         else if starts_with ciphertext (as_bytes ''BITBEAK_TLS12_GCM:'')
         then decrypt_bitbeak_tls12_fixture env ciphertext kl cr from_client
         else
           (case and_then (traffic_secret kl cr from_client)
                   (\<lambda>secret. decrypt_tls13_appdata env secret ciphertext seq_no) of
              Some None \<Rightarrow>
                (case master_secret kl cr of
                   None \<Rightarrow> None
                 | Some None \<Rightarrow> Some None
                 | Some (Some master) \<Rightarrow>
                     (case server_random of
                        None \<Rightarrow> Some None
                      | Some sr \<Rightarrow>
                          and_then (hex_decode cr) (\<lambda>cr_bytes.
                            if length cr_bytes = 32 \<and> length sr = 32
                            then try_tls12 env master cr_bytes sr ciphertext from_client seq_no [16, 32]
                            else Some None)))
            | r \<Rightarrow> r)))"

section \<open>Decrypting a frame\<close>

record tls_connection =
  tc_client_random :: string
  tc_server_random :: string
  tc_client_seq :: nat
  tc_server_seq :: nat
  tc_early_data_seen :: bool

type_synonym decrypt_state = "(string \<times> tls_connection) list"

definition new_connection :: "string \<Rightarrow> tls_connection" where
  "new_connection key = \<lparr>tc_client_random = key, tc_server_random = [], tc_client_seq = 0,
     tc_server_seq = 0, tc_early_data_seen = False\<rparr>"

text \<open>\<open>track_client_random\<close> and an update of the entry it returns.\<close>

definition update_connection ::
    "string \<Rightarrow> (tls_connection \<Rightarrow> tls_connection) \<Rightarrow> decrypt_state \<Rightarrow> decrypt_state" where
  "update_connection cr f state =
     (let key = to_lower cr in
      AList.update key (f (default_to (new_connection key) (map_of state key))) state)"

definition set_server_random :: "string \<Rightarrow> string \<Rightarrow> decrypt_state \<Rightarrow> decrypt_state" where
  "set_server_random cr sr =
     update_connection cr (\<lambda>c. if tc_server_random c = [] then c\<lparr>tc_server_random := to_lower sr\<rparr> else c)"

definition mark_early_data :: "string \<Rightarrow> decrypt_state \<Rightarrow> decrypt_state" where
  "mark_early_data cr = update_connection cr (\<lambda>c. c\<lparr>tc_early_data_seen := True\<rparr>)"

text \<open>The application data of one record: the first message that decrypts.\<close>

fun decrypt_messages ::
    "(bytes \<Rightarrow> decrypt_outcome option) \<Rightarrow> tls_message list \<Rightarrow> string list \<Rightarrow> decrypt_outcome option" where
  "decrypt_messages attempt [] notes = Some \<lparr>do_plaintext = None, do_notes = notes\<rparr>"
| "decrypt_messages attempt (AppDataMsg blob # ms) notes = do {
     out \<leftarrow> attempt blob;
     let notes = notes @ do_notes out;
     if do_plaintext out \<noteq> None then Some \<lparr>do_plaintext = do_plaintext out, do_notes = notes\<rparr>
     else decrypt_messages attempt ms notes }"
| "decrypt_messages attempt (_ # ms) notes = decrypt_messages attempt ms notes"

fun decrypt_records ::
    "nat \<Rightarrow> l7_env \<Rightarrow> (bytes \<Rightarrow> decrypt_outcome option) \<Rightarrow> bytes \<Rightarrow> string list \<Rightarrow> decrypt_outcome option" where
  "decrypt_records 0 env attempt rest notes = None"
| "decrypt_records (Suc k) env attempt rest notes =
     (if rest = [] then Some \<lparr>do_plaintext = None, do_notes = notes\<rparr>
      else case e_tls env rest of
        None \<Rightarrow> Some \<lparr>do_plaintext = None, do_notes = notes\<rparr>
      | Some (remain, tr) \<Rightarrow> do {
          out \<leftarrow> (if tr_type tr = TlsApplicationData then decrypt_messages attempt (tr_msgs tr) notes
                  else Some \<lparr>do_plaintext = None, do_notes = notes\<rparr>);
          if do_plaintext out \<noteq> None then Some out
          else decrypt_records k env attempt remain (do_notes out) })"

definition early_note1 :: string where
  "early_note1 = ''TLS 0-RTT early_data offered '' @ [CHR 0xE2, CHR 0x80, CHR 0x94]
     @ '' not decrypted by BitBeak''"

definition early_note2 :: string where
  "early_note2 = ''TLS 0-RTT / early data '' @ [CHR 0xE2, CHR 0x80, CHR 0x94]
     @ '' BitBeak does not decrypt early data''"

text \<open>
  \<open>guess_from_client\<close> is always true; it looks the TCP payload up again, which has succeeded
  before.  The state is returned with the outcome.
\<close>

definition decrypt_tls_in_frame_ext ::
    "l7_env \<Rightarrow> bytes \<Rightarrow> link_type \<Rightarrow> key_log \<Rightarrow> decrypt_state \<Rightarrow> (decrypt_outcome \<times> decrypt_state) option" where
  "decrypt_tls_in_frame_ext env data lt kl state = do {
     tls \<leftarrow> find_tls_payload data lt;
     case tls of
       None \<Rightarrow> Some (\<lparr>do_plaintext = None, do_notes = []\<rparr>, state)
     | Some tls \<Rightarrow> do {
         cr0 \<leftarrow> extract_client_random env data lt;
         case (if cr0 = None then map_option fst (if state = [] then None else Some (hd state)) else cr0) of
           None \<Rightarrow> Some (\<lparr>do_plaintext = None, do_notes = []\<rparr>, state)
         | Some cr \<Rightarrow> do {
             early \<leftarrow> client_hello_has_early_data data lt;
             let state = (if early then mark_early_data cr state else state);
             let notes = (if early then [early_note1] else []);
             sr \<leftarrow> extract_server_random env data lt;
             let state = (case sr of None \<Rightarrow> state | Some sr \<Rightarrow> set_server_random cr sr state);
             let conn = default_to (new_connection (to_lower cr)) (map_of state (to_lower cr));
             let notes = notes @ (if tc_early_data_seen conn then [early_note2] else []);
             server_random \<leftarrow> hex_decode (tc_server_random conn);
             let seq_no = tc_client_seq conn;
             let state = update_connection cr (\<lambda>c. c\<lparr>tc_client_seq := tc_client_seq c + 1\<rparr>) state;
             out \<leftarrow> decrypt_records (Suc (length tls)) env
               (\<lambda>blob. try_decrypt_appdata_ext env kl cr blob True seq_no server_random) tls notes;
             Some (out, state) } } }"

definition decrypt_tls_in_frame ::
    "l7_env \<Rightarrow> bytes \<Rightarrow> link_type \<Rightarrow> key_log \<Rightarrow> decrypt_state \<Rightarrow> (bytes option \<times> decrypt_state) option" where
  "decrypt_tls_in_frame env data lt kl state =
     map_option (\<lambda>(out, state). (do_plaintext out, state)) (decrypt_tls_in_frame_ext env data lt kl state)"

end
