(* ===== verification/Dissect.thy ===== *)
theory Dissect
  imports Decrypt Expert
begin

text \<open>
  The dissection of one frame (\<open>src/src/dissect/mod.rs\<close>): the layers, the expert rules, the
  display fields and the attempt to decrypt, and the two operations of
  \<open>src/src/dissect/packet.rs\<close> that call it.  The key log is an argument; the source hands
  it to the QUIC dissector through a thread-local variable.
\<close>

section \<open>Display fields\<close>

definition build_frame_protocols :: "protocol_flags \<Rightarrow> string" where
  "build_frame_protocols f =
     join '':'' (map snd (filter fst
       [(pf_ethernet f, ''eth''), (pf_vlan f, ''vlan''), (pf_ipv4 f, ''ip''), (pf_ipv6 f, ''ipv6''),
        (pf_tcp f, ''tcp''), (pf_udp f, ''udp''), (pf_tls f, ''tls''), (pf_http f, ''http''),
        (pf_http2 f, ''http2''), (pf_dns f, ''dns''), (pf_dhcp f, ''dhcp''), (pf_websocket f, ''websocket'')]))"

definition http_methods :: "string list" where
  "http_methods = [''GET'', ''POST'', ''PUT'', ''HEAD'', ''DELETE'', ''OPTIONS'', ''PATCH'']"

definition http_fields :: "string \<Rightarrow> display_fields \<Rightarrow> display_fields" where
  "http_fields info fs =
     (let fs =
        (case split_whitespace info of
           meth # _ \<Rightarrow> if meth \<in> set http_methods then fs(''http.request.method'' \<mapsto> meth) else fs
         | [] \<Rightarrow> fs)
      in if starts_with info ''HTTP ''
         then (case split_whitespace info of
                 _ # code # _ \<Rightarrow> fs(''http.response.code'' \<mapsto> code) | _ \<Rightarrow> fs)
         else fs)"

definition dns_fields :: "string \<Rightarrow> display_fields \<Rightarrow> display_fields" where
  "dns_fields info fs =
     (case strip_prefix info ''Standard query '' of
        Some rest \<Rightarrow> fs(''dns.qry.name'' \<mapsto> rest)
      | None \<Rightarrow>
          (case strip_prefix info ''DNS query '' of
             Some rest \<Rightarrow> fs(''dns.qry.name'' \<mapsto> rest)
           | None \<Rightarrow> fs))"

definition syn_field :: "string \<Rightarrow> display_fields \<Rightarrow> display_fields" where
  "syn_field info fs =
     (case split_chr (CHR ''['') info of
        _ # s # _ \<Rightarrow>
          fs(''tcp.flags.syn'' \<mapsto>
            (if contains (takeWhile (\<lambda>c. c \<noteq> CHR '']'') s) ''SYN'' then ''1'' else ''0''))
      | _ \<Rightarrow> fs)"

definition populate_display_fields ::
    "l7_env \<Rightarrow> protocol_flags \<Rightarrow> packet_summary \<Rightarrow> bytes \<Rightarrow> link_type \<Rightarrow> display_fields \<Rightarrow>
     display_fields option" where
  "populate_display_fields env flags summary data lt fs =
     (let info = ps_info summary;
          fs = fs(''frame.protocols'' \<mapsto> build_frame_protocols flags);
          fs = (if pf_http flags then http_fields info fs else fs);
          fs = (if pf_dns flags then dns_fields info fs else fs)
      in do {
        fs \<leftarrow>
          (if pf_tls flags then
             let fs =
               (if contains info ''ClientHello'' then fs(''tls.handshake.type'' \<mapsto> ''1'')
                else if contains info ''ServerHello'' then fs(''tls.handshake.type'' \<mapsto> ''2'')
                else fs)
             in do {
               cr \<leftarrow> extract_client_random env data lt;
               Some (case cr of None \<Rightarrow> fs | Some cr \<Rightarrow> fs(''tls.client_random'' \<mapsto> cr)) }
           else Some fs);
        Some (if pf_tcp flags \<and> contains info ''['' then syn_field info fs else fs) })"

section \<open>Dissection\<close>

definition plain_looks_like_http1 :: "bytes \<Rightarrow> bool" where
  "plain_looks_like_http1 p =
     (let s = default_to [] (from_utf8 (take (min (length p) 16) p)) in
      starts_with s ''GET '' \<or> starts_with s ''POST '' \<or> starts_with s ''HTTP/1.'')"

definition with_keylog :: "key_log option \<Rightarrow> l7_env \<Rightarrow> l7_env" where
  "with_keylog kl env =
     env\<lparr>e_traffic_secret := map_option (\<lambda>k. map_option snd (quic_traffic_secret k)) kl\<rparr>"

text \<open>
  The decryption attempt, with a fresh state for every frame: the plaintext, the fields and
  the state after the re-dissection of plaintext that looks like HTTP.
\<close>

definition decrypt_layer ::
    "l7_env \<Rightarrow> key_log option \<Rightarrow> bytes \<Rightarrow> link_type \<Rightarrow> nat \<Rightarrow> display_fields \<Rightarrow> dstate \<Rightarrow>
     (bytes option \<times> display_fields \<times> dstate) option" where
  "decrypt_layer env keylog data lt root fs st =
     (case keylog of
        None \<Rightarrow> Some (None, fs, st)
      | Some kl \<Rightarrow>
          if pf_tls (ds_flags st) \<and> has_secrets kl then do {
            (decrypted, _) \<leftarrow> decrypt_tls_in_frame env data lt kl [];
            case decrypted of
              None \<Rightarrow> Some (None, fs, st)
            | Some plain \<Rightarrow>
                if plain_looks_like_http1 plain then do {
                  (_, sub) \<leftarrow> dissect_http1 env 0 plain 0
                    (st\<lparr>ds_tree := snd (add_root ''Decrypted HTTP'' 0 (length plain) tree_new)\<rparr>);
                  let st = st\<lparr>ds_flags := ds_flags sub, ds_summary := ds_summary sub\<rparr>;
                  fs \<leftarrow> populate_display_fields env (ds_flags st) (ds_summary st) plain LtRaw fs;
                  Some (decrypted, fs,
                    child root ''Decrypted Layer'' (''TLS'' @ arrow_str @ ''HTTP'') 0 0 st) }
                else Some (decrypted, fs, st) }
          else Some (None, fs, st))"

text \<open>The state \<open>dissect\<close> starts from: the frame's node and its length.\<close>

definition frame_state :: "bytes \<Rightarrow> dstate" where
  "frame_state data =
     (let n = length data; label = ''Frame ('' @ dec n @ '' bytes)'' in
      child 0 ''Frame length'' (dec n) 0 n
        \<lparr>ds_tree = snd (add_root label 0 n tree_new), ds_flags = default_flags,
         ds_summary = \<lparr>ps_src = [], ps_dst = [], ps_protocol = ''Data'', ps_info = dec n @ '' bytes'', ps_len = n\<rparr>\<rparr>)"

definition dissect :: "l7_env \<Rightarrow> key_log option \<Rightarrow> bytes \<Rightarrow> link_type \<Rightarrow> dissected_packet option" where
  "dissect env0 keylog data lt =
     (let env = with_keylog keylog env0; st = frame_state data; root = 0 in
      if data = [] then
        Some \<lparr>dp_tree = ds_tree st, dp_summary = ds_summary st, dp_flags = ds_flags st, dp_expert = [],
          dp_payload_offset = 0, dp_payload = [], dp_decrypted = None, dp_fields = Map.empty\<rparr>
      else do {
        (result, st) \<leftarrow> dissect_l2 env root data lt st;
        let expert = collect_expert data lt (ds_flags st) (ds_summary st);
        let st = (if ps_protocol (ds_summary st) = ''Data'' \<and> \<not> flags_any (ds_flags st)
                  then set_info (dec (length data) @ '' bytes'') st else st);
        fs \<leftarrow> populate_display_fields env (ds_flags st) (ds_summary st) data lt Map.empty;
        (decrypted, fs, st) \<leftarrow> decrypt_layer env keylog data lt root fs st;
        Some \<lparr>dp_tree = ds_tree st, dp_summary = ds_summary st, dp_flags = ds_flags st,
          dp_expert = expert, dp_payload_offset = lr_offset result, dp_payload = lr_payload result,
          dp_decrypted = decrypted, dp_fields = fs\<rparr> })"

text \<open>\<open>PacketStore::push_raw\<close> and \<open>PacketRecord::ensure_tree\<close>, which dissect without a key log.\<close>

definition push_raw ::
    "l7_env \<Rightarrow> nat \<Rightarrow> bytes \<Rightarrow> link_type \<Rightarrow> string \<Rightarrow> nat \<Rightarrow> int \<Rightarrow> packet_store \<Rightarrow> packet_store option" where
  "push_raw env at_now data lt interface orig_len wall s = do {
     d \<leftarrow> dissect env None data lt;
     Some (store_push
       \<lparr>pr_id = 0, pr_at = at_now, pr_wall = wall, pr_interface = interface, pr_link_type = lt,
        pr_orig_len = (if orig_len = 0 then length data mod 2 ^ 32 else orig_len), pr_data = data,
        pr_summary = dp_summary d, pr_flags = dp_flags d, pr_expert = dp_expert d,
        pr_tree = Some (dp_tree d), pr_decrypted = dp_decrypted d, pr_fields = dp_fields d\<rparr> s) }"

definition ensure_tree :: "l7_env \<Rightarrow> packet_record \<Rightarrow> packet_record option" where
  "ensure_tree env r =
     (if pr_tree r = None then do {
        d \<leftarrow> dissect env None (pr_data r) (pr_link_type r);
        let r = r\<lparr>pr_summary := dp_summary d, pr_flags := dp_flags d, pr_expert := dp_expert d,
          pr_fields := dp_fields d, pr_tree := Some (dp_tree d)\<rparr>;
        Some (if dp_decrypted d \<noteq> None then r\<lparr>pr_decrypted := dp_decrypted d\<rparr> else r) }
      else Some r)"

section \<open>No panic\<close>

lemma with_keylog_ok [simp]:
  "env_ok (with_keylog kl env) = env_ok env" "dns_ok (with_keylog kl env) = dns_ok env"
  by (simp_all add: with_keylog_def env_ok_def dns_ok_def)

lemma find_random_total: "env_ok env \<Longrightarrow> length rest < k \<Longrightarrow> find_random k env first rest \<noteq> None"
proof (induction k arbitrary: rest)
  case (Suc k)
  have "length m < k" if tls: "e_tls env rest = Some (m, t)" for m t
  proof -
    obtain c where "5 \<le> c" "c \<le> length rest" "m = drop c rest" using Suc.prems(1) tls unfolding env_ok_def by blast
    with Suc.prems(2) show ?thesis by simp
  qed
  with Suc show ?case by (auto split: option.split)
qed simp

lemma l4_payload_total: "20 \<le> length data \<Longrightarrow> l4_payload data lt \<noteq> None"
  by (auto simp: l4_payload_def and_then_def slice_def slice_from_def idx_def Let_def
      split: option.split if_splits)

lemma extract_client_random_total:
  assumes "env_ok env" "20 \<le> length data"
  shows "extract_client_random env data lt \<noteq> None"
  using l4_payload_total [OF assms(2), of lt] find_random_total [OF assms(1)]
  by (auto simp: extract_client_random_def find_tls_payload_def and_then_def simp del: find_random.simps
      split: option.split)

text \<open>A frame too short for an IP header leaves the TLS flag alone.\<close>

lemma short_ip:
  "length data < 20 \<Longrightarrow> dissect_ipv4 env p data offset st = ret data offset st"
  "length data < 40 \<Longrightarrow> dissect_ipv6 env p data offset st = ret data offset st"
  by (simp_all add: dissect_ipv4_def dissect_ipv6_def ipv6_packet_def)

lemma arp_tls: "dissect_arp p data offset st = Some (r, st') \<Longrightarrow> pf_tls (ds_flags st') = pf_tls (ds_flags st)"
  by (auto simp: dissect_arp_def Let_def ret_def bind_eq_Some_conv split: if_splits)

lemma dot11_tls: "dissect_dot11 p data st = Some st' \<Longrightarrow> pf_tls (ds_flags st') = pf_tls (ds_flags st)"
  by (auto simp: dissect_dot11_def Let_def bind_eq_Some_conv split: if_splits option.splits)

lemma radiotap_tls:
  "dissect_radiotap p data st = Some (r, st') \<Longrightarrow> pf_tls (ds_flags st') = pf_tls (ds_flags st)"
  by (auto simp: dissect_radiotap_def Let_def bind_eq_Some_conv dest!: dot11_tls split: if_splits)

lemma ethertype_tls:
  assumes "by_ethertype env e other p data offset st = Some (r, st')" "length data < 20"
    and "\<And>st. ds_flags (other st) = ds_flags st"
  shows "pf_tls (ds_flags st') = pf_tls (ds_flags st)"
  using assms by (auto simp: by_ethertype_def short_ip ret_def dest!: arp_tls split: if_splits)

lemma version_tls:
  "by_version env p data offset st = Some (r, st') \<Longrightarrow> length data < 20 \<Longrightarrow>
   pf_tls (ds_flags st') = pf_tls (ds_flags st)"
  by (auto simp: by_version_def short_ip ret_def split: if_splits)

lemma ethernet_tls:
  "dissect_ethernet env p data 0 st = Some (r, st') \<Longrightarrow> length data < 20 \<Longrightarrow>
   pf_tls (ds_flags st') = pf_tls (ds_flags st)"
  by (auto simp: dissect_ethernet_def Let_def bind_eq_Some_conv ret_def slice_from_def
      dest!: ethertype_tls split: if_splits)

lemma cooked_tls:
  "length data < 20 \<Longrightarrow> dissect_sll env p data 0 st = Some (r, st') \<Longrightarrow> pf_tls (ds_flags st') = pf_tls (ds_flags st)"
  "length data < 20 \<Longrightarrow> dissect_sll2 env p data 0 st = Some (r, st') \<Longrightarrow> pf_tls (ds_flags st') = pf_tls (ds_flags st)"
  "length data < 20 \<Longrightarrow> dissect_null env p data 0 st = Some (r, st') \<Longrightarrow> pf_tls (ds_flags st') = pf_tls (ds_flags st)"
  by (auto simp: dissect_sll_def dissect_sll2_def dissect_null_def Let_def bind_eq_Some_conv ret_def
      slice_from_def short_ip dest!: ethertype_tls version_tls split: if_splits)

lemma short_frame_tls:
  assumes "dissect_l2 env p data lt st = Some (r, st')" "length data < 20"
  shows "pf_tls (ds_flags st') = pf_tls (ds_flags st)"
  using assms cooked_tls [of data env p st r st'] ethernet_tls [of env p data st r st']
    version_tls [of env p data 0 st r st']
  by (cases lt) (auto simp: bind_eq_Some_conv ret_def dest!: dot11_tls radiotap_tls split: if_splits)

lemma populate_total:
  assumes "env_ok env" "pf_tls flags \<longrightarrow> 20 \<le> length data"
  shows "populate_display_fields env flags summary data lt fs \<noteq> None"
  using assms extract_client_random_total [of env data lt]
  by (auto simp: populate_display_fields_def Let_def)

lemma frame_state_ok:
  "st_ok (length data) (frame_state data)" "node_count (frame_state data) = 2"
  "pf_tls (ds_flags (frame_state data)) = False"
proof -
  let ?t = "snd (add_root (''Frame ('' @ dec (length data) @ '' bytes)'') 0 (length data) tree_new)"
  have "tree_wf ?t" "tree_within (length data) ?t" "length (pt_nodes ?t) = 1"
    by (simp_all add: tree_wf_add_root tree_wf_new) (simp add: add_root_def tree_new_def Let_def)
  then show "st_ok (length data) (frame_state data)" "node_count (frame_state data) = 2"
    by (simp_all add: frame_state_def Let_def st_ok_def child_def node_count_def tree_wf_add_child
        tree_within_add_child)
  show "pf_tls (ds_flags (frame_state data)) = False"
    by (simp add: frame_state_def Let_def default_flags_def)
qed


text \<open>The names \<open>populate_display_fields\<close> can set; nothing else is ever a stored field.\<close>

definition known_fields :: "string set" where
  "known_fields = {''frame.protocols'', ''http.request.method'', ''http.response.code'', ''dns.qry.name'',
     ''tls.handshake.type'', ''tls.client_random'', ''tcp.flags.syn''}"

definition fields_known :: "display_fields \<Rightarrow> bool" where
  "fields_known fs \<longleftrightarrow> dom fs \<subseteq> known_fields"

lemma set_field_known:
  "fields_known fs \<Longrightarrow> k \<in> known_fields \<Longrightarrow> fields_known (fs(k \<mapsto> v))"
  by (auto simp: fields_known_def)

lemma group_fields_known:
  assumes "fields_known fs"
  shows "fields_known (http_fields info fs)" "fields_known (dns_fields info fs)"
    "fields_known (syn_field info fs)"
  using assms by (auto simp: http_fields_def dns_fields_def syn_field_def fields_known_def known_fields_def Let_def
      split: list.splits option.splits if_splits)

lemma populate_known:
  assumes "populate_display_fields env flags summary data lt fs = Some fs'" "fields_known fs"
  shows "fields_known fs'"
proof -
  have names: "''frame.protocols'' \<in> known_fields" "''tls.handshake.type'' \<in> known_fields"
    "''tls.client_random'' \<in> known_fields"
    by (simp_all add: known_fields_def)
  show ?thesis
    using assms(1)
    by (auto simp: populate_display_fields_def Let_def bind_eq_Some_conv
        intro!: group_fields_known set_field_known names assms(2) split: option.splits if_splits)
qed

lemma decrypt_layer_known:
  "decrypt_layer env kl data lt root fs st = Some (p, fs', st') \<Longrightarrow> fields_known fs \<Longrightarrow> fields_known fs'"
  by (auto simp: decrypt_layer_def Let_def bind_eq_Some_conv dest: populate_known
      split: option.splits prod.splits if_splits)

lemma dissect_known:
  assumes "dissect env kl data lt = Some d"
  shows "fields_known (dp_fields d)"
proof -
  have "fields_known Map.empty" by (simp add: fields_known_def)
  then show ?thesis using assms
    by (auto simp: dissect_def Let_def bind_eq_Some_conv dest: populate_known decrypt_layer_known split: if_splits)
qed

lemma refusing_dns_ok: "dns_ok refusing_env"
  by (simp add: dns_ok_def refusing_env_def)


end
