(* ===== verification/Reassembly.thy ===== *)
theory Reassembly
  imports Packet "HOL-Library.Multiset"
begin

text \<open>
  IPv4 defragmentation (\<open>src/src/dissect/reassembly.rs\<close>).  The table maps a datagram's key to
  the fragments received so far; \<open>ingest\<close> returns the datagram when its last fragment is there
  and the offsets are contiguous.  \<open>None\<close> outside is a panic.
\<close>

section \<open>Parsing a fragment\<close>

record frag_piece =
  fp_offset :: nat
  fp_more :: bool
  fp_data :: bytes

type_synonym frag_key = "nat \<times> nat \<times> nat \<times> u8"

record ipv4_hdr =
  ih_id :: nat
  ih_src :: nat
  ih_dst :: nat
  ih_proto :: u8
  ih_frag_offset :: nat
  ih_more :: bool

text \<open>Where the code looks for the IP header.\<close>

fun frag_ip_offset :: "bytes \<Rightarrow> link_type \<Rightarrow> nat option" where
  "frag_ip_offset data LtEthernet =
     (if length data < 14 then None
      else if be16 (data ! 12) (data ! 13) \<noteq> 0x0800 then None else Some 14)"
| "frag_ip_offset data LtLinuxSll = Some 16"
| "frag_ip_offset data LtRaw = Some 0"
| "frag_ip_offset data LtNull = Some 0"
| "frag_ip_offset data _ = None"

definition parse_ipv4 :: "bytes \<Rightarrow> link_type \<Rightarrow> (ipv4_hdr \<times> bytes) option option" where
  "parse_ipv4 data lt =
     (case frag_ip_offset data lt of
        None \<Rightarrow> Some None
      | Some ip_off \<Rightarrow>
          if length data < ip_off + 20 then Some None
          else do {
            b0 \<leftarrow> idx data ip_off;
            let ihl = unat (b0 AND 0x0f) * 4;
            total_len \<leftarrow> map_option from_be (slice data (ip_off + 2) (ip_off + 4));
            flags_frag \<leftarrow> map_option from_be (slice data (ip_off + 6) (ip_off + 8));
            let more = (flags_frag div 0x2000 mod 2 = 1);
            let frag_off = (flags_frag mod 0x2000) * 8;
            ident \<leftarrow> map_option from_be (slice data (ip_off + 4) (ip_off + 6));
            proto \<leftarrow> idx data (ip_off + 9);
            src \<leftarrow> map_option from_be (slice data (ip_off + 12) (ip_off + 16));
            dst \<leftarrow> map_option from_be (slice data (ip_off + 16) (ip_off + 20));
            let end_off = ip_off + min total_len (length data);
            payload \<leftarrow> slice data (ip_off + ihl) end_off;
            Some (Some (\<lparr>ih_id = ident, ih_src = src, ih_dst = dst, ih_proto = proto,
              ih_frag_offset = frag_off, ih_more = more\<rparr>, payload)) })"

section \<open>The fragment table\<close>

type_synonym defrag = "frag_key \<Rightarrow> frag_piece list option"

definition frags_of :: "defrag \<Rightarrow> frag_key \<Rightarrow> frag_piece list" where
  "frags_of table key = (case table key of None \<Rightarrow> [] | Some fs \<Rightarrow> fs)"

text \<open>The pass over the sorted fragments; \<open>expected\<close> is a saturating 16-bit counter.\<close>

fun join_frags :: "nat \<Rightarrow> frag_piece list \<Rightarrow> bytes option" where
  "join_frags expected [] = Some []"
| "join_frags expected (f # fs) =
     (if fp_offset f \<noteq> expected then None
      else map_option ((@) (fp_data f))
        (join_frags (min (expected + length (fp_data f) mod 65536) 65535) fs))"

definition reassemble :: "frag_piece list \<Rightarrow> bytes option" where
  "reassemble frags =
     (if \<not> list_ex (\<lambda>f. \<not> fp_more f) frags then None
      else let sorted_frags = sort_key fp_offset frags in
        case join_frags 0 sorted_frags of
          None \<Rightarrow> None
        | Some out \<Rightarrow>
            if (case sorted_frags of [] \<Rightarrow> True | _ \<Rightarrow> fp_more (last sorted_frags)) then None else Some out)"

definition ingest_piece :: "frag_key \<Rightarrow> frag_piece \<Rightarrow> defrag \<Rightarrow> bytes option \<times> defrag" where
  "ingest_piece key piece table =
     (let frags = frags_of table key @ [piece]; table = table(key \<mapsto> frags) in
      case reassemble frags of
        None \<Rightarrow> (None, table)
      | Some out \<Rightarrow> (Some out, table(key := None)))"

definition ingest :: "packet_record \<Rightarrow> defrag \<Rightarrow> (bytes option \<times> defrag) option" where
  "ingest pkt table =
     (case parse_ipv4 (pr_data pkt) (pr_link_type pkt) of
        None \<Rightarrow> None
      | Some None \<Rightarrow> Some (None, table)
      | Some (Some (hdr, payload)) \<Rightarrow>
          if ih_frag_offset hdr = 0 \<and> \<not> ih_more hdr then Some (None, table)
          else Some (ingest_piece (ih_id hdr, ih_src hdr, ih_dst hdr, ih_proto hdr)
            \<lparr>fp_offset = ih_frag_offset hdr, fp_more = ih_more hdr, fp_data = payload\<rparr> table))"

text \<open>\<open>defrag_ipv4\<close>: a clone of the packet that completed each datagram, with a new info text.\<close>

definition reassembled_info :: "bytes \<Rightarrow> string" where
  "reassembled_info data = ''IPv4 reassembled ('' @ dec (length data) @ '' bytes)''"

fun defrag_loop :: "packet_record list \<Rightarrow> defrag \<Rightarrow> packet_record list option" where
  "defrag_loop [] table = Some []"
| "defrag_loop (p # ps) table = do {
     (out, table) \<leftarrow> ingest p table;
     rest \<leftarrow> defrag_loop ps table;
     Some (case out of
       None \<Rightarrow> rest
     | Some data \<Rightarrow> p\<lparr>pr_summary := (pr_summary p)\<lparr>ps_info := reassembled_info data\<rparr>\<rparr> # rest) }"

definition defrag_ipv4 :: "packet_record list \<Rightarrow> packet_record list option" where
  "defrag_ipv4 packets = defrag_loop packets Map.empty"

text \<open>\<open>export_http_objects\<close>: the file name of an object; a character that is not an ASCII
  letter or digit becomes an underscore.\<close>

definition alnum :: "string \<Rightarrow> bool" where
  "alnum c = (case c of
     [x] \<Rightarrow> (let n = (of_char x :: nat) in
        48 \<le> n \<and> n \<le> 57 \<or> 65 \<le> n \<and> n \<le> 90 \<or> 97 \<le> n \<and> n \<le> 122)
   | _ \<Rightarrow> False)"

definition object_file_name :: "nat \<Rightarrow> string \<Rightarrow> string" where
  "object_file_name i name =
     pad0 4 (dec i) @ ''_'' @ concat (take 40 (map (\<lambda>c. if alnum c then c else ''_'') (chars name))) @ ''.bin''"

section \<open>Fragments of a datagram\<close>

text \<open>The fragments of a payload cut into chunks, as a sender numbers them.\<close>

fun pieces_from :: "nat \<Rightarrow> bytes list \<Rightarrow> frag_piece list" where
  "pieces_from off [] = []"
| "pieces_from off (c # cs) =
     \<lparr>fp_offset = off, fp_more = (cs \<noteq> []), fp_data = c\<rparr> # pieces_from (off + length c) cs"

fun ingest_pieces :: "frag_key \<Rightarrow> frag_piece list \<Rightarrow> defrag \<Rightarrow> bytes option list \<times> defrag" where
  "ingest_pieces key [] table = ([], table)"
| "ingest_pieces key (p # ps) table =
     (let (r, table) = ingest_piece key p table; (rs, table) = ingest_pieces key ps table
      in (r # rs, table))"

lemma length_pieces [simp]: "length (pieces_from off cs) = length cs"
  by (induction cs arbitrary: off) auto

lemma pieces_offset_ge: "p \<in> set (pieces_from off cs) \<Longrightarrow> off \<le> fp_offset p"
  by (induction cs arbitrary: off) fastforce+

lemma pieces_sorted:
  "[] \<notin> set cs \<Longrightarrow> sorted (map fp_offset (pieces_from off cs)) \<and> distinct (map fp_offset (pieces_from off cs))"
proof (induction cs arbitrary: off)
  case (Cons c cs)
  have "off < fp_offset p" if "p \<in> set (pieces_from (off + length c) cs)" for p
    using pieces_offset_ge [OF that] Cons.prems by (cases c) auto
  with Cons show ?case by (auto simp: less_imp_le)
qed simp

lemma join_pieces:
  "off + length (concat cs) \<le> 65535 \<Longrightarrow> join_frags off (pieces_from off cs) = Some (concat cs)"
  by (induction cs arbitrary: off) auto

text \<open>A contiguous run of a datagram's fragments that ends with the last one is all of them.\<close>

lemma contiguous_is_all:
  assumes "[] \<notin> set cs" and "off + length (concat cs) \<le> 65535"
    and "set xs \<subseteq> set (pieces_from off cs)" "distinct (map fp_offset xs)" "sorted (map fp_offset xs)"
    and "xs \<noteq> []" "\<not> fp_more (last xs)" "join_frags off xs \<noteq> None"
  shows "xs = pieces_from off cs"
  using assms
proof (induction cs arbitrary: off xs)
  case (Cons c cs)
  obtain y ys where xs: "xs = y # ys" using Cons.prems(6) by (cases xs) auto
  let ?p = "\<lparr>fp_offset = off, fp_more = (cs \<noteq> []), fp_data = c\<rparr>" and ?ps = "pieces_from (off + length c) cs"
  have later: "off < fp_offset q" if "q \<in> set ?ps" for q
    using pieces_offset_ge [OF that] Cons.prems(1) by (cases c) auto
  have y_off: "fp_offset y = off" using Cons.prems(8) by (auto simp: xs split: if_splits)
  have y: "y = ?p" using Cons.prems(3) later y_off by (auto simp: xs)
  have sub: "set ys \<subseteq> set ?ps"
  proof
    fix q assume q: "q \<in> set ys"
    then have "fp_offset q \<in> fp_offset ` set ys" by (rule imageI)
    then have "fp_offset q \<noteq> off" using Cons.prems(4) y_off by (auto simp: xs)
    moreover have "q \<in> set (?p # ?ps)" using Cons.prems(3) q by (auto simp: xs)
    ultimately show "q \<in> set ?ps" by auto
  qed
  show ?case
  proof (cases "cs = []")
    case True
    with sub y xs show ?thesis by simp
  next
    case False
    with Cons.prems(7) y xs have ys: "ys \<noteq> []" "\<not> fp_more (last ys)" by (auto split: if_splits)
    have "join_frags (off + length c) ys \<noteq> None"
      using Cons.prems(2,8) y xs by (auto simp: min_def split: if_splits)
    then have "ys = ?ps"
      using Cons.IH [of "off + length c" ys] Cons.prems(1,2,4,5) sub ys xs by auto
    with y xs show ?thesis by simp
  qed
qed simp

lemma reassemble_some_contiguous:
  assumes "reassemble xs = Some out"
  shows "sort_key fp_offset xs \<noteq> [] \<and> \<not> fp_more (last (sort_key fp_offset xs)) \<and>
    join_frags 0 (sort_key fp_offset xs) = Some out"
  using assms
  by (auto simp: reassemble_def Let_def split: if_splits option.splits list.splits)

lemma reassemble_part:
  assumes "[] \<notin> set cs" "length (concat cs) \<le> 65535"
    and "set xs \<subseteq> set (pieces_from 0 cs)" "distinct (map fp_offset xs)" "length xs < length cs"
  shows "reassemble xs = None"
proof (rule ccontr)
  assume "reassemble xs \<noteq> None"
  then obtain out where "reassemble xs = Some out" by blast
  note r = reassemble_some_contiguous [OF this]
  have "sort_key fp_offset xs = pieces_from 0 cs"
    by (rule contiguous_is_all) (use r assms(1-4) in \<open>auto simp: distinct_map\<close>)
  then have "length xs = length cs" by (metis length_sort length_pieces)
  with assms(5) show False by simp
qed

lemma pieces_last: "cs \<noteq> [] \<Longrightarrow> pieces_from off cs \<noteq> [] \<and> \<not> fp_more (last (pieces_from off cs))"
proof (induction cs arbitrary: off)
  case (Cons c cs)
  then show ?case by (cases cs) auto
qed simp

lemma reassemble_all:
  assumes "cs \<noteq> []" "[] \<notin> set cs" "length (concat cs) \<le> 65535"
    and "mset xs = mset (pieces_from 0 cs)"
  shows "reassemble xs = Some (concat cs)"
proof -
  have inj: "inj_on fp_offset (set xs)"
    using pieces_sorted [OF assms(2), of 0] mset_eq_setD [OF assms(4)] by (simp add: distinct_map)
  have sorted_eq: "sort_key fp_offset xs = pieces_from 0 cs"
    by (rule sort_key_inj_key_eq [OF assms(4) inj]) (use pieces_sorted [OF assms(2)] in blast)
  have "\<exists>f \<in> set xs. \<not> fp_more f"
    using pieces_last [OF assms(1), of 0] mset_eq_setD [OF assms(4)] last_in_set by metis
  then show ?thesis
    using pieces_last [OF assms(1), of 0] join_pieces [of 0 cs] assms(3)
    by (auto simp: reassemble_def Let_def sorted_eq list_ex_iff split: list.split)
qed

section \<open>Properties\<close>

lemma ingest_pieces_rest:
  assumes cs: "cs \<noteq> []" "[] \<notin> set cs" "length (concat cs) \<le> 65535"
  shows "mset (seen @ ps) = mset (pieces_from 0 cs) \<Longrightarrow> ps \<noteq> [] \<Longrightarrow> frags_of table key = seen \<Longrightarrow>
    ingest_pieces key ps table = (replicate (length ps - 1) None @ [Some (concat cs)], table(key := None))"
proof (induction ps arbitrary: seen table)
  case (Cons p ps)
  show ?case
  proof (cases "ps = []")
    case True
    then have "reassemble (seen @ [p]) = Some (concat cs)"
      using reassemble_all [OF cs, of "seen @ [p]"] Cons.prems(1) by simp
    with True Cons.prems(3) show ?thesis by (auto simp: ingest_piece_def Let_def)
  next
    case False
    have "distinct (map fp_offset (seen @ p # ps))"
      using pieces_sorted [OF cs(2), of 0] Cons.prems(1)
      by (metis mset_eq_imp_distinct_iff mset_map)
    moreover have "length (seen @ p # ps) = length cs" "set (seen @ p # ps) = set (pieces_from 0 cs)"
      using mset_eq_length [OF Cons.prems(1)] mset_eq_setD [OF Cons.prems(1)] by auto
    ultimately have "reassemble (seen @ [p]) = None"
      using False by (intro reassemble_part [OF cs(2,3)]) (auto simp flip: length_greater_0_conv)
    then have step: "ingest_piece key p table = (None, table(key \<mapsto> seen @ [p]))"
      using Cons.prems(3) by (simp add: ingest_piece_def Let_def)
    have "ingest_pieces key ps (table(key \<mapsto> seen @ [p])) =
        (replicate (length ps - 1) None @ [Some (concat cs)], (table(key \<mapsto> seen @ [p]))(key := None))"
      by (rule Cons.IH [of "seen @ [p]"]) (use Cons.prems(1) False in \<open>auto simp: frags_of_def\<close>)
    then have "ingest_pieces key ps (table(key \<mapsto> seen @ [p])) =
        (replicate (length ps - 1) None @ [Some (concat cs)], table(key := None))"
      unfolding fun_upd_upd .
    with step False show ?thesis by (cases ps) (auto simp: fun_eq_iff)
  qed
qed simp

text \<open>
  C16: a datagram cut into fragments is reassembled in whatever order they arrive: every
  fragment but the last one received yields nothing, the last one yields the original bytes,
  and the table is back where it was.
\<close>

theorem defrag_any_order:
  assumes "cs \<noteq> []" "[] \<notin> set cs" "length (concat cs) \<le> 65535"
    and "mset ps = mset (pieces_from 0 cs)" and "table key = None"
  shows "ingest_pieces key ps table = (replicate (length cs - 1) None @ [Some (concat cs)], table)"
proof -
  have "length ps = length cs" using mset_eq_length [OF assms(4)] by simp
  moreover have "table(key := None) = table" using assms(5) by auto
  moreover have "frags_of table key = []" using assms(5) by (simp add: frags_of_def)
  ultimately show ?thesis
    using ingest_pieces_rest [OF assms(1-3), of "[]" ps table key] assms(1,4) by force
qed

theorem defrag_any_order_witness:
  "ingest_pieces (7, 1, 2, 17)
     [\<lparr>fp_offset = 2, fp_more = False, fp_data = [3]\<rparr>, \<lparr>fp_offset = 0, fp_more = True, fp_data = [1, 2]\<rparr>]
     Map.empty = ([None, Some [1, 2, 3]], Map.empty)"
  using defrag_any_order [of "[[1, 2], [3]]"
      "[\<lparr>fp_offset = 2, fp_more = False, fp_data = [3]\<rparr>, \<lparr>fp_offset = 0, fp_more = True, fp_data = [1, 2]\<rparr>]"
      Map.empty "(7, 1, 2, 17)"]
  by (simp add: add_mset_commute numeral_2_eq_2)

text \<open>
  a captured frame shorter than its IPv4 total length makes the defragmenter panic, as
  soon as the header is there: the end of the payload is clamped to the length of the whole
  frame and then moved behind the Ethernet header.
\<close>

theorem truncated_frame_panics:
  assumes "34 \<le> length data" "data ! 12 = 8" "data ! 13 = 0"
    and "length data < 14 + from_be (take 2 (drop 16 data))"
    and "pr_data p = data" "pr_link_type p = LtEthernet"
  shows "ingest p table = None"
proof -
  have "slice data (14 + k) (14 + min (from_be (take 2 (drop 16 data))) (length data)) = None" for k
    using assms(4) by (auto simp: slice_def min_def)
  moreover have "be16 (8 :: u8) 0 = 0x0800" by (simp add: be16_def from_be_def)
  ultimately have "parse_ipv4 data LtEthernet = None"
    using assms(1-3) by (simp add: parse_ipv4_def Let_def slice_def)
  with assms(5,6) show ?thesis by (simp add: ingest_def)
qed

theorem truncated_frame_panics_witness:
  "ingest (raw_record (replicate 12 0 @ [8, 0, 0x45, 0, 1, 0] @ replicate 16 0) LtEthernet) Map.empty = None"
  by (rule truncated_frame_panics [OF _ _ _ _ refl])
    (simp_all add: raw_record_def numeral_eq_Suc from_be_def)

text \<open>
  the packets the defragmenter returns are clones of packets it was given, with a new
  info text: the reassembled bytes themselves are in none of them.
\<close>

theorem defrag_keeps_fragment_bytes:
  assumes "defrag_ipv4 packets = Some out" and "r \<in> set out"
  shows "\<exists>p \<in> set packets. \<exists>info. r = p\<lparr>pr_summary := (pr_summary p)\<lparr>ps_info := info\<rparr>\<rparr>"
proof -
  have "\<forall>r \<in> set out. \<exists>p \<in> set packets. \<exists>info. r = p\<lparr>pr_summary := (pr_summary p)\<lparr>ps_info := info\<rparr>\<rparr>"
    if "defrag_loop packets table = Some out" for table out
    using that
  proof (induction packets arbitrary: table out)
    case (Cons p ps)
    then obtain o1 t1 rest where "ingest p table = Some (o1, t1)" "defrag_loop ps t1 = Some rest"
      "out = (case o1 of None \<Rightarrow> rest
        | Some data \<Rightarrow> p\<lparr>pr_summary := (pr_summary p)\<lparr>ps_info := reassembled_info data\<rparr>\<rparr> # rest)"
      by (auto simp: bind_eq_Some_conv)
    with Cons.IH [of t1 rest] show ?case by (fastforce split: option.splits)
  qed simp
  with assms show ?thesis by (simp add: defrag_ipv4_def)
qed

text \<open>Two fragments of nine bytes in raw IP packets.\<close>

definition frag_example :: "packet_record list" where
  "frag_example =
     [raw_record ([0x45, 0, 0, 28, 0, 7, 0x20, 0, 64, 17, 0, 0, 10, 0, 0, 1, 10, 0, 0, 2]
        @ [1, 2, 3, 4, 5, 6, 7, 8]) LtRaw,
      raw_record ([0x45, 0, 0, 21, 0, 7, 0, 1, 64, 17, 0, 0, 10, 0, 0, 1, 10, 0, 0, 2] @ [9]) LtRaw]"

lemma frag_example_run: "map_option length (defrag_ipv4 frag_example) = Some 1"
  by (simp add: frag_example_def defrag_ipv4_def ingest_def parse_ipv4_def raw_record_def Let_def
      slice_def idx_def from_be_def ingest_piece_def reassemble_def frags_of_def)

theorem defrag_keeps_fragment_bytes_witness:
  "\<exists>r. (\<exists>out. defrag_ipv4 frag_example = Some out \<and> r \<in> set out) \<and>
     (\<exists>p \<in> set frag_example. \<exists>info. r = p\<lparr>pr_summary := (pr_summary p)\<lparr>ps_info := info\<rparr>\<rparr>)"
proof -
  obtain out where out: "defrag_ipv4 frag_example = Some out" "length out = 1"
    using frag_example_run by (cases "defrag_ipv4 frag_example") auto
  then have "hd out \<in> set out" by (cases out) auto
  with out(1) defrag_keeps_fragment_bytes [OF out(1), of "hd out"] show ?thesis by blast
qed

end
