(* ===== verification/Coloring.thy ===== *)
theory Coloring
  imports Packet
begin

text \<open>
  Packet colours (\<open>src/src/dissect/coloring.rs\<close>): the indexed foreground colour of a packet,
  by the first rule that applies, and the legend of built-in rules.
\<close>

definition color_for_packet :: "packet_record \<Rightarrow> nat" where
  "color_for_packet pkt =
     (if list_ex (\<lambda>e. ei_severity e = SevError) (pr_expert pkt) then 196
      else if list_ex (\<lambda>e. ei_severity e = SevWarn) (pr_expert pkt) then 214
      else if pf_dns (pr_flags pkt) \<or> pf_mdns (pr_flags pkt) \<or> pf_llmnr (pr_flags pkt) then 81
      else if pf_http2 (pr_flags pkt) then 141
      else if pf_http (pr_flags pkt) then 114
      else if pf_tls (pr_flags pkt) then 176
      else if pf_tcp (pr_flags pkt) then
        (let info = ps_info (pr_summary pkt) in
         if contains info ''SYN'' \<and> \<not> contains info ''ACK'' then 228 else 252)
      else if pf_udp (pr_flags pkt) then 117
      else if pf_arp (pr_flags pkt) then 180
      else 250)"

record color_rule =
  cr_name :: string
  cr_style :: nat

definition builtin_rules :: "color_rule list" where
  "builtin_rules =
     [\<lparr>cr_name = ''Expert Error'', cr_style = 196\<rparr>, \<lparr>cr_name = ''DNS'', cr_style = 81\<rparr>,
      \<lparr>cr_name = ''HTTP'', cr_style = 114\<rparr>, \<lparr>cr_name = ''HTTP/2'', cr_style = 141\<rparr>,
      \<lparr>cr_name = ''TLS'', cr_style = 176\<rparr>, \<lparr>cr_name = ''TCP SYN'', cr_style = 228\<rparr>]"

text \<open>
  a packet is red exactly when an expert error was raised on it and orange exactly when a
  warning is the worst of what was raised: no protocol hides either.
\<close>

theorem expert_colours:
  "(color_for_packet pkt = 196 \<longleftrightarrow> (\<exists>e \<in> set (pr_expert pkt). SevError \<le> ei_severity e)) \<and>
   (color_for_packet pkt = 214 \<longleftrightarrow>
      (\<exists>e \<in> set (pr_expert pkt). ei_severity e = SevWarn) \<and>
      \<not> (\<exists>e \<in> set (pr_expert pkt). SevWarn < ei_severity e))"
proof -
  have sev: "SevError \<le> s \<longleftrightarrow> s = SevError" "SevWarn < s \<longleftrightarrow> s = SevError" for s
    by (cases s; simp add: less_eq_expert_severity_def less_expert_severity_def)+
  show ?thesis
    unfolding sev color_for_packet_def list_ex_iff Let_def by auto
qed

end
