(* ===== verification/FilterText.thy ===== *)
theory FilterText
  imports RustStr
begin

text \<open>
  The surface syntax the capture and the display filter share: both files have the same
  \<open>split_top\<close> and the same three parsing levels (\<open>or\<close>, \<open>and\<close>, \<open>not\<close> and parentheses)
  over their own atoms.  The locale \<open>filter_parser\<close> is that grammar; its lemmas show that
  fully parenthesised text is read back.
\<close>

section \<open>Splitting at depth zero\<close>

definition depth_step :: "char \<Rightarrow> int \<Rightarrow> int" where
  "depth_step c d = (if c = CHR ''('' then d + 1 else if c = CHR '')'' then d - 1 else d)"

text \<open>\<open>cur\<close> is the part read so far, in reverse.  The separators in use are not empty.\<close>

function split_loop :: "string \<Rightarrow> string \<Rightarrow> int \<Rightarrow> string \<Rightarrow> string list" where
  "split_loop sep cur d [] = [trim (rev cur)]"
| "split_loop sep cur d (c # cs) =
     (let d' = depth_step c d in
      if d' = 0 \<and> starts_with (c # cs) sep
      then trim (rev cur) # split_loop sep [] d' (drop (length sep - 1) cs)
      else split_loop sep (c # cur) d' cs)"
  by pat_completeness auto
termination
  by (relation "measure (\<lambda>(sep, cur, d, s). length s)") auto

definition split_top :: "string \<Rightarrow> string \<Rightarrow> string list" where
  "split_top s sep = split_loop sep [] 0 s"

lemma split_loop_part:
  "p \<in> set (split_loop sep cur d s) \<Longrightarrow> length p \<le> length cur + length s"
proof (induction sep cur d s rule: split_loop.induct)
  case (1 sep cur d)
  then show ?case using length_trim [of "rev cur"] by simp
next
  case (2 sep cur d c cs)
  show ?case
  proof (cases "depth_step c d = 0 \<and> starts_with (c # cs) sep")
    case True
    with "2.prems" consider "p = trim (rev cur)"
      | "p \<in> set (split_loop sep [] (depth_step c d) (drop (length sep - 1) cs))"
      by (auto simp: Let_def)
    then show ?thesis
    proof cases
      case 1
      then show ?thesis using length_trim [of "rev cur"] by simp
    next
      case 2
      with "2.IH"(1) [OF refl True] show ?thesis by simp
    qed
  next
    case False
    with "2.prems" have "p \<in> set (split_loop sep (c # cur) (depth_step c d) cs)"
      by (auto simp: Let_def)
    with "2.IH"(2) [OF refl False] show ?thesis by simp
  qed
qed

lemma split_top_part: "p \<in> set (split_top s sep) \<Longrightarrow> length p \<le> length s"
  unfolding split_top_def using split_loop_part by force

lemma negated_shorter: "strip_prefix (trim s) ''not '' = Some rest \<Longrightarrow> length rest < length s"
  using length_trim [of s] by (auto simp: strip_prefix_Some)

lemma paren_shorter:
  assumes "starts_with (trim s) ''(''" "ends_with (trim s) '')''"
  shows "length (take (length (trim s) - 2) (drop 1 (trim s))) < length s"
proof -
  have "trim s \<noteq> []" using assms(1) by (auto simp: starts_with_iff)
  then show ?thesis using length_trim [of s] by (cases "trim s") auto
qed

text \<open>Combining the results of the parts; the first error is returned.\<close>

definition combine :: "('f \<Rightarrow> 'f \<Rightarrow> 'f) \<Rightarrow> ('e + 'f) list \<Rightarrow> 'e + 'f" where
  "combine f rs = foldl (\<lambda>acc r. res_bind acc (\<lambda>a. res_bind r (\<lambda>b. Inr (f a b)))) (hd rs) (tl rs)"

section \<open>Balanced text\<close>

fun nest :: "string \<Rightarrow> int \<Rightarrow> int" where
  "nest [] d = d"
| "nest (c # cs) d = nest cs (depth_step c d)"

text \<open>Scanning from depth \<open>d\<close> stays above zero and returns to \<open>d\<close>.\<close>

fun above :: "string \<Rightarrow> int \<Rightarrow> bool" where
  "above [] d = True"
| "above (c # cs) d = (0 < depth_step c d \<and> above cs (depth_step c d))"

definition balanced :: "string \<Rightarrow> bool" where
  "balanced s \<longleftrightarrow> (\<forall>d > 0. above s d \<and> nest s d = d)"

lemma nest_append: "nest (s @ t) d = nest t (nest s d)"
  by (induction s arbitrary: d) auto

lemma above_append: "above (s @ t) d \<longleftrightarrow> above s d \<and> above t (nest s d)"
  by (induction s arbitrary: d) auto

lemma balanced_append: "balanced s \<Longrightarrow> balanced t \<Longrightarrow> balanced (s @ t)"
  by (simp add: balanced_def nest_append above_append)

lemma balanced_paren: "balanced s \<Longrightarrow> balanced (CHR ''('' # s @ '')'')"
  by (simp add: balanced_def nest_append above_append depth_step_def)

definition flat :: "string \<Rightarrow> bool" where
  "flat s \<longleftrightarrow> CHR ''('' \<notin> set s \<and> CHR '')'' \<notin> set s"

lemma balanced_flat: "flat s \<Longrightarrow> balanced s"
proof -
  have "flat s \<Longrightarrow> 0 < d \<Longrightarrow> above s d \<and> nest s d = d" for d :: int
    by (induction s arbitrary: d) (auto simp: flat_def depth_step_def)
  then show "flat s \<Longrightarrow> balanced s" by (simp add: balanced_def)
qed

text \<open>Inside parentheses nothing is split off.\<close>

lemma split_loop_above:
  "above s d \<Longrightarrow> split_loop sep cur d (s @ rest) = split_loop sep (rev s @ cur) (nest s d) rest"
  by (induction s arbitrary: d cur) (auto simp: Let_def)

lemma split_loop_paren:
  assumes "balanced s" "\<not> starts_with (CHR '')'' # rest) sep"
  shows "split_loop sep cur 0 (CHR ''('' # s @ CHR '')'' # rest) =
    split_loop sep (CHR '')'' # rev s @ CHR ''('' # cur) 0 rest"
proof -
  have s: "above s 1" "nest s 1 = 1" using assms(1) by (simp_all add: balanced_def)
  have "split_loop sep (CHR ''('' # cur) 1 (s @ CHR '')'' # rest) =
      split_loop sep (CHR '')'' # rev s @ CHR ''('' # cur) 0 rest"
    using assms(2) by (simp add: split_loop_above [OF s(1)] s(2) depth_step_def Let_def)
  then show ?thesis by (simp add: depth_step_def Let_def)
qed

lemma split_loop_inside:
  "balanced s \<Longrightarrow> split_loop sep cur 1 (s @ rest) = split_loop sep (rev s @ cur) 1 rest"
  by (simp add: balanced_def split_loop_above)

text \<open>Flat text without the separator is one part.\<close>

lemma split_loop_flat:
  "flat s \<Longrightarrow> \<not> contains s sep \<Longrightarrow> split_loop sep cur 0 s = [trim (rev cur @ s)]"
proof (induction s arbitrary: cur)
  case (Cons c cs)
  have "\<not> starts_with (c # cs) sep" "\<not> contains cs sep"
    using Cons.prems(2) by (auto simp: contains_def split: if_splits option.splits)
  with Cons show ?case by (auto simp: flat_def depth_step_def Let_def)
qed simp

text \<open>Flat text up to a separator is a part, when no separator begins earlier.\<close>

lemma split_loop_sep:
  assumes "flat s" "\<not> contains (s @ butlast sep) sep" "sep \<noteq> []" "hd sep = CHR '' ''"
  shows "split_loop sep cur 0 (s @ sep @ t) = trim (rev cur @ s) # split_loop sep [] 0 t"
  using assms(1,2)
proof (induction s arbitrary: cur)
  case Nil
  obtain r where sep: "sep = CHR '' '' # r" using assms(3,4) by (cases sep) auto
  then show ?case by (simp add: depth_step_def Let_def starts_with_def)
next
  case (Cons c s)
  have "\<not> starts_with (c # s @ butlast sep) sep" and rest: "\<not> contains (s @ butlast sep) sep"
    using Cons.prems(2) by (auto simp: contains_def split: if_splits option.splits)
  moreover have "c # s @ sep @ t = (c # s @ butlast sep) @ last sep # t"
    using append_butlast_last_id [OF assms(3)] by (metis append.assoc append_Cons append_Nil)
  moreover have "length sep \<le> length (c # s @ butlast sep)" by simp
  ultimately have "\<not> starts_with (c # s @ sep @ t) sep" by (simp only: starts_with_def take_append) simp
  with Cons rest show ?case by (auto simp: flat_def depth_step_def Let_def)
qed

lemma trim_paren: "trim (CHR ''('' # s @ '')'') = CHR ''('' # s @ '')''"
  by (rule trim_graphic) (simp_all add: graphic_def)

text \<open>A text in parentheses, and the texts of the three connectives.\<close>

definition paren :: "string \<Rightarrow> string" where
  "paren s = CHR ''('' # s @ '')''"

definition or_text :: "string \<Rightarrow> string \<Rightarrow> string" where
  "or_text s t = paren s @ '' or '' @ paren t"

definition and_text :: "string \<Rightarrow> string \<Rightarrow> string" where
  "and_text s t = paren s @ '' and '' @ paren t"

definition not_text :: "string \<Rightarrow> string" where
  "not_text s = ''not '' @ paren s"

lemma balanced_words: "balanced '' or ''" "balanced '' and ''" "balanced ''not ''"
  by (rule balanced_flat, simp add: flat_def)+

lemma balanced_texts:
  "balanced s \<Longrightarrow> balanced t \<Longrightarrow> balanced (or_text s t)"
  "balanced s \<Longrightarrow> balanced t \<Longrightarrow> balanced (and_text s t)"
  "balanced s \<Longrightarrow> balanced (not_text s)"
  using balanced_words
  by (simp_all only: or_text_def and_text_def not_text_def paren_def balanced_append balanced_paren)

lemma split_paren: "balanced s \<Longrightarrow> \<not> starts_with '')'' sep \<Longrightarrow> split_top (paren s) sep = [paren s]"
  using split_loop_paren [of s "[]" sep "[]"] trim_paren [of s]
  by (simp add: split_top_def paren_def)

lemma no_sep_in_paren_text:
  "\<not> starts_with (CHR '')'' # r) '' or ''" "\<not> starts_with (CHR '')'' # r) '' and ''"
  by (simp_all add: starts_with_def)

lemma split_or_text: "balanced s \<Longrightarrow> balanced t \<Longrightarrow> split_top (or_text s t) '' or '' = [paren s, paren t]"
  using trim_paren [of s] trim_paren [of t]
  by (simp add: split_top_def or_text_def paren_def split_loop_inside
      depth_step_def Let_def starts_with_def)

lemma split_and_text:
  "balanced s \<Longrightarrow> balanced t \<Longrightarrow> split_top (and_text s t) '' and '' = [paren s, paren t]"
  using trim_paren [of s] trim_paren [of t]
  by (simp add: split_top_def and_text_def paren_def split_loop_inside
      depth_step_def Let_def starts_with_def)

lemma and_text_no_or:
  assumes "balanced s" "balanced t"
  shows "split_top (and_text s t) '' or '' = [and_text s t]"
proof -
  have "trim (and_text s t) = and_text s t"
    by (rule trim_graphic) (simp_all add: and_text_def paren_def graphic_def)
  with assms show ?thesis
    by (simp add: split_top_def and_text_def paren_def split_loop_inside
        depth_step_def Let_def starts_with_def)
qed

lemma not_text_one_part:
  assumes "balanced s"
  shows "split_top (not_text s) '' or '' = [not_text s]" "split_top (not_text s) '' and '' = [not_text s]"
proof -
  have "trim (not_text s) = not_text s"
    by (rule trim_graphic) (simp_all add: not_text_def paren_def graphic_def)
  with assms show "split_top (not_text s) '' or '' = [not_text s]"
    "split_top (not_text s) '' and '' = [not_text s]"
    by (simp_all add: split_top_def not_text_def paren_def split_loop_inside
        depth_step_def Let_def starts_with_def)
qed

text \<open>A text the grammar hands to the atoms as it is.\<close>

definition atomic :: "string \<Rightarrow> bool" where
  "atomic s \<longleftrightarrow> flat s \<and> \<not> contains s '' or '' \<and> \<not> contains s '' and '' \<and>
     \<not> starts_with s ''not '' \<and> s \<noteq> [] \<and> graphic (hd s) \<and> graphic (last s)"

section \<open>Words\<close>

text \<open>Searching text behind a word that lacks the first character sought.\<close>

lemma contains_Cons: "p \<noteq> [] \<Longrightarrow> contains (c # s) p \<longleftrightarrow> starts_with (c # s) p \<or> contains s p"
  by (auto simp: contains_def split: option.split)

lemma starts_with_other: "c \<noteq> a \<Longrightarrow> \<not> starts_with (c # s) (a # p)"
  by (auto simp: starts_with_iff)

lemma contains_skip: "a \<notin> set w \<Longrightarrow> contains (w @ s) (a # p) \<longleftrightarrow> contains s (a # p)"
  by (induction w) (auto simp: contains_Cons starts_with_other)

lemma starts_with_word: "c \<notin> set p \<Longrightarrow> starts_with (w @ c # r) p \<longleftrightarrow> starts_with w p"
proof (induction w arbitrary: p)
  case Nil
  then show ?case by (cases p) (auto simp: starts_with_def)
next
  case (Cons x w)
  then show ?case by (cases p) (auto simp: starts_with_def)
qed

lemma trim_space_start:
  assumes "s \<noteq> []" "graphic (hd s)" "graphic (last s)"
  shows "trim (CHR '' '' # s) = s"
proof -
  have "ws_len (CHR '' '' # s) = 1" by (simp add: ws_len_def ws_codes_def starts_with_def)
  then have "trim_start (CHR '' '' # s) = trim_start s" by (simp add: trim_start.simps [of "CHR '' '' # s"])
  then show ?thesis using trim_graphic [OF assms] by (simp add: trim_def)
qed

lemma trim_space_end:
  assumes "s \<noteq> []" "graphic (hd s)" "graphic (last s)"
  shows "trim (s @ '' '') = s"
proof -
  obtain c t where s: "s = c # t" using assms(1) by (cases s) auto
  have "trim_start (s @ '' '') = s @ '' ''"
    using assms(2) ws_len_graphic [of c "t @ '' ''"] s by (simp add: trim_start.simps [of "c # t @ '' ''"])
  moreover have "ws_len_end (s @ '' '') = 1"
    by (simp add: ws_len_end_def ws_codes_def ends_with_def starts_with_def)
  ultimately have "trim (s @ '' '') = trim_end s"
    by (simp add: trim_def trim_end.simps [of "s @ '' ''"])
  moreover have "trim_start s = s" using assms(2) ws_len_graphic [of c t] s by (simp add: trim_start.simps [of "c # t"])
  ultimately show ?thesis using trim_graphic [OF assms] by (simp add: trim_def)
qed

section \<open>The grammar\<close>

locale filter_parser =
  fixes p_or p_and p_not p_atom :: "string \<Rightarrow> 'e + 'f"
    and mk_or mk_and :: "'f \<Rightarrow> 'f \<Rightarrow> 'f" and mk_not :: "'f \<Rightarrow> 'f"
  assumes or_eq: "p_or s = combine mk_or (map p_and (split_top s '' or ''))"
    and and_eq: "p_and s = combine mk_and (map p_not (split_top s '' and ''))"
    and not_eq: "p_not s =
      (let t = trim s in
       case strip_prefix t ''not '' of
         Some rest \<Rightarrow> res_bind (p_not rest) (\<lambda>f. Inr (mk_not f))
       | None \<Rightarrow>
           if starts_with t ''('' \<and> ends_with t '')'' then p_or (take (length t - 2) (drop 1 t))
           else p_atom t)"
begin

lemma paren_not: "p_not (paren s) = p_or s"
proof -
  have "strip_prefix (paren s) ''not '' = None" by (simp add: paren_def strip_prefix_def starts_with_def)
  moreover have "starts_with (paren s) ''(''" "ends_with (paren s) '')''"
    by (simp_all add: paren_def starts_with_def ends_with_iff)
  moreover have "trim (paren s) = paren s" "take (length (paren s) - 2) (drop 1 (paren s)) = s"
    using trim_paren [of s] by (simp_all add: paren_def)
  ultimately show ?thesis by (simp add: not_eq [of "paren s"] Let_def del: One_nat_def)
qed

lemma paren_and: "balanced s \<Longrightarrow> p_and (paren s) = p_or s"
  by (simp add: and_eq [of "paren s"] split_paren starts_with_def combine_def paren_not)

text \<open>Parsing the text of a connective parses its operands and combines them.\<close>

lemma parse_or_text:
  "balanced s \<Longrightarrow> balanced t \<Longrightarrow> p_or s = Inr f \<Longrightarrow> p_or t = Inr g \<Longrightarrow> p_or (or_text s t) = Inr (mk_or f g)"
  by (simp add: or_eq [of "or_text s t"] split_or_text combine_def paren_and)

lemma parse_and_text:
  "balanced s \<Longrightarrow> balanced t \<Longrightarrow> p_or s = Inr f \<Longrightarrow> p_or t = Inr g \<Longrightarrow> p_or (and_text s t) = Inr (mk_and f g)"
  by (simp add: or_eq [of "and_text s t"] and_text_no_or combine_def and_eq [of "and_text s t"]
      split_and_text paren_not)

lemma parse_not_text:
  assumes "balanced s" "p_or s = Inr f"
  shows "p_or (not_text s) = Inr (mk_not f)"
proof -
  have "trim (not_text s) = not_text s"
    by (rule trim_graphic) (simp_all add: not_text_def paren_def graphic_def)
  moreover have "strip_prefix (not_text s) ''not '' = Some (paren s)"
    by (simp add: not_text_def strip_prefix_def starts_with_def)
  ultimately have "p_not (not_text s) = Inr (mk_not f)"
    using assms(2) by (simp add: not_eq [of "not_text s"] Let_def paren_not)
  with assms(1) show ?thesis
    by (simp add: or_eq [of "not_text s"] and_eq [of "not_text s"] not_text_one_part combine_def)
qed

lemma atomic_levels:
  assumes "atomic s"
  shows "p_and s = p_atom s" "p_not s = p_atom s"
proof -
  have t: "trim s = s" using assms by (auto simp: atomic_def intro: trim_graphic)
  have "strip_prefix s ''not '' = None" "\<not> starts_with s ''(''"
    using assms by (auto simp: atomic_def strip_prefix_def starts_with_iff flat_def)
  then show n: "p_not s = p_atom s" by (simp add: not_eq [of s] t Let_def)
  have "split_top s '' and '' = [s]"
    using assms t split_loop_flat [of s _ "[]"] by (simp add: atomic_def split_top_def)
  with n show "p_and s = p_atom s" by (simp add: and_eq [of s] combine_def)
qed

lemma parse_atomic:
  assumes "atomic s"
  shows "p_or s = p_atom s"
proof -
  have "trim s = s" using assms by (auto simp: atomic_def intro: trim_graphic)
  then have "split_top s '' or '' = [s]"
    using assms split_loop_flat [of s _ "[]"] by (simp add: atomic_def split_top_def)
  then show ?thesis by (simp add: or_eq [of s] combine_def atomic_levels [OF assms])
qed

text \<open>Two atoms joined without parentheses.\<close>

lemma parse_two_or:
  assumes "atomic s" "atomic t" "\<not> contains (s @ '' or'') '' or ''" "p_atom s = Inr f" "p_atom t = Inr g"
  shows "p_or (s @ '' or '' @ t) = Inr (mk_or f g)"
proof -
  have t: "trim s = s" "trim t = t" using assms(1,2) by (auto simp: atomic_def intro: trim_graphic)
  have "split_loop '' or '' [] 0 t = [t]" using assms(2) t split_loop_flat [of t "'' or ''" "[]"] by (simp add: atomic_def)
  then have "split_top (s @ '' or '' @ t) '' or '' = [s, t]"
    using split_loop_sep [of s "'' or ''" "[]" t] assms(1,3) t by (simp add: split_top_def atomic_def)
  then show ?thesis using assms(4,5) atomic_levels [OF assms(1)] atomic_levels [OF assms(2)]
    by (simp add: or_eq [of "s @ '' or '' @ t"] combine_def del: append.simps)
qed

lemma parse_two_and:
  assumes "atomic s" "atomic t" "\<not> contains (s @ '' and'') '' and ''" "\<not> contains (s @ '' and '' @ t) '' or ''"
    "p_atom s = Inr f" "p_atom t = Inr g"
  shows "p_or (s @ '' and '' @ t) = Inr (mk_and f g)"
proof -
  let ?u = "s @ '' and '' @ t"
  have t: "trim s = s" "trim t = t" using assms(1,2) by (auto simp: atomic_def intro: trim_graphic)
  have u: "trim ?u = ?u" using assms(1,2) by (intro trim_graphic) (auto simp: atomic_def)
  have "flat ?u" using assms(1,2) by (auto simp: atomic_def flat_def)
  then have "split_top ?u '' or '' = [?u]"
    using split_loop_flat [OF _ assms(4), of "[]"] u by (simp only: split_top_def rev.simps append_Nil)
  moreover have "split_loop '' and '' [] 0 t = [t]"
    using assms(2) t split_loop_flat [of t "'' and ''" "[]"] by (simp add: atomic_def)
  then have "split_top ?u '' and '' = [s, t]"
    using split_loop_sep [of s "'' and ''" "[]" t] assms(1,3) t by (simp add: split_top_def atomic_def)
  ultimately show ?thesis using assms(5,6) atomic_levels [OF assms(1)] atomic_levels [OF assms(2)]
    by (simp add: or_eq [of ?u] and_eq [of ?u] combine_def del: append.simps)
qed

end

end
