(* ===== verification/NetAddr.thy ===== *)
theory NetAddr
  imports RustStr
begin

text \<open>
  What the code uses of \<open>std::net\<close>: IP addresses and their parsers, which read from the front
  of the text and must use all of it.  A reader returns the value and the rest.
\<close>

type_synonym ipv4_addr = "u8 \<times> u8 \<times> u8 \<times> u8"

datatype ip_addr = V4 ipv4_addr | V6 bytes

definition ipv4_bytes :: "ipv4_addr \<Rightarrow> bytes" where
  "ipv4_bytes ip = (case ip of (a, b, c, d) \<Rightarrow> [a, b, c, d])"

definition ipv4_text :: "ipv4_addr \<Rightarrow> string" where
  "ipv4_text ip =
     (case ip of (a, b, c, d) \<Rightarrow>
        dec (unat a) @ ''.'' @ dec (unat b) @ ''.'' @ dec (unat c) @ ''.'' @ dec (unat d))"

definition hex_val :: "char \<Rightarrow> nat option" where
  "hex_val c =
     (let n = (of_char c :: nat) in
      if 48 \<le> n \<and> n \<le> 57 then Some (n - 48) else if 97 \<le> n \<and> n \<le> 102 then Some (n - 87)
      else if 65 \<le> n \<and> n \<le> 70 then Some (n - 55) else None)"

text \<open>
  \<open>read_number\<close>: the leading run of digits; no digits, too many digits, a value above the
  maximum, and (in decimal) a leading zero are refused.
\<close>

definition digit_run :: "nat \<Rightarrow> string \<Rightarrow> string" where
  "digit_run radix s = takeWhile (\<lambda>c. (if radix = 16 then hex_val c else digit_val c) \<noteq> None) s"

definition digits_value :: "nat \<Rightarrow> string \<Rightarrow> nat" where
  "digits_value radix ds =
     foldl (\<lambda>acc c. acc * radix +
       (case (if radix = 16 then hex_val c else digit_val c) of Some d \<Rightarrow> d | None \<Rightarrow> 0)) 0 ds"

definition read_number :: "nat \<Rightarrow> nat \<Rightarrow> nat \<Rightarrow> bool \<Rightarrow> string \<Rightarrow> (nat \<times> string) option" where
  "read_number radix max_digits mx allow_zero_prefix s =
     (let ds = digit_run radix s; v = digits_value radix ds in
      if ds = [] \<or> max_digits < length ds \<or> mx < v
         \<or> \<not> allow_zero_prefix \<and> hd ds = CHR ''0'' \<and> 1 < length ds then None
      else Some (v, drop (length ds) s))"

definition read_char :: "char \<Rightarrow> string \<Rightarrow> string option" where
  "read_char c s = (case s of x # r \<Rightarrow> if x = c then Some r else None | [] \<Rightarrow> None)"

definition read_ipv4_addr :: "string \<Rightarrow> (ipv4_addr \<times> string) option" where
  "read_ipv4_addr s = do {
     (a, s) \<leftarrow> read_number 10 3 255 False s;
     s \<leftarrow> read_char (CHR ''.'') s;
     (b, s) \<leftarrow> read_number 10 3 255 False s;
     s \<leftarrow> read_char (CHR ''.'') s;
     (c, s) \<leftarrow> read_number 10 3 255 False s;
     s \<leftarrow> read_char (CHR ''.'') s;
     (d, s) \<leftarrow> read_number 10 3 255 False s;
     Some ((word_of_nat a, word_of_nat b, word_of_nat c, word_of_nat d), s) }"

text \<open>\<open>read_groups\<close>: up to \<open>n\<close> groups behind group \<open>i\<close>, an IPv4 address as the last two.\<close>

definition read_sep :: "nat \<Rightarrow> string \<Rightarrow> string option" where
  "read_sep i s = (if i = 0 then Some s else read_char (CHR '':'') s)"

fun read_groups :: "nat \<Rightarrow> nat \<Rightarrow> string \<Rightarrow> bytes \<times> bool \<times> string" where
  "read_groups 0 i s = ([], False, s)"
| "read_groups (Suc n) i s =
     (case (if 0 < n then Option.bind (read_sep i s) read_ipv4_addr else None) of
        Some (ip, rest) \<Rightarrow> (ipv4_bytes ip, True, rest)
      | None \<Rightarrow>
          (case Option.bind (read_sep i s) (read_number 16 4 65535 True) of
             Some (g, rest) \<Rightarrow>
               let (gs, v4, rest) = read_groups n (i + 1) rest in (to_be 2 g @ gs, v4, rest)
           | None \<Rightarrow> ([], False, s)))"

definition read_ipv6_addr :: "string \<Rightarrow> (bytes \<times> string) option" where
  "read_ipv6_addr s =
     (let (head, v4, s) = read_groups 8 0 s in
      if length head = 16 then Some (head, s)
      else if v4 then None
      else do {
        s \<leftarrow> read_char (CHR '':'') s;
        s \<leftarrow> read_char (CHR '':'') s;
        let (tail, _, s) = read_groups (8 - (length head div 2 + 1)) 0 s;
        Some (head @ replicate (16 - length head - length tail) 0 @ tail, s) })"

definition all_read :: "('a \<times> string) option \<Rightarrow> 'a option" where
  "all_read r = (case r of Some (x, []) \<Rightarrow> Some x | _ \<Rightarrow> None)"

definition parse_ipv4_addr :: "string \<Rightarrow> string + ipv4_addr" where
  "parse_ipv4_addr s =
     (if 15 < length s then Inl ''invalid IPv4 address syntax''
      else case all_read (read_ipv4_addr s) of
        Some a \<Rightarrow> Inr a
      | None \<Rightarrow> Inl ''invalid IPv4 address syntax'')"

definition parse_ip_addr :: "string \<Rightarrow> string + ip_addr" where
  "parse_ip_addr s =
     (case all_read
        (case read_ipv4_addr s of
           Some (a, r) \<Rightarrow> Some (V4 a, r)
         | None \<Rightarrow> map_option (\<lambda>(a, r). (V6 a, r)) (read_ipv6_addr s)) of
        Some ip \<Rightarrow> Inr ip
      | None \<Rightarrow> Inl ''invalid IP address syntax'')"

section \<open>Reading back what was printed\<close>

lemma digits_value_snoc [simp]: "d < 10 \<Longrightarrow> digits_value 10 (ds @ [digit_chr d]) = digits_value 10 ds * 10 + d"
  by (simp add: digits_value_def)

lemma digits_value_Nil [simp]: "digits_value 10 [] = 0"
  by (simp add: digits_value_def)

lemma digits_value_dec: "digits_value 10 (dec n) = n"
proof (induction n rule: less_induct)
  case (less n)
  show ?case
  proof (cases "n < 10")
    case True
    then show ?thesis using digits_value_snoc [of n "[]"] by (simp add: dec_small del: digits_value_snoc)
  next
    case False
    with less show ?thesis by (simp add: dec_rec)
  qed
qed

lemma digit_chr_zero: "d < 10 \<Longrightarrow> digit_chr d = CHR ''0'' \<Longrightarrow> d = 0"
  using digit_val_digit_chr [of d] by (simp add: digit_val_def)

lemma dec_nonempty: "dec n \<noteq> []"
  by (simp add: dec_def)

text \<open>Only 0 is printed with a leading zero.\<close>

lemma hd_dec: "hd (dec n) = CHR ''0'' \<Longrightarrow> n = 0"
proof (induction n rule: less_induct)
  case (less n)
  show ?case
  proof (cases "n < 10")
    case True
    with less.prems show ?thesis by (auto simp: dec_small digit_chr_zero)
  next
    case False
    with less.prems have "hd (dec (n div 10)) = CHR ''0''"
      by (simp add: dec_rec hd_append dec_nonempty)
    with less.IH [of "n div 10"] False show ?thesis by (simp add: div_eq_0_iff)
  qed
qed

lemma length_dec_byte: "n < 1000 \<Longrightarrow> length (dec n) \<le> 3"
  by (cases "n < 10"; cases "n < 100")
    (simp_all add: dec_small dec_rec [of n] dec_rec [of "n div 10"] less_mult_imp_div_less
      flip: div_mult2_eq)

lemma byte_digits:
  assumes "n < 256"
  shows "length (dec n) \<le> 3" "hd (dec n) = CHR ''0'' \<longrightarrow> length (dec n) = 1"
    "\<forall>c \<in> set (dec n). digit_val c \<noteq> None"
proof -
  show "length (dec n) \<le> 3" using length_dec_byte [of n] assms by simp
  show "hd (dec n) = CHR ''0'' \<longrightarrow> length (dec n) = 1"
    using hd_dec [of n] by (auto simp: dec_small)
  show "\<forall>c \<in> set (dec n). digit_val c \<noteq> None"
    using dec_digits [of _ n] by force
qed

lemma read_byte:
  assumes "n < 256" "rest = [] \<or> digit_val (hd rest) = None"
  shows "read_number 10 3 255 False (dec n @ rest) = Some (n, rest)"
proof -
  note d = byte_digits [OF assms(1)]
  have "takeWhile (\<lambda>c. digit_val c \<noteq> None) (dec n @ rest) = dec n"
    using d(3) assms(2) by (cases rest) (auto simp: takeWhile_append)
  moreover have "dec n \<noteq> []" by (simp add: dec_def)
  ultimately show ?thesis using d(1,2) assms(1)
    by (auto simp: read_number_def digit_run_def Let_def digits_value_dec)
qed

lemma read_ipv4_text:
  assumes "rest = [] \<or> digit_val (hd rest) = None"
  shows "read_ipv4_addr (ipv4_text ip @ rest) = Some (ip, rest)"
proof -
  have dot: "digit_val (CHR ''.'') = None" by (simp add: digit_val_def)
  show ?thesis
    by (cases ip) (simp add: ipv4_text_def read_ipv4_addr_def read_byte assms dot read_char_def)
qed

lemma parse_ip_text: "parse_ip_addr (ipv4_text ip) = Inr (V4 ip)"
  using read_ipv4_text [of "[]" ip] by (simp add: parse_ip_addr_def all_read_def)

lemma parse_ipv4_text: "parse_ipv4_addr (ipv4_text ip) = Inr ip"
proof -
  have "length (dec (unat b)) \<le> 3" for b :: u8
    using length_dec_byte [of "unat b"] unat_u8_less [of b] by simp
  then have "length (ipv4_text ip) \<le> 15"
  proof (cases ip)
    case (fields a b c d)
    have "length (dec (unat a)) \<le> 3" "length (dec (unat b)) \<le> 3" "length (dec (unat c)) \<le> 3"
      "length (dec (unat d)) \<le> 3" by fact+
    then show ?thesis unfolding fields ipv4_text_def by simp
  qed
  then show ?thesis
    using read_ipv4_text [of "[]" ip] by (simp add: parse_ipv4_addr_def all_read_def)
qed

end
