(* ===== verification/CapFilter.thy ===== *)
theory CapFilter
  imports Packet FilterText NetAddr
begin

text \<open>
  The capture filter (\<open>src/src/capture/cap_filter.rs\<close>): its syntax tree, the evaluation on raw
  frames, and the parser.  The frame functions guess the link layer from the bytes.
\<close>

section \<open>Filters\<close>

datatype filter_error = FeEmpty | FeParse string

datatype capture_filter =
  CfTrue | CfHost ip_addr | CfNet (net_addr: u32) (net_mask: u32) | CfPort nat
| CfSrcHost ip_addr | CfDstHost ip_addr | CfSrcPort nat | CfDstPort nat | CfProto string
| CfAnd capture_filter capture_filter | CfOr capture_filter capture_filter | CfNot capture_filter

section \<open>Headers of a raw frame\<close>

definition be_at :: "bytes \<Rightarrow> nat \<Rightarrow> nat" where
  "be_at data i = unat (be16 (data ! i) (data ! (i + 1)))"

text \<open>Version and offset of the IP header, by trying the link layers in turn.\<close>

definition l3_offset :: "bytes \<Rightarrow> (nat \<times> nat) option" where
  "l3_offset data =
     (let n = length data;
          tagged = (14 \<le> n \<and> be_at data 12 = 0x8100 \<and> 18 \<le> n);
          et = (if tagged then be_at data 16 else be_at data 12);
          off = (if tagged then 18 else 14)
      in if 14 \<le> n \<and> et = 0x0800 then Some (4, off)
         else if 14 \<le> n \<and> et = 0x86dd then Some (6, off)
         else if 14 \<le> n \<and> et = 0x0806 then None
         else if 16 \<le> n \<and> be_at data 14 = 0x0800 then Some (4, 16)
         else if 16 \<le> n \<and> be_at data 14 = 0x86dd then Some (6, 16)
         else if 20 \<le> n \<and> be_at data 0 = 0x0800 then Some (4, 20)
         else if 20 \<le> n \<and> be_at data 0 = 0x86dd then Some (6, 20)
         else if 4 \<le> n \<and> from_le (take 4 data) = 2 then Some (4, 4)
         else if 4 \<le> n \<and> from_le (take 4 data) \<in> {10, 28, 30} then Some (6, 4)
         else None)"

definition link_ethertype :: "bytes \<Rightarrow> nat option" where
  "link_ethertype data =
     (if 14 \<le> length data then
        Some (if be_at data 12 = 0x8100 \<and> 18 \<le> length data then be_at data 16 else be_at data 12)
      else if 16 \<le> length data then Some (be_at data 14) else None)"

definition has_ip_version :: "bytes \<Rightarrow> nat \<Rightarrow> bool" where
  "has_ip_version data ver = (case l3_offset data of None \<Rightarrow> False | Some (v, _) \<Rightarrow> v = ver)"

definition has_ip_proto :: "bytes \<Rightarrow> u8 \<Rightarrow> bool" where
  "has_ip_proto data proto =
     (case l3_offset data of
        None \<Rightarrow> False
      | Some (ver, off) \<Rightarrow>
          if ver = 4 then off + 9 < length data \<and> data ! (off + 9) = proto
          else if ver = 6 then off + 6 < length data \<and> data ! (off + 6) = proto
          else False)"

definition ipv6_addr_eq :: "bytes \<Rightarrow> nat \<Rightarrow> bytes \<Rightarrow> bool" where
  "ipv6_addr_eq data off ip \<longleftrightarrow> \<not> length data < off + 16 \<and> take 16 (drop off data) = ip"

text \<open>The match on a direction: the source, the destination, or either of them.\<close>

definition by_dir :: "bool option \<Rightarrow> bool \<Rightarrow> bool \<Rightarrow> bool" where
  "by_dir dir src_ok dst_ok =
     (case dir of Some True \<Rightarrow> src_ok | Some False \<Rightarrow> dst_ok | None \<Rightarrow> src_ok \<or> dst_ok)"

definition has_host :: "bytes \<Rightarrow> ip_addr \<Rightarrow> bool option \<Rightarrow> bool" where
  "has_host data ip dir =
     (case l3_offset data of
        None \<Rightarrow> False
      | Some (ver, off) \<Rightarrow>
          (case ip of
             V4 v4 \<Rightarrow>
               ver = 4 \<and> \<not> length data < off + 20 \<and>
               by_dir dir (take 4 (drop (off + 12) data) = ipv4_bytes v4)
                 (take 4 (drop (off + 16) data) = ipv4_bytes v4)
           | V6 v6 \<Rightarrow>
               ver = 6 \<and> \<not> length data < off + 40 \<and>
               by_dir dir (ipv6_addr_eq data (off + 8) v6) (ipv6_addr_eq data (off + 24) v6)))"

definition be32_at :: "bytes \<Rightarrow> nat \<Rightarrow> u32" where
  "be32_at data i = be32 (data ! i) (data ! (i + 1)) (data ! (i + 2)) (data ! (i + 3))"

definition has_net :: "bytes \<Rightarrow> u32 \<Rightarrow> u32 \<Rightarrow> bool" where
  "has_net data addr mask_bits =
     (case l3_offset data of
        None \<Rightarrow> False
      | Some (ver, off) \<Rightarrow>
          ver = 4 \<and> \<not> length data < off + 20 \<and>
          (be32_at data (off + 12) AND mask_bits = addr \<or> be32_at data (off + 16) AND mask_bits = addr))"

definition l4_offset :: "bytes \<Rightarrow> (nat \<times> nat \<times> u8) option" where
  "l4_offset data =
     (case l3_offset data of
        None \<Rightarrow> None
      | Some (ver, off) \<Rightarrow>
          if ver = 4 then
            if length data < off + 20 then None
            else Some (ver, off + unat (data ! off AND 0x0f) * 4, data ! (off + 9))
          else if ver = 6 then
            if length data < off + 40 then None else Some (ver, off + 40, data ! (off + 6))
          else None)"

definition has_port :: "bytes \<Rightarrow> nat \<Rightarrow> bool option \<Rightarrow> bool" where
  "has_port data port dir =
     (case l4_offset data of
        None \<Rightarrow> False
      | Some (_, l4, proto) \<Rightarrow>
          (proto = 6 \<or> proto = 17) \<and> \<not> length data < l4 + 4 \<and>
          by_dir dir (be_at data l4 = port) (be_at data (l4 + 2) = port))"

section \<open>Evaluation\<close>

definition matches_proto :: "string \<Rightarrow> bytes \<Rightarrow> bool" where
  "matches_proto p data =
     (if p = ''tcp'' then has_ip_proto data 6
      else if p = ''udp'' then has_ip_proto data 17
      else if p = ''icmp'' then has_ip_proto data 1
      else if p = ''arp'' then link_ethertype data = Some 0x0806
      else if p = ''ip'' then has_ip_version data 4
      else if p = ''ip6'' then has_ip_version data 6
      else True)"

primrec matches_raw :: "capture_filter \<Rightarrow> bytes \<Rightarrow> bool" where
  "matches_raw CfTrue data = True"
| "matches_raw (CfNot f) data = (\<not> matches_raw f data)"
| "matches_raw (CfAnd a b) data = (matches_raw a data \<and> matches_raw b data)"
| "matches_raw (CfOr a b) data = (matches_raw a data \<or> matches_raw b data)"
| "matches_raw (CfProto p) data = matches_proto p data"
| "matches_raw (CfPort p) data = has_port data p None"
| "matches_raw (CfSrcPort p) data = has_port data p (Some True)"
| "matches_raw (CfDstPort p) data = has_port data p (Some False)"
| "matches_raw (CfHost ip) data = has_host data ip None"
| "matches_raw (CfSrcHost ip) data = has_host data ip (Some True)"
| "matches_raw (CfDstHost ip) data = has_host data ip (Some False)"
| "matches_raw (CfNet addr mask_bits) data = has_net data addr mask_bits"

definition matches_packet :: "capture_filter \<Rightarrow> packet_record \<Rightarrow> bool" where
  "matches_packet f pkt = matches_raw f (pr_data pkt)"

fun is_v4 :: "ip_addr \<Rightarrow> bool" where
  "is_v4 (V4 _) = True"
| "is_v4 (V6 _) = False"

primrec is_kernel_simple :: "capture_filter \<Rightarrow> bool" where
  "is_kernel_simple CfTrue = True"
| "is_kernel_simple (CfHost ip) = is_v4 ip"
| "is_kernel_simple (CfSrcHost ip) = is_v4 ip"
| "is_kernel_simple (CfDstHost ip) = is_v4 ip"
| "is_kernel_simple (CfPort _) = True"
| "is_kernel_simple (CfSrcPort _) = True"
| "is_kernel_simple (CfDstPort _) = True"
| "is_kernel_simple (CfProto p) = (p \<in> {''tcp'', ''udp'', ''icmp'', ''ip''})"
| "is_kernel_simple (CfAnd a b) = (is_kernel_simple a \<and> is_kernel_simple b)"
| "is_kernel_simple (CfOr a b) = (is_kernel_simple a \<and> is_kernel_simple b)"
| "is_kernel_simple (CfNot f) = is_kernel_simple f"
| "is_kernel_simple (CfNet _ _) = False"

section \<open>Parser\<close>

definition prefix_mask :: "nat \<Rightarrow> u32" where
  "prefix_mask prefix_len =
     (if prefix_len = 0 then 0 else push_bit (32 - min prefix_len 32) (NOT 0))"

definition ipv4_word :: "ipv4_addr \<Rightarrow> u32" where
  "ipv4_word ip = (case ip of (a, b, c, d) \<Rightarrow> be32 a b c d)"

definition parse_net :: "string \<Rightarrow> filter_error + capture_filter" where
  "parse_net n =
     (case split_once (CHR ''/'') n of
        Some (a, m) \<Rightarrow>
          res_bind (map_err FeParse (parse_ipv4_addr a)) (\<lambda>ip.
          res_bind (map_err (\<lambda>e. FeParse (int_error_str e)) (parse_uint u32_max m)) (\<lambda>prefix_len.
            let mask_bits = prefix_mask prefix_len in Inr (CfNet (ipv4_word ip AND mask_bits) mask_bits)))
      | None \<Rightarrow>
          res_bind (map_err FeParse (parse_ipv4_addr n)) (\<lambda>ip. Inr (CfNet (ipv4_word ip) 0xffffffff)))"

definition parse_host :: "(ip_addr \<Rightarrow> capture_filter) \<Rightarrow> string \<Rightarrow> filter_error + capture_filter" where
  "parse_host mk h = res_bind (map_err FeParse (parse_ip_addr h)) (\<lambda>ip. Inr (mk ip))"

definition parse_port :: "(nat \<Rightarrow> capture_filter) \<Rightarrow> string \<Rightarrow> filter_error + capture_filter" where
  "parse_port mk p =
     res_bind (map_err (\<lambda>e. FeParse (int_error_str e)) (parse_uint u16_max p)) (\<lambda>n. Inr (mk n))"

definition parse_cap_atom :: "string \<Rightarrow> filter_error + capture_filter" where
  "parse_cap_atom s0 =
     (let s = trim s0; unknown = Inl (FeParse (''unknown atom: '' @ s)) in
      if s \<in> {''tcp'', ''udp'', ''icmp'', ''arp'', ''ip'', ''ip6''} then Inr (CfProto s)
      else case split_whitespace s of
        [k, x] \<Rightarrow>
          if k = ''host'' then parse_host CfHost x
          else if k = ''port'' then parse_port CfPort x
          else if k = ''net'' then parse_net x
          else unknown
      | [d, k, x] \<Rightarrow>
          if d = ''src'' \<and> k = ''host'' then parse_host CfSrcHost x
          else if d = ''dst'' \<and> k = ''host'' then parse_host CfDstHost x
          else if d = ''src'' \<and> k = ''port'' then parse_port CfSrcPort x
          else if d = ''dst'' \<and> k = ''port'' then parse_port CfDstPort x
          else unknown
      | _ \<Rightarrow> unknown)"

function parse_cap_or :: "string \<Rightarrow> filter_error + capture_filter"
  and parse_cap_and :: "string \<Rightarrow> filter_error + capture_filter"
  and parse_cap_not :: "string \<Rightarrow> filter_error + capture_filter" where
  "parse_cap_or s = combine CfOr (map parse_cap_and (split_top s '' or ''))"
| "parse_cap_and s = combine CfAnd (map parse_cap_not (split_top s '' and ''))"
| "parse_cap_not s =
     (let t = trim s in
      case strip_prefix t ''not '' of
        Some rest \<Rightarrow> res_bind (parse_cap_not rest) (\<lambda>f. Inr (CfNot f))
      | None \<Rightarrow>
          if starts_with t ''('' \<and> ends_with t '')'' then parse_cap_or (take (length t - 2) (drop 1 t))
          else parse_cap_atom t)"
  by pat_completeness auto
termination
  by (relation "measure (case_sum (\<lambda>s. 3 * length s + 2) (case_sum (\<lambda>s. 3 * length s + 1) (\<lambda>s. 3 * length s)))")
    (auto dest: split_top_part negated_shorter paren_shorter)

declare parse_cap_or.simps [simp del] parse_cap_and.simps [simp del] parse_cap_not.simps [simp del]

definition parse_capture_filter :: "string \<Rightarrow> filter_error + capture_filter" where
  "parse_capture_filter input = (let s = trim input in if s = [] then Inr CfTrue else parse_cap_or s)"

interpretation cap: filter_parser parse_cap_or parse_cap_and parse_cap_not parse_cap_atom CfOr CfAnd CfNot
  by unfold_locales (rule parse_cap_or.simps parse_cap_and.simps parse_cap_not.simps)+

section \<open>Printing filters\<close>

fun ip_text :: "ip_addr \<Rightarrow> string" where
  "ip_text (V4 ip) = ipv4_text ip"
| "ip_text (V6 _) = []"

primrec cap_show :: "capture_filter \<Rightarrow> string" where
  "cap_show CfTrue = []"
| "cap_show (CfHost ip) = ''host '' @ ip_text ip"
| "cap_show (CfSrcHost ip) = ''src host '' @ ip_text ip"
| "cap_show (CfDstHost ip) = ''dst host '' @ ip_text ip"
| "cap_show (CfPort n) = ''port '' @ dec n"
| "cap_show (CfSrcPort n) = ''src port '' @ dec n"
| "cap_show (CfDstPort n) = ''dst port '' @ dec n"
| "cap_show (CfProto p) = p"
| "cap_show (CfNet _ _) = []"
| "cap_show (CfAnd a b) = and_text (cap_show a) (cap_show b)"
| "cap_show (CfOr a b) = or_text (cap_show a) (cap_show b)"
| "cap_show (CfNot f) = not_text (cap_show f)"

text \<open>Filters over protocols, ports and IPv4 hosts.\<close>

primrec cap_printable :: "capture_filter \<Rightarrow> bool" where
  "cap_printable CfTrue = False"
| "cap_printable (CfHost ip) = is_v4 ip"
| "cap_printable (CfSrcHost ip) = is_v4 ip"
| "cap_printable (CfDstHost ip) = is_v4 ip"
| "cap_printable (CfPort n) = (n \<le> u16_max)"
| "cap_printable (CfSrcPort n) = (n \<le> u16_max)"
| "cap_printable (CfDstPort n) = (n \<le> u16_max)"
| "cap_printable (CfProto p) = (p \<in> {''tcp'', ''udp'', ''icmp'', ''arp'', ''ip'', ''ip6''})"
| "cap_printable (CfNet _ _) = False"
| "cap_printable (CfAnd a b) = (cap_printable a \<and> cap_printable b)"
| "cap_printable (CfOr a b) = (cap_printable a \<and> cap_printable b)"
| "cap_printable (CfNot f) = cap_printable f"

text \<open>Text of digits, dots and slashes.\<close>

definition numeric :: "string \<Rightarrow> bool" where
  "numeric t \<longleftrightarrow> t \<noteq> [] \<and> (\<forall>c \<in> set t. c = CHR ''.'' \<or> c = CHR ''/'' \<or> digit_val c \<noteq> None)"

lemma numeric_dec: "numeric (dec n)"
  using dec_digits [of _ n] by (fastforce simp: numeric_def dec_nonempty)

lemma numeric_ipv4: "numeric (ipv4_text ip)"
  using numeric_dec by (cases ip) (auto simp: numeric_def ipv4_text_def dec_nonempty)

lemma numeric_char: "numeric t \<Longrightarrow> c \<in> set t \<Longrightarrow> graphic c \<and> c \<notin> {CHR ''('', CHR '')'', CHR ''o'', CHR ''a''}"
  by (fastforce simp: numeric_def graphic_def digit_val_def Let_def split: if_splits)

lemma numeric_graphic: "numeric t \<Longrightarrow> list_all graphic t"
  using numeric_char by (auto simp: list_all_iff)

lemma numeric_no_sep:
  assumes "numeric t"
  shows "\<not> contains t '' or ''" "\<not> contains t '' and ''"
    "\<not> starts_with (CHR '' '' # t) '' or ''" "\<not> starts_with (CHR '' '' # t) '' and ''"
proof -
  have c: "c \<in> set t \<Longrightarrow> graphic c \<and> c \<noteq> CHR ''o'' \<and> c \<noteq> CHR ''a''" for c
    using numeric_char [OF assms] by blast
  from c [of "CHR '' ''"] have sp: "CHR '' '' \<notin> set t" by (auto simp: graphic_def)
  then show "\<not> contains t '' or ''" "\<not> contains t '' and ''" by (auto simp: contains_iff)
  show "\<not> starts_with (CHR '' '' # t) '' or ''" "\<not> starts_with (CHR '' '' # t) '' and ''"
    using c [of "CHR ''o''"] c [of "CHR ''a''"] by (auto simp: starts_with_iff)
qed

lemma atomic_word:
  assumes "numeric t" "k \<in> {''net'', ''host'', ''port'', ''src host'', ''dst host'', ''src port'', ''dst port''}"
  shows "atomic (k @ CHR '' '' # t)"
proof -
  have "t \<noteq> []" "flat t" "graphic (last t)"
    using assms(1) numeric_char [OF assms(1)] by (auto simp: numeric_def flat_def)
  moreover have "starts_with (c # s) (CHR '' '' # p) = False" if "c \<noteq> CHR '' ''" for c s p
    using that by (auto simp: starts_with_iff)
  moreover have "starts_with (CHR '' '' # c # s) (CHR '' '' # x # p) = False" if "c \<noteq> x" for c s x p
    using that by (auto simp: starts_with_iff)
  moreover have "starts_with (c # s) (CHR ''n'' # p) = False" if "c \<noteq> CHR ''n''" for c s p
    using that by (auto simp: starts_with_iff)
  moreover have "starts_with (CHR ''n'' # CHR ''e'' # s) (CHR ''n'' # CHR ''o'' # p) = False" for s p
    by (auto simp: starts_with_iff)
  ultimately show ?thesis
    using assms(2) numeric_no_sep [OF assms(1)]
    by (auto simp: atomic_def flat_def contains_Cons graphic_def)
qed

lemma words_of_atom:
  assumes "numeric t"
  shows "split_whitespace (''host '' @ t) = [''host'', t]" "split_whitespace (''port '' @ t) = [''port'', t]"
    "split_whitespace (''src host '' @ t) = [''src'', ''host'', t]"
    "split_whitespace (''dst host '' @ t) = [''dst'', ''host'', t]"
    "split_whitespace (''src port '' @ t) = [''src'', ''port'', t]"
    "split_whitespace (''dst port '' @ t) = [''dst'', ''port'', t]"
proof -
  have t: "list_all graphic t" "t \<noteq> []" using assms numeric_graphic by (auto simp: numeric_def)
  have w: "list_all graphic ''host''" "list_all graphic ''port''" "list_all graphic ''src''"
    "list_all graphic ''dst''" by (simp_all add: graphic_def)
  show "split_whitespace (''host '' @ t) = [''host'', t]" "split_whitespace (''port '' @ t) = [''port'', t]"
    using split_two_words [OF w(1) t(1)] split_two_words [OF w(2) t(1)] t(2) by simp_all
  show "split_whitespace (''src host '' @ t) = [''src'', ''host'', t]"
    "split_whitespace (''dst host '' @ t) = [''dst'', ''host'', t]"
    "split_whitespace (''src port '' @ t) = [''src'', ''port'', t]"
    "split_whitespace (''dst port '' @ t) = [''dst'', ''port'', t]"
    using split_three_words [OF w(3,1) t(1)] split_three_words [OF w(4,1) t(1)]
      split_three_words [OF w(3,2) t(1)] split_three_words [OF w(4,2) t(1)] t(2) by simp_all
qed

lemma trim_atomic: "atomic s \<Longrightarrow> trim s = s"
  by (auto simp: atomic_def intro: trim_graphic)

lemma parse_atom_words:
  assumes "numeric t"
  shows "parse_cap_atom (''host '' @ t) = parse_host CfHost t"
    "parse_cap_atom (''port '' @ t) = parse_port CfPort t"
    "parse_cap_atom (''src host '' @ t) = parse_host CfSrcHost t"
    "parse_cap_atom (''dst host '' @ t) = parse_host CfDstHost t"
    "parse_cap_atom (''src port '' @ t) = parse_port CfSrcPort t"
    "parse_cap_atom (''dst port '' @ t) = parse_port CfDstPort t"
  using trim_atomic [OF atomic_word [OF assms, of "''host''"]] trim_atomic [OF atomic_word [OF assms, of "''port''"]]
    trim_atomic [OF atomic_word [OF assms, of "''src host''"]] trim_atomic [OF atomic_word [OF assms, of "''dst host''"]]
    trim_atomic [OF atomic_word [OF assms, of "''src port''"]] trim_atomic [OF atomic_word [OF assms, of "''dst port''"]]
    words_of_atom [OF assms]
  by (simp_all add: parse_cap_atom_def Let_def)

lemma show_leaf:
  assumes "cap_printable f" "\<And>a b. f \<noteq> CfAnd a b" "\<And>a b. f \<noteq> CfOr a b" "\<And>a. f \<noteq> CfNot a"
  shows "atomic (cap_show f) \<and> parse_cap_atom (cap_show f) = Inr f"
proof -
  note d = numeric_dec numeric_ipv4
  have words: "atomic (''host '' @ t)" "atomic (''port '' @ t)" "atomic (''src host '' @ t)"
    "atomic (''dst host '' @ t)" "atomic (''src port '' @ t)" "atomic (''dst port '' @ t)"
    if "numeric t" for t
    using atomic_word [OF that, of "''host''"] atomic_word [OF that, of "''port''"]
      atomic_word [OF that, of "''src host''"] atomic_word [OF that, of "''dst host''"]
      atomic_word [OF that, of "''src port''"] atomic_word [OF that, of "''dst port''"] by simp_all
  have proto: "atomic p \<and> parse_cap_atom p = Inr (CfProto p)"
    if "p \<in> {''tcp'', ''udp'', ''icmp'', ''arp'', ''ip'', ''ip6''}" for p
  proof -
    have "atomic p"
      using that by (elim insertE emptyE; simp add: atomic_def flat_def graphic_def contains_Cons starts_with_def contains_def)
    with that show ?thesis by (simp add: parse_cap_atom_def trim_atomic Let_def)
  qed
  have ip: "\<exists>a. i = V4 a" if "is_v4 i" for i using that by (cases i) auto
  show ?thesis
    using assms words [OF numeric_dec] words [OF numeric_ipv4] proto
      parse_atom_words [OF numeric_dec] parse_atom_words [OF numeric_ipv4]
    by (cases f) (auto dest!: ip simp: parse_host_def parse_port_def parse_ip_text parse_uint_dec)
qed

lemma balanced_atomic: "atomic s \<Longrightarrow> balanced s"
  by (simp add: atomic_def balanced_flat)

lemma show_parses: "cap_printable f \<Longrightarrow> balanced (cap_show f) \<and> parse_cap_or (cap_show f) = Inr f"
proof (induction f)
  case (CfAnd a b)
  then show ?case by (simp add: balanced_texts cap.parse_and_text)
next
  case (CfOr a b)
  then show ?case by (simp add: balanced_texts cap.parse_or_text)
next
  case (CfNot a)
  then show ?case by (simp add: balanced_texts cap.parse_not_text)
qed (use show_leaf in \<open>simp_all add: balanced_atomic cap.parse_atomic del: cap_show.simps\<close>)

lemma show_nonempty: "cap_printable f \<Longrightarrow> trim (cap_show f) = cap_show f \<and> cap_show f \<noteq> []"
proof (induction f)
  case (CfAnd a b)
  show ?case by (rule conjI, rule trim_graphic) (simp_all add: and_text_def paren_def graphic_def)
next
  case (CfOr a b)
  show ?case by (rule conjI, rule trim_graphic) (simp_all add: or_text_def paren_def graphic_def)
next
  case (CfNot a)
  show ?case by (rule conjI, rule trim_graphic) (simp_all add: not_text_def paren_def graphic_def)
qed (use show_leaf trim_atomic in \<open>auto simp: atomic_def simp del: cap_show.simps\<close>)

section \<open>Properties\<close>



text \<open>A prefix mask keeps the high bits.\<close>

lemma prefix_mask_bit: "p \<le> 32 \<Longrightarrow> bit (prefix_mask p) i \<longleftrightarrow> 32 - p \<le> i \<and> i < 32"
  by (cases "p = 0") (auto simp: prefix_mask_def bit_push_bit_iff bit_not_iff bit_mask_iff)

lemma prefix_mask_eq:
  assumes "p \<le> 32"
  shows "x AND prefix_mask p = y AND prefix_mask p \<longleftrightarrow>
    unat x div 2 ^ (32 - p) = unat y div 2 ^ (32 - p)"
proof -
  let ?k = "32 - p"
  have "x AND prefix_mask p = y AND prefix_mask p \<longleftrightarrow> (\<forall>i. ?k \<le> i \<and> i < 32 \<longrightarrow> bit x i = bit y i)"
    by (auto simp: bit_eq_iff bit_and_iff prefix_mask_bit [OF assms])
  also have "\<dots> \<longleftrightarrow> drop_bit ?k x = drop_bit ?k y"
  proof
    assume a: "\<forall>i. ?k \<le> i \<and> i < 32 \<longrightarrow> bit x i = bit y i"
    show "drop_bit ?k x = drop_bit ?k y"
    proof (rule bit_eqI)
      fix n
      show "bit (drop_bit ?k x) n = bit (drop_bit ?k y) n"
        using a by (cases "?k + n < 32") (auto simp: bit_drop_bit_eq dest: bit_imp_le_length)
    qed
  next
    assume d: "drop_bit ?k x = drop_bit ?k y"
    show "\<forall>i. ?k \<le> i \<and> i < 32 \<longrightarrow> bit x i = bit y i"
    proof (intro allI impI)
      fix i assume i: "?k \<le> i \<and> i < 32"
      have "bit (drop_bit ?k x) (i - ?k) = bit (drop_bit ?k y) (i - ?k)" by (simp only: d)
      with i show "bit x i = bit y i" by (simp add: bit_drop_bit_eq)
    qed
  qed
  also have "\<dots> \<longleftrightarrow> unat (drop_bit ?k x) = unat (drop_bit ?k y)" by (simp add: word_unat_eq_iff)
  also have "\<dots> \<longleftrightarrow> unat x div 2 ^ ?k = unat y div 2 ^ ?k"
    unfolding unat_drop_bit_eq by (simp only: drop_bit_eq_div)
  finally show ?thesis .
qed

lemma split_once_append: "c \<notin> set p \<Longrightarrow> split_once c (p @ c # q) = Some (p, q)"
proof -
  assume "c \<notin> set p"
  then have "find_sub (p @ c # q) [c] = Some (length p)" by (induction p) (auto simp: starts_with_def)
  then show ?thesis by (simp add: split_once_def)
qed

lemma no_slash: "CHR ''/'' \<notin> set (ipv4_text ip)"
proof -
  have "digit_val (CHR ''/'') = None" by (simp add: digit_val_def)
  then have "CHR ''/'' \<notin> set (dec n)" for n
    using dec_digits [of "CHR ''/''" n] digit_val_digit_chr by force
  then show ?thesis by (cases ip) (simp add: ipv4_text_def)
qed

lemma parse_net_text:
  assumes "p \<le> 32"
  shows "parse_capture_filter (''net '' @ ipv4_text ip @ CHR ''/'' # dec p) =
    Inr (CfNet (ipv4_word ip AND prefix_mask p) (prefix_mask p))"
proof -
  let ?t = "ipv4_text ip @ CHR ''/'' # dec p"
  have num: "numeric ?t"
    using numeric_ipv4 [of ip] numeric_dec [of p] by (auto simp: numeric_def)
  have at: "atomic (''net '' @ ?t)" using atomic_word [OF num, of "''net''"] by simp
  have "list_all graphic ''net''" by (simp add: graphic_def)
  then have "split_whitespace (''net '' @ ?t) = [''net'', ?t]"
    using split_two_words [of "''net''" ?t] numeric_graphic [OF num] num by (simp add: numeric_def)
  then have "parse_cap_atom (''net '' @ ?t) = parse_net ?t"
    using trim_atomic [OF at] by (simp add: parse_cap_atom_def Let_def)
  moreover have "parse_net ?t = Inr (CfNet (ipv4_word ip AND prefix_mask p) (prefix_mask p))"
    using assms split_once_append [OF no_slash]
    by (simp add: parse_net_def parse_ipv4_text parse_uint_dec u32_max_def Let_def)
  ultimately show ?thesis
    using trim_atomic [OF at] cap.parse_atomic [OF at] by (simp add: parse_capture_filter_def Let_def)
qed

text \<open>
  a network filter written \<open>net a.b.c.d/p\<close> selects, among the frames in which an IPv4
  header is found, exactly those whose source or destination shares the first \<open>p\<close> bits with
  the address, for every prefix length from 0 to 32.
\<close>

theorem cap_net_semantics:
  assumes "p \<le> 32" "l3_offset data = Some (4, off)" "off + 20 \<le> length data"
  shows "map_sum id (\<lambda>f. matches_raw f data)
      (parse_capture_filter (''net '' @ ipv4_text ip @ CHR ''/'' # dec p)) =
    Inr (unat (be32_at data (off + 12)) div 2 ^ (32 - p) = unat (ipv4_word ip) div 2 ^ (32 - p) \<or>
         unat (be32_at data (off + 16)) div 2 ^ (32 - p) = unat (ipv4_word ip) div 2 ^ (32 - p))"
  unfolding parse_net_text [OF assms(1)]
  using assms prefix_mask_eq [OF assms(1)] by (simp add: has_net_def)

theorem cap_net_semantics_witness:
  "map_sum id (\<lambda>f. matches_raw f [2, 0, 0, 0, 0x45, 0, 0, 0, 0, 0, 0, 0, 0, 0, 0, 0, 10, 1, 2, 3, 192, 168, 0, 1])
     (parse_capture_filter (''net '' @ ipv4_text (10, 9, 9, 9) @ CHR ''/'' # dec 8)) = Inr True"
proof -
  let ?d = "[2, 0, 0, 0, 0x45, 0, 0, 0, 0, 0, 0, 0, 0, 0, 0, 0, 10, 1, 2, 3, 192, 168, 0, 1] :: bytes"
  have "l3_offset ?d = Some (4, 4)"
    by (simp add: l3_offset_def be_at_def unat_be16 Let_def from_le_def from_be_def)
  from cap_net_semantics [OF _ this, of 8 "(10, 9, 9, 9)"] show ?thesis
    by (simp add: be32_at_def unat_be32 ipv4_word_def)
qed

end
