(* ===== verification/Bpf.thy ===== *)
theory Bpf
  imports CapFilter
begin

text \<open>
  Compilation of a capture filter to classic BPF (\<open>src/src/capture/bpf.rs\<close>).  \<open>bpf_exec\<close> is the
  machine the opcode constants are named after (loads of a word, half word or byte at an
  absolute offset, jump if equal, return); it is the specification the programs are held
  against, not code of the repository.
\<close>

section \<open>Instructions\<close>

record sock_filter =
  sf_code :: u16
  sf_jt :: u8
  sf_jf :: u8
  sf_k :: u32

definition bpf_ld :: u16 where "bpf_ld = 0x00"
definition bpf_ldh :: u16 where "bpf_ldh = 0x01"
definition bpf_ldb :: u16 where "bpf_ldb = 0x02"
definition bpf_jmp :: u16 where "bpf_jmp = 0x05"
definition bpf_ret :: u16 where "bpf_ret = 0x06"
definition bpf_jeq :: u16 where "bpf_jeq = 0x10"
definition bpf_k :: u16 where "bpf_k = 0x00"
definition bpf_abs :: u16 where "bpf_abs = 0x20"

definition ldh :: "u32 \<Rightarrow> sock_filter" where
  "ldh off = \<lparr>sf_code = bpf_ldh OR bpf_abs, sf_jt = 0, sf_jf = 0, sf_k = off\<rparr>"

definition ldb :: "u32 \<Rightarrow> sock_filter" where
  "ldb off = \<lparr>sf_code = bpf_ldb OR bpf_abs, sf_jt = 0, sf_jf = 0, sf_k = off\<rparr>"

definition ld :: "u32 \<Rightarrow> sock_filter" where
  "ld off = \<lparr>sf_code = bpf_ld OR bpf_abs, sf_jt = 0, sf_jf = 0, sf_k = off\<rparr>"

definition jeq :: "u32 \<Rightarrow> u8 \<Rightarrow> u8 \<Rightarrow> sock_filter" where
  "jeq val jt jf = \<lparr>sf_code = bpf_jmp OR bpf_jeq OR bpf_k, sf_jt = jt, sf_jf = jf, sf_k = val\<rparr>"

definition ret_insn :: "u32 \<Rightarrow> sock_filter" where
  "ret_insn val = \<lparr>sf_code = bpf_ret OR bpf_k, sf_jt = 0, sf_jf = 0, sf_k = val\<rparr>"

definition accept_all :: u32 where
  "accept_all = 0xffffffff"

section \<open>Compilation\<close>

record bpf_layout =
  bl_eth_check :: bool
  bl_eth_off :: u32
  bl_ip :: u32

fun layout :: "link_type \<Rightarrow> bpf_layout option" where
  "layout LtEthernet = Some \<lparr>bl_eth_check = True, bl_eth_off = 12, bl_ip = 14\<rparr>"
| "layout LtLinuxSll = Some \<lparr>bl_eth_check = True, bl_eth_off = 14, bl_ip = 16\<rparr>"
| "layout LtLinuxSll2 = Some \<lparr>bl_eth_check = True, bl_eth_off = 0, bl_ip = 20\<rparr>"
| "layout LtNull = Some \<lparr>bl_eth_check = False, bl_eth_off = 0, bl_ip = 4\<rparr>"
| "layout _ = None"

definition port_insns :: "u32 \<Rightarrow> u32 \<Rightarrow> nat \<Rightarrow> bool option \<Rightarrow> sock_filter list" where
  "port_insns proto l4 port dir =
     (let p = word_of_nat port in
      [ldb proto, jeq 6 0 0, jeq 17 0 1] @
      (case dir of
         Some True \<Rightarrow> [ldh l4, jeq p 0 1]
       | Some False \<Rightarrow> [ldh (l4 + 2), jeq p 0 1]
       | None \<Rightarrow> [ldh l4, jeq p 2 0, ldh (l4 + 2), jeq p 0 1]))"

definition merge_and :: "sock_filter list \<Rightarrow> sock_filter list \<Rightarrow> sock_filter list option" where
  "merge_and a b =
     (if length a < 2 \<or> length b < 2 then None else Some (take (length a - 2) a @ b))"

definition merge_or :: "sock_filter list \<Rightarrow> sock_filter list \<Rightarrow> sock_filter list option" where
  "merge_or a b =
     (if length a < 2 \<or> length b < 2 then None
      else Some (take (length a - 2) a @ [ret_insn accept_all] @ b))"

definition merge_not :: "sock_filter list \<Rightarrow> sock_filter list option" where
  "merge_not inner =
     (if length inner < 2 then None
      else let n = length inner in
        Some (inner[n - 2 := inner ! (n - 1), n - 1 := inner ! (n - 2)]))"

definition link_check :: "bpf_layout \<Rightarrow> sock_filter list" where
  "link_check lay =
     (if bl_eth_check lay then [ldh (bl_eth_off lay), jeq 0x0800 0 1] else [ld 0, jeq 2 0 1])"

text \<open>The program of an atom: the link check, the atom's instructions, accept and reject.\<close>

definition atom_program :: "bpf_layout \<Rightarrow> sock_filter list \<Rightarrow> sock_filter list" where
  "atom_program lay body = link_check lay @ body @ [ret_insn accept_all, ret_insn 0]"

fun compile_simple_bpf :: "capture_filter \<Rightarrow> link_type \<Rightarrow> sock_filter list option" where
  "compile_simple_bpf f lt =
     (if \<not> is_kernel_simple f then None
      else case layout lt of
        None \<Rightarrow> None
      | Some lay \<Rightarrow>
          let ip = bl_ip lay; proto = ip + 9; src = ip + 12; dst = ip + 16; l4 = ip + 20;
              atom = (\<lambda>body. Some (atom_program lay body)) in
          (case f of
             CfTrue \<Rightarrow> atom []
           | CfProto p \<Rightarrow>
               if p = ''tcp'' then atom [ldb proto, jeq 6 0 1]
               else if p = ''udp'' then atom [ldb proto, jeq 17 0 1]
               else if p = ''icmp'' then atom [ldb proto, jeq 1 0 1]
               else if p = ''ip'' then atom []
               else None
           | CfHost (V4 v4) \<Rightarrow>
               let v = ipv4_word v4 in atom [ld src, jeq v 2 0, ld dst, jeq v 0 1]
           | CfSrcHost (V4 v4) \<Rightarrow> atom [ld src, jeq (ipv4_word v4) 0 1]
           | CfDstHost (V4 v4) \<Rightarrow> atom [ld dst, jeq (ipv4_word v4) 0 1]
           | CfPort p \<Rightarrow> atom (port_insns proto l4 p None)
           | CfSrcPort p \<Rightarrow> atom (port_insns proto l4 p (Some True))
           | CfDstPort p \<Rightarrow> atom (port_insns proto l4 p (Some False))
           | CfAnd a b \<Rightarrow> do {
               left \<leftarrow> compile_simple_bpf a lt; right \<leftarrow> compile_simple_bpf b lt; merge_and left right }
           | CfOr a b \<Rightarrow> do {
               left \<leftarrow> compile_simple_bpf a lt; right \<leftarrow> compile_simple_bpf b lt; merge_or left right }
           | CfNot g \<Rightarrow> do { inner \<leftarrow> compile_simple_bpf g lt; merge_not inner }
           | _ \<Rightarrow> None))"

declare compile_simple_bpf.simps [simp del]

section \<open>The machine\<close>

definition load_be :: "nat \<Rightarrow> bytes \<Rightarrow> nat \<Rightarrow> u32 option" where
  "load_be n pkt off =
     (if length pkt < off + n then None else Some (word_of_nat (from_be (take n (drop off pkt)))))"

text \<open>A load outside the packet and a run off the end reject the packet.\<close>

function bpf_exec :: "sock_filter list \<Rightarrow> bytes \<Rightarrow> u32 \<Rightarrow> u32" where
  "bpf_exec [] pkt acc = 0"
| "bpf_exec (i # is) pkt acc =
     (if sf_code i = bpf_ret OR bpf_k then sf_k i
      else if sf_code i = bpf_jmp OR bpf_jeq OR bpf_k
      then bpf_exec (drop (unat (if acc = sf_k i then sf_jt i else sf_jf i)) is) pkt acc
      else case load_be (if sf_code i = bpf_ldb OR bpf_abs then 1
                         else if sf_code i = bpf_ldh OR bpf_abs then 2 else 4) pkt (unat (sf_k i)) of
             None \<Rightarrow> 0
           | Some v \<Rightarrow> bpf_exec is pkt v)"
  by pat_completeness auto
termination
  by (relation "measure (\<lambda>(is, pkt, acc). length is)") auto

definition bpf_accepts :: "sock_filter list \<Rightarrow> bytes \<Rightarrow> bool" where
  "bpf_accepts prog pkt \<longleftrightarrow> bpf_exec prog pkt 0 \<noteq> 0"

text \<open>One instruction at a time.\<close>

lemmas opcodes = bpf_ld_def bpf_ldh_def bpf_ldb_def bpf_jmp_def bpf_ret_def bpf_jeq_def bpf_k_def bpf_abs_def

lemma exec_ldh: "bpf_exec (ldh k # is) pkt acc =
    (case load_be 2 pkt (unat k) of None \<Rightarrow> 0 | Some v \<Rightarrow> bpf_exec is pkt v)"
  by (simp add: ldh_def opcodes)

lemma exec_ldb: "bpf_exec (ldb k # is) pkt acc =
    (case load_be 1 pkt (unat k) of None \<Rightarrow> 0 | Some v \<Rightarrow> bpf_exec is pkt v)"
  by (simp add: ldb_def opcodes)

lemma exec_ld: "bpf_exec (ld k # is) pkt acc =
    (case load_be 4 pkt (unat k) of None \<Rightarrow> 0 | Some v \<Rightarrow> bpf_exec is pkt v)"
  by (simp add: ld_def opcodes)

lemma exec_jeq: "bpf_exec (jeq k jt jf # is) pkt acc =
    bpf_exec (drop (unat (if acc = k then jt else jf)) is) pkt acc"
  by (simp add: jeq_def opcodes)

lemma exec_ret: "bpf_exec (ret_insn k # is) pkt acc = k"
  by (simp add: ret_insn_def opcodes)

lemmas exec_insns = exec_ldh exec_ldb exec_ld exec_jeq exec_ret

declare bpf_exec.simps(2) [simp del]

section \<open>Programs on Ethernet frames\<close>

lemma take_one_at: "off < length xs \<Longrightarrow> take 1 (drop off xs) = [xs ! off]"
  by (simp add: take_Suc_conv_app_nth)

lemma take_two_at: "off + 2 \<le> length xs \<Longrightarrow> take 2 (drop off xs) = [xs ! off, xs ! (off + 1)]"
  by (rule nth_equalityI) (auto simp: less_Suc_eq nth_Cons split: nat.splits)

lemma take_four_at:
  "off + 4 \<le> length xs \<Longrightarrow>
     take 4 (drop off xs) = [xs ! off, xs ! (off + 1), xs ! (off + 2), xs ! (off + 3)]"
  by (rule nth_equalityI) (auto simp: less_Suc_eq nth_Cons numeral_eq_Suc split: nat.splits)

lemma load_half: "off + 2 \<le> length pkt \<Longrightarrow> load_be 2 pkt off = Some (word_of_nat (be_at pkt off))"
  by (simp add: load_be_def be_at_def take_two_at unat_be16 from_be_def)

lemma load_byte: "off < length pkt \<Longrightarrow> load_be (Suc 0) pkt off = Some (ucast (pkt ! off))"
  using take_one_at [of off pkt] by (simp add: load_be_def from_be_def)

lemma load_word: "off + 4 \<le> length pkt \<Longrightarrow> load_be 4 pkt off = Some (be32_at pkt off)"
  by (simp add: load_be_def be32_at_def take_four_at be32_def)

lemma be_at_less: "be_at pkt off < 65536"
  using unsigned_less [of "be16 (pkt ! off) (pkt ! (off + 1))"] by (simp add: be_at_def)

lemma half_eq [simp]:
  assumes "m < 65536" "n < 65536"
  shows "(word_of_nat m :: u32) = word_of_nat n \<longleftrightarrow> m = n"
proof
  assume "(word_of_nat m :: u32) = word_of_nat n"
  then have "unat (word_of_nat m :: u32) = unat (word_of_nat n :: u32)" by (rule arg_cong)
  moreover have "unat (word_of_nat m :: u32) = m" "unat (word_of_nat n :: u32) = n"
    using assms by (intro unat_of_nat_less; simp)+
  ultimately show "m = n" by simp
qed simp

lemma radix_inject:
  assumes "x * 256 + y = x' * 256 + y'" "y < 256" "y' < (256 :: nat)"
  shows "x = x' \<and> y = y'"
proof -
  have "x = (x * 256 + y) div 256" "x' = (x' * 256 + y') div 256"
    using assms(2,3) by simp_all
  then have "x = x'" by (simp only: assms(1))
  then show ?thesis using assms(1) by simp
qed

lemma be32_inject: "be32 a b c d = be32 a' b' c' d' \<longleftrightarrow> a = a' \<and> b = b' \<and> c = c' \<and> d = d'"
proof
  assume "be32 a b c d = be32 a' b' c' d'"
  then have "((unat a * 256 + unat b) * 256 + unat c) * 256 + unat d =
      ((unat a' * 256 + unat b') * 256 + unat c') * 256 + unat d'"
    by (metis unat_be32)
  from radix_inject [OF this unat_u8_less unat_u8_less] show "a = a' \<and> b = b' \<and> c = c' \<and> d = d'"
    using radix_inject [of "unat a * 256 + unat b" "unat c" "unat a' * 256 + unat b'" "unat c'"]
      radix_inject [of "unat a" "unat b" "unat a'" "unat b'"]
    by (simp only: unat_u8_less word_unat_eq_iff simp_thms)
qed simp

text \<open>The link check passes on every IPv4 Ethernet frame.\<close>

lemma exec_link_check:
  assumes "34 \<le> length pkt" "be_at pkt 12 = 0x0800"
  shows "bpf_exec (ldh 12 # jeq 0x0800 0 1 # is) pkt acc = bpf_exec is pkt 0x0800"
  using assms by (simp only: exec_ldh load_half) (simp add: exec_jeq load_half)

lemma ipv4_l3: "14 \<le> length pkt \<Longrightarrow> be_at pkt 12 = 0x0800 \<Longrightarrow> l3_offset pkt = Some (4, 14)"
  by (simp add: l3_offset_def)

lemma ucast_byte_eq: "ucast (b :: u8) = (w :: u32) \<longleftrightarrow> unat b = unat w"
  using take_bit_nat_eq_self [of "unat b" 32] less_trans [OF unat_u8_less, of 4294967296 b]
  by (simp add: word_unat_eq_iff unsigned_ucast_eq)

lemma host_bytes:
  assumes "off + 4 \<le> length pkt"
  shows "be32_at pkt off = ipv4_word ip \<longleftrightarrow> take 4 (drop off pkt) = ipv4_bytes ip"
  by (cases ip) (simp add: take_four_at [OF assms] be32_at_def ipv4_word_def ipv4_bytes_def be32_inject)

lemma accept_all_nonzero [simp]: "accept_all \<noteq> 0"
  by (simp add: accept_all_def)

lemma proto_programs:
  assumes "34 \<le> length pkt" "be_at pkt 12 = 0x0800"
  shows "bpf_exec [ldh 12, jeq 0x0800 0 1, ldb 23, jeq v 0 1, ret_insn accept_all, ret_insn 0] pkt 0 \<noteq> 0
      \<longleftrightarrow> unat (pkt ! 23) = unat v"
    "bpf_exec [ldh 12, jeq 0x0800 0 1, ret_insn accept_all, ret_insn 0] pkt 0 \<noteq> 0"
  using assms by (simp_all add: exec_insns load_half load_byte [of 23] ucast_byte_eq)

lemma host_programs:
  assumes "34 \<le> length pkt" "be_at pkt 12 = 0x0800"
  shows "bpf_exec [ldh 12, jeq 0x0800 0 1, ld 26, jeq v 0 1, ret_insn accept_all, ret_insn 0] pkt 0 \<noteq> 0
      \<longleftrightarrow> be32_at pkt 26 = v"
    "bpf_exec [ldh 12, jeq 0x0800 0 1, ld 30, jeq v 0 1, ret_insn accept_all, ret_insn 0] pkt 0 \<noteq> 0
      \<longleftrightarrow> be32_at pkt 30 = v"
    "bpf_exec [ldh 12, jeq 0x0800 0 1, ld 26, jeq v 2 0, ld 30, jeq v 0 1, ret_insn accept_all, ret_insn 0] pkt 0 \<noteq> 0
      \<longleftrightarrow> be32_at pkt 26 = v \<or> be32_at pkt 30 = v"
  using assms by (simp_all add: exec_insns load_half load_word)

fun simple_atom :: "capture_filter \<Rightarrow> bool" where
  "simple_atom (CfHost (V4 _)) = True"
| "simple_atom (CfSrcHost (V4 _)) = True"
| "simple_atom (CfDstHost (V4 _)) = True"
| "simple_atom (CfProto p) = (p \<in> {''tcp'', ''udp'', ''icmp'', ''ip''})"
| "simple_atom CfTrue = True"
| "simple_atom _ = False"

lemma ethernet_compiled:
  "compile_simple_bpf CfTrue LtEthernet = Some [ldh 12, jeq 0x0800 0 1, ret_insn accept_all, ret_insn 0]"
  "compile_simple_bpf (CfProto ''ip'') LtEthernet = Some [ldh 12, jeq 0x0800 0 1, ret_insn accept_all, ret_insn 0]"
  "compile_simple_bpf (CfProto ''tcp'') LtEthernet =
     Some [ldh 12, jeq 0x0800 0 1, ldb 23, jeq 6 0 1, ret_insn accept_all, ret_insn 0]"
  "compile_simple_bpf (CfProto ''udp'') LtEthernet =
     Some [ldh 12, jeq 0x0800 0 1, ldb 23, jeq 17 0 1, ret_insn accept_all, ret_insn 0]"
  "compile_simple_bpf (CfProto ''icmp'') LtEthernet =
     Some [ldh 12, jeq 0x0800 0 1, ldb 23, jeq 1 0 1, ret_insn accept_all, ret_insn 0]"
  "compile_simple_bpf (CfSrcHost (V4 v)) LtEthernet =
     Some [ldh 12, jeq 0x0800 0 1, ld 26, jeq (ipv4_word v) 0 1, ret_insn accept_all, ret_insn 0]"
  "compile_simple_bpf (CfDstHost (V4 v)) LtEthernet =
     Some [ldh 12, jeq 0x0800 0 1, ld 30, jeq (ipv4_word v) 0 1, ret_insn accept_all, ret_insn 0]"
  "compile_simple_bpf (CfHost (V4 v)) LtEthernet =
     Some [ldh 12, jeq 0x0800 0 1, ld 26, jeq (ipv4_word v) 2 0, ld 30, jeq (ipv4_word v) 0 1,
           ret_insn accept_all, ret_insn 0]"
  by (simp_all add: compile_simple_bpf.simps atom_program_def link_check_def Let_def)

lemma host_match:
  assumes "34 \<le> length pkt" "be_at pkt 12 = 0x0800"
  shows "has_host pkt (V4 v) dir =
    by_dir dir (be32_at pkt 26 = ipv4_word v) (be32_at pkt 30 = ipv4_word v)"
  using assms ipv4_l3 [of pkt] host_bytes [of 26 pkt v] host_bytes [of 30 pkt v] by (simp add: has_host_def)

lemma proto_match:
  assumes "34 \<le> length pkt" "be_at pkt 12 = 0x0800"
  shows "has_ip_proto pkt n \<longleftrightarrow> unat (pkt ! 23) = unat n" "has_ip_version pkt 4"
  using assms ipv4_l3 [of pkt] by (simp_all add: has_ip_proto_def has_ip_version_def word_unat_eq_iff)


definition udp_frame :: bytes where
  "udp_frame = [2, 0, 0, 0, 0, 2, 2, 0, 0, 0, 0, 1, 8, 0, 0x45, 0, 0, 28, 0, 0, 0x40, 0, 64, 17, 0, 0,
     10, 0, 0, 1, 10, 0, 0, 2, 0, 53, 0, 54, 0, 8, 0, 0]"

lemma udp_frame_ipv4: "34 \<le> length udp_frame" "be_at udp_frame 12 = 0x0800"
  by (simp_all add: udp_frame_def be_at_def unat_be16)


text \<open>
  The compiled conjunction does not conjoin: the program for \<open>tcp and udp\<close> accepts every UDP
  frame, although no frame matches the filter.  The second program is entered in its middle,
  because the failing jump of the first still skips one instruction.
\<close>
theorem bpf_and_not_conjunction:
  assumes "34 \<le> length pkt" "be_at pkt 12 = 0x0800" "pkt ! 23 = 17"
  shows "map_option (\<lambda>prog. bpf_accepts prog pkt)
      (compile_simple_bpf (CfAnd (CfProto ''tcp'') (CfProto ''udp'')) LtEthernet) = Some True \<and>
    \<not> matches_raw (CfAnd (CfProto ''tcp'') (CfProto ''udp'')) pkt"
  using assms
  by (simp add: compile_simple_bpf.simps [of "CfAnd _ _"] ethernet_compiled merge_and_def Let_def
      bpf_accepts_def exec_insns load_half load_byte [of 23] proto_match matches_proto_def)

lemma udp_frame_proto: "udp_frame ! 23 = 17"
  by (simp add: udp_frame_def)

theorem bpf_and_not_conjunction_witness:
  "map_option (\<lambda>prog. bpf_accepts prog udp_frame)
      (compile_simple_bpf (CfAnd (CfProto ''tcp'') (CfProto ''udp'')) LtEthernet) = Some True"
  using bpf_and_not_conjunction [OF udp_frame_ipv4 udp_frame_proto] by simp

text \<open>
  The program of a source-port filter rejects every TCP frame, the ones the user-space filter
  accepts included: after the protocol test succeeds the load of the port is skipped, and the
  port is compared with the protocol number.
\<close>
theorem bpf_src_port_misses_tcp:
  assumes "34 \<le> length pkt" "be_at pkt 12 = 0x0800" "pkt ! 23 = 6" "p \<le> 65535" "p \<noteq> 6"
  shows "map_option (\<lambda>prog. bpf_accepts prog pkt) (compile_simple_bpf (CfSrcPort p) LtEthernet) = Some False"
  using assms half_eq [of 6 p]
  by (simp add: compile_simple_bpf.simps [of "CfSrcPort _"] atom_program_def link_check_def port_insns_def
      Let_def bpf_accepts_def exec_insns load_half load_byte [of 23])

definition tcp_frame :: bytes where
  "tcp_frame = [2, 0, 0, 0, 0, 2, 2, 0, 0, 0, 0, 1, 8, 0, 0x45, 0, 0, 40, 0, 0, 0x40, 0, 64, 6, 0, 0,
     10, 0, 0, 1, 10, 0, 0, 2, 0x1f, 0x90, 0, 80, 0, 0, 0, 0, 0, 0, 0, 0, 0x50, 0x10, 0, 0, 0, 0, 0, 0]"

lemma tcp_frame_ipv4: "34 \<le> length tcp_frame" "be_at tcp_frame 12 = 0x0800" "tcp_frame ! 23 = 6"
  by (simp_all add: tcp_frame_def be_at_def unat_be16)

theorem bpf_src_port_misses_tcp_witness:
  "matches_raw (CfSrcPort 8080) tcp_frame \<and>
   map_option (\<lambda>prog. bpf_accepts prog tcp_frame) (compile_simple_bpf (CfSrcPort 8080) LtEthernet) = Some False"
  using bpf_src_port_misses_tcp [OF tcp_frame_ipv4, of 8080] tcp_frame_ipv4
  by (simp add: has_port_def l4_offset_def ipv4_l3 by_dir_def)
    (simp add: tcp_frame_def be_at_def unat_be16)

lemma hd_update: "0 < i \<Longrightarrow> hd (xs[i := a]) = hd xs"
  by (cases xs; cases i) auto

lemma hd_kept: "4 \<le> length xs \<Longrightarrow> hd (take (length xs - 2) xs @ ys) = hd xs"
  by (cases xs) (auto simp: take_Cons split: nat.splits)

lemma ethernet_head:
  "compile_simple_bpf f LtEthernet = Some prog \<Longrightarrow> 4 \<le> length prog \<and> hd prog = ldh 12"
proof (induction f arbitrary: prog)
  case (CfNot f)
  then obtain inner where "compile_simple_bpf f LtEthernet = Some inner" "merge_not inner = Some prog"
    by (auto simp: compile_simple_bpf.simps [of "CfNot _"] Let_def bind_eq_Some_conv split: if_splits)
  with CfNot.IH show ?case
    by (auto simp: merge_not_def Let_def hd_update split: if_splits)
next
  case (CfAnd a b)
  then obtain l r where "compile_simple_bpf a LtEthernet = Some l" "compile_simple_bpf b LtEthernet = Some r"
    "merge_and l r = Some prog"
    by (auto simp: compile_simple_bpf.simps [of "CfAnd _ _"] Let_def bind_eq_Some_conv split: if_splits)
  with CfAnd.IH show ?case
    by (force simp: merge_and_def hd_kept split: if_splits)
next
  case (CfOr a b)
  then obtain l r where "compile_simple_bpf a LtEthernet = Some l" "compile_simple_bpf b LtEthernet = Some r"
    "merge_or l r = Some prog"
    by (auto simp: compile_simple_bpf.simps [of "CfOr _ _"] Let_def bind_eq_Some_conv split: if_splits)
  with CfOr.IH show ?case
    by (force simp: merge_or_def hd_kept split: if_splits)
qed (auto simp: compile_simple_bpf.simps [of "CfHost _"] compile_simple_bpf.simps [of "CfSrcHost _"]
    compile_simple_bpf.simps [of "CfDstHost _"] compile_simple_bpf.simps [of "CfPort _"]
    compile_simple_bpf.simps [of "CfSrcPort _"] compile_simple_bpf.simps [of "CfDstPort _"]
    compile_simple_bpf.simps [of "CfProto _"] compile_simple_bpf.simps [of "CfNet _ _"]
    compile_simple_bpf.simps [of CfTrue] Let_def atom_program_def link_check_def port_insns_def
    split: if_splits ip_addr.splits)

text \<open>
  Every program for an Ethernet link starts with an instruction of class 1, which classic BPF
  reads as a load into the index register (\<open>BPF_LDX\<close>): the half-word and byte sizes are encoded in
  the class bits instead of the size bits (8 and 16).
\<close>
theorem bpf_first_class_ldx:
  assumes "compile_simple_bpf f LtEthernet = Some prog"
  shows "\<exists>i is. prog = i # is \<and> sf_code i AND 7 = 1"
  using ethernet_head [OF assms] by (cases prog) (auto simp: ldh_def opcodes)

theorem bpf_first_class_ldx_witness:
  "\<exists>i is. the (compile_simple_bpf (CfProto ''tcp'') LtEthernet) = i # is \<and> sf_code i AND 7 = 1"
  using bpf_first_class_ldx [OF ethernet_compiled(3)] by (simp only: ethernet_compiled option.sel)

end
