(* ===== verification/DispFilter.thy ===== *)
theory DispFilter
  imports Packet FilterText
begin

text \<open>
  The display filter (\<open>src/src/capture/disp_filter.rs\<close>): its syntax tree, its evaluation on a
  packet record and its parser, which instantiates the grammar of \<open>FilterText\<close> with its own
  atoms.  The regular expression engine is external: a compiled expression is kept as its
  pattern, \<open>re_new\<close> gives the error of compiling one (if any) and \<open>re_match\<close> matches.
\<close>

section \<open>Filters and their evaluation\<close>

datatype cmp = CmpEq | CmpNe | CmpLt | CmpGt | CmpLe | CmpGe

datatype disp_error = DispParse string

datatype display_filter =
    DfTrue
  | DfProto string
  | DfIpAddr string
  | DfTcpPort nat
  | DfUdpPort nat
  | DfFieldEq string "field_slice option" string
  | DfFieldContains string "field_slice option" string
  | DfFieldMatches string string
  | DfFrameLen cmp nat
  | DfExpertSeverity expert_severity
  | DfAnd display_filter display_filter
  | DfOr display_filter display_filter
  | DfNot display_filter

definition proto_matches :: "string \<Rightarrow> packet_record \<Rightarrow> bool" where
  "proto_matches p pkt =
     (let fl = pr_flags pkt; name = ps_protocol (pr_summary pkt) in
      if p = ''http'' then pf_http fl
      else if p = ''http2'' then pf_http2 fl
      else if p = ''dns'' then pf_dns fl
      else if p = ''mdns'' then pf_mdns fl
      else if p = ''llmnr'' then pf_llmnr fl
      else if p = ''dhcp'' then pf_dhcp fl
      else if p = ''tcp'' then pf_tcp fl
      else if p = ''udp'' then pf_udp fl
      else if p = ''tls'' then pf_tls fl
      else if p = ''websocket'' then pf_websocket fl
      else if p = ''arp'' then pf_arp fl
      else if p = ''icmp'' then pf_icmp fl
      else if p = ''ip'' then pf_ipv4 fl
      else if p = ''ipv6'' then pf_ipv6 fl
      else if p = ''sip'' then pf_sip fl
      else if p = ''rtp'' then pf_rtp fl
      else if p = ''quic'' then pf_quic_looking fl
      else if p = ''wifi'' \<or> p = ''wlan'' \<or> p = ''802.11'' then
        pf_wifi fl \<or> eq_ignore_case name ''802.11'' \<or> eq_ignore_case name ''WiFi''
        \<or> contains name ''802.11''
      else eq_ignore_case name p)"

definition ends_with_port :: "nat \<Rightarrow> packet_record \<Rightarrow> bool" where
  "ends_with_port p pkt \<longleftrightarrow>
     ends_with (ps_src (pr_summary pkt)) ('':'' @ dec p) \<or> ends_with (ps_dst (pr_summary pkt)) ('':'' @ dec p)"

fun compare :: "cmp \<Rightarrow> nat \<Rightarrow> nat \<Rightarrow> bool" where
  "compare CmpEq n v = (n = v)"
| "compare CmpNe n v = (n \<noteq> v)"
| "compare CmpLt n v = (n < v)"
| "compare CmpGt n v = (n > v)"
| "compare CmpLe n v = (n \<le> v)"
| "compare CmpGe n v = (n \<ge> v)"

definition some_and :: "'a option \<Rightarrow> ('a \<Rightarrow> bool) \<Rightarrow> bool" where
  "some_and x p = (case x of None \<Rightarrow> False | Some v \<Rightarrow> p v)"

primrec df_matches :: "(string \<Rightarrow> string \<Rightarrow> bool) \<Rightarrow> display_filter \<Rightarrow> packet_record \<Rightarrow> bool" where
  "df_matches re_match DfTrue pkt = True"
| "df_matches re_match (DfNot f) pkt = (\<not> df_matches re_match f pkt)"
| "df_matches re_match (DfAnd a b) pkt = (df_matches re_match a pkt \<and> df_matches re_match b pkt)"
| "df_matches re_match (DfOr a b) pkt = (df_matches re_match a pkt \<or> df_matches re_match b pkt)"
| "df_matches re_match (DfProto p) pkt = proto_matches p pkt"
| "df_matches re_match (DfIpAddr a) pkt =
     (contains (ps_src (pr_summary pkt)) a \<or> contains (ps_dst (pr_summary pkt)) a)"
| "df_matches re_match (DfTcpPort p) pkt = (pf_tcp (pr_flags pkt) \<and> ends_with_port p pkt)"
| "df_matches re_match (DfUdpPort p) pkt = (pf_udp (pr_flags pkt) \<and> ends_with_port p pkt)"
| "df_matches re_match (DfFieldEq fld sl v) pkt = some_and (field_sliced pkt fld sl) (\<lambda>x. eq_ignore_case x v)"
| "df_matches re_match (DfFieldContains fld sl v) pkt = some_and (field_sliced pkt fld sl) (\<lambda>x. contains x v)"
| "df_matches re_match (DfFieldMatches fld re) pkt = some_and (packet_field pkt fld) (re_match re)"
| "df_matches re_match (DfFrameLen op v) pkt = compare op (length (pr_data pkt)) v"
| "df_matches re_match (DfExpertSeverity sev) pkt = (\<exists>e \<in> set (pr_expert pkt). sev \<le> ei_severity e)"

section \<open>Values and operators\<close>

definition disp_int :: "int_error + nat \<Rightarrow> disp_error + nat" where
  "disp_int r = map_err (\<lambda>e. DispParse (int_error_str e)) r"

definition unquote :: "string \<Rightarrow> string" where
  "unquote s = trim_matches (CHR 34) (trim s)"

definition drop_eq :: "string \<Rightarrow> string" where
  "drop_eq rest = trim (trim_start_matches ''='' (trim_start_matches ''=='' (trim rest)))"

definition parse_eq_str :: "string \<Rightarrow> (string \<Rightarrow> display_filter) \<Rightarrow> disp_error + display_filter" where
  "parse_eq_str rest f =
     (let v = trim_matches (CHR 34) (drop_eq rest) in
      if v = [] then Inl (DispParse ''missing value'') else Inr (f v))"

definition parse_eq_u16 :: "string \<Rightarrow> (nat \<Rightarrow> display_filter) \<Rightarrow> disp_error + display_filter" where
  "parse_eq_u16 rest f = res_bind (disp_int (parse_uint u16_max (drop_eq rest))) (\<lambda>n. Inr (f n))"

definition first_op :: "string \<Rightarrow> (string \<times> cmp) list \<Rightarrow> (cmp \<times> string) option" where
  "first_op rest ops =
     fold (\<lambda>(op, c) acc. case acc of
         Some _ \<Rightarrow> acc | None \<Rightarrow> map_option (\<lambda>v. (c, v)) (strip_prefix rest op)) ops None"

definition parse_cmp_usize ::
    "string \<Rightarrow> (cmp \<Rightarrow> nat \<Rightarrow> display_filter) \<Rightarrow> disp_error + display_filter" where
  "parse_cmp_usize rest0 f =
     (let rest = trim rest0 in
      case first_op rest [(''=='', CmpEq), (''!='', CmpNe), (''<='', CmpLe), (''>='', CmpGe),
                          (''<'', CmpLt), (''>'', CmpGt), (''='', CmpEq)] of
        None \<Rightarrow> Inl (DispParse (''bad cmp: '' @ rest))
      | Some (op, v) \<Rightarrow> res_bind (disp_int (parse_uint usize_max (trim v))) (\<lambda>n. Inr (f op n)))"

definition cut_at :: "string \<Rightarrow> string \<Rightarrow> (string \<times> string) option" where
  "cut_at s op =
     map_option (\<lambda>i. (trim (take i s), trim (drop (i + length op) s))) (find_sub s op)"

datatype field_op = OpContains | OpMatches | OpEq

definition parse_field_op :: "string \<Rightarrow> (string \<times> field_op \<times> string) option" where
  "parse_field_op s =
     (case cut_at s '' contains '' of Some (l, r) \<Rightarrow> Some (l, OpContains, r) | None \<Rightarrow>
      case cut_at s '' matches '' of Some (l, r) \<Rightarrow> Some (l, OpMatches, r) | None \<Rightarrow>
      case cut_at s ''=='' of Some (l, r) \<Rightarrow> Some (l, OpEq, r) | None \<Rightarrow>
      case cut_at s ''='' of Some (l, r) \<Rightarrow> Some (l, OpEq, r) | None \<Rightarrow> None)"

definition parse_slice :: "string \<Rightarrow> disp_error + field_slice" where
  "parse_slice inner =
     (case find_sub inner '':'' of
        Some colon \<Rightarrow>
          res_bind (disp_int (parse_uint usize_max (trim (take colon inner)))) (\<lambda>a.
          res_bind (disp_int (parse_uint usize_max (trim (drop (colon + 1) inner)))) (\<lambda>b.
            Inr (SliceRange a b)))
      | None \<Rightarrow> res_bind (disp_int (parse_uint usize_max inner)) (\<lambda>i. Inr (SliceIndex i)))"

definition parse_field_ref :: "string \<Rightarrow> disp_error + (string \<times> field_slice option)" where
  "parse_field_ref raw0 =
     (let raw = trim raw0; bad = Inl (DispParse (''bad field slice: '' @ raw)) in
      case find_sub raw ''['' of
        None \<Rightarrow> Inr (raw, None)
      | Some opn \<Rightarrow>
          if \<not> ends_with raw '']'' then bad
          else let base = trim (take opn raw) in
            if base = [] then bad
            else res_bind (parse_slice (trim (take (length raw - 1 - (opn + 1)) (drop (opn + 1) raw))))
                   (\<lambda>sl. Inr (base, Some sl)))"

section \<open>Atoms\<close>

definition disp_protocols :: "string list" where
  "disp_protocols = [''http2'', ''http'', ''dns'', ''mdns'', ''llmnr'', ''dhcp'', ''tcp'', ''udp'', ''tls'',
     ''websocket'', ''sip'', ''rtp'', ''quic'', ''wifi'', ''wlan'', ''802.11'', ''arp'', ''icmp'', ''ipv6'', ''ip'']"

definition severity_of :: "string \<Rightarrow> expert_severity option" where
  "severity_of v =
     (if v = ''error'' then Some SevError
      else if v = ''warn'' \<or> v = ''warning'' then Some SevWarn
      else if v = ''note'' then Some SevNote
      else if v = ''comment'' then Some SevComment
      else None)"

definition parse_severity :: "string \<Rightarrow> disp_error + display_filter" where
  "parse_severity rest =
     (let v = drop_eq rest in
      case severity_of (to_lower v) of
        Some sev \<Rightarrow> Inr (DfExpertSeverity sev)
      | None \<Rightarrow> Inl (DispParse (''unknown expert.severity '' @ v)))"

definition field_filter ::
    "(string \<Rightarrow> string option) \<Rightarrow> string \<Rightarrow> field_op \<Rightarrow> string \<Rightarrow> disp_error + display_filter" where
  "field_filter re_new field_raw op val =
     res_bind (parse_field_ref field_raw) (\<lambda>(fld, sl).
       case op of
         OpContains \<Rightarrow> Inr (DfFieldContains fld sl (unquote val))
       | OpMatches \<Rightarrow>
           (case re_new val of
              Some e \<Rightarrow> Inl (DispParse (''regex: '' @ e))
            | None \<Rightarrow> Inr (DfFieldMatches fld val))
       | OpEq \<Rightarrow> Inr (DfFieldEq fld sl (unquote val)))"

definition parse_disp_atom :: "(string \<Rightarrow> string option) \<Rightarrow> string \<Rightarrow> disp_error + display_filter" where
  "parse_disp_atom re_new s0 =
     (let s = trim s0 in
      case find (eq_ignore_case s) disp_protocols of Some p \<Rightarrow> Inr (DfProto p) | None \<Rightarrow>
      case strip_prefix s ''ip.addr'' of Some rest \<Rightarrow> parse_eq_str rest DfIpAddr | None \<Rightarrow>
      case strip_prefix s ''ipv6.addr'' of Some rest \<Rightarrow> parse_eq_str rest DfIpAddr | None \<Rightarrow>
      case strip_prefix s ''tcp.port'' of Some rest \<Rightarrow> parse_eq_u16 rest DfTcpPort | None \<Rightarrow>
      case strip_prefix s ''udp.port'' of Some rest \<Rightarrow> parse_eq_u16 rest DfUdpPort | None \<Rightarrow>
      case parse_field_op s of Some (l, op, v) \<Rightarrow> field_filter re_new l op v | None \<Rightarrow>
      case strip_prefix s ''frame.len'' of Some rest \<Rightarrow> parse_cmp_usize rest DfFrameLen | None \<Rightarrow>
      case strip_prefix s ''expert.severity'' of Some rest \<Rightarrow> parse_severity rest | None \<Rightarrow>
        Inl (DispParse (''unknown: '' @ s)))"

section \<open>The parser\<close>

function parse_disp_or :: "(string \<Rightarrow> string option) \<Rightarrow> string \<Rightarrow> disp_error + display_filter"
  and parse_disp_and :: "(string \<Rightarrow> string option) \<Rightarrow> string \<Rightarrow> disp_error + display_filter"
  and parse_disp_not :: "(string \<Rightarrow> string option) \<Rightarrow> string \<Rightarrow> disp_error + display_filter" where
  "parse_disp_or re s = combine DfOr (map (parse_disp_and re) (split_top s '' or ''))"
| "parse_disp_and re s = combine DfAnd (map (parse_disp_not re) (split_top s '' and ''))"
| "parse_disp_not re s =
     (let t = trim s in
      case strip_prefix t ''not '' of
        Some rest \<Rightarrow> res_bind (parse_disp_not re rest) (\<lambda>f. Inr (DfNot f))
      | None \<Rightarrow>
          if starts_with t ''('' \<and> ends_with t '')'' then parse_disp_or re (take (length t - 2) (drop 1 t))
          else parse_disp_atom re t)"
  by pat_completeness auto
termination
  by (relation "measure (case_sum (\<lambda>(_, s). 3 * length s + 2)
      (case_sum (\<lambda>(_, s). 3 * length s + 1) (\<lambda>(_, s). 3 * length s)))")
    (auto dest: split_top_part negated_shorter paren_shorter)

declare parse_disp_or.simps [simp del] parse_disp_and.simps [simp del] parse_disp_not.simps [simp del]

definition parse_display_filter :: "(string \<Rightarrow> string option) \<Rightarrow> string \<Rightarrow> disp_error + display_filter" where
  "parse_display_filter re input = (let s = trim input in if s = [] then Inr DfTrue else parse_disp_or re s)"

interpretation disp: filter_parser "parse_disp_or re" "parse_disp_and re" "parse_disp_not re" "parse_disp_atom re"
  DfOr DfAnd DfNot for re
  by unfold_locales (rule parse_disp_or.simps parse_disp_and.simps parse_disp_not.simps)+

section \<open>Printing filters\<close>

text \<open>Words of letters, digits and dots.\<close>

definition word_chr :: "char \<Rightarrow> bool" where
  "word_chr c \<longleftrightarrow> (let n = (of_char c :: nat) in
     n = 46 \<or> (48 \<le> n \<and> n \<le> 57) \<or> (65 \<le> n \<and> n \<le> 90) \<or> (97 \<le> n \<and> n \<le> 122))"

definition word :: "string \<Rightarrow> bool" where
  "word w \<longleftrightarrow> w \<noteq> [] \<and> list_all word_chr w"

definition field_word :: "string \<Rightarrow> bool" where
  "field_word w \<longleftrightarrow> word w \<and> w \<noteq> ''not'' \<and> \<not> starts_with w ''ip.addr'' \<and> \<not> starts_with w ''ipv6.addr'' \<and>
     \<not> starts_with w ''tcp.port'' \<and> \<not> starts_with w ''udp.port''"

primrec disp_show :: "display_filter \<Rightarrow> string" where
  "disp_show DfTrue = []"
| "disp_show (DfProto p) = p"
| "disp_show (DfIpAddr a) = ''ip.addr'' @ '' == '' @ a"
| "disp_show (DfTcpPort n) = ''tcp.port'' @ '' == '' @ dec n"
| "disp_show (DfUdpPort n) = ''udp.port'' @ '' == '' @ dec n"
| "disp_show (DfFieldEq fld sl v) = fld @ '' == '' @ v"
| "disp_show (DfFieldContains fld sl v) = fld @ '' contains '' @ v"
| "disp_show (DfFieldMatches fld re) = fld @ '' matches '' @ re"
| "disp_show (DfFrameLen op n) = ''frame.len'' @ (if op = CmpLt then '' < '' else '' > '') @ dec n"
| "disp_show (DfExpertSeverity sev) = []"
| "disp_show (DfAnd a b) = and_text (disp_show a) (disp_show b)"
| "disp_show (DfOr a b) = or_text (disp_show a) (disp_show b)"
| "disp_show (DfNot f) = not_text (disp_show f)"

primrec disp_printable :: "display_filter \<Rightarrow> bool" where
  "disp_printable DfTrue = False"
| "disp_printable (DfProto p) = (p \<in> set disp_protocols)"
| "disp_printable (DfIpAddr a) = word a"
| "disp_printable (DfTcpPort n) = (n \<le> u16_max)"
| "disp_printable (DfUdpPort n) = (n \<le> u16_max)"
| "disp_printable (DfFieldEq fld sl v) = (field_word fld \<and> sl = None \<and> word v)"
| "disp_printable (DfFieldContains fld sl v) = (field_word fld \<and> sl = None \<and> word v)"
| "disp_printable (DfFieldMatches fld re) = False"
| "disp_printable (DfFrameLen op n) = (op \<in> {CmpLt, CmpGt} \<and> n \<le> usize_max)"
| "disp_printable (DfExpertSeverity sev) = False"
| "disp_printable (DfAnd a b) = (disp_printable a \<and> disp_printable b)"
| "disp_printable (DfOr a b) = (disp_printable a \<and> disp_printable b)"
| "disp_printable (DfNot f) = disp_printable f"

lemma word_chr_char:
  "word_chr c \<Longrightarrow> graphic c \<and> c \<notin> {CHR '' '', CHR ''('', CHR '')'', CHR ''='', CHR 34, CHR ''['', CHR '']''}"
  by (auto simp: word_chr_def graphic_def Let_def)

lemma wordD:
  assumes "word w"
  shows "w \<noteq> []" "graphic (hd w)" "graphic (last w)" "hd w \<noteq> CHR 34" "last w \<noteq> CHR 34" "flat w"
    "CHR '' '' \<notin> set w" "CHR ''='' \<notin> set w" "CHR ''['' \<notin> set w"
  using assms word_chr_char unfolding word_def flat_def list_all_iff
  by (auto simp del: insert_iff dest: hd_in_set last_in_set)

lemma word_dec: "word (dec n)"
proof -
  have "word_chr (digit_chr d)" if "d < 10" for d
    using that by (auto simp: word_chr_def digit_chr_def of_char_of Let_def)
  then show ?thesis using dec_digits [of _ n] by (fastforce simp: word_def list_all_iff dec_def [of n])
qed

text \<open>What the steps of the atom parser see of \<open>fld == v\<close>.\<close>

lemma not_protocol: "CHR '' '' \<in> set s \<Longrightarrow> find (eq_ignore_case s) disp_protocols = None"
proof -
  assume "CHR '' '' \<in> set s"
  then have "CHR '' '' \<in> set (to_lower s)" by (force simp: to_lower_def lower_chr_def)
  moreover have "\<forall>p \<in> set disp_protocols. CHR '' '' \<notin> set (to_lower p)"
    by (simp add: disp_protocols_def to_lower_def lower_chr_def Let_def)
  ultimately show ?thesis by (auto simp: find_None_iff eq_ignore_case_def)
qed

lemma trim_ends: "s \<noteq> [] \<Longrightarrow> graphic (hd s) \<Longrightarrow> graphic (last s) \<Longrightarrow> trim s = s"
  by (rule trim_graphic)

lemma graphic_eq: "graphic (CHR ''='')" "graphic (CHR ''<'')" "graphic (CHR ''>'')"
  by (simp_all add: graphic_def)

lemma trim_word: "word w \<Longrightarrow> trim w = w" "word w \<Longrightarrow> trim (CHR '' '' # w) = w" "word w \<Longrightarrow> trim (w @ '' '') = w"
  using wordD trim_graphic trim_space_start trim_space_end by auto

lemma trim_quotes: "word w \<Longrightarrow> trim_matches (CHR 34) w = w"
proof -
  assume w: "word w"
  have 1: "dropWhile (\<lambda>x. x = CHR 34) w = w"
    using wordD(1,4) [OF w] by (cases w) auto
  have "dropWhile (\<lambda>x. x = CHR 34) (rev w) = rev w"
    using wordD(1,5) [OF w] by (cases w rule: rev_cases) auto
  then show ?thesis by (simp add: trim_matches_def 1)
qed

lemma drop_eq_word: "word w \<Longrightarrow> drop_eq ('' == '' @ w) = w"
proof -
  assume w: "word w"
  have "trim ('' == '' @ w) = ''== '' @ w"
    using trim_space_start [of "''== '' @ w"] wordD [OF w] graphic_eq by simp
  moreover have "\<not> starts_with (CHR '' '' # w) (CHR ''='' # p)" for p
    by (rule starts_with_other) simp
  ultimately have "trim_start_matches ''='' (trim_start_matches ''=='' (trim ('' == '' @ w))) = CHR '' '' # w"
    using starts_with_append [of "''==''" "CHR '' '' # w"]
    by (simp add: trim_start_matches.simps [of _ "_ # _"])
  then show ?thesis by (simp add: drop_eq_def trim_word [OF w])
qed

text \<open>The operators an atom is printed with, and their texts.\<close>

definition operators :: "string list" where
  "operators = ['' == '', '' contains '', '' < '', '' > '', '' != '', '' <= '', '' >= '']"

lemma word_tail: "word v \<Longrightarrow> \<not> contains (CHR '' '' # v) (CHR '' '' # p @ '' '')"
proof
  assume w: "word v" and "contains (CHR '' '' # v) (CHR '' '' # p @ '' '')"
  then obtain a b where ab: "CHR '' '' # v = a @ (CHR '' '' # p @ '' '') @ b"
    by (auto simp: contains_iff)
  then have "CHR '' '' \<in> set v" by (cases a) auto
  with w show False by (simp add: wordD)
qed

lemma word_tails:
  assumes "word v"
  shows "\<not> contains (CHR '' '' # v) '' or ''" "\<not> contains (CHR '' '' # v) '' and ''"
    "\<not> contains (CHR '' '' # v) '' contains ''" "\<not> contains (CHR '' '' # v) '' matches ''"
  using word_tail [OF assms, of "''or''"] word_tail [OF assms, of "''and''"]
    word_tail [OF assms, of "''contains''"] word_tail [OF assms, of "''matches''"] by simp_all

lemma operator_contains:
  assumes "word w" "word v" "opr \<in> set operators"
  shows "\<not> contains (w @ opr @ v) '' or ''" "\<not> contains (w @ opr @ v) '' and ''"
    "\<not> contains (w @ opr @ v) '' matches ''"
    "contains (w @ opr @ v) '' contains '' \<longleftrightarrow> opr = '' contains ''"
  using assms(3) word_tails [OF assms(2)] wordD(7) [OF assms(1)]
  by (auto simp: contains_skip operators_def contains_Cons starts_with_def)

lemma operator_atomic:
  assumes "word w" "word v" "opr \<in> set operators" "w \<noteq> ''not''"
  shows "atomic (w @ opr @ v)"
proof -
  note w = wordD [OF assms(1)] and v = wordD [OF assms(2)]
  have "\<not> starts_with (w @ opr @ v) ''not ''"
  proof
    assume "starts_with (w @ opr @ v) ''not ''"
    moreover obtain t where "opr = CHR '' '' # t" using assms(3) by (auto simp: operators_def)
    ultimately obtain r where "w @ CHR '' '' # t @ v = ''not'' @ CHR '' '' # r" by (auto simp: starts_with_iff)
    then have "w = ''not''" using w(7) by (auto simp: append_eq_append_conv2 append_eq_Cons_conv Cons_eq_append_conv)
    with assms(4) show False by contradiction
  qed
  moreover have "flat opr" using assms(3) by (auto simp: operators_def flat_def)
  ultimately show ?thesis
    using operator_contains [OF assms(1-3)] w v by (auto simp: atomic_def flat_def)
qed

lemma operator_space: "opr \<in> set operators \<Longrightarrow> CHR '' '' \<in> set (w @ opr @ v)"
  by (auto simp: operators_def)

lemma operator_cut:
  assumes "word w" "word v"
  shows "cut_at (w @ '' contains '' @ v) '' contains '' = Some (w, v)"
    "cut_at (w @ '' == '' @ v) ''=='' = Some (w, v)"
  using find_sub_skip [OF wordD(7) [OF assms(1)], of "'' contains '' @ v" "''contains ''"]
    find_sub_skip [OF wordD(8) [OF assms(1)], of "'' == '' @ v" "''=''"] trim_word assms
  by (auto simp: cut_at_def starts_with_def)

lemma cut_None: "\<not> contains s opr \<Longrightarrow> cut_at s opr = None"
  by (simp add: cut_at_def contains_def)

lemma operator_trim: "word w \<Longrightarrow> word v \<Longrightarrow> trim (w @ opr @ v) = w @ opr @ v"
  by (rule trim_graphic) (auto simp: wordD)

lemma field_op_parts:
  assumes "word w" "word v"
  shows "parse_field_op (w @ '' contains '' @ v) = Some (w, OpContains, v)"
    "parse_field_op (w @ '' == '' @ v) = Some (w, OpEq, v)"
  using operator_cut [OF assms] operator_contains [OF assms, of "'' == ''"]
  by (simp_all add: parse_field_op_def cut_None operators_def)

lemma no_field_op:
  assumes "word w" "word v" "opr = '' < '' \<or> opr = '' > ''"
  shows "parse_field_op (w @ opr @ v) = None"
proof -
  have "\<not> contains (w @ opr @ v) (CHR ''='' # p)" for p
    using assms wordD(8) [OF assms(2)] contains_skip [OF wordD(8) [OF assms(1)], of "opr @ v" p]
      contains_skip [OF wordD(8) [OF assms(2)], of "[]" p]
    by (auto simp: contains_Cons starts_with_def contains_def)
  moreover have "opr \<in> set operators" using assms(3) by (auto simp: operators_def)
  ultimately show ?thesis using operator_contains [OF assms(1,2)] assms(3)
    by (auto simp: parse_field_op_def cut_None simp del: append.simps)
qed

lemma word_ref: "word w \<Longrightarrow> parse_field_ref w = Inr (w, None)"
proof -
  assume w: "word w"
  have "find_sub w ''['' = None"
    using find_sub_skip [OF wordD(9) [OF w], of "[]" "[]"] by simp
  then show ?thesis by (simp add: parse_field_ref_def trim_word [OF w])
qed

lemma word_unquote: "word v \<Longrightarrow> unquote v = v"
  by (simp add: unquote_def trim_word trim_quotes)

lemma strip_word:
  assumes "CHR '' '' \<notin> set p" "opr \<in> set operators"
  shows "strip_prefix (w @ opr @ v) p = (if starts_with w p then Some (drop (length p) w @ opr @ v) else None)"
proof -
  obtain t where "opr = CHR '' '' # t" using assms(2) by (auto simp: operators_def)
  then show ?thesis
    using starts_with_word [OF assms(1), of w "t @ v"] starts_with_length [of w p] by (simp add: strip_prefix_def)
qed

lemma atom_of_field:
  assumes "field_word w" "word v"
  shows "parse_disp_atom re (w @ '' == '' @ v) = Inr (DfFieldEq w None v)"
    "parse_disp_atom re (w @ '' contains '' @ v) = Inr (DfFieldContains w None v)"
proof -
  have w: "word w" and p: "\<not> starts_with w ''ip.addr''" "\<not> starts_with w ''ipv6.addr''"
    "\<not> starts_with w ''tcp.port''" "\<not> starts_with w ''udp.port''"
    using assms(1) by (auto simp: field_word_def)
  have o1: "'' == '' \<in> set operators" "'' contains '' \<in> set operators" by (simp_all add: operators_def)
  show "parse_disp_atom re (w @ '' == '' @ v) = Inr (DfFieldEq w None v)"
    using p strip_word [OF _ o1(1), of _ w v] not_protocol [OF operator_space [OF o1(1)], of w v]
    by (simp only: parse_disp_atom_def Let_def operator_trim [OF w assms(2)])
      (simp add: field_op_parts [OF w assms(2)] field_filter_def word_ref [OF w] word_unquote [OF assms(2)]
        del: append.simps)
  show "parse_disp_atom re (w @ '' contains '' @ v) = Inr (DfFieldContains w None v)"
    using p strip_word [OF _ o1(2), of _ w v] not_protocol [OF operator_space [OF o1(2)], of w v]
    by (simp only: parse_disp_atom_def Let_def operator_trim [OF w assms(2)])
      (simp add: field_op_parts [OF w assms(2)] field_filter_def word_ref [OF w] word_unquote [OF assms(2)]
        del: append.simps)
qed

lemma atom_of_ports:
  assumes "n \<le> u16_max"
  shows "parse_disp_atom re (''tcp.port'' @ '' == '' @ dec n) = Inr (DfTcpPort n)"
    "parse_disp_atom re (''udp.port'' @ '' == '' @ dec n) = Inr (DfUdpPort n)"
proof -
  have o1: "'' == '' \<in> set operators" by (simp add: operators_def)
  have w: "word ''tcp.port''" "word ''udp.port''" by (simp_all add: word_def word_chr_def)
  note facts = strip_word [OF _ o1, of _ _ "dec n"] not_protocol [OF operator_space [OF o1], of _ "dec n"]
  show "parse_disp_atom re (''tcp.port'' @ '' == '' @ dec n) = Inr (DfTcpPort n)"
    by (simp only: parse_disp_atom_def Let_def operator_trim [OF w(1) word_dec])
      (simp add: facts starts_with_def parse_eq_u16_def drop_eq_word [OF word_dec] parse_uint_dec [OF assms]
        disp_int_def del: append.simps)
  show "parse_disp_atom re (''udp.port'' @ '' == '' @ dec n) = Inr (DfUdpPort n)"
    by (simp only: parse_disp_atom_def Let_def operator_trim [OF w(2) word_dec])
      (simp add: facts starts_with_def parse_eq_u16_def drop_eq_word [OF word_dec] parse_uint_dec [OF assms]
        disp_int_def del: append.simps)
qed

lemma atom_of_addr:
  assumes "word a"
  shows "parse_disp_atom re (''ip.addr'' @ '' == '' @ a) = Inr (DfIpAddr a)"
proof -
  have o1: "'' == '' \<in> set operators" by (simp add: operators_def)
  have w: "word ''ip.addr''" by (simp add: word_def word_chr_def)
  show ?thesis
    using wordD(1) [OF assms]
    by (simp only: parse_disp_atom_def Let_def operator_trim [OF w assms])
      (simp add: strip_word [OF _ o1, of _ _ a] not_protocol [OF operator_space [OF o1], of _ a] starts_with_def
        parse_eq_str_def drop_eq_word [OF assms] trim_quotes [OF assms] del: append.simps)
qed

lemma cmp_rest:
  assumes "n \<le> usize_max"
  shows "parse_cmp_usize ('' < '' @ dec n) DfFrameLen = Inr (DfFrameLen CmpLt n)"
    "parse_cmp_usize ('' > '' @ dec n) DfFrameLen = Inr (DfFrameLen CmpGt n)"
proof -
  have t: "trim (CHR '' '' # c # CHR '' '' # dec n) = c # CHR '' '' # dec n" if "graphic c" for c
    using trim_space_start [of "c # CHR '' '' # dec n"] that wordD [OF word_dec] by simp
  show "parse_cmp_usize ('' < '' @ dec n) DfFrameLen = Inr (DfFrameLen CmpLt n)"
    "parse_cmp_usize ('' > '' @ dec n) DfFrameLen = Inr (DfFrameLen CmpGt n)"
    by (simp_all add: parse_cmp_usize_def t graphic_eq first_op_def strip_prefix_def starts_with_def
        trim_word [OF word_dec] parse_uint_dec [OF assms] disp_int_def)
qed

lemma atom_of_len:
  assumes "n \<le> usize_max"
  shows "parse_disp_atom re (''frame.len'' @ '' < '' @ dec n) = Inr (DfFrameLen CmpLt n)"
    "parse_disp_atom re (''frame.len'' @ '' > '' @ dec n) = Inr (DfFrameLen CmpGt n)"
proof -
  have w: "word ''frame.len''" by (simp add: word_def word_chr_def)
  have o1: "'' < '' \<in> set operators" and o2: "'' > '' \<in> set operators" by (simp_all add: operators_def)
  show "parse_disp_atom re (''frame.len'' @ '' < '' @ dec n) = Inr (DfFrameLen CmpLt n)"
    by (simp only: parse_disp_atom_def Let_def operator_trim [OF w word_dec])
      (simp add: strip_word [OF _ o1, of _ _ "dec n"] not_protocol [OF operator_space [OF o1], of _ "dec n"]
        starts_with_def no_field_op [OF w word_dec] cmp_rest [OF assms] del: append.simps)
  show "parse_disp_atom re (''frame.len'' @ '' > '' @ dec n) = Inr (DfFrameLen CmpGt n)"
    by (simp only: parse_disp_atom_def Let_def operator_trim [OF w word_dec])
      (simp add: strip_word [OF _ o2, of _ _ "dec n"] not_protocol [OF operator_space [OF o2], of _ "dec n"]
        starts_with_def no_field_op [OF w word_dec] cmp_rest [OF assms] del: append.simps)
qed

lemma find_member: "x \<in> set xs \<Longrightarrow> find ((=) x) xs = Some x"
  by (induction xs) auto

lemma atom_of_proto: "p \<in> set disp_protocols \<Longrightarrow> atomic p \<and> parse_disp_atom re p = Inr (DfProto p)"
proof -
  assume p: "p \<in> set disp_protocols"
  have lower: "\<forall>q \<in> set disp_protocols. to_lower q = q"
    by (simp add: disp_protocols_def to_lower_def lower_chr_def Let_def)
  have wd: "\<forall>q \<in> set disp_protocols. word q \<and> q \<noteq> ''not''"
    by (simp add: disp_protocols_def word_def word_chr_def)
  have "find (eq_ignore_case p) disp_protocols = find ((=) p) disp_protocols"
    by (rule find_cong) (use lower p in \<open>auto simp: eq_ignore_case_def\<close>)
  also have "\<dots> = Some p" using p by (rule find_member)
  finally have f: "find (eq_ignore_case p) disp_protocols = Some p" .
  have w: "word p" using wd p by blast
  have "\<not> contains p (CHR '' '' # q)" for q
    using contains_skip [OF wordD(7) [OF w], of "[]" q] by (simp add: contains_def)
  moreover have "\<not> starts_with p ''not ''"
    using wordD(7) [OF w] by (auto simp: starts_with_iff)
  ultimately have "atomic p" using wordD [OF w] by (simp add: atomic_def)
  moreover have "parse_disp_atom re p = Inr (DfProto p)"
    by (simp add: parse_disp_atom_def Let_def trim_word [OF w] f)
  ultimately show ?thesis ..
qed

lemma disp_leaf:
  assumes "disp_printable f" "\<And>a b. f \<noteq> DfAnd a b" "\<And>a b. f \<noteq> DfOr a b" "\<And>a. f \<noteq> DfNot a"
  shows "atomic (disp_show f) \<and> parse_disp_atom re (disp_show f) = Inr f"
proof -
  have fixed: "word ''ip.addr''" "word ''tcp.port''" "word ''udp.port''" "word ''frame.len''"
    by (simp_all add: word_def word_chr_def)
  have ops: "'' == '' \<in> set operators" "'' contains '' \<in> set operators" "'' < '' \<in> set operators"
    "'' > '' \<in> set operators" by (simp_all add: operators_def)
  note at = operator_atomic [OF _ _ ops(1)] operator_atomic [OF _ _ ops(2)] operator_atomic [OF _ _ ops(3)]
    operator_atomic [OF _ _ ops(4)]
  show ?thesis
    using assms
  proof (cases f)
    case (DfFrameLen op n)
    then show ?thesis using assms(1) at(3,4) [OF fixed(4) word_dec] atom_of_len by auto
  next
    case (DfFieldEq fld sl v)
    then show ?thesis using assms(1) at(1) [of fld v] atom_of_field(1) by (auto simp: field_word_def)
  next
    case (DfFieldContains fld sl v)
    then show ?thesis using assms(1) at(2) [of fld v] atom_of_field(2) by (auto simp: field_word_def)
  next
    case (DfIpAddr a)
    then show ?thesis using assms(1) at(1) [OF fixed(1), of a] atom_of_addr by auto
  next
    case (DfTcpPort n)
    then show ?thesis using assms(1) at(1) [OF fixed(2) word_dec] atom_of_ports by auto
  next
    case (DfUdpPort n)
    then show ?thesis using assms(1) at(1) [OF fixed(3) word_dec] atom_of_ports by auto
  next
    case (DfProto p)
    then show ?thesis using assms(1) atom_of_proto by simp
  qed auto
qed

lemma disp_parses: "disp_printable f \<Longrightarrow> balanced (disp_show f) \<and> parse_disp_or re (disp_show f) = Inr f"
proof (induction f)
  case (DfAnd a b)
  then show ?case by (simp add: balanced_texts disp.parse_and_text)
next
  case (DfOr a b)
  then show ?case by (simp add: balanced_texts disp.parse_or_text)
next
  case (DfNot a)
  then show ?case by (simp add: balanced_texts disp.parse_not_text)
qed (use disp_leaf in \<open>simp_all add: balanced_flat atomic_def disp.parse_atomic del: disp_show.simps\<close>)

lemma disp_show_trim:
  assumes "disp_printable f"
  shows "trim (disp_show f) = disp_show f \<and> disp_show f \<noteq> []"
proof -
  have "disp_show f \<noteq> [] \<and> graphic (hd (disp_show f)) \<and> graphic (last (disp_show f))"
  proof (cases "(\<exists>a b. f = DfAnd a b) \<or> (\<exists>a b. f = DfOr a b) \<or> (\<exists>a. f = DfNot a)")
    case True
    then show ?thesis by (auto simp: and_text_def or_text_def not_text_def paren_def graphic_def)
  next
    case False
    with disp_leaf [OF assms] show ?thesis by (auto simp: atomic_def)
  qed
  then show ?thesis using trim_graphic by blast
qed

section \<open>Properties\<close>



section \<open>Comparisons of the frame length\<close>

text \<open>
  A comparison with an equals sign in it is taken for a field comparison before the frame
  length is considered; the field it names keeps the rest of the operator.
\<close>

definition eq_comparisons :: "(string \<times> string) list" where
  "eq_comparisons = [('' == '', ''frame.len''), ('' != '', ''frame.len !''), ('' <= '', ''frame.len <''),
     ('' >= '', ''frame.len >'')]"

lemma frame_len_word: "word ''frame.len''"
  by (simp add: word_def word_chr_def)

lemma eq_comparison_field:
  assumes "(opr, fld) \<in> set eq_comparisons"
  shows "parse_field_op (''frame.len'' @ opr @ dec n) = Some (fld, OpEq, dec n)"
proof (cases "opr = '' == ''")
  case True
  then show ?thesis using assms field_op_parts(2) [OF frame_len_word word_dec] by (auto simp: eq_comparisons_def)
next
  case False
  let ?s = "''frame.len'' @ opr @ dec n"
  have opr: "opr \<in> set operators" "opr \<noteq> '' contains ''"
    using assms by (auto simp: eq_comparisons_def operators_def)
  have eq: "CHR ''='' \<notin> set (dec n)" using wordD(8) [OF word_dec] .
  then have "\<not> contains ?s ''==''" "find_sub ?s ''='' = Some 11"
    using False assms contains_skip [OF eq, of "[]" "''=''"]
    by (auto simp: eq_comparisons_def contains_Cons starts_with_def contains_def)
  moreover have "trim (take 11 ?s) = fld"
    using False assms trim_graphic [of fld] by (auto simp: eq_comparisons_def graphic_def)
  moreover have "trim (drop 12 ?s) = dec n"
    using False assms trim_word(2) [OF word_dec] by (auto simp: eq_comparisons_def)
  ultimately have "cut_at ?s ''='' = Some (fld, dec n)" by (simp add: cut_at_def)
  then show ?thesis
    using operator_contains [OF frame_len_word word_dec opr(1)] opr(2) \<open>\<not> contains ?s ''==''\<close>
    by (simp add: parse_field_op_def cut_None)
qed

lemma eq_comparison_parses:
  assumes "(opr, fld) \<in> set eq_comparisons"
  shows "parse_display_filter re (''frame.len'' @ opr @ dec n) = Inr (DfFieldEq fld None (dec n))"
proof -
  let ?s = "''frame.len'' @ opr @ dec n"
  have opr: "opr \<in> set operators" using assms by (auto simp: eq_comparisons_def operators_def)
  have at: "atomic ?s" by (rule operator_atomic [OF frame_len_word word_dec opr]) simp
  have "parse_field_ref fld = Inr (fld, None)"
    using assms trim_graphic [of fld] by (auto simp: eq_comparisons_def parse_field_ref_def graphic_def starts_with_def)
  then have "parse_disp_atom re ?s = Inr (DfFieldEq fld None (dec n))"
    by (simp only: parse_disp_atom_def Let_def operator_trim [OF frame_len_word word_dec])
      (simp add: strip_word [OF _ opr, of _ _ "dec n"] not_protocol [OF operator_space [OF opr], of _ "dec n"]
        starts_with_def eq_comparison_field [OF assms] field_filter_def word_unquote [OF word_dec] del: append.simps)
  moreover have "trim ?s = ?s" "?s \<noteq> []" using operator_trim [OF frame_len_word word_dec] by simp_all
  ultimately show ?thesis by (simp only: parse_display_filter_def Let_def disp.parse_atomic [OF at] if_False)
qed

end
