(* ===== verification/Secrets.thy ===== *)
theory Secrets
  imports Decrypt
begin

text \<open>
  Facts about the TLS decryption of \<open>Decrypt\<close>: key logs are read back, the key block has the
  length it is cut into, and how the per-connection counters move.
\<close>

section \<open>Hex and key logs\<close>

lemma hex_digit_char:
  "n < 16 \<Longrightarrow> graphic (digit_chr n) \<and> lower_chr (digit_chr n) = digit_chr n \<and> \<not> cont (byte_of_chr (digit_chr n)) \<and>
     digit_chr n \<noteq> CHR ''+''"
  by (drule less16_cases) (auto simp: graphic_def lower_chr_def cont_def byte_of_chr_def)

lemma hex_encode_simps [simp]:
  "hex_encode [] = []"
  "hex_encode (b # bs) = digit_chr (unat b div 16) # digit_chr (unat b mod 16) # hex_encode bs"
  by (simp_all add: hex_encode_def hex_two)

lemma hex_encode_chars: "c \<in> set (hex_encode bs) \<Longrightarrow> \<exists>n < 16. c = digit_chr n"
proof (induction bs)
  case (Cons b bs)
  have "unat b mod 16 < 16" by simp
  moreover have "c = digit_chr (unat b div 16) \<or> c = digit_chr (unat b mod 16) \<or> c \<in> set (hex_encode bs)"
    using Cons.prems by simp
  ultimately show ?case using Cons.IH div16_less [of b] by blast
qed simp

lemma byte_of_digits:
  "byte_from_hex (digit_chr (unat b div 16)) (digit_chr (unat b mod 16)) = Some b"
proof -
  have "(16 :: u8) * word_of_nat (unat b div 16) + word_of_nat (unat b mod 16) =
      word_of_nat (16 * (unat b div 16) + unat b mod 16)" by (simp only: of_nat_add of_nat_mult of_nat_numeral)
  also have "\<dots> = b" unfolding mult_div_mod_eq by simp
  finally show ?thesis
    using hex_digit_char [OF div16_less [of b]]
    by (simp add: byte_from_hex_def hex_nibble_digit div16_less)
qed

lemma hex_decode_pairs_encode: "hex_decode_pairs (hex_encode bs) = Some (Some bs)"
proof (induction bs)
  case (Cons b bs)
  have "\<not> (hex_encode bs \<noteq> [] \<and> cont (byte_of_chr (hd (hex_encode bs))))"
    using hex_encode_chars [of "hd (hex_encode bs)" bs] hex_digit_char by (auto dest!: hd_in_set)
  with Cons show ?case by (simp add: byte_of_digits)
qed simp

lemma hex_encode_graphic: "list_all graphic (hex_encode bs)"
  using hex_encode_chars hex_digit_char by (fastforce simp: list_all_iff)

lemma hex_encode_lower: "to_lower (hex_encode bs) = hex_encode bs"
  unfolding to_lower_def by (rule map_idI) (use hex_encode_chars hex_digit_char in blast)

lemma hex_encode_trim: "bs \<noteq> [] \<Longrightarrow> trim (hex_encode bs) = hex_encode bs"
proof -
  assume "bs \<noteq> []"
  then have "hex_encode bs \<noteq> []" by (cases bs) auto
  with hex_encode_graphic [of bs] show ?thesis by (auto simp: list_all_iff intro: trim_graphic)
qed

lemma hex_decode_encode: "hex_decode (hex_encode bs) = Some (Some bs)"
proof -
  have "length (hex_encode bs) mod 2 = 0" by (induction bs) auto
  moreover have "trim (hex_encode bs) = hex_encode bs"
  proof (cases bs)
    case Nil
    then show ?thesis by (simp add: trim_def trim_start.simps trim_end.simps ws_len_def ws_codes_def starts_with_def)
  next
    case (Cons b r)
    then show ?thesis using hex_encode_trim [of bs] by simp
  qed
  ultimately show ?thesis by (simp add: hex_decode_def Let_def hex_decode_pairs_encode)
qed

lemma hex_encode_inject: "hex_encode a = hex_encode b \<Longrightarrow> a = b"
  by (metis hex_decode_pairs_encode option.inject)

text \<open>The \<open>CLIENT_RANDOM\<close> lines of a log, one for each pair of a random and a master secret.\<close>

definition log_line :: "bytes \<times> bytes \<Rightarrow> string" where
  "log_line e = ''CLIENT_RANDOM '' @ hex_encode (fst e) @ '' '' @ hex_encode (snd e)"

definition log_text :: "(bytes \<times> bytes) list \<Rightarrow> string" where
  "log_text es = concat (map (\<lambda>e. log_line e @ [CHR 10]) es)"

lemma log_line_parsed:
  assumes "a \<noteq> []" "b \<noteq> []"
  shows "kl_parse_line kl (log_line (a, b)) =
    kl\<lparr>kl_client_random := AList.update (hex_encode a) (hex_encode b) (kl_client_random kl)\<rparr>"
proof -
  have ne: "hex_encode a \<noteq> []" "hex_encode b \<noteq> []" using assms by (cases a; cases b; simp)+
  have g: "list_all graphic ''CLIENT_RANDOM''" by (simp add: graphic_def)
  have "graphic (last (hex_encode b))" using ne(2) hex_encode_graphic [of b] by (simp add: list_all_iff)
  then have "trim (log_line (a, b)) = log_line (a, b)"
    by (intro trim_graphic) (use ne(2) in \<open>simp_all add: log_line_def graphic_def\<close>)
  moreover have "split_whitespace (log_line (a, b)) = [''CLIENT_RANDOM'', hex_encode a, hex_encode b]"
    using split_three_words [OF g hex_encode_graphic hex_encode_graphic, of a b] ne by (simp add: log_line_def)
  ultimately show ?thesis
    by (simp add: kl_parse_line_def hex_encode_lower Let_def) (simp add: log_line_def starts_with_def)
qed

lemma hex_encode_plain: "CHR 10 \<notin> set (hex_encode bs)" "CHR 13 \<notin> set (hex_encode bs)"
proof -
  have "\<not> graphic (CHR 10)" "\<not> graphic (CHR 13)" by (simp_all add: graphic_def)
  with hex_encode_graphic [of bs] show "CHR 10 \<notin> set (hex_encode bs)" "CHR 13 \<notin> set (hex_encode bs)"
    unfolding list_all_iff by blast+
qed

lemma log_line_no_lf:
  assumes "snd e \<noteq> []"
  shows "CHR 10 \<notin> set (log_line e)" "last (log_line e) \<noteq> CHR 13" "log_line e \<noteq> []"
proof -
  show "CHR 10 \<notin> set (log_line e)" using hex_encode_plain by (simp add: log_line_def)
  have ne: "hex_encode (snd e) \<noteq> []" using assms by (cases "snd e") auto
  then have "last (log_line e) \<in> set (hex_encode (snd e))" by (simp add: log_line_def)
  then show "last (log_line e) \<noteq> CHR 13" using hex_encode_plain(2) by metis
qed (simp add: log_line_def)

lemma split_log: "\<forall>e \<in> set es. snd e \<noteq> [] \<Longrightarrow> split_chr (CHR 10) (log_text es) = map log_line es @ [[]]"
proof (induction es)
  case (Cons e es)
  then show ?case using split_chr_append [OF log_line_no_lf(1) [of e], of "log_text es"] by (simp add: log_text_def)
qed (simp add: log_text_def)

lemma log_lines: "\<forall>e \<in> set es. snd e \<noteq> [] \<Longrightarrow> str_lines (log_text es) = map log_line es"
  using split_log [of es] log_line_no_lf by (auto simp: str_lines_def Let_def intro!: map_idI)

lemma parsed_log:
  assumes "\<forall>e \<in> set es. fst e \<noteq> [] \<and> snd e \<noteq> []"
  shows "map_of (kl_client_random (foldl kl_parse_line kl (map log_line es))) (hex_encode r) =
    (case map_of (rev es) r of Some m \<Rightarrow> Some (hex_encode m) | None \<Rightarrow> map_of (kl_client_random kl) (hex_encode r))"
  using assms
proof (induction es rule: rev_induct)
  case (snoc e es)
  obtain a b where e: "e = (a, b)" by (cases e)
  with snoc.prems have "a \<noteq> []" "b \<noteq> []" by simp_all
  with snoc e show ?case
    by (auto simp: log_line_parsed update_conv hex_encode_inject split: option.split)
qed simp

section \<open>The key block\<close>

lemma p_hash_length:
  assumes "env_ok env" "length out \<le> n" "n \<le> length out + 32 * k"
  shows "\<exists>bs. p_hash k env key seed n a out = Some bs \<and> length bs = n"
  using assms(2,3)
proof (induction k arbitrary: a out)
  case (Suc k)
  have h: "length (e_hmac env x y) = 32" for x y using assms(1) by (simp add: env_ok_def)
  show ?case
  proof (cases "length out < n")
    case True
    then show ?thesis using Suc.prems by (simp add: h Let_def) (rule Suc.IH; simp add: h)
  next
    case False
    with Suc.prems show ?thesis by simp
  qed
qed simp

lemma tls12_prf_length:
  assumes "env_ok env"
  shows "\<exists>bs. tls12_prf env secret label seed n = Some bs \<and> length bs = n"
  unfolding tls12_prf_def Let_def by (rule p_hash_length [OF assms]) simp_all

section \<open>Connection counters\<close>

definition client_seq_of :: "decrypt_state \<Rightarrow> string \<Rightarrow> nat" where
  "client_seq_of s k = (case map_of s k of None \<Rightarrow> 0 | Some c \<Rightarrow> tc_client_seq c)"

definition server_seq_of :: "decrypt_state \<Rightarrow> string \<Rightarrow> nat" where
  "server_seq_of s k = (case map_of s k of None \<Rightarrow> 0 | Some c \<Rightarrow> tc_server_seq c)"

lemma update_connection_of:
  "map_of (update_connection cr f s) k =
     (if k = to_lower cr then Some (f (default_to (new_connection k) (map_of s k))) else map_of s k)"
  by (simp add: update_connection_def Let_def update_conv)

lemma seq_default [simp]:
  "tc_client_seq (default_to (new_connection k) (map_of s k)) = client_seq_of s k"
  "tc_server_seq (default_to (new_connection k) (map_of s k)) = server_seq_of s k"
  by (simp_all add: client_seq_of_def server_seq_of_def new_connection_def default_to_def split: option.split)

lemma update_keeps_seq:
  assumes "\<And>c. tc_client_seq (f c) = tc_client_seq c" "\<And>c. tc_server_seq (f c) = tc_server_seq c"
  shows "client_seq_of (update_connection cr f s) = client_seq_of s"
    "server_seq_of (update_connection cr f s) = server_seq_of s"
  by (auto simp: fun_eq_iff client_seq_of_def server_seq_of_def update_connection_of assms new_connection_def
      default_to_def split: option.split)

lemma mark_keeps_seq [simp]:
  "client_seq_of (mark_early_data cr s) = client_seq_of s"
  "server_seq_of (mark_early_data cr s) = server_seq_of s"
  "client_seq_of (set_server_random cr sr s) = client_seq_of s"
  "server_seq_of (set_server_random cr sr s) = server_seq_of s"
  unfolding mark_early_data_def set_server_random_def by (rule update_keeps_seq; simp)+

lemma count_frame:
  "client_seq_of (update_connection cr (\<lambda>c. c\<lparr>tc_client_seq := tc_client_seq c + 1\<rparr>) s) =
     (client_seq_of s)(to_lower cr := client_seq_of s (to_lower cr) + 1)"
  "server_seq_of (update_connection cr (\<lambda>c. c\<lparr>tc_client_seq := tc_client_seq c + 1\<rparr>) s) = server_seq_of s"
  by (auto simp: fun_eq_iff client_seq_of_def server_seq_of_def update_connection_of new_connection_def
      default_to_def split: option.split)

section \<open>Properties\<close>

text \<open>
  C35: A key log written from master secrets is read back: whatever other \<open>CLIENT_RANDOM\<close> lines
  it holds, looking up a random gives the secret of its last line.
\<close>

theorem keylog_roundtrip:
  assumes "\<forall>e \<in> set es. fst e \<noteq> [] \<and> snd e \<noteq> []" "map_of (rev es) r = Some m"
  shows "master_secret (kl_parse (log_text es)) (hex_encode r) = Some (Some m)"
  using assms log_lines [of es] parsed_log [of es kl_empty r]
  by (simp add: kl_parse_def master_secret_def hex_encode_lower hex_decode_encode)

theorem keylog_roundtrip_witness:
  "master_secret (kl_parse (log_text [([171], [1, 2]), ([205], [9]), ([171], [3])])) (hex_encode [171]) = Some (Some [3])"
  by (rule keylog_roundtrip) simp_all



lemma frame_state_change:
  assumes "decrypt_tls_in_frame_ext env data lt kl state = Some (out, state')" "state' \<noteq> state"
  shows "\<exists>cr early sr.
    state' = update_connection cr (\<lambda>c. c\<lparr>tc_client_seq := tc_client_seq c + 1\<rparr>)
      (case sr of None \<Rightarrow> if early then mark_early_data cr state else state
       | Some x \<Rightarrow> set_server_random cr x (if early then mark_early_data cr state else state))"
proof -
  obtain tls where tls: "find_tls_payload data lt = Some (Some tls)"
    using assms by (cases "find_tls_payload data lt"; cases "the (find_tls_payload data lt)")
      (auto simp: decrypt_tls_in_frame_ext_def)
  obtain cr0 where cr0: "extract_client_random env data lt = Some cr0"
    using assms(1) tls by (cases "extract_client_random env data lt") (auto simp: decrypt_tls_in_frame_ext_def)
  obtain cr where cr:
    "(if cr0 = None then map_option fst (if state = [] then None else Some (hd state)) else cr0) = Some cr"
    using assms tls cr0
    by (cases "if cr0 = None then map_option fst (if state = [] then None else Some (hd state)) else cr0")
      (simp_all add: decrypt_tls_in_frame_ext_def)
  obtain early where early: "client_hello_has_early_data data lt = Some early"
    using assms(1) tls cr0 cr by (auto simp: decrypt_tls_in_frame_ext_def bind_eq_Some_conv)
  obtain sr where sr: "extract_server_random env data lt = Some sr"
    using assms(1) tls cr0 cr by (auto simp: decrypt_tls_in_frame_ext_def Let_def bind_eq_Some_conv)
  from assms(1) tls cr0 cr early sr
  have "state' = update_connection cr (\<lambda>c. c\<lparr>tc_client_seq := tc_client_seq c + 1\<rparr>)
      (case sr of None \<Rightarrow> if early then mark_early_data cr state else state
       | Some x \<Rightarrow> set_server_random cr x (if early then mark_early_data cr state else state))"
    by (auto simp: decrypt_tls_in_frame_ext_def Let_def bind_eq_Some_conv)
  then show ?thesis by (intro exI)
qed

lemma seq_of_choice [simp]:
  "client_seq_of (if b then s else t) = (if b then client_seq_of s else client_seq_of t)"
  "server_seq_of (if b then s else t) = (if b then server_seq_of s else server_seq_of t)"
  "client_seq_of (case x of None \<Rightarrow> u | Some y \<Rightarrow> g y) = (case x of None \<Rightarrow> client_seq_of u | Some y \<Rightarrow> client_seq_of (g y))"
  "server_seq_of (case x of None \<Rightarrow> u | Some y \<Rightarrow> g y) = (case x of None \<Rightarrow> server_seq_of u | Some y \<Rightarrow> server_seq_of (g y))"
  by (simp_all split: option.split)

text \<open>
  A frame moves at most one sequence counter, the client's of one connection, and by one
  however many records it holds; the server's counters never move, because every frame is
  taken to come from the client.
\<close>

theorem frame_counts_once:
  assumes "decrypt_tls_in_frame_ext env data lt kl state = Some (out, state')"
  shows "server_seq_of state' = server_seq_of state \<and>
    (client_seq_of state' = client_seq_of state \<or>
     (\<exists>k. client_seq_of state' = (client_seq_of state)(k := client_seq_of state k + 1)))"
proof (cases "state' = state")
  case False
  from frame_state_change [OF assms this] show ?thesis
    using count_frame by (elim exE) (auto split: option.split)
qed simp

definition tls_frame :: bytes where
  "tls_frame = [0x45, 0, 0, 46, 0, 0, 0, 0, 64, 6, 0, 0, 10, 0, 0, 1, 10, 0, 0, 2,
     0, 80, 0, 80, 0, 0, 0, 0, 0, 0, 0, 0, 0x50, 0, 0, 0, 0, 0, 0, 0, 0x17, 3, 3, 0, 1, 0]"

lemma tls_frame_payload: "find_tls_payload tls_frame LtRaw = Some (Some [0x17, 3, 3, 0, 1, 0])"
  by (simp add: find_tls_payload_def and_then_def l4_payload_def tls_frame_def idx_def Let_def slice_from_def
      starts_with_def)

lemma tls_frame_decrypt:
  "\<exists>out. decrypt_tls_in_frame_ext refusing_env tls_frame LtRaw kl_empty [(''ab'', new_connection ''ab'')] =
     Some (out, [(''ab'', (new_connection ''ab'')\<lparr>tc_client_seq := 1\<rparr>)])"
proof -
  have e: "e_tls refusing_env r = None" for r by (simp add: refusing_env_def)
  have "extract_client_random refusing_env tls_frame LtRaw = Some None"
    "extract_server_random refusing_env tls_frame LtRaw = Some None"
    by (simp_all add: extract_client_random_def extract_server_random_def tls_frame_payload and_then_def e)
  moreover have "client_hello_has_early_data tls_frame LtRaw = Some False"
    by (simp add: client_hello_has_early_data_def tls_frame_payload upt_rec)
  moreover have "hex_decode [] = Some (Some [])" using hex_decode_encode [of "[]"] by simp
  ultimately show ?thesis
    by (simp add: decrypt_tls_in_frame_ext_def tls_frame_payload Let_def e update_connection_def new_connection_def
        default_to_def to_lower_def lower_chr_def)
qed

theorem frame_counts_once_witness:
  "\<exists>out state'. decrypt_tls_in_frame_ext refusing_env tls_frame LtRaw kl_empty [(''ab'', new_connection ''ab'')] =
     Some (out, state') \<and> client_seq_of state' ''ab'' = 1 \<and> server_seq_of state' ''ab'' = 0"
proof -
  obtain out where "decrypt_tls_in_frame_ext refusing_env tls_frame LtRaw kl_empty [(''ab'', new_connection ''ab'')] =
     Some (out, [(''ab'', (new_connection ''ab'')\<lparr>tc_client_seq := 1\<rparr>)])"
    using tls_frame_decrypt by blast
  with frame_counts_once [OF this] show ?thesis
    by (auto simp: client_seq_of_def server_seq_of_def new_connection_def)
qed

text \<open>
  The authentication tag of a TLS 1.3 record plays no part in its decryption: it is cut off
  before the cipher is opened, so records that differ only in the tag decrypt alike.
\<close>

theorem tls13_ignores_tag:
  assumes "length tag = 16" "length tag' = 16"
  shows "decrypt_tls13_appdata env secret (body @ tag) n = decrypt_tls13_appdata env secret (body @ tag') n"
  using assms by (simp add: decrypt_tls13_appdata_def)

theorem tls13_ignores_tag_witness:
  "decrypt_tls13_appdata refusing_env [1] ([7, 8] @ replicate 16 0) 0 =
   decrypt_tls13_appdata refusing_env [1] ([7, 8] @ replicate 16 1) 0"
  by (rule tls13_ignores_tag) simp_all

text \<open>
  The plain-text format of the unit tests is accepted from the wire: once the key log knows the
  client random, a record that starts with \<open>BITBEAK_PLAIN:\<close> is its own plaintext, with no key used.
\<close>

theorem fixture_from_wire:
  assumes "map_of (kl_client_random kl) (to_lower cr) \<noteq> None \<or> map_of (kl_traffic_secrets kl) (to_lower cr) \<noteq> None"
  shows "\<exists>notes. try_decrypt_appdata_ext env kl cr (as_bytes ''BITBEAK_PLAIN:'' @ forged) from_client n sr =
    Some \<lparr>do_plaintext = Some forged, do_notes = notes\<rparr>"
  using assms by (auto simp: try_decrypt_appdata_ext_def Let_def simp del: as_bytes_simps)

theorem fixture_from_wire_witness:
  "\<exists>notes. try_decrypt_appdata_ext refusing_env \<lparr>kl_client_random = [(''ab'', ''cd'')], kl_traffic_secrets = []\<rparr>
     ''ab'' (as_bytes ''BITBEAK_PLAIN:'' @ [1, 2]) True 0 None = Some \<lparr>do_plaintext = Some [1, 2], do_notes = notes\<rparr>"
  by (rule fixture_from_wire) (simp add: to_lower_def lower_chr_def)

end
