(* ===== verification/Export.thy ===== *)
theory Export
  imports Pcap Dissect CapFilter
begin

text \<open>
  What the receiving side makes of the packets \<open>pcap.rs\<close> writes: each layer of the dissector
  and each header reader of the capture filter on a built packet.
\<close>

section \<open>Dissection of a built packet\<close>

text \<open>A payload and a port that no application dissector claims.\<close>

definition plain_payload :: "bytes \<Rightarrow> bool" where
  "plain_payload p \<longleftrightarrow> p = [] \<or> \<not> looks_like_tls p \<and> \<not> starts_with p preface \<and> \<not> looks_like_http2 p
     \<and> \<not> looks_like_http1 p \<and> \<not> looks_like_ws_frame p \<and> \<not> looks_like_sip p"

definition plain_port :: "u16 \<Rightarrow> bool" where
  "plain_port p \<longleftrightarrow> p \<noteq> 443 \<and> p \<noteq> 5060"

definition host_text :: "u8 \<times> u8 \<times> u8 \<times> u8 \<Rightarrow> string" where
  "host_text ip = (case ip of (a, b, c, d) \<Rightarrow> ipv4_str a b c d)"

definition endpoint :: "socket_addr \<Rightarrow> string" where
  "endpoint a = host_text (sa_ip a) @ '':'' @ dec (unat (sa_port a))"

lemma ethernet_exported:
  "\<exists>st'. dissect_ethernet env p (eth_header @ body) 0 st = dissect_ipv4 env p body 14 st' \<and>
    ds_flags st' = (ds_flags st)\<lparr>pf_ethernet := True\<rparr>"
  by (simp add: dissect_ethernet_def Let_def eth_header_def slice_def slice_from_def by_ethertype_def
      from_be_def) (intro exI conjI, rule refl, simp)

lemma four_bytes: "\<exists>a b c d. to_be 4 n = [a, b, c, d]"
  by (simp add: to_be_4)

lemma port_bytes: "from_be (to_be 2 (unat (p :: u16))) = unat p"
  using unat_u16_less [of p] by simp

lemma port_number: "unat (p :: u16) = n \<Longrightarrow> p = word_of_nat n"
  by auto

lemma add_ports_endpoints:
  "ps_src (ds_summary st) \<noteq> [] \<Longrightarrow> ps_src (ds_summary (add_ports s d st)) = ps_src (ds_summary st) @ '':'' @ dec s"
  "ps_dst (ds_summary st) \<noteq> [] \<Longrightarrow> ps_dst (ds_summary (add_ports s d st)) = ps_dst (ds_summary st) @ '':'' @ dec d"
  by (simp_all add: add_ports_def Let_def)

lemma tcp_step:
  assumes "20 \<le> length data" "data ! 12 = 0x50" "ps_src (ds_summary st) \<noteq> []" "ps_dst (ds_summary st) \<noteq> []"
    "sport = from_be (take 2 data)" "dport = from_be (take 2 (drop 2 data))"
  shows "\<exists>st'. dissect_tcp env p data off st =
       (if length data = 20 then ret [] (off + 20) st' else tcp_payload env sport dport p (drop 20 data) (off + 20) st') \<and>
     ds_flags st' = (ds_flags st)\<lparr>pf_tcp := True\<rparr> \<and> ps_protocol (ds_summary st') = ''TCP'' \<and>
     ps_src (ds_summary st') = ps_src (ds_summary st) @ '':'' @ dec sport \<and>
     ps_dst (ds_summary st') = ps_dst (ds_summary st) @ '':'' @ dec dport"
proof -
  show ?thesis
  proof (cases "length data = 20")
    case True
    with assms(1) show ?thesis
      by (simp only: dissect_tcp_def if_not_P not_less slice_ok slice_def Let_def)
        (simp add: assms(2) flip: assms(5,6), intro exI conjI, rule refl, simp_all add: add_ports_endpoints assms(3,4))
  next
    case False
    with assms(1) show ?thesis
      by (simp only: dissect_tcp_def if_not_P not_less slice_ok slice_def Let_def)
        (simp add: assms(2) flip: assms(5,6), intro exI conjI, rule refl, simp_all add: add_ports_endpoints assms(3,4))
  qed
qed

lemma segment_parts:
  "take 2 (tcp_segment src dst payload n) = to_be 2 (unat (sa_port src))"
  "take 2 (drop 2 (tcp_segment src dst payload n)) = to_be 2 (unat (sa_port dst))"
  "tcp_segment src dst payload n ! 12 = 0x50" "drop 20 (tcp_segment src dst payload n) = payload"
  by (simp_all add: tcp_segment_def to_be_2 to_be_4)

lemma tcp_payload_plain:
  assumes "plain_payload payload" "payload \<noteq> []" "plain_port sp" "plain_port dp" "\<not> pf_websocket (ds_flags st)"
  shows "tcp_payload env (unat sp) (unat dp) p payload off st = ret payload off st"
proof -
  have "unat sp \<noteq> 443" "unat dp \<noteq> 443" "unat sp \<noteq> 5060" "unat dp \<noteq> 5060"
    using assms(3,4) by (auto simp: plain_port_def dest: port_number)
  with assms show ?thesis by (simp add: tcp_payload_def plain_payload_def)
qed

lemma shown: "host_text i \<noteq> []"
  by (simp add: host_text_def ipv4_str_def split: prod.split)

lemma tcp_exported:
  assumes "plain_payload payload" "plain_port (sa_port src)" "plain_port (sa_port dst)"
    and summ: "ps_src (ds_summary st) = host_text (sa_ip src)" "ps_dst (ds_summary st) = host_text (sa_ip dst)"
    and ws: "\<not> pf_websocket (ds_flags st)"
  shows "\<exists>st'. dissect_tcp env p (tcp_segment src dst payload n) off st = ret payload (off + 20) st' \<and>
    ds_flags st' = (ds_flags st)\<lparr>pf_tcp := True\<rparr> \<and> ps_protocol (ds_summary st') = ''TCP'' \<and>
    ps_src (ds_summary st') = endpoint src \<and> ps_dst (ds_summary st') = endpoint dst"
proof -
  have ports: "unat (sa_port src) = from_be (take 2 (tcp_segment src dst payload n))"
    "unat (sa_port dst) = from_be (take 2 (drop 2 (tcp_segment src dst payload n)))"
    by (simp_all only: segment_parts port_bytes)
  obtain st' where st': "dissect_tcp env p (tcp_segment src dst payload n) off st =
       (if payload = [] then ret [] (off + 20) st'
        else tcp_payload env (unat (sa_port src)) (unat (sa_port dst)) p payload (off + 20) st')"
    "ds_flags st' = (ds_flags st)\<lparr>pf_tcp := True\<rparr>" "ps_protocol (ds_summary st') = ''TCP''"
    "ps_src (ds_summary st') = endpoint src" "ps_dst (ds_summary st') = endpoint dst"
    using tcp_step [OF _ segment_parts(3) _ _ ports, where st = st and env = env and p = p and off = off]
    by (auto simp: summ shown segment_parts(4) endpoint_def cong: if_cong)
  then show ?thesis using tcp_payload_plain [OF assms(1) _ assms(2,3)] ws by auto
qed

lemma ipv4_exported:
  assumes "length payload \<le> 65495" 
  shows "\<exists>st'. dissect_ipv4 env p (sealed_header src dst (40 + length payload) @ tcp_segment src dst payload n) off st =
      dissect_tcp env p (tcp_segment src dst payload n) (off + 20) st' \<and>
    ds_flags st' = (ds_flags st)\<lparr>pf_ipv4 := True\<rparr> \<and>
    ps_src (ds_summary st') = host_text (sa_ip src) \<and> ps_dst (ds_summary st') = host_text (sa_ip dst)"
proof -
  let ?h = "sealed_header src dst (40 + length payload)" and ?t = "tcp_segment src dst payload n"
  obtain a b c d e f g h where ips: "sa_ip src = (a, b, c, d)" "sa_ip dst = (e, f, g, h)" by (metis prod.exhaust)
  have parts: "?h ! 0 = 0x45" "take 2 (drop 2 ?h) = to_be 2 (40 + length payload)" "?h ! 9 = 6"
    "take 4 (drop 12 ?h) = [a, b, c, d]" "take 4 (drop 16 ?h) = [e, f, g, h]"
    by (simp_all add: sealed_header_def Let_def header_bytes ips to_be_2)
  have total: "(40 + length payload) mod 65536 = 40 + length payload" using assms by simp
  show ?thesis
    by (simp add: dissect_ipv4_def Let_def nth_append parts total ips host_text_def)
      (intro exI conjI, rule refl, simp_all)
qed

text \<open>The flags of a built packet.\<close>

definition exported_flags :: protocol_flags where
  "exported_flags = default_flags\<lparr>pf_ethernet := True, pf_ipv4 := True, pf_tcp := True\<rparr>"

lemma l2_exported:
  assumes "plain_payload payload" "plain_port (sa_port src)" "plain_port (sa_port dst)" "length payload \<le> 65495"
    "ds_flags st = default_flags"
  shows "\<exists>st'. dissect_l2 env 0 (build_tcp_packet src dst payload n) LtEthernet st = ret payload 54 st' \<and>
    ds_flags st' = exported_flags \<and> ps_protocol (ds_summary st') = ''TCP'' \<and>
    ps_src (ds_summary st') = endpoint src \<and> ps_dst (ds_summary st') = endpoint dst"
proof -
  let ?seg = "tcp_segment src dst payload n"
  let ?ip = "sealed_header src dst (40 + length payload) @ ?seg"
  obtain s1 where s1: "dissect_ethernet env 0 (build_tcp_packet src dst payload n) 0 st = dissect_ipv4 env 0 ?ip 14 s1"
    "ds_flags s1 = default_flags\<lparr>pf_ethernet := True\<rparr>"
    using ethernet_exported [of env 0 ?ip st] by (auto simp: build_tcp_packet_eq assms(5))
  obtain s2 where s2: "dissect_ipv4 env 0 ?ip 14 s1 = dissect_tcp env 0 ?seg 34 s2"
    "ds_flags s2 = (ds_flags s1)\<lparr>pf_ipv4 := True\<rparr>"
    "ps_src (ds_summary s2) = host_text (sa_ip src)" "ps_dst (ds_summary s2) = host_text (sa_ip dst)"
    using ipv4_exported [OF assms(4), of env 0 src dst n 14 s1] by auto
  have "\<not> pf_websocket (ds_flags s2)" by (simp add: s1 s2 default_flags_def)
  from tcp_exported [OF assms(1-3) s2(3,4) this, of env 0 n 34] show ?thesis
    by (auto simp: s1 s2 exported_flags_def)
qed

section \<open>Filtering a built packet\<close>

lemma built_offsets:
  "l3_offset (build_tcp_packet src dst payload n) = Some (4, 14)"
  "l4_offset (build_tcp_packet src dst payload n) = Some (4, 34, 6)"
proof -
  let ?p = "build_tcp_packet src dst payload n"
  have eth: "be_at ?p 12 = 0x0800"
    by (simp add: be_at_def build_tcp_packet_eq nth_append eth_header_def unat_be16)
  have ip: "?p ! 14 = 0x45" "?p ! 23 = 6"
    by (simp_all add: build_tcp_packet_eq nth_append sealed_header_def Let_def ip_header_def octets_def split: prod.split)
  show l3: "l3_offset ?p = Some (4, 14)" by (simp add: l3_offset_def eth Let_def length_built)
  show "l4_offset ?p = Some (4, 34, 6)" by (simp add: l4_offset_def l3 length_built ip)
qed

lemma built_hosts:
  "take 4 (drop 26 (build_tcp_packet src dst payload n)) = octets (sa_ip src)"
  "take 4 (drop 30 (build_tcp_packet src dst payload n)) = octets (sa_ip dst)"
  by (simp_all add: build_tcp_packet_eq sealed_header_def Let_def ip_header_def octets_def to_be_2 split: prod.split)

lemma built_proto: "build_tcp_packet src dst payload n ! 23 = 6"
  by (simp add: build_tcp_packet_eq nth_append sealed_header_def Let_def ip_header_def octets_def split: prod.split)

lemma built_ports:
  "be_at (build_tcp_packet src dst payload n) 34 = unat (sa_port src)"
  "be_at (build_tcp_packet src dst payload n) 36 = unat (sa_port dst)"
  using be16_u16_be [of "sa_port src"] be16_u16_be [of "sa_port dst"]
  by (simp_all add: be_at_def build_tcp_packet_eq nth_append tcp_segment_def to_be_2)

lemma octets_inject: "octets a = ipv4_bytes b \<longleftrightarrow> a = b"
  by (auto simp: octets_def ipv4_bytes_def split: prod.splits)

end
