(* ===== verification/Follow.thy ===== *)
theory Follow
  imports Layers "HOL-Library.Multiset"
begin

text \<open>
  Following a stream (\<open>src/src/dissect/follow.rs\<close>): payloads cut out of the frames, the
  reassembly of a TCP conversation by sequence number, HTTP messages in the followed bytes, and
  the capture filter proposed for a URL.
\<close>

section \<open>Payloads of a frame\<close>

definition u16_at :: "bytes \<Rightarrow> nat \<Rightarrow> nat" where
  "u16_at data i = unat (be16 (data ! i) (data ! (i + 1)))"

text \<open>Where the IP header starts, and whether it is IPv6; native byte order is little-endian.\<close>

definition by_ip_ethertype :: "nat \<Rightarrow> nat \<Rightarrow> (nat \<times> bool) option" where
  "by_ip_ethertype et off =
     (if et = 0x0800 then Some (off, False) else if et = 0x86dd then Some (off, True) else None)"

fun ip_payload_offset :: "bytes \<Rightarrow> link_type \<Rightarrow> (nat \<times> bool) option" where
  "ip_payload_offset data LtLinuxSll =
     (if length data < 16 then None else by_ip_ethertype (u16_at data 14) 16)"
| "ip_payload_offset data LtLinuxSll2 =
     (if length data < 20 then None else by_ip_ethertype (u16_at data 0) 20)"
| "ip_payload_offset data LtRaw =
     (if data = [] then None
      else if drop_bit 4 (data ! 0) = 4 then Some (0, False)
      else if drop_bit 4 (data ! 0) = 6 then Some (0, True) else None)"
| "ip_payload_offset data LtNull =
     (if length data < 4 then None
      else if 4 < length data then
        (if drop_bit 4 (data ! 4) = 4 then Some (4, False)
         else if drop_bit 4 (data ! 4) = 6 then Some (4, True)
         else if from_le (take 4 data) = 2 then Some (4, False) else None)
      else None)"
| "ip_payload_offset data LtIeee80211 = None"
| "ip_payload_offset data LtIeee80211Radio = None"
| "ip_payload_offset data _ =
     (if length data < 14 then None
      else let tagged = (u16_at data 12 = 0x8100 \<and> 18 \<le> length data) in
        by_ip_ethertype (if tagged then u16_at data 16 else u16_at data 12) (if tagged then 18 else 14))"

text \<open>The extension headers, each of \<open>(length byte + 1) * 8\<close> bytes.\<close>

function skip_ext :: "bytes \<Rightarrow> u8 \<Rightarrow> nat \<Rightarrow> (u8 \<times> nat) option" where
  "skip_ext data nxt off =
     (if nxt \<in> {0, 43, 44, 51, 60} then
        (if length data < off + 2 then None
         else skip_ext data (data ! off) (off + (unat (data ! (off + 1)) + 1) * 8))
      else Some (nxt, off))"
  by pat_completeness auto
termination
  by (relation "measure (\<lambda>(data, nxt, off). length data - off)") auto

declare skip_ext.simps [simp del]

text \<open>Where the transport header starts.  The protocol is only looked at in IPv6.\<close>

definition l4_start :: "u8 \<Rightarrow> bytes \<Rightarrow> link_type \<Rightarrow> nat option" where
  "l4_start want data link =
     (case ip_payload_offset data link of
        None \<Rightarrow> None
      | Some (ip_off, True) \<Rightarrow>
          if length data < ip_off + 40 then None
          else (case skip_ext data (data ! (ip_off + 6)) (ip_off + 40) of
              None \<Rightarrow> None
            | Some (nxt, off) \<Rightarrow> if nxt \<noteq> want then None else Some off)
      | Some (ip_off, False) \<Rightarrow>
          if length data < ip_off + 20 then None
          else Some (ip_off + unat (data ! ip_off AND 0x0f) * 4))"

definition tcp_payload_from_wire :: "bytes \<Rightarrow> link_type \<Rightarrow> (nat \<times> bytes) option" where
  "tcp_payload_from_wire data link =
     (case l4_start 6 data link of
        None \<Rightarrow> None
      | Some tcp_off \<Rightarrow>
          if length data < tcp_off + 20 then None
          else let sq = from_be [data ! (tcp_off + 4), data ! (tcp_off + 5), data ! (tcp_off + 6), data ! (tcp_off + 7)];
                   payload_off = tcp_off + unat (drop_bit 4 (data ! (tcp_off + 12))) * 4
               in if length data < payload_off then None else Some (sq, drop payload_off data))"

definition udp_payload_from_wire :: "bytes \<Rightarrow> link_type \<Rightarrow> bytes option" where
  "udp_payload_from_wire data link =
     (case l4_start 17 data link of
        None \<Rightarrow> None
      | Some udp_off \<Rightarrow> if length data < udp_off + 8 then None else Some (drop (udp_off + 8) data))"

text \<open>Decrypted bytes, where there are any, stand in for the payload.\<close>

definition follow_tcp_payload :: "packet_record \<Rightarrow> (nat \<times> bytes) option" where
  "follow_tcp_payload p =
     (case tcp_payload_from_wire (pr_data p) (pr_link_type p) of
        Some (sq, wire) \<Rightarrow> Some (sq, case pr_decrypted p of Some d \<Rightarrow> d | None \<Rightarrow> wire)
      | None \<Rightarrow> map_option (\<lambda>d. (0, d)) (pr_decrypted p))"

definition follow_udp_payload :: "packet_record \<Rightarrow> bytes option" where
  "follow_udp_payload p =
     (case udp_payload_from_wire (pr_data p) (pr_link_type p) of
        Some wire \<Rightarrow> Some (case pr_decrypted p of Some d \<Rightarrow> d | None \<Rightarrow> wire)
      | None \<Rightarrow> pr_decrypted p)"

section \<open>Following\<close>

record http_object =
  ho_name :: string
  ho_content_type :: string
  ho_data :: bytes
  ho_is_request :: bool
  ho_method :: string
  ho_url :: string
  ho_headers :: "(string \<times> string) list"

record follow_result =
  fo_label :: string
  fo_text :: string
  fo_raw :: bytes
  fo_objects :: "http_object list"

text \<open>\<open>BTreeMap\<close>: the entries in the order of their keys; inserting replaces.\<close>

fun bt_insert :: "nat \<Rightarrow> 'v \<Rightarrow> (nat \<times> 'v) list \<Rightarrow> (nat \<times> 'v) list" where
  "bt_insert k v [] = [(k, v)]"
| "bt_insert k v ((k', v') # m) =
     (if k < k' then (k, v) # (k', v') # m
      else if k = k' then (k, v) # m else (k', v') # bt_insert k v m)"

definition both_ways :: string where
  "both_ways = [CHR '' '', CHR 0xE2, CHR 0x86, CHR 0x94, CHR '' '']"

definition same_stream :: "string \<Rightarrow> string \<Rightarrow> packet_record \<Rightarrow> bool" where
  "same_stream src dst p \<longleftrightarrow>
     (let a = ps_src (pr_summary p); b = ps_dst (pr_summary p) in a = src \<and> b = dst \<or> a = dst \<and> b = src)"

definition follow_segment :: "string \<Rightarrow> string \<Rightarrow> packet_record \<Rightarrow> (nat \<times> bool \<times> bytes) option" where
  "follow_segment src dst p =
     (if \<not> pf_tcp (pr_flags p) \<or> \<not> same_stream src dst p then None
      else case follow_tcp_payload p of
          None \<Rightarrow> None
        | Some (sq, payload) \<Rightarrow>
            if payload = [] then None else Some (sq, ps_src (pr_summary p) = src, payload))"

definition segment_map :: "bool \<Rightarrow> (nat \<times> bool \<times> bytes) list \<Rightarrow> (nat \<times> bytes) list" where
  "segment_map dir segments =
     fold (\<lambda>(sq, forward, payload) m. if forward = dir then bt_insert sq payload m else m) segments []"

definition follow_tcp :: "packet_record list \<Rightarrow> packet_record \<Rightarrow> follow_result" where
  "follow_tcp packets selected =
     (let src = ps_src (pr_summary selected); dst = ps_dst (pr_summary selected);
          segments = List.map_filter (follow_segment src dst) packets;
          forward = map snd (segment_map True segments);
          reverse = map snd (segment_map False segments)
      in \<lparr>fo_label = ''TCP '' @ src @ both_ways @ dst,
          fo_text = ''--- Client'' @ arrow_str @ ''Server ---'' @ [CHR 10]
            @ concat (map from_utf8_lossy forward)
            @ [CHR 10] @ ''--- Server'' @ arrow_str @ ''Client ---'' @ [CHR 10]
            @ concat (map from_utf8_lossy reverse),
          fo_raw = concat forward @ concat reverse, fo_objects = []\<rparr>)"

definition udp_line :: "packet_record \<Rightarrow> bytes \<Rightarrow> string" where
  "udp_line p payload =
     ''['' @ ps_src (pr_summary p) @ arrow_str @ ps_dst (pr_summary p) @ ''] ''
     @ from_utf8_lossy payload @ [CHR 10]"

definition follow_udp :: "packet_record list \<Rightarrow> packet_record \<Rightarrow> follow_result" where
  "follow_udp packets selected =
     (let src = ps_src (pr_summary selected); dst = ps_dst (pr_summary selected);
          found = List.map_filter (\<lambda>p. if \<not> pf_udp (pr_flags p) \<or> \<not> same_stream src dst p then None
            else map_option (\<lambda>payload. (p, payload)) (follow_udp_payload p)) packets
      in \<lparr>fo_label = ''UDP '' @ src @ both_ways @ dst,
          fo_text = concat (map (\<lambda>(p, payload). udp_line p payload) found),
          fo_raw = concat (map snd found), fo_objects = []\<rparr>)"

section \<open>HTTP messages\<close>

text \<open>\<open>str::split\<close> and \<open>str::split_once\<close> with a non-empty string pattern.\<close>

function split_sub :: "string \<Rightarrow> string \<Rightarrow> string list" where
  "split_sub p s =
     (case find_sub s p of
        None \<Rightarrow> [s]
      | Some i \<Rightarrow> if p = [] then [s] else take i s # split_sub p (drop (i + length p) s))"
  by pat_completeness auto
termination
proof (relation "measure (\<lambda>(p, s). length s)")
  fix p s :: string and i
  assume "find_sub s p = Some i" "p \<noteq> []"
  then show "((p, drop (i + length p) s), p, s) \<in> measure (\<lambda>(p, s). length s)"
    using find_sub_Some [of s p i] by (cases s) auto
qed simp

declare split_sub.simps [simp del]

definition split_once_sub :: "string \<Rightarrow> string \<Rightarrow> (string \<times> string) option" where
  "split_once_sub p s = map_option (\<lambda>i. (take i s, drop (i + length p) s)) (find_sub s p)"

definition header_of_line :: "string \<Rightarrow> (string \<times> string) option" where
  "header_of_line line = map_option (\<lambda>(k, v). (trim k, trim v)) (split_once (CHR '':'') line)"

definition last_content_type :: "(string \<times> string) list \<Rightarrow> string" where
  "last_content_type headers =
     fold (\<lambda>(k, v) ct. if eq_ignore_case k ''content-type'' then v else ct) headers ''application/octet-stream''"

definition find_header :: "string \<Rightarrow> (string \<times> string) list \<Rightarrow> string option" where
  "find_header name headers = map_option snd (find (\<lambda>(k, _). eq_ignore_case k name) headers)"

definition request_target :: "string \<Rightarrow> (string \<times> string) list \<Rightarrow> string \<times> string" where
  "request_target first headers =
     (let parts = split_whitespace first;
          m = (case parts of [] \<Rightarrow> ''GET'' | m # _ \<Rightarrow> m);
          path = (case parts of _ # p # _ \<Rightarrow> p | _ \<Rightarrow> ''/'');
          host = default_to [] (find_header ''host'' headers)
      in (m, if starts_with path ''http://'' \<or> starts_with path ''https://'' then path
             else if host \<noteq> [] then ''http://'' @ host @ path else path))"

definition parse_http_message :: "string \<Rightarrow> http_object option" where
  "parse_http_message msg =
     (case (case split_once_sub [CHR 13, CHR 10, CHR 13, CHR 10] msg of
              Some hb \<Rightarrow> Some hb | None \<Rightarrow> split_once_sub [CHR 10, CHR 10] msg) of
        None \<Rightarrow> None
      | Some (head, body) \<Rightarrow>
          (case str_lines head of
             [] \<Rightarrow> None
           | l # ls \<Rightarrow>
               let first = trim l;
                   headers = List.map_filter header_of_line ls;
                   is_request = (\<not> starts_with first ''HTTP/'');
                   (m, url) = (if is_request then request_target first headers else ([], []))
               in if first = [] then None
                  else if \<not> is_request \<and> body = [] then None
                  else Some \<lparr>ho_name = concat (take 60 (chars first)),
                    ho_content_type = last_content_type headers, ho_data = as_bytes body,
                    ho_is_request = is_request, ho_method = m, ho_url = url, ho_headers = headers\<rparr>))"

definition http_chunk :: "nat \<times> string \<Rightarrow> http_object option" where
  "http_chunk ic =
     (case ic of (i, chunk) \<Rightarrow>
        if i = 0 \<and> \<not> contains chunk ''HTTP/'' then parse_http_message chunk
        else parse_http_message (''HTTP/1.'' @ chunk))"

definition extract_http_objects :: "bytes \<Rightarrow> http_object list" where
  "extract_http_objects raw =
     (let txt = from_utf8_lossy raw;
          out = List.map_filter http_chunk (List.enumerate 0 (split_sub ''HTTP/1.'' txt))
      in if out = [] then (case parse_http_message txt of None \<Rightarrow> [] | Some obj \<Rightarrow> [obj]) else out)"

definition object_line :: "http_object \<Rightarrow> string" where
  "object_line o1 = ho_name o1 @ '' ('' @ ho_content_type o1 @ '', '' @ dec (length (ho_data o1)) @ '' bytes)'' @ [CHR 10]"

definition follow_http :: "packet_record list \<Rightarrow> packet_record \<Rightarrow> follow_result" where
  "follow_http packets selected =
     (let base = follow_tcp packets selected;
          base = base\<lparr>fo_label := ''HTTP '' @ fo_label base, fo_objects := extract_http_objects (fo_raw base)\<rparr>
      in if fo_objects base \<noteq> []
         then base\<lparr>fo_text := fo_text base @ [CHR 10] @ ''--- Objects ---'' @ [CHR 10]
           @ concat (map object_line (fo_objects base))\<rparr>
         else base)"

section \<open>A capture filter for a URL\<close>

definition is_digit_chr :: "char \<Rightarrow> bool" where
  "is_digit_chr c \<longleftrightarrow> c \<in> set ''0123456789''"

definition port_of_str :: "string \<Rightarrow> nat option" where
  "port_of_str s = (case parse_uint u16_max s of Inl _ \<Rightarrow> None | Inr n \<Rightarrow> Some n)"

text \<open>Host and port of the authority part; a bracketed IPv6 address is unwrapped.\<close>

definition split_authority :: "string \<Rightarrow> (string \<times> nat option) option" where
  "split_authority hostport =
     (case strip_prefix hostport ''['' of
        Some inner \<Rightarrow>
          map_option (\<lambda>e. (take e inner,
              case strip_prefix (drop (e + 1) inner) '':'' of None \<Rightarrow> None | Some p \<Rightarrow> port_of_str p))
            (find_sub inner '']'')
      | None \<Rightarrow>
          Some (case rsplit_once (CHR '':'') hostport of
              Some (h, p) \<Rightarrow> if \<forall>c \<in> set p. is_digit_chr c then (h, port_of_str p) else (hostport, None)
            | None \<Rightarrow> (hostport, None)))"

definition capture_filter_for_url :: "string \<Rightarrow> string option" where
  "capture_filter_for_url url = do {
     rest \<leftarrow> (case strip_prefix url ''https://'' of Some r \<Rightarrow> Some r | None \<Rightarrow> strip_prefix url ''http://'');
     let default_port = (if starts_with url ''https://'' then 443 else 80);
     (host, port_opt) \<leftarrow> split_authority (hd (split_chr (CHR ''?'') (hd (split_chr (CHR ''/'') rest))));
     if host = [] then None
     else let port = default_to default_port port_opt in
       Some (if port = default_port then ''host '' @ host
             else ''host '' @ host @ '' and port '' @ dec port) }"

section \<open>Reassembly by sequence number\<close>

text \<open>The segments of one direction, in the order they were captured.\<close>

definition dir_segments :: "bool \<Rightarrow> (nat \<times> bool \<times> bytes) list \<Rightarrow> (nat \<times> bytes) list" where
  "dir_segments dir segments = map (\<lambda>(sq, _, payload). (sq, payload)) (filter (\<lambda>(_, forward, _). forward = dir) segments)"

definition stream_segments :: "bool \<Rightarrow> packet_record list \<Rightarrow> packet_record \<Rightarrow> (nat \<times> bytes) list" where
  "stream_segments dir packets selected =
     dir_segments dir (List.map_filter
       (follow_segment (ps_src (pr_summary selected)) (ps_dst (pr_summary selected))) packets)"

lemma bt_insert_keys: "fst ` set (bt_insert k v m) = insert k (fst ` set m)"
  by (induction k v m rule: bt_insert.induct) auto

lemma bt_insert_sorted:
  "sorted_wrt (<) (map fst m) \<Longrightarrow> sorted_wrt (<) (map fst (bt_insert k v m))"
proof (induction k v m rule: bt_insert.induct)
  case (2 k v k' v' m)
  then show ?case using bt_insert_keys [of k v m] by (auto simp: image_iff)
qed simp

lemma bt_insert_set: "k \<notin> fst ` set m \<Longrightarrow> set (bt_insert k v m) = insert (k, v) (set m)"
  by (induction k v m rule: bt_insert.induct) auto

lemma bt_fold:
  assumes "sorted_wrt (<) (map fst m)" "distinct (map fst xs)" "fst ` set xs \<inter> fst ` set m = {}"
  shows "sorted_wrt (<) (map fst (fold (\<lambda>(k, v). bt_insert k v) xs m)) \<and>
    set (fold (\<lambda>(k, v). bt_insert k v) xs m) = set xs \<union> set m"
  using assms
proof (induction xs arbitrary: m)
  case (Cons x xs)
  obtain k v where x: "x = (k, v)" by (cases x)
  have "fst ` set xs \<inter> fst ` set (bt_insert k v m) = {}" "k \<notin> fst ` set m"
    using Cons.prems(2,3) by (auto simp: x bt_insert_keys)
  with Cons.IH [OF bt_insert_sorted [OF Cons.prems(1), of k v]] Cons.prems(2) show ?case
    by (simp add: x bt_insert_set)
qed simp

lemma sorted_segments:
  assumes "distinct (map fst xs)"
  shows "fold (\<lambda>(k, v). bt_insert k v) xs [] = sort_key fst xs"
proof -
  let ?m = "fold (\<lambda>(k, v). bt_insert k v) xs []"
  have m: "sorted_wrt (<) (map fst ?m)" "set ?m = set xs" using bt_fold [of "[]" xs] assms by auto
  then have "sorted (map fst ?m)" "distinct (map fst ?m)" by (simp_all add: strict_sorted_iff)
  moreover have "inj_on fst (set ?m \<union> set (sort_key fst xs))"
    using assms m(2) by (simp add: distinct_map)
  ultimately show ?thesis
    using assms m(2) by (intro map_sorted_distinct_set_unique [of fst]) (simp_all add: distinct_map)
qed

lemma segment_map_fold: "segment_map dir segs = fold (\<lambda>(k, v). bt_insert k v) (dir_segments dir segs) []"
proof -
  have "fold (\<lambda>(sq, forward, payload) m. if forward = dir then bt_insert sq payload m else m) segs m =
      fold (\<lambda>(k, v). bt_insert k v) (dir_segments dir segs) m" for m
    by (induction segs arbitrary: m) (simp_all add: dir_segments_def split_beta)
  then show ?thesis by (simp add: segment_map_def)
qed

lemma followed_raw:
  assumes "distinct (map fst (stream_segments True ps sel))" "distinct (map fst (stream_segments False ps sel))"
  shows "fo_raw (follow_tcp ps sel) = concat (map snd (sort_key fst (stream_segments True ps sel)))
    @ concat (map snd (sort_key fst (stream_segments False ps sel)))"
  using sorted_segments [OF assms(1)] sorted_segments [OF assms(2)]
  by (simp add: follow_tcp_def Let_def segment_map_fold stream_segments_def)

lemma stream_segments_mset:
  "mset qs = mset ps \<Longrightarrow> mset (stream_segments dir qs sel) = mset (stream_segments dir ps sel)"
  by (simp add: stream_segments_def dir_segments_def List.map_filter_def mset_filter)

lemma sort_key_mset:
  assumes "mset xs = mset ys" "distinct (map fst xs)"
  shows "sort_key fst xs = sort_key fst ys"
proof -
  have "mset (map fst ys) = mset (map fst xs)" using assms(1) by simp
  then have "distinct (map fst ys)" using assms(2) mset_eq_imp_distinct_iff by blast
  moreover have "set ys = set xs" using assms(1) mset_eq_setD by metis
  moreover have "inj_on fst (set xs)" using assms(2) by (simp add: distinct_map)
  ultimately show ?thesis
    using assms(2) by (intro map_sorted_distinct_set_unique [of fst]) (simp_all add: distinct_map)
qed


text \<open>A raw IPv4 packet with a TCP segment of a given sequence number.\<close>

definition tiny_tcp :: "bytes \<Rightarrow> bytes \<Rightarrow> packet_record" where
  "tiny_tcp sq payload =
     (raw_record ([0x45, 0, 0, 0, 0, 0, 0, 0, 0, 0, 0, 0, 0, 0, 0, 0, 0, 0, 0, 0, 0, 0, 0, 0] @ sq @ [0, 0, 0, 0, 0x50, 0, 0, 0, 0, 0, 0, 0] @ payload) LtRaw)
       \<lparr>pr_flags := default_flags\<lparr>pf_tcp := True\<rparr>\<rparr>"

lemma tiny_segment:
  "payload \<noteq> [] \<Longrightarrow> follow_segment (ps_src (pr_summary (tiny_tcp s' p'))) (ps_dst (pr_summary (tiny_tcp s' p')))
     (tiny_tcp [a, b, c, d] payload) = Some (from_be [a, b, c, d], True, payload)"
  by (simp add: follow_segment_def tiny_tcp_def same_stream_def raw_record_def default_summary_def
      follow_tcp_payload_def tcp_payload_from_wire_def l4_start_def Let_def)


text \<open>
  The sequence space wraps round, the order does not: when a segment's number lies past the
  end of the 32-bit range behind the one before it, the stream is put together the wrong way round.
\<close>

theorem follow_wraparound:
  assumes "s1 < 2 ^ 32" "2 ^ 32 \<le> s1 + length a" "length a < 2 ^ 32"
    "stream_segments True ps sel = [(s1, a), ((s1 + length a) mod 2 ^ 32, b)]" "stream_segments False ps sel = []"
  shows "fo_raw (follow_tcp ps sel) = b @ a"
proof -
  have "(s1 + length a) mod 2 ^ 32 = s1 + length a - 2 ^ 32" using assms(1-3) by (simp add: mod_if)
  then have less: "(s1 + length a) mod 2 ^ 32 < s1" using assms(2,3) by linarith
  then show ?thesis
    using followed_raw [of ps sel] by (simp add: assms(4,5))
qed

theorem follow_wraparound_witness:
  "fo_raw (follow_tcp [tiny_tcp [255, 255, 255, 254] [1, 2], tiny_tcp [0, 0, 0, 0] [3]]
     (tiny_tcp [0, 0, 0, 0] [3])) = [3, 1, 2]"
proof -
  let ?ps = "[tiny_tcp [255, 255, 255, 254] [1, 2], tiny_tcp [0, 0, 0, 0] [3]]" and ?sel = "tiny_tcp [0, 0, 0, 0] [3]"
  have s: "stream_segments True ?ps ?sel = [(4294967294, [1, 2]), (0, [3])]" "stream_segments False ?ps ?sel = []"
    by (simp_all add: stream_segments_def dir_segments_def map_filter_simps tiny_segment from_be_def)
  have m: "(4294967294 + length [1 :: u8, 2]) mod 2 ^ 32 = 0" by simp
  have "stream_segments True ?ps ?sel = [(4294967294, [1, 2]), ((4294967294 + length [1 :: u8, 2]) mod 2 ^ 32, [3])]"
    by (simp only: s m)
  from follow_wraparound [OF _ _ _ this s(2)] show ?thesis by simp
qed

section \<open>Trailing bytes\<close>

lemma u16_at_append: "i + 1 < length data \<Longrightarrow> u16_at (data @ pad) i = u16_at data i"
  by (simp add: u16_at_def nth_append)

lemma ip_offset_append:
  assumes "ip_payload_offset data link = Some (off, v6)" "off + 20 \<le> length data"
  shows "ip_payload_offset (data @ pad) link = Some (off, v6)"
  using assms
  by (cases link) (auto simp: u16_at_append nth_append by_ip_ethertype_def Let_def split: if_splits)

lemma skip_ext_append: "skip_ext data nxt off = Some r \<Longrightarrow> skip_ext (data @ pad) nxt off = Some r"
proof (induction data nxt off rule: skip_ext.induct)
  case (1 data nxt off)
  show ?case
  proof (cases "nxt \<in> {0, 43, 44, 51, 60}")
    case True
    with "1.prems" have len: "\<not> length data < off + 2" by (subst (asm) skip_ext.simps) (simp split: if_splits)
    with True "1.prems" have "skip_ext data (data ! off) (off + (unat (data ! (off + 1)) + 1) * 8) = Some r"
      by (subst (asm) skip_ext.simps) simp
    from "1.IH" [OF True len this] True len show ?thesis
      by (subst skip_ext.simps) (simp add: nth_append)
  next
    case False
    with "1.prems" show ?thesis by (subst skip_ext.simps, subst (asm) skip_ext.simps) simp
  qed
qed

lemma l4_start_append:
  assumes "l4_start want data link = Some off"
  shows "l4_start want (data @ pad) link = Some off"
  using assms
  by (auto simp: l4_start_def nth_append ip_offset_append skip_ext_append
      split: option.splits bool.splits if_splits prod.splits)

text \<open>
  The length field of the IP header is not consulted: bytes behind the packet, such as the
  padding of a short Ethernet frame, are taken for TCP payload and end up in the followed stream.
\<close>

theorem padding_followed:
  assumes "tcp_payload_from_wire data link = Some (sq, payload)"
  shows "tcp_payload_from_wire (data @ pad) link = Some (sq, payload @ pad)"
  using assms
  by (auto simp: tcp_payload_from_wire_def l4_start_append nth_append Let_def split: option.splits if_splits)

theorem padding_followed_witness:
  "tcp_payload_from_wire (pr_data (tiny_tcp [0, 0, 0, 7] []) @ replicate 6 0) LtRaw = Some (7, replicate 6 0)"
proof -
  have "tcp_payload_from_wire (pr_data (tiny_tcp [0, 0, 0, 7] [])) LtRaw = Some (7, [])" by code_simp
  from padding_followed [OF this, of "replicate 6 0"] show ?thesis by simp
qed

end
