(* ===== verification/Analysis.thy ===== *)
theory Analysis
  imports DispFilter Layers "HOL-Library.List_Lexorder" "HOL-Library.Char_ord"
begin

text \<open>
  Capture statistics (\<open>src/src/dissect/analysis.rs\<close>).  A \<open>HashMap\<close> is a partial map; the
  order in which one is listed is not fixed by the language, so \<open>rows\<close> takes the keys in the
  order of the iteration.  The 64-bit counters are naturals, \<open>Instant\<close>s count nanoseconds.
\<close>

section \<open>Tables\<close>

text \<open>\<open>entry(k).or_insert(d)\<close> followed by an update in place.\<close>

definition upsert :: "'k \<Rightarrow> 'v \<Rightarrow> ('v \<Rightarrow> 'v) \<Rightarrow> ('k \<rightharpoonup> 'v) \<Rightarrow> ('k \<rightharpoonup> 'v)" where
  "upsert k d f m = m(k \<mapsto> f (default_to d (m k)))"

text \<open>\<open>sort_by_key\<close> with \<open>Reverse\<close> is stable and puts the greatest first.\<close>

definition sorted_rows :: "('v \<Rightarrow> nat) \<Rightarrow> 'k list \<Rightarrow> ('k \<rightharpoonup> 'v) \<Rightarrow> 'v list" where
  "sorted_rows key order m = sort_key (\<lambda>r. - int (key r)) (List.map_filter m order)"

subsection \<open>Conversations\<close>

datatype conversation_kind = ConvEthernet | ConvIpv4 | ConvIpv6 | ConvTcp | ConvUdp

record conversation_row =
  cr_kind :: conversation_kind
  cr_addr_a :: string
  cr_addr_b :: string
  cr_packets_ab :: nat
  cr_packets_ba :: nat
  cr_bytes_ab :: nat
  cr_bytes_ba :: nat
  cr_start :: nat
  cr_last :: nat

type_synonym conversation_table = "conversation_kind \<times> string \<times> string \<rightharpoonup> conversation_row"

definition cr_packets :: "conversation_row \<Rightarrow> nat" where
  "cr_packets r = cr_packets_ab r + cr_packets_ba r"

definition cr_bytes :: "conversation_row \<Rightarrow> nat" where
  "cr_bytes r = cr_bytes_ab r + cr_bytes_ba r"

definition is_port :: "string \<Rightarrow> bool" where
  "is_port s = (case parse_uint u16_max s of Inl _ \<Rightarrow> False | Inr _ \<Rightarrow> True)"

definition strip_port :: "string \<Rightarrow> string" where
  "strip_port s =
     (case rsplit_once (CHR '':'') s of
        Some (host, port) \<Rightarrow> if is_port port \<and> \<not> contains host '':'' then host else s
      | None \<Rightarrow> s)"

definition port_of :: "string \<Rightarrow> string option" where
  "port_of s =
     (case rsplit_once (CHR '':'') s of Some (_, p) \<Rightarrow> if is_port p then Some p else None | None \<Rightarrow> None)"

definition strip_port_num :: "string \<Rightarrow> string" where
  "strip_port_num s =
     (case rsplit_once (CHR '':'') s of Some (_, port) \<Rightarrow> if is_port port then port else ''0'' | None \<Rightarrow> ''0'')"

definition ports_expr :: "string \<Rightarrow> conversation_row \<Rightarrow> string" where
  "ports_expr field r =
     ''(ip.addr == '' @ strip_port (cr_addr_a r) @ '' and ip.addr == '' @ strip_port (cr_addr_b r)
     @ '') and ('' @ field @ '' == '' @ strip_port_num (cr_addr_a r)
     @ '' or '' @ field @ '' == '' @ strip_port_num (cr_addr_b r) @ '')''"

definition filter_expr :: "conversation_row \<Rightarrow> string" where
  "filter_expr r =
     (case cr_kind r of
        ConvTcp \<Rightarrow> ports_expr ''tcp.port'' r
      | ConvUdp \<Rightarrow> ports_expr ''udp.port'' r
      | _ \<Rightarrow> ''ip.addr == '' @ strip_port (cr_addr_a r) @ '' or ip.addr == '' @ strip_port (cr_addr_b r))"

definition conversation_kinds :: "protocol_flags \<Rightarrow> conversation_kind list" where
  "conversation_kinds f =
     (let k = (if pf_ethernet f then [ConvEthernet] else [])
            @ (if pf_tcp f then [ConvTcp] else if pf_udp f then [ConvUdp] else [])
            @ (if pf_ipv4 f then [ConvIpv4] else []) @ (if pf_ipv6 f then [ConvIpv6] else [])
      in if k = [] then [ConvIpv4] else k)"

definition normalize_pair :: "string \<Rightarrow> string \<Rightarrow> string \<times> string \<times> bool" where
  "normalize_pair a b = (if a \<le> b then (a, b, True) else (b, a, False))"

definition new_row :: "conversation_kind \<Rightarrow> string \<Rightarrow> string \<Rightarrow> nat \<Rightarrow> conversation_row" where
  "new_row kind a b now = \<lparr>cr_kind = kind, cr_addr_a = a, cr_addr_b = b, cr_packets_ab = 0,
     cr_packets_ba = 0, cr_bytes_ab = 0, cr_bytes_ba = 0, cr_start = now, cr_last = now\<rparr>"

definition count_row :: "bool \<Rightarrow> nat \<Rightarrow> nat \<Rightarrow> conversation_row \<Rightarrow> conversation_row" where
  "count_row ab len now r =
     (if ab then r\<lparr>cr_packets_ab := cr_packets_ab r + 1, cr_bytes_ab := cr_bytes_ab r + len\<rparr>
      else r\<lparr>cr_packets_ba := cr_packets_ba r + 1, cr_bytes_ba := cr_bytes_ba r + len\<rparr>)\<lparr>cr_last := now\<rparr>"

definition conv_ingest :: "packet_record \<Rightarrow> conversation_table \<Rightarrow> conversation_table" where
  "conv_ingest pkt t =
     (let now = pr_at pkt; len = length (pr_data pkt);
          src = ps_src (pr_summary pkt); dst = ps_dst (pr_summary pkt)
      in if src = [] \<or> dst = [] then t
         else fold (\<lambda>kind t. let (a, b, ab) = normalize_pair src dst in
             upsert (kind, a, b) (new_row kind a b now) (count_row ab len now) t)
           (conversation_kinds (pr_flags pkt)) t)"

definition conv_rows :: "(conversation_kind \<times> string \<times> string) list \<Rightarrow> conversation_table \<Rightarrow> conversation_row list" where
  "conv_rows order t = sorted_rows cr_packets order t"

subsection \<open>Endpoints\<close>

datatype endpoint_kind = EpMac | EpIpv4 | EpIpv6 | EpTcpPort | EpUdpPort

record endpoint_row =
  er_kind :: endpoint_kind
  er_address :: string
  er_packets :: nat
  er_bytes :: nat

type_synonym endpoint_table = "endpoint_kind \<times> string \<rightharpoonup> endpoint_row"

definition opt_list :: "'a option \<Rightarrow> 'a list" where
  "opt_list x = (case x of None \<Rightarrow> [] | Some v \<Rightarrow> [v])"

definition port_entries :: "endpoint_kind \<Rightarrow> string \<Rightarrow> string \<Rightarrow> (endpoint_kind \<times> string) list" where
  "port_entries kind src dst = map (Pair kind) (opt_list (port_of src) @ opt_list (port_of dst))"

definition endpoint_addrs :: "packet_record \<Rightarrow> (endpoint_kind \<times> string) list" where
  "endpoint_addrs pkt =
     (let src = ps_src (pr_summary pkt); dst = ps_dst (pr_summary pkt); f = pr_flags pkt in
      (if pf_ipv6 f then [(EpIpv6, strip_port src), (EpIpv6, strip_port dst)]
       else if pf_ipv4 f \<or> pf_arp f then [(EpIpv4, strip_port src), (EpIpv4, strip_port dst)]
       else [])
      @ (if pf_tcp f then port_entries EpTcpPort src dst else [])
      @ (if pf_udp f then port_entries EpUdpPort src dst else []))"

definition ep_ingest :: "packet_record \<Rightarrow> endpoint_table \<Rightarrow> endpoint_table" where
  "ep_ingest pkt t =
     (let len = length (pr_data pkt) in
      fold (\<lambda>(kind, addr) t.
          upsert (kind, addr) \<lparr>er_kind = kind, er_address = addr, er_packets = 0, er_bytes = 0\<rparr>
            (\<lambda>e. e\<lparr>er_packets := er_packets e + 1, er_bytes := er_bytes e + len\<rparr>) t)
        (endpoint_addrs pkt) t)"

definition ep_rows :: "(endpoint_kind \<times> string) list \<Rightarrow> endpoint_table \<Rightarrow> endpoint_row list" where
  "ep_rows order t = sorted_rows er_packets order t"

subsection \<open>Protocols and lengths\<close>

type_synonym hierarchy = "string \<rightharpoonup> nat \<times> nat"

definition hier_ingest :: "packet_record \<Rightarrow> hierarchy \<Rightarrow> hierarchy" where
  "hier_ingest pkt t =
     upsert (ps_protocol (pr_summary pkt)) (0, 0) (\<lambda>(n, b). (n + 1, b + length (pr_data pkt))) t"

definition hier_rows :: "string list \<Rightarrow> hierarchy \<Rightarrow> (string \<times> nat \<times> nat) list" where
  "hier_rows order t =
     sort_key (\<lambda>(_, n, _). - int n) (List.map_filter (\<lambda>k. map_option (\<lambda>(n, b). (k, n, b)) (t k)) order)"

definition length_bucket :: "nat \<Rightarrow> nat" where
  "length_bucket n =
     (if n < 64 then 0 else if n < 128 then 1 else if n < 256 then 2 else if n < 512 then 3
      else if n < 1024 then 4 else if n < 1518 then 5 else 6)"

definition hist_ingest :: "packet_record \<Rightarrow> nat list \<Rightarrow> nat list option" where
  "hist_ingest pkt buckets =
     (let i = length_bucket (length (pr_data pkt)) in do {
        n \<leftarrow> idx buckets i;
        vec_set buckets i (n + 1) })"

definition hist_labels :: "string list" where
  "hist_labels = [''<64'', ''64-127'', ''128-255'', ''256-511'', ''512-1023'', ''1024-1517'',
     [CHR 0xE2, CHR 0x89, CHR 0xA5] @ ''1518'']"

subsection \<open>The traffic graph\<close>

record io_graph =
  ig_start :: nat
  ig_buckets :: "(nat \<times> nat) list"
  ig_capacity :: nat

definition io_new :: "nat \<Rightarrow> nat \<Rightarrow> io_graph" where
  "io_new now capacity =
     \<lparr>ig_start = now, ig_buckets = replicate (max capacity 1) (0, 0), ig_capacity = max capacity 1\<rparr>"

definition io_default :: "nat \<Rightarrow> io_graph" where
  "io_default now = io_new now 120"

definition seconds_since :: "nat \<Rightarrow> nat \<Rightarrow> nat" where
  "seconds_since start t = (t - start) div 10 ^ 9"

definition io_ingest :: "packet_record \<Rightarrow> io_graph \<Rightarrow> io_graph option" where
  "io_ingest pkt g =
     (if ig_capacity g = 0 then None
      else let i = seconds_since (ig_start g) (pr_at pkt) mod ig_capacity g in do {
        (n, b) \<leftarrow> idx (ig_buckets g) i;
        bs \<leftarrow> vec_set (ig_buckets g) i (n + 1, b + length (pr_data pkt));
        Some (g\<lparr>ig_buckets := bs\<rparr>) })"

definition packet_series :: "io_graph \<Rightarrow> nat list" where
  "packet_series g = map fst (ig_buckets g)"

definition byte_series :: "io_graph \<Rightarrow> nat list" where
  "byte_series g = map snd (ig_buckets g)"

subsection \<open>All statistics\<close>

record capture_stats =
  cs_conversations :: conversation_table
  cs_endpoints :: endpoint_table
  cs_hierarchy :: hierarchy
  cs_lengths :: "nat list"
  cs_io :: io_graph

definition stats_default :: "nat \<Rightarrow> capture_stats" where
  "stats_default now = \<lparr>cs_conversations = Map.empty, cs_endpoints = Map.empty,
     cs_hierarchy = Map.empty, cs_lengths = replicate 7 0, cs_io = io_default now\<rparr>"

definition stats_ingest :: "packet_record \<Rightarrow> capture_stats \<Rightarrow> capture_stats option" where
  "stats_ingest pkt s = do {
     lengths \<leftarrow> hist_ingest pkt (cs_lengths s);
     io \<leftarrow> io_ingest pkt (cs_io s);
     Some \<lparr>cs_conversations = conv_ingest pkt (cs_conversations s),
       cs_endpoints = ep_ingest pkt (cs_endpoints s),
       cs_hierarchy = hier_ingest pkt (cs_hierarchy s), cs_lengths = lengths, cs_io = io\<rparr> }"

section \<open>Counting\<close>

lemma upsert_apply: "upsert k d f m q = (if q = k then Some (f (default_to d (m k))) else m q)"
  by (simp add: upsert_def)

lemma conversation_kinds_distinct: "distinct (conversation_kinds f)"
  by (simp add: conversation_kinds_def Let_def)

text \<open>Folding updates at distinct keys updates each of them once.\<close>

lemma upsert_fold:
  assumes "distinct ks"
  shows "fold (\<lambda>k. upsert (k, a, b) (d k) (f k)) ks t (q, x, y) =
    (if q \<in> set ks \<and> x = a \<and> y = b then Some (f q (default_to (d q) (t (q, a, b)))) else t (q, x, y))"
  using assms by (induction ks arbitrary: t) (auto simp: upsert_apply)

text \<open>A packet of a conversation, in one direction.\<close>

definition talks :: "conversation_kind \<Rightarrow> string \<Rightarrow> string \<Rightarrow> packet_record \<Rightarrow> bool" where
  "talks k a b p \<longleftrightarrow>
     k \<in> set (conversation_kinds (pr_flags p)) \<and> ps_src (pr_summary p) = a \<and> ps_dst (pr_summary p) = b"

lemma conv_ingest_apply:
  "conv_ingest p t (k, a, b) =
     (let src = ps_src (pr_summary p); dst = ps_dst (pr_summary p); (x, y, z) = normalize_pair src dst in
      if src \<noteq> [] \<and> dst \<noteq> [] \<and> k \<in> set (conversation_kinds (pr_flags p)) \<and> a = x \<and> b = y
      then Some (count_row z (length (pr_data p)) (pr_at p) (default_to (new_row k x y (pr_at p)) (t (k, x, y))))
      else t (k, a, b))"
  by (simp add: conv_ingest_def Let_def upsert_fold [OF conversation_kinds_distinct] split: prod.split)

lemma conv_ingest_at:
  assumes "a \<le> b" "a \<noteq> []" "b \<noteq> []"
  shows "conv_ingest p t (k, a, b) =
    (if talks k a b p \<or> talks k b a p
     then Some (count_row (talks k a b p) (length (pr_data p)) (pr_at p)
       (default_to (new_row k a b (pr_at p)) (t (k, a, b))))
     else t (k, a, b))"
proof -
  let ?s = "ps_src (pr_summary p)" and ?d = "ps_dst (pr_summary p)"
  consider "?s = a" "?d = b" | "?s = b" "?d = a" "a \<noteq> b" | "\<not> (?s = a \<and> ?d = b)" "\<not> (?s = b \<and> ?d = a)" by blast
  then show ?thesis
  proof cases
    case 1
    then have "talks k a b p \<longleftrightarrow> k \<in> set (conversation_kinds (pr_flags p))"
      "talks k b a p \<Longrightarrow> talks k a b p" unfolding talks_def by blast+
    with 1 assms show ?thesis
      by (cases "talks k a b p") (auto simp: conv_ingest_apply Let_def normalize_pair_def)
  next
    case 2
    with assms have "\<not> b \<le> a" using order.antisym by blast
    with 2 assms show ?thesis by (simp add: conv_ingest_apply Let_def normalize_pair_def talks_def)
  next
    case 3
    then have "\<not> talks k a b p" "\<not> talks k b a p" by (auto simp: talks_def)
    with 3 show ?thesis by (cases "?s \<le> ?d") (simp add: conv_ingest_apply Let_def normalize_pair_def, blast)+
  qed
qed

lemma conv_ingest_other:
  assumes "\<not> (a \<le> b \<and> a \<noteq> [] \<and> b \<noteq> [])"
  shows "conv_ingest p t (k, a, b) = t (k, a, b)"
proof -
  let ?s = "ps_src (pr_summary p)" and ?d = "ps_dst (pr_summary p)"
  show ?thesis
  proof (cases "?s \<le> ?d")
    case True
    with assms show ?thesis by (auto simp only: conv_ingest_apply Let_def normalize_pair_def if_True prod.case split: if_split)
  next
    case False
    then have "?d \<le> ?s" using linear by blast
    with False assms show ?thesis
      by (auto simp only: conv_ingest_apply Let_def normalize_pair_def if_False prod.case split: if_split)
  qed
qed

text \<open>What the row of \<open>a\<close> and \<open>b\<close> must say about the packets \<open>ps\<close>.\<close>

definition row_counts :: "conversation_kind \<Rightarrow> string \<Rightarrow> string \<Rightarrow> packet_record list \<Rightarrow> conversation_row option \<Rightarrow> bool" where
  "row_counts k a b ps row =
     (let ab = filter (talks k a b) ps; ba = (if a = b then [] else filter (talks k b a) ps);
          size = (\<lambda>p. length (pr_data p))
      in case row of
           None \<Rightarrow> ab = [] \<and> ba = []
         | Some r \<Rightarrow> cr_packets_ab r = length ab \<and> cr_packets_ba r = length ba \<and>
             cr_bytes_ab r = sum_list (map size ab) \<and> cr_bytes_ba r = sum_list (map size ba))"

lemma row_counts_ingest:
  assumes "row_counts k a b ps (t (k, a, b))" "a \<le> b" "a \<noteq> []" "b \<noteq> []"
  shows "row_counts k a b (ps @ [p]) (conv_ingest p t (k, a, b))"
proof -
  have excl: "a \<noteq> b \<Longrightarrow> talks k a b p \<Longrightarrow> \<not> talks k b a p" by (auto simp: talks_def)
  show ?thesis
    using assms(1) excl unfolding conv_ingest_at [OF assms(2-4)]
    by (cases "t (k, a, b)") (auto simp: row_counts_def Let_def count_row_def new_row_def default_to_def filter_empty_conv)
qed

text \<open>
  C20: The conversation table is an exact account of the capture: after any sequence of packets
  the row of two addresses and a kind holds the number of packets and bytes sent each way, there
  is no row for a pair that never talked, and the two directions share the row whose addresses
  are in order.
\<close>

theorem conversations_exact:
  "if a \<le> b \<and> a \<noteq> [] \<and> b \<noteq> [] then row_counts k a b ps (fold conv_ingest ps Map.empty (k, a, b))
   else fold conv_ingest ps Map.empty (k, a, b) = None"
proof (cases "a \<le> b \<and> a \<noteq> [] \<and> b \<noteq> []")
  case True
  then have "row_counts k a b ps (fold conv_ingest ps Map.empty (k, a, b))"
    by (induction ps rule: rev_induct) (simp add: row_counts_def Let_def, simp add: row_counts_ingest)
  with True show ?thesis by simp
next
  case False
  then have "fold conv_ingest ps Map.empty (k, a, b) = None"
    by (induction ps rule: rev_induct) (simp_all add: conv_ingest_other)
  then show ?thesis by (simp only: if_not_P [OF False])
qed

section \<open>The traffic graph is not a window\<close>

fun io_ingest_all :: "packet_record list \<Rightarrow> io_graph \<Rightarrow> io_graph option" where
  "io_ingest_all [] g = Some g"
| "io_ingest_all (p # ps) g = Option.bind (io_ingest p g) (io_ingest_all ps)"

lemma io_all_append: "io_ingest_all (ps @ qs) g = Option.bind (io_ingest_all ps g) (io_ingest_all qs)"
proof (induction ps arbitrary: g)
  case (Cons p ps)
  then show ?case by (cases "io_ingest p g") simp_all
qed simp

definition in_slot :: "nat \<Rightarrow> nat \<Rightarrow> nat \<Rightarrow> packet_record \<Rightarrow> bool" where
  "in_slot now cap i p \<longleftrightarrow> seconds_since now (pr_at p) mod cap = i"

text \<open>
  The traffic graph never panics and never forgets: a bucket counts every packet whose second
  falls on it modulo the capacity, since the graph was made.  Buckets of a past turn are not
  cleared, so past the first turn the series does not show the last seconds.
\<close>

theorem io_graph_accumulates:
  "\<exists>g. io_ingest_all ps (io_new now n) = Some g \<and> length (ig_buckets g) = max n 1 \<and>
    (\<forall>i < max n 1. ig_buckets g ! i =
       (length (filter (in_slot now (max n 1) i) ps),
        sum_list (map (\<lambda>p. length (pr_data p)) (filter (in_slot now (max n 1) i) ps))))"
proof -
  have "\<exists>g. io_ingest_all ps (io_new now n) = Some g \<and> length (ig_buckets g) = max n 1 \<and>
      ig_capacity g = max n 1 \<and> ig_start g = now \<and>
    (\<forall>i < max n 1. ig_buckets g ! i =
       (length (filter (in_slot now (max n 1) i) ps),
        sum_list (map (\<lambda>p. length (pr_data p)) (filter (in_slot now (max n 1) i) ps))))"
  proof (induction ps rule: rev_induct)
    case Nil
    then show ?case by (simp add: io_new_def)
  next
    case (snoc p ps)
    then obtain g where g: "io_ingest_all ps (io_new now n) = Some g" "length (ig_buckets g) = max n 1"
      "ig_capacity g = max n 1" "ig_start g = now"
      and slots: "\<And>i. i < max n 1 \<Longrightarrow> ig_buckets g ! i =
       (length (filter (in_slot now (max n 1) i) ps),
        sum_list (map (\<lambda>p. length (pr_data p)) (filter (in_slot now (max n 1) i) ps)))" by blast
    define c where "c = max n 1"
    define j where "j = seconds_since now (pr_at p) mod c"
    define g' where "g' = g\<lparr>ig_buckets := (ig_buckets g)[j := (fst (ig_buckets g ! j) + 1, snd (ig_buckets g ! j) + length (pr_data p))]\<rparr>"
    have c: "0 < c" "j < c" by (simp_all add: c_def j_def)
    have "io_ingest p g = Some g'"
      using c g by (simp add: io_ingest_def vec_set_def j_def g'_def c_def Let_def split: prod.split)
    with g have "io_ingest_all (ps @ [p]) (io_new now n) = Some g'" by (simp add: io_all_append)
    moreover have "ig_buckets g' ! i = (length (filter (in_slot now c i) (ps @ [p])),
        sum_list (map (\<lambda>p. length (pr_data p)) (filter (in_slot now c i) (ps @ [p]))))" if "i < c" for i
      using that slots [of i] slots [of j] c g(2)
      by (cases "i = j") (auto simp: g'_def nth_list_update in_slot_def j_def c_def)
    ultimately show ?case using g by (auto simp: g'_def c_def)
  qed
  then show ?thesis by blast
qed

theorem io_graph_accumulates_witness:
  "\<exists>g. io_ingest_all [(raw_record [1] LtRaw)\<lparr>pr_at := 0\<rparr>, (raw_record [2, 3] LtRaw)\<lparr>pr_at := 2 * 10 ^ 9\<rparr>] (io_new 0 2) = Some g \<and>
     ig_buckets g ! 0 = (2, 3)"
proof -
  have "in_slot 0 (max 2 1) 0 ((raw_record [1] LtRaw)\<lparr>pr_at := 0\<rparr>)"
    "in_slot 0 (max 2 1) 0 ((raw_record [2, 3] LtRaw)\<lparr>pr_at := 2 * 10 ^ 9\<rparr>)"
    by (simp_all add: in_slot_def seconds_since_def numeral_2_eq_2)
  then show ?thesis
    using io_graph_accumulates [of "[(raw_record [1] LtRaw)\<lparr>pr_at := 0\<rparr>, (raw_record [2, 3] LtRaw)\<lparr>pr_at := 2 * 10 ^ 9\<rparr>]" 0 2]
    by (fastforce simp: raw_record_def)
qed

section \<open>The filter of a conversation\<close>

text \<open>An IPv4 endpoint as the dissector shows it.\<close>

definition v4_text :: "u8 \<times> u8 \<times> u8 \<times> u8 \<Rightarrow> string" where
  "v4_text ip = (case ip of (a, b, c, d) \<Rightarrow> ipv4_str a b c d)"

definition v4_endpoint :: "u8 \<times> u8 \<times> u8 \<times> u8 \<Rightarrow> nat \<Rightarrow> string" where
  "v4_endpoint ip n = v4_text ip @ '':'' @ dec n"

lemma dec_start: "hd (dec n) \<notin> {CHR ''a'', CHR ''o''}"
proof -
  obtain d where d: "d < 10" "hd (dec n) = digit_chr d" using dec_digits [OF hd_in_set [of "dec n"]] by (auto simp: dec_def)
  then have "of_char (digit_chr d) = 48 + d" by (simp add: digit_chr_char of_char_of)
  with d(1) have "digit_chr d \<notin> {CHR ''a'', CHR ''o''}" by auto
  with d(2) show ?thesis by simp
qed

lemma word_numbers:
  "word (dec n)" "word (v4_text ip)"
  "hd (dec n) \<notin> {CHR ''a'', CHR ''o''}" "hd (v4_text ip) \<notin> {CHR ''a'', CHR ''o''}"
proof -
  show "word (dec n)" "hd (dec n) \<notin> {CHR ''a'', CHR ''o''}"
    using word_dec dec_start by simp_all
  obtain a b c d where ip: "ip = (a, b, c, d)" by (cases ip)
  have "word_chr (CHR ''.'')" by (simp add: word_chr_def)
  then show "word (v4_text ip)"
    using word_dec unfolding ip v4_text_def ipv4_str_def decu_def word_def by simp
  show "hd (v4_text ip) \<notin> {CHR ''a'', CHR ''o''}"
    using dec_start [of "unat a"] wordD(1) [OF word_dec]
    by (simp add: ip v4_text_def ipv4_str_def decu_def)
qed

lemma eq_text_sep:
  assumes "word w" "word v" "hd v \<notin> {CHR ''a'', CHR ''o''}" "c \<in> {CHR ''a'', CHR ''o''}"
  shows "contains (w @ '' == '' @ v @ r) (CHR '' '' # c # p) \<longleftrightarrow> contains r (CHR '' '' # c # p)"
proof -
  obtain x v' where v: "v = x # v'" "x \<noteq> c" using assms wordD(1) [OF assms(2)] by (cases v) auto
  have "contains (w @ '' == '' @ v @ r) (CHR '' '' # c # p) = contains ('' == '' @ v @ r) (CHR '' '' # c # p)"
    by (rule contains_skip) (rule wordD(7) [OF assms(1)])
  also have "\<dots> = contains (v @ r) (CHR '' '' # c # p)"
    using assms(4) v by (auto simp: contains_Cons starts_with_iff)
  also have "\<dots> = contains r (CHR '' '' # c # p)"
    by (rule contains_skip) (rule wordD(7) [OF assms(2)])
  finally show ?thesis .
qed

text \<open>Two comparisons joined by \<open>and\<close> and by \<open>or\<close>.\<close>

lemma two_comparisons:
  assumes "word w" "word v" "word v'" "hd v \<notin> {CHR ''a'', CHR ''o''}" "hd v' \<notin> {CHR ''a'', CHR ''o''}"
    "hd w \<noteq> CHR ''o''"
    and "parse_disp_atom re (w @ '' == '' @ v) = Inr f" "parse_disp_atom re (w @ '' == '' @ v') = Inr g"
    "w \<noteq> ''not''"
  shows "parse_disp_or re ((w @ '' == '' @ v) @ '' and '' @ (w @ '' == '' @ v')) = Inr (DfAnd f g)"
    "parse_disp_or re ((w @ '' == '' @ v) @ '' or '' @ (w @ '' == '' @ v')) = Inr (DfOr f g)"
proof -
  have o1: "'' == '' \<in> set operators" by (simp add: operators_def)
  have at: "atomic (w @ '' == '' @ v)" "atomic (w @ '' == '' @ v')"
    using operator_atomic [OF assms(1,2) o1 assms(9)] operator_atomic [OF assms(1,3) o1 assms(9)] .
  obtain x w' where w: "w = x # w'" "x \<noteq> CHR ''o''" using wordD(1) [OF assms(1)] assms(6) by (cases w) auto
  note sep = eq_text_sep [OF assms(1,2,4)] eq_text_sep [OF assms(1,3,5)]
  have a: "\<not> contains ((w @ '' == '' @ v) @ '' and'') '' and ''"
    and o: "\<not> contains ((w @ '' == '' @ v) @ '' or'') '' or ''"
    using sep(1) by (simp_all add: contains_Cons starts_with_def contains_def del: append.simps)
  have "contains ('' and '' @ w @ '' == '' @ v') '' or '' \<longleftrightarrow> contains (w @ '' == '' @ v') '' or ''"
    using w by (simp add: contains_Cons starts_with_iff)
  then have ao: "\<not> contains ((w @ '' == '' @ v) @ '' and '' @ (w @ '' == '' @ v')) '' or ''"
    using sep(1) [of "CHR ''o''" "'' and '' @ w @ '' == '' @ v'" "''r ''"] sep(2) [of "CHR ''o''" "[]" "''r ''"]
    by (simp add: contains_def)
  show "parse_disp_or re ((w @ '' == '' @ v) @ '' and '' @ (w @ '' == '' @ v')) = Inr (DfAnd f g)"
    by (rule disp.parse_two_and [OF at a ao assms(7,8)])
  show "parse_disp_or re ((w @ '' == '' @ v) @ '' or '' @ (w @ '' == '' @ v')) = Inr (DfOr f g)"
    by (rule disp.parse_two_or [OF at o assms(7,8)])
qed

lemma endpoint_parts:
  assumes "n \<le> u16_max"
  shows "strip_port (v4_endpoint ip n) = v4_text ip" "strip_port_num (v4_endpoint ip n) = dec n"
proof -
  have split: "rsplit_once (CHR '':'') (v4_endpoint ip n) = Some (v4_text ip, dec n)"
    by (simp add: v4_endpoint_def rsplit_once_append [OF colon_not_in_dec])
  have "CHR '':'' \<notin> set (v4_text ip)"
    using word_numbers(2) [of ip] by (auto simp: word_def word_chr_def list_all_iff)
  then have "\<not> contains (v4_text ip) '':''" using contains_skip [of "CHR '':''" _ "[]" "[]"] by (simp add: contains_def)
  then show "strip_port (v4_endpoint ip n) = v4_text ip" "strip_port_num (v4_endpoint ip n) = dec n"
    using parse_uint_dec [OF assms] by (simp_all add: strip_port_def strip_port_num_def split is_port_def)
qed

lemma ports_expr_parses:
  assumes "field = ''tcp.port'' \<and> mk = DfTcpPort \<or> field = ''udp.port'' \<and> mk = DfUdpPort"
    and r: "cr_addr_a r = v4_endpoint ip m" "cr_addr_b r = v4_endpoint ip' n" "m \<le> u16_max" "n \<le> u16_max"
  shows "parse_display_filter re (ports_expr field r) =
    Inr (DfAnd (DfAnd (DfIpAddr (v4_text ip)) (DfIpAddr (v4_text ip'))) (DfOr (mk m) (mk n)))"
proof -
  let ?s = "(''ip.addr'' @ '' == '' @ v4_text ip) @ '' and '' @ (''ip.addr'' @ '' == '' @ v4_text ip')"
  let ?t = "(field @ '' == '' @ dec m) @ '' or '' @ (field @ '' == '' @ dec n)"
  have printed: "ports_expr field r = and_text ?s ?t"
    using r by (simp add: ports_expr_def endpoint_parts and_text_def paren_def)
  have w: "word ''ip.addr''" "word field" "hd field \<noteq> CHR ''o''" "field \<noteq> ''not''"
    using assms(1) by (auto simp: word_def word_chr_def)
  have s: "parse_disp_or re ?s = Inr (DfAnd (DfIpAddr (v4_text ip)) (DfIpAddr (v4_text ip')))"
    using word_numbers atom_of_addr by (intro two_comparisons(1) w(1)) simp_all
  have "parse_disp_atom re (field @ '' == '' @ dec k) = Inr (mk k)" if "k \<le> u16_max" for k
    using assms(1) atom_of_ports [OF that, of re] by auto
  then have t: "parse_disp_or re ?t = Inr (DfOr (mk m) (mk n))"
    using word_numbers r(3,4) w by (intro two_comparisons(2)) simp_all
  have fl: "flat x" if "word x" for x using wordD(6) [OF that] .
  have "flat ?s" "flat ?t"
    using fl [OF word_numbers(2)] fl [OF word_numbers(1)] fl [OF w(2)] by (auto simp: flat_def)
  then have "parse_disp_or re (and_text ?s ?t) =
      Inr (DfAnd (DfAnd (DfIpAddr (v4_text ip)) (DfIpAddr (v4_text ip'))) (DfOr (mk m) (mk n)))"
    using s t by (intro disp.parse_and_text balanced_flat)
  moreover have "trim (and_text ?s ?t) = and_text ?s ?t" "and_text ?s ?t \<noteq> []"
    by (rule trim_graphic) (simp_all add: and_text_def paren_def graphic_def)
  ultimately show ?thesis by (simp only: printed parse_display_filter_def Let_def if_False)
qed

lemma endpoint_matches:
  "contains (v4_endpoint ip n) (v4_text ip)" "ends_with (v4_endpoint ip n) ('':'' @ dec n)"
  by (auto simp: v4_endpoint_def contains_iff ends_with_iff intro: exI [of _ "[]"])



end
