(* ===== verification/Ring.thy ===== *)
theory Ring
  imports Packet
begin

text \<open>
  The rotating capture files (\<open>src/src/capture/ring.rs\<close>).  The file system is a map from names
  to the blocks written; the file system and the pcapng writer of the \<open>pcap_file\<close> library are
  external, and what they answer to the calls of one operation is its argument \<open>io\<close>.
\<close>

section \<open>State\<close>

datatype data_link = DlEthernet | DlLinuxSll | DlNull

datatype pcapng_block = BlkSection | BlkInterface data_link | BlkPacket packet_record

record disk_ring =
  dr_prefix :: string
  dr_max_bytes :: nat
  dr_max_files :: nat
  dr_current_idx :: nat
  dr_current_bytes :: nat
  dr_writer :: "string option"
  dr_wrote_iface :: bool
  dr_files :: "string \<rightharpoonup> pcapng_block list"

text \<open>
  Whether \<open>File::create\<close>, \<open>PcapNgWriter::new\<close> and writing the section and the interface block
  succeed, and the bytes a packet block takes, if it is written.
\<close>

record ring_io =
  io_create :: bool
  io_writer :: bool
  io_section :: bool
  io_iface :: bool
  io_packet :: "nat option"

section \<open>Operations\<close>

definition path_for :: "disk_ring \<Rightarrow> nat \<Rightarrow> string" where
  "path_for r i = dr_prefix r @ ''-'' @ pad0 5 (dec (i mod dr_max_files r)) @ ''.pcapng''"

definition append_block :: "string \<Rightarrow> pcapng_block \<Rightarrow> disk_ring \<Rightarrow> disk_ring" where
  "append_block path b r = r\<lparr>dr_files := (dr_files r)(path \<mapsto> default_to [] (dr_files r path) @ [b])\<rparr>"

text \<open>The state is returned with the error, as the callers go on using it.\<close>

definition ring_rotate :: "ring_io \<Rightarrow> disk_ring \<Rightarrow> (string + unit) \<times> disk_ring" where
  "ring_rotate io r0 =
     (let r = r0\<lparr>dr_writer := None, dr_wrote_iface := False, dr_current_bytes := 0\<rparr>;
          path = path_for r (dr_current_idx r)
      in if \<not> io_create io then (Inl (''create ring file '' @ path), r)
         else let r = r\<lparr>dr_files := (dr_files r)(path \<mapsto> [])\<rparr> in
           if \<not> io_writer io then (Inl ''pcapng'', r)
           else if \<not> io_section io then (Inl ''write'', r)
           else (Inr (), (append_block path BlkSection r)
             \<lparr>dr_writer := Some path, dr_current_idx := dr_current_idx r + 1\<rparr>))"

definition ring_new ::
    "(string \<rightharpoonup> pcapng_block list) \<Rightarrow> string \<Rightarrow> nat \<Rightarrow> nat \<Rightarrow> ring_io \<Rightarrow> (string + unit) \<times> disk_ring" where
  "ring_new files prefix max_mb max_files io =
     ring_rotate io \<lparr>dr_prefix = prefix, dr_max_bytes = max max_mb 1 * 1024 * 1024,
       dr_max_files = max max_files 1, dr_current_idx = 0, dr_current_bytes = 0, dr_writer = None,
       dr_wrote_iface = False, dr_files = files\<rparr>"

definition ring_data_link :: "link_type \<Rightarrow> data_link" where
  "ring_data_link lt =
     (case lt of LtEthernet \<Rightarrow> DlEthernet | LtLinuxSll \<Rightarrow> DlLinuxSll | LtNull \<Rightarrow> DlNull | _ \<Rightarrow> DlEthernet)"

definition write_iface :: "ring_io \<Rightarrow> string \<Rightarrow> packet_record \<Rightarrow> disk_ring \<Rightarrow> (string + unit) \<times> disk_ring" where
  "write_iface io path pkt r =
     (if dr_wrote_iface r then (Inr (), r)
      else if \<not> io_iface io then (Inl ''write'', r)
      else (Inr (), (append_block path (BlkInterface (ring_data_link (pr_link_type pkt))) r)\<lparr>dr_wrote_iface := True\<rparr>))"

definition write_packet :: "ring_io \<Rightarrow> packet_record \<Rightarrow> disk_ring \<Rightarrow> (string + unit) \<times> disk_ring" where
  "write_packet io pkt r =
     (case (if dr_max_bytes r \<le> dr_current_bytes r then ring_rotate io r else (Inr (), r)) of
        (Inl e, r) \<Rightarrow> (Inl e, r)
      | (Inr _, r) \<Rightarrow>
          (case dr_writer r of
             None \<Rightarrow> (Inl ''no ring writer'', r)
           | Some path \<Rightarrow>
               (case write_iface io path pkt r of
                  (Inl e, r) \<Rightarrow> (Inl e, r)
                | (Inr _, r) \<Rightarrow>
                    (case io_packet io of
                       None \<Rightarrow> (Inl ''write'', r)
                     | Some n \<Rightarrow>
                         (Inr (), (append_block path (BlkPacket pkt) r)\<lparr>dr_current_bytes := dr_current_bytes r + n\<rparr>)))))"

section \<open>A failed rotation is final\<close>

text \<open>
  A rotation that fails leaves the ring without a writer and with an empty byte count, so no
  later write ever tries to rotate again: every packet from then on is refused with
  \<open>no ring writer\<close>, even when the disk could be written to.
\<close>

theorem failed_rotation_is_final:
  assumes "ring_rotate io r = (Inl e, r')" "0 < dr_max_bytes r"
  shows "fold (\<lambda>(io, p) s. snd (write_packet io p s)) later r' = r' \<and>
    (\<forall>io' p. write_packet io' p r' = (Inl ''no ring writer'', r'))"
proof -
  have r': "dr_writer r' = None" "dr_current_bytes r' = 0" "dr_max_bytes r' = dr_max_bytes r"
    using assms(1) by (auto simp: ring_rotate_def Let_def split: if_splits)
  then have stuck: "write_packet io' p r' = (Inl ''no ring writer'', r')" for io' p
    using assms(2) by (simp add: write_packet_def)
  then show ?thesis by (induction later) auto
qed

theorem failed_rotation_is_final_witness:
  "\<exists>r. ring_new Map.empty ''cap'' 1 2 \<lparr>io_create = False, io_writer = True, io_section = True, io_iface = True, io_packet = Some 60\<rparr>
      = (Inl ''create ring file cap-00000.pcapng'', r) \<and>
    write_packet \<lparr>io_create = True, io_writer = True, io_section = True, io_iface = True, io_packet = Some 60\<rparr>
      (raw_record [1] LtEthernet) r = (Inl ''no ring writer'', r)"
proof -
  let ?bad = "\<lparr>io_create = False, io_writer = True, io_section = True, io_iface = True, io_packet = Some 60\<rparr>"
  let ?r = "\<lparr>dr_prefix = ''cap'', dr_max_bytes = 1048576, dr_max_files = 2, dr_current_idx = 0, dr_current_bytes = 0,
    dr_writer = None, dr_wrote_iface = False, dr_files = Map.empty\<rparr>"
  have path: "path_for ?r 0 = ''cap-00000.pcapng''" by (simp add: path_for_def dec_small pad0_def) (simp add: numeral_eq_Suc)
  have rot: "ring_rotate ?bad ?r = (Inl ''create ring file cap-00000.pcapng'', ?r)"
    by (simp add: ring_rotate_def Let_def path)
  have small: "max (1 :: nat) 1 * 1024 * 1024 = 1048576" "max (2 :: nat) 1 = 2" by simp_all
  have "ring_new Map.empty ''cap'' 1 2 ?bad = (Inl ''create ring file cap-00000.pcapng'', ?r)"
    unfolding ring_new_def small by (rule rot)
  then show ?thesis using failed_rotation_is_final [OF rot] by (intro exI [of _ ?r]) simp
qed

section \<open>The files on disk\<close>

text \<open>The packets of a file, and a file every reader accepts: an interface before any packet.\<close>

definition packets_in :: "pcapng_block list \<Rightarrow> packet_record list" where
  "packets_in bs = List.map_filter (\<lambda>b. case b of BlkPacket p \<Rightarrow> Some p | _ \<Rightarrow> None) bs"

definition wf_file :: "pcapng_block list \<Rightarrow> bool" where
  "wf_file bs \<longleftrightarrow> bs = [BlkSection] \<or>
     (\<exists>d ps. bs = BlkSection # BlkInterface d # map BlkPacket ps)"

text \<open>
  The window of file numbers in use, and the invariant of a ring that was never refused by the
  file system: \<open>segs\<close> are the packets by rotation, \<open>concat segs\<close> all that were ever written.
\<close>

definition window :: "disk_ring \<Rightarrow> nat list" where
  "window r = [dr_current_idx r - dr_max_files r ..< dr_current_idx r]"

definition holds :: "disk_ring \<Rightarrow> nat \<Rightarrow> packet_record list \<Rightarrow> bool" where
  "holds r k ps \<longleftrightarrow> (\<exists>bs. dr_files r (path_for r k) = Some bs \<and> wf_file bs \<and> packets_in bs = ps)"

definition ring_ok :: "disk_ring \<Rightarrow> packet_record list list \<Rightarrow> bool" where
  "ring_ok r segs \<longleftrightarrow>
     0 < dr_max_files r \<and> length segs = dr_current_idx r \<and> 0 < dr_current_idx r \<and>
     dr_writer r = Some (path_for r (dr_current_idx r - 1)) \<and>
     (dr_wrote_iface r \<longleftrightarrow> dr_files r (path_for r (dr_current_idx r - 1)) \<noteq> Some [BlkSection]) \<and>
     (\<forall>k \<in> set (window r). holds r k (segs ! k))"

definition io_fine :: "ring_io \<Rightarrow> bool" where
  "io_fine io \<longleftrightarrow> io_create io \<and> io_writer io \<and> io_section io \<and> io_iface io \<and> io_packet io \<noteq> None"

subsection \<open>Names\<close>

lemma pad0_dec_inject: "pad0 5 (dec i) = pad0 5 (dec j) \<Longrightarrow> i = j"
proof -
  assume "pad0 5 (dec i) = pad0 5 (dec j)"
  then have "parse_uint (max i j) (pad0 5 (dec i)) = parse_uint (max i j) (pad0 5 (dec j))" by simp
  then show ?thesis by (simp add: parse_uint_pad0)
qed

lemma path_for_inject: "path_for r i = path_for r j \<Longrightarrow> i mod dr_max_files r = j mod dr_max_files r"
  using pad0_dec_inject by (auto simp: path_for_def)

lemma path_for_cong:
  "dr_prefix r' = dr_prefix r \<Longrightarrow> dr_max_files r' = dr_max_files r \<Longrightarrow> path_for r' = path_for r"
  by (simp add: path_for_def fun_eq_iff)

text \<open>Two numbers of a window of at most \<open>m\<close> have different remainders.\<close>

lemma window_distinct:
  assumes "k < n" "n < k + m"
  shows "k mod m \<noteq> n mod (m :: nat)"
proof
  assume "k mod m = n mod m"
  then have "m dvd n - k" using assms(1) by (metis mod_eq_dvd_iff_nat nat_less_le)
  then show False using assms by (auto dest: dvd_imp_le)
qed

subsection \<open>Each operation keeps the newest files\<close>

lemma packets_in_simps [simp]:
  "packets_in [] = []" "packets_in (BlkSection # bs) = packets_in bs"
  "packets_in (BlkInterface d # bs) = packets_in bs" "packets_in (BlkPacket p # bs) = p # packets_in bs"
  "packets_in (bs @ cs) = packets_in bs @ packets_in cs" "packets_in (map BlkPacket ps) = ps"
  by (simp_all add: packets_in_def map_filter_simps List.map_filter_def) (induction ps; simp)

lemma rotate_fine:
  assumes "io_fine io" "0 < dr_max_files r" "length segs = dr_current_idx r"
    "\<And>k. k \<in> set (window r) \<Longrightarrow> holds r k (segs ! k)"
  shows "\<exists>r'. ring_rotate io r = (Inr (), r') \<and> ring_ok r' (segs @ [[]]) \<and>
    dr_current_bytes r' = 0 \<and> dr_max_bytes r' = dr_max_bytes r"
proof -
  let ?n = "dr_current_idx r" and ?m = "dr_max_files r"
  let ?r' = "r\<lparr>dr_writer := Some (path_for r ?n), dr_wrote_iface := False, dr_current_bytes := 0,
    dr_current_idx := ?n + 1, dr_files := (dr_files r)(path_for r ?n \<mapsto> [BlkSection])\<rparr>"
  have path: "path_for ?r' = path_for r" by (rule path_for_cong) simp_all
  have "path_for (r\<lparr>dr_writer := None, dr_wrote_iface := False, dr_current_bytes := 0\<rparr>) = path_for r"
    by (rule path_for_cong) simp_all
  then have rot: "ring_rotate io r = (Inr (), ?r')"
    using assms(1) by (simp add: ring_rotate_def Let_def io_fine_def append_block_def default_to_def)
  have "holds ?r' k ((segs @ [[]]) ! k)" if "k \<in> set (window ?r')" for k
  proof (cases "k = ?n")
    case True
    have "(segs @ [[]]) ! ?n = []" using nth_append_length [of segs "[]"] by (simp only: assms(3))
    then show ?thesis using True path by (simp add: holds_def wf_file_def)
  next
    case False
    with that have k: "k < ?n" "?n < k + ?m" by (auto simp: window_def)
    then have "path_for r k \<noteq> path_for r ?n" using window_distinct path_for_inject by blast
    moreover have "holds r k (segs ! k)" using k by (intro assms(4)) (auto simp: window_def)
    ultimately show ?thesis using k assms(3) path by (simp add: holds_def nth_append)
  qed
  then have "ring_ok ?r' (segs @ [[]])"
    using assms(2,3) path by (simp add: ring_ok_def)
  with rot show ?thesis by simp
qed

lemma write_block_fine:
  assumes "io_fine io" "ring_ok r segs" "dr_current_bytes r < dr_max_bytes r"
  shows "\<exists>r'. write_packet io p r = (Inr (), r') \<and> ring_ok r' (butlast segs @ [last segs @ [p]]) \<and>
    dr_max_bytes r' = dr_max_bytes r"
proof -
  let ?n = "dr_current_idx r - 1"
  let ?path = "path_for r ?n"
  have ok: "0 < dr_max_files r" "length segs = dr_current_idx r" "0 < dr_current_idx r" "dr_writer r = Some ?path"
    "dr_wrote_iface r \<longleftrightarrow> dr_files r ?path \<noteq> Some [BlkSection]"
    "\<And>k. k \<in> set (window r) \<Longrightarrow> holds r k (segs ! k)"
    using assms(2) by (auto simp: ring_ok_def)
  have "?n \<in> set (window r)" using ok(1,3) by (auto simp: window_def)
  then obtain bs where bs: "dr_files r ?path = Some bs" "wf_file bs" "packets_in bs = segs ! ?n"
    using ok(6) by (auto simp: holds_def)
  obtain size where size: "io_packet io = Some size" using assms(1) by (auto simp: io_fine_def)
  define bs' where "bs' = (if dr_wrote_iface r then bs else bs @ [BlkInterface (ring_data_link (pr_link_type p))]) @ [BlkPacket p]"
  have bs': "wf_file bs'" "packets_in bs' = segs ! ?n @ [p]" "bs' \<noteq> [BlkSection]"
  proof -
    show "bs' \<noteq> [BlkSection]" by (simp add: bs'_def)
    show "packets_in bs' = segs ! ?n @ [p]" by (simp add: bs'_def bs(3))
    show "wf_file bs'"
    proof (cases "bs = [BlkSection]")
      case True
      then have "\<not> dr_wrote_iface r" using ok(5) bs(1) by simp
      with True have "bs' = BlkSection # BlkInterface (ring_data_link (pr_link_type p)) # map BlkPacket [p]"
        by (simp add: bs'_def)
      then show ?thesis unfolding wf_file_def by blast
    next
      case False
      then obtain d ps where "bs = BlkSection # BlkInterface d # map BlkPacket ps" "dr_wrote_iface r"
        using bs(1,2) ok(5) by (auto simp: wf_file_def)
      then have "bs' = BlkSection # BlkInterface d # map BlkPacket (ps @ [p])" by (simp add: bs'_def)
      then show ?thesis unfolding wf_file_def by blast
    qed
  qed
  let ?r' = "r\<lparr>dr_files := (dr_files r)(?path \<mapsto> bs'), dr_wrote_iface := True, dr_current_bytes := dr_current_bytes r + size\<rparr>"
  have path: "path_for ?r' = path_for r" by (rule path_for_cong) simp_all
  have "write_packet io p r = (Inr (), ?r')"
    using assms(1,3) ok(4) bs(1) size
    by (auto simp: write_packet_def write_iface_def io_fine_def append_block_def default_to_def bs'_def)
  moreover have "holds ?r' k ((butlast segs @ [last segs @ [p]]) ! k)" if k: "k \<in> set (window ?r')" for k
  proof (cases "k = ?n")
    case True
    have "last segs = segs ! ?n" using ok(2,3) by (simp add: last_conv_nth flip: length_greater_0_conv)
    then show ?thesis using True ok(2) bs' path by (simp add: holds_def nth_append)
  next
    case False
    with k have k': "k < ?n" "?n < k + dr_max_files r" "k \<in> set (window r)" by (auto simp: window_def)
    then have "path_for r k \<noteq> ?path" using window_distinct path_for_inject by blast
    then show ?thesis using ok(6) [OF k'(3)] k' ok(2) path by (simp add: holds_def nth_append nth_butlast)
  qed
  then have "ring_ok ?r' (butlast segs @ [last segs @ [p]])"
    using ok(1-4) bs'(3) path by (simp add: ring_ok_def)
  ultimately show ?thesis by (intro exI [of _ ?r']) simp
qed

lemma write_packet_fine:
  assumes "io_fine io" "ring_ok r segs" "0 < dr_max_bytes r"
  shows "\<exists>r' segs'. write_packet io p r = (Inr (), r') \<and> ring_ok r' segs' \<and> concat segs' = concat segs @ [p]
    \<and> dr_max_bytes r' = dr_max_bytes r"
proof -
  have joined: "concat (butlast ss @ [last ss @ [p]]) = concat ss @ [p]" if "ss \<noteq> []" for ss :: "packet_record list list"
    using that by (induction ss rule: rev_induct) simp_all
  have ne: "segs \<noteq> []" using assms(2) by (auto simp: ring_ok_def)
  show ?thesis
  proof (cases "dr_current_bytes r < dr_max_bytes r")
    case True
    show ?thesis using write_block_fine [OF assms(1,2) True, of p] joined [OF ne] by blast
  next
    case False
    obtain r1 where r1: "ring_rotate io r = (Inr (), r1)" "ring_ok r1 (segs @ [[]])" "dr_current_bytes r1 = 0"
      "dr_max_bytes r1 = dr_max_bytes r"
      using rotate_fine [OF assms(1), of r segs] assms(2) by (auto simp: ring_ok_def)
    have less: "dr_current_bytes r1 < dr_max_bytes r1" using r1(3,4) assms(3) by simp
    have "write_packet io p r = write_packet io p r1"
      using False less by (simp add: write_packet_def r1(1))
    then show ?thesis using write_block_fine [OF assms(1) r1(2) less, of p] r1(4)
      by (auto intro!: exI [of _ "segs @ [[p]]"])
  qed
qed

fun ring_run :: "(ring_io \<times> packet_record) list \<Rightarrow> disk_ring \<Rightarrow> disk_ring option" where
  "ring_run [] r = Some r"
| "ring_run ((io, p) # ops) r =
     (case write_packet io p r of (Inl _, _) \<Rightarrow> None | (Inr _, r) \<Rightarrow> ring_run ops r)"

lemma ring_run_fine:
  assumes "\<forall>(io, p) \<in> set ops. io_fine io" "ring_ok r segs" "0 < dr_max_bytes r"
  shows "\<exists>r' segs'. ring_run ops r = Some r' \<and> ring_ok r' segs' \<and> concat segs' = concat segs @ map snd ops"
  using assms
proof (induction ops arbitrary: r segs)
  case (Cons op ops)
  obtain io p where op: "op = (io, p)" by (cases op)
  obtain r1 segs1 where r1: "write_packet io p r = (Inr (), r1)" "ring_ok r1 segs1" "concat segs1 = concat segs @ [p]"
    "dr_max_bytes r1 = dr_max_bytes r"
    using write_packet_fine [of io r segs p] Cons.prems op by auto
  with Cons.IH [of r1 segs1] Cons.prems op show ?case by simp
qed auto

text \<open>
  C18: The ring on disk refines the list of all packets: as long as the file system refuses
  nothing, every write succeeds, and the files of the last \<open>max_files\<close> rotations each hold a
  readable section with an interface and exactly the packets of their rotation, in order; the
  rotations together are the packets written.
\<close>

theorem ring_refines_log:
  assumes "io_fine io" "\<forall>(io, p) \<in> set ops. io_fine io" "ring_new files prefix max_mb max_files io = (Inr (), r)"
  shows "\<exists>r' segs. ring_run ops r = Some r' \<and> concat segs = map snd ops \<and>
    length segs = dr_current_idx r' \<and> (\<forall>k \<in> set (window r'). holds r' k (segs ! k))"
proof -
  let ?r = "\<lparr>dr_prefix = prefix, dr_max_bytes = max max_mb 1 * 1024 * 1024, dr_max_files = max max_files 1,
    dr_current_idx = 0, dr_current_bytes = 0, dr_writer = None, dr_wrote_iface = False, dr_files = files\<rparr>"
  have "ring_ok r [[]] \<and> dr_max_bytes r = dr_max_bytes ?r"
    using rotate_fine [OF assms(1), of ?r "[]"] assms(3) by (auto simp: ring_new_def window_def)
  moreover have "0 < dr_max_bytes ?r" by simp
  ultimately have "ring_ok r [[]]" "0 < dr_max_bytes r" by (simp_all only:)
  from ring_run_fine [OF assms(2) this] show ?thesis by (auto simp: ring_ok_def)
qed

theorem ring_refines_log_witness:
  "\<exists>io r r' segs. ring_new Map.empty ''cap'' 1 2 io = (Inr (), r) \<and>
     ring_run [(io, raw_record [1] LtEthernet), (io, raw_record [2] LtEthernet)] r = Some r' \<and>
     concat segs = [raw_record [1] LtEthernet, raw_record [2] LtEthernet] \<and>
     (\<forall>k \<in> set (window r'). holds r' k (segs ! k))"
proof -
  let ?io = "\<lparr>io_create = True, io_writer = True, io_section = True, io_iface = True, io_packet = Some 2000000\<rparr>"
  obtain r where r: "ring_new Map.empty ''cap'' 1 2 ?io = (Inr (), r)"
    by (auto simp: ring_new_def ring_rotate_def Let_def)
  from ring_refines_log [OF _ _ r, of "[(?io, raw_record [1] LtEthernet), (?io, raw_record [2] LtEthernet)]"]
  show ?thesis using r by (auto simp: io_fine_def)
qed

end
