(* ===== verification/Rpcap.thy ===== *)
theory Rpcap
  imports Packet
begin

text \<open>
  The remote capture client (\<open>src/src/capture/rpcap.rs\<close>): message framing, the opening
  exchange and the polling of the data connection.  A connection is the bytes that have arrived
  and not been read; a read that finds too few of them takes them all and fails, which is what
  \<open>read_exact\<close> does on the socket.  Connecting and the socket options are external.
\<close>

section \<open>Messages\<close>

definition msg_error :: u8 where "msg_error = 1"
definition msg_findallif_req :: u8 where "msg_findallif_req = 2"
definition msg_open_req :: u8 where "msg_open_req = 3"
definition msg_startcap_req :: u8 where "msg_startcap_req = 4"
definition msg_packet :: u8 where "msg_packet = 7"
definition msg_close_req :: u8 where "msg_close_req = 9"

record rpcap_header =
  rh_version :: u8
  rh_typ :: u8
  rh_value :: nat
  rh_plen :: nat

definition parse_header :: "bytes \<Rightarrow> rpcap_header option" where
  "parse_header buf =
     (if length buf < 8 then None
      else Some \<lparr>rh_version = buf ! 0, rh_typ = buf ! 1, rh_value = from_be [buf ! 2, buf ! 3],
        rh_plen = from_be [buf ! 4, buf ! 5, buf ! 6, buf ! 7]\<rparr>)"

definition encode_header :: "u8 \<Rightarrow> nat \<Rightarrow> nat \<Rightarrow> bytes" where
  "encode_header typ v plen = [0, typ] @ to_be 2 v @ to_be 4 plen"

definition write_msg :: "u8 \<Rightarrow> nat \<Rightarrow> bytes \<Rightarrow> bytes" where
  "write_msg typ v body = encode_header typ v (length body mod 2 ^ 32) @ (if body \<noteq> [] then body else [])"

text \<open>\<open>open\<close> tells a connection that would block from one at its end.\<close>

datatype io_kind = WouldBlock | UnexpectedEof

datatype rpcap_error = ReadError string io_kind | Bail string

definition read_exact :: "bool \<Rightarrow> string \<Rightarrow> nat \<Rightarrow> bytes \<Rightarrow> (rpcap_error + bytes) \<times> bytes" where
  "read_exact open ctx n input =
     (if length input < n then (Inl (ReadError ctx (if open then WouldBlock else UnexpectedEof)), [])
      else (Inr (take n input), drop n input))"

definition read_msg :: "bool \<Rightarrow> bytes \<Rightarrow> (rpcap_error + rpcap_header \<times> bytes) \<times> bytes" where
  "read_msg open input =
     (case read_exact open ''rpcap read hdr'' 8 input of
        (Inl e, input) \<Rightarrow> (Inl e, input)
      | (Inr hdr, input) \<Rightarrow>
          (case parse_header hdr of
             None \<Rightarrow> (Inl (Bail ''bad rpcap hdr''), input)
           | Some h \<Rightarrow>
               if 16 * 1024 * 1024 < rh_plen h then (Inl (Bail ''rpcap plen too large''), input)
               else
                 (case (if 0 < rh_plen h then read_exact open ''rpcap read body'' (rh_plen h) input else (Inr [], input)) of
                    (Inl e, input) \<Rightarrow> (Inl e, input)
                  | (Inr body, input) \<Rightarrow>
                      if rh_typ h = msg_error
                      then (Inl (Bail (''rpcap error: '' @ from_utf8_lossy body)), input)
                      else (Inr (h, body), input))))"

section \<open>Packets\<close>

record capture_packet =
  cp_data :: bytes
  cp_link_type :: link_type
  cp_interface :: string
  cp_orig_len :: nat

definition whole_frame :: "bytes \<Rightarrow> rpcap_error + capture_packet" where
  "whole_frame body =
     (if body = [] then Inl (Bail ''empty rpcap packet'')
      else Inr \<lparr>cp_data = body, cp_link_type = LtEthernet, cp_interface = ''rpcap'',
        cp_orig_len = length body mod 2 ^ 32\<rparr>)"

definition parse_packet_body :: "bytes \<Rightarrow> rpcap_error + capture_packet" where
  "parse_packet_body body =
     (if 20 \<le> length body then
        let caplen = from_be [body ! 8, body ! 9, body ! 10, body ! 11];
            orig = from_be [body ! 12, body ! 13, body ! 14, body ! 15];
            data_off = 20
        in if data_off + caplen \<le> length body
           then Inr \<lparr>cp_data = take caplen (drop data_off body), cp_link_type = LtEthernet,
             cp_interface = ''rpcap'', cp_orig_len = max orig (caplen mod 2 ^ 32)\<rparr>
           else whole_frame body
      else whole_frame body)"

section \<open>The session\<close>

definition u16_bytes :: "nat \<Rightarrow> bytes" where
  "u16_bytes n = to_be 2 n"

definition startcap_body :: bytes where
  "startcap_body = to_be 4 65535 @ to_be 4 500 @ u16_bytes 0 @ u16_bytes 0"

text \<open>The port for the data connection in the answer to \<open>STARTCAP\<close>.\<close>

definition data_port :: "rpcap_header \<Rightarrow> bytes \<Rightarrow> nat" where
  "data_port start_reply payload =
     (if 6 \<le> length payload then from_be [payload ! 4, payload ! 5]
      else if rh_value start_reply \<noteq> 0 then rh_value start_reply else 0)"

text \<open>
  \<open>RpcapCapture::open\<close> on what the server sends on the control connection: the bytes sent, the
  unread bytes, and the port of a separate data connection, if there is one.
\<close>

definition rpcap_open :: "nat \<Rightarrow> string \<Rightarrow> bytes \<Rightarrow> bytes \<times> (rpcap_error + bytes \<times> nat option)" where
  "rpcap_open port iface input =
     (let open_msg = write_msg msg_open_req 0 (as_bytes iface @ [0]);
          start_msg = write_msg msg_startcap_req 0 startcap_body
      in case read_msg True input of
           (Inl e, _) \<Rightarrow> (open_msg, Inl e)
         | (Inr _, input) \<Rightarrow>
             (case read_msg True input of
                (Inl e, _) \<Rightarrow> (open_msg @ start_msg, Inl e)
              | (Inr (reply, payload), input) \<Rightarrow>
                  (open_msg @ start_msg,
                   Inr (input, let p = data_port reply payload in if 0 < p \<and> p \<noteq> port then Some p else None))))"

definition rpcap_close :: bytes where
  "rpcap_close = write_msg msg_close_req 0 []"

record rpcap_capture =
  rc_iface :: string
  rc_link_type :: link_type

text \<open>The text of an error with its causes (\<open>{e:#}\<close>), without the operating system's part.\<close>

definition mentions_timeout :: "string \<Rightarrow> bool" where
  "mentions_timeout msg \<longleftrightarrow> contains msg ''WouldBlock'' \<or> contains msg ''timed out'' \<or> contains msg ''Timeout''"

fun error_text :: "rpcap_error \<Rightarrow> string" where
  "error_text (ReadError ctx k) = ctx @ '': failed to fill whole buffer''"
| "error_text (Bail msg) = msg"

fun would_block :: "rpcap_error \<Rightarrow> bool" where
  "would_block (ReadError ctx k) = (k = WouldBlock)"
| "would_block (Bail msg) = False"

definition next_packet ::
    "rpcap_capture \<Rightarrow> bool \<Rightarrow> bytes \<Rightarrow> (rpcap_error + capture_packet option) \<times> bytes" where
  "next_packet c open input =
     (case read_msg open input of
        (Inr (h, body), input) \<Rightarrow>
          if rh_typ h = msg_packet \<or> rh_typ h = msg_packet OR 0x80 \<or> body \<noteq> [] then
            (case parse_packet_body body of
               Inl e \<Rightarrow> (Inl e, input)
             | Inr pkt \<Rightarrow> (Inr (Some (pkt\<lparr>cp_interface := rc_iface c, cp_link_type := rc_link_type c\<rparr>)), input))
          else (Inr None, input)
      | (Inl e, input) \<Rightarrow>
          if would_block e then (Inr None, input)
          else if mentions_timeout (error_text e) then (Inr None, input)
          else (Inl e, input))"

section \<open>Framing\<close>

lemma header_roundtrip:
  assumes "v < 2 ^ 16" "n < 2 ^ 32"
  shows "parse_header (encode_header typ v n) = Some \<lparr>rh_version = 0, rh_typ = typ, rh_value = v, rh_plen = n\<rparr>"
proof -
  have v: "from_be (to_be 2 v) = v" and n: "from_be (to_be 4 n) = n" using assms by simp_all
  obtain a b c d e f where ab: "to_be 2 v = [a, b]" "to_be 4 n = [c, d, e, f]"
    by (simp add: to_be_2 to_be_4)
  show ?thesis using v n unfolding ab by (simp add: parse_header_def encode_header_def ab)
qed

lemma length_encode_header [simp]: "length (encode_header typ v n) = 8"
  by (simp add: encode_header_def length_to_be)

text \<open>
  Every message the client writes is read back: any type but the error type, any 16-bit value
  and any body up to the 16 MiB limit, and the bytes behind it stay in the connection.
\<close>

theorem message_roundtrip:
  assumes "typ \<noteq> msg_error" "v < 2 ^ 16" "length body \<le> 16 * 1024 * 1024"
  shows "read_msg open (write_msg typ v body @ rest) =
    (Inr (\<lparr>rh_version = 0, rh_typ = typ, rh_value = v, rh_plen = length body\<rparr>, body), rest)"
proof -
  have small: "length body < 2 ^ 32" using assms(3) by simp
  have "write_msg typ v body = encode_header typ v (length body) @ body"
    using small by (simp add: write_msg_def)
  then show ?thesis
    using assms(1,3) header_roundtrip [OF assms(2) small] by (simp add: read_msg_def read_exact_def)
qed

theorem message_roundtrip_witness:
  "read_msg False (write_msg msg_packet 0 [1, 2, 3] @ [9]) =
     (Inr (\<lparr>rh_version = 0, rh_typ = msg_packet, rh_value = 0, rh_plen = 3\<rparr>, [1, 2, 3]), [9])"
  using message_roundtrip [of msg_packet 0 "[1, 2, 3]" False "[9]"] by (simp add: msg_packet_def msg_error_def)

text \<open>
  A message that has not arrived completely is destroyed by polling: the poll reports that
  there is no packet yet, and the bytes that had arrived are gone, so the rest of the message will
  be read as the start of another one.
\<close>

theorem partial_message_lost:
  assumes "typ \<noteq> msg_error" "v < 2 ^ 16" "length body \<le> 16 * 1024 * 1024" "k < length (write_msg typ v body)"
  shows "next_packet c True (take k (write_msg typ v body)) = (Inr None, [])"
proof (cases "k < 8")
  case True
  then have "length (take k (write_msg typ v body)) < 8" by simp
  then show ?thesis by (simp add: next_packet_def read_msg_def read_exact_def)
next
  case False
  have small: "length body < 2 ^ 32" using assms(3) by simp
  have msg: "write_msg typ v body = encode_header typ v (length body) @ body"
    using small by (simp add: write_msg_def)
  have k: "k - 8 < length body" using assms(4) False by (simp add: msg)
  then have ne: "body \<noteq> []" by auto
  have m: "take k (write_msg typ v body) = encode_header typ v (length body) @ take (k - 8) body"
    using False by (simp add: msg)
  show ?thesis
    unfolding m using k ne assms(3) header_roundtrip [OF assms(2) small]
    by (simp add: next_packet_def read_msg_def read_exact_def min_def)
qed

theorem partial_message_lost_witness:
  "next_packet \<lparr>rc_iface = ''eth0'', rc_link_type = LtEthernet\<rparr> True (take 10 (write_msg msg_packet 0 [1, 2, 3])) = (Inr None, [])"
  by (rule partial_message_lost) (simp_all add: msg_packet_def msg_error_def write_msg_def)

text \<open>A packet with its header of 20 bytes is unwrapped to the captured bytes.\<close>

lemma packet_body_roundtrip:
  assumes "length ts = 8" "length data < 2 ^ 32" "orig < 2 ^ 32"
  shows "parse_packet_body (ts @ to_be 4 (length data) @ to_be 4 orig @ to_be 4 n @ data) =
    Inr \<lparr>cp_data = data, cp_link_type = LtEthernet, cp_interface = ''rpcap'', cp_orig_len = max orig (length data)\<rparr>"
proof -
  have vals: "from_be (to_be 4 (length data)) = length data" "from_be (to_be 4 orig) = orig" using assms(2,3) by simp_all
  obtain a b c d e f g h i j k l where ws: "to_be 4 (length data) = [a, b, c, d]" "to_be 4 orig = [e, f, g, h]"
    "to_be 4 n = [i, j, k, l]" by (simp add: to_be_4)
  show ?thesis using vals assms unfolding ws
    by (simp add: parse_packet_body_def nth_append)
qed

end
