(* ===== verification/Cookies.thy ===== *)
theory Cookies
  imports RustStr
begin

text \<open>
  The cookie jar (\<open>src/src/http/cookies.rs\<close>): matching cookies to a request, taking them from
  a response, and the dates of \<open>Expires\<close>.  The clock is an argument; reading and writing the
  file is serde's.  Arithmetic at a machine type is checked, and overflow is a panic (\<open>None\<close>).
\<close>

section \<open>Checked arithmetic\<close>

definition i32 :: "int \<Rightarrow> int option" where
  "i32 x = (if - (2 ^ 31) \<le> x \<and> x < 2 ^ 31 then Some x else None)"

definition u64_limit :: nat where
  "u64_limit = 18446744073709551615"

text \<open>\<open>as i32\<close> of an unsigned 32-bit value.\<close>

definition wrap_i32 :: "nat \<Rightarrow> int" where
  "wrap_i32 n = (if n < 2 ^ 31 then int n else int n - 2 ^ 32)"

text \<open>\<open>str::parse\<close> at the signed type whose greatest value is \<open>mx\<close>.\<close>

definition parse_int :: "nat \<Rightarrow> string \<Rightarrow> int option" where
  "parse_int mx s =
     (case s of
        c # t \<Rightarrow>
          if c = CHR ''-'' \<and> t \<noteq> []
          then (case parse_digits (mx + 1) 0 t of Inr n \<Rightarrow> Some (- int n) | Inl _ \<Rightarrow> None)
          else (case parse_uint mx s of Inr n \<Rightarrow> Some (int n) | Inl _ \<Rightarrow> None)
      | [] \<Rightarrow> None)"

definition parse_u32 :: "string \<Rightarrow> nat option" where
  "parse_u32 s = (case parse_uint u32_max s of Inr n \<Rightarrow> Some n | Inl _ \<Rightarrow> None)"

section \<open>The jar\<close>

record cookie =
  ck_name :: string
  ck_value :: string
  ck_domain :: string
  ck_path :: string
  ck_secure :: bool
  ck_http_only :: bool
  ck_same_site :: string
  ck_expires_at :: "nat option"

record cookie_jar =
  cj_enabled :: bool
  cj_cookies :: "cookie list"

definition strip_scheme :: "string \<Rightarrow> string option" where
  "strip_scheme url =
     (case strip_prefix url ''https://'' of Some r \<Rightarrow> Some r | None \<Rightarrow> strip_prefix url ''http://'')"

definition url_host :: "string \<Rightarrow> string option" where
  "url_host url = do {
     rest \<leftarrow> strip_scheme url;
     let hostport = hd (split_chr (CHR ''?'') (hd (split_chr (CHR ''/'') rest)));
     Some (to_lower (case strip_prefix hostport ''['' of
         Some inner \<Rightarrow> hd (split_chr (CHR '']'') inner)
       | None \<Rightarrow> (case rsplit_once (CHR '':'') hostport of Some (h, _) \<Rightarrow> h | None \<Rightarrow> hostport))) }"

definition url_path :: "string \<Rightarrow> string" where
  "url_path url =
     (let rest = default_to url (strip_scheme url) in
      case find_sub rest ''/'' of
        None \<Rightarrow> ''/''
      | Some i \<Rightarrow> let p = hd (split_chr (CHR ''?'') (drop i rest)) in if p = [] then ''/'' else p)"

definition trim_dots :: "string \<Rightarrow> string" where
  "trim_dots s = trim_start_matches ''.'' s"

definition domain_matches :: "string \<Rightarrow> string \<Rightarrow> bool" where
  "domain_matches cookie_domain host =
     (let d = to_lower (trim_dots cookie_domain) in host = d \<or> ends_with host (''.'' @ d))"

definition unexpired :: "nat \<Rightarrow> cookie \<Rightarrow> bool" where
  "unexpired now c \<longleftrightarrow> (case ck_expires_at c of None \<Rightarrow> True | Some e \<Rightarrow> \<not> e \<le> now)"

definition sends :: "nat \<Rightarrow> bool \<Rightarrow> string \<Rightarrow> string \<Rightarrow> cookie \<Rightarrow> bool" where
  "sends now is_https host path c \<longleftrightarrow>
     unexpired now c \<and> \<not> (ck_secure c \<and> \<not> is_https) \<and> domain_matches (ck_domain c) host
     \<and> starts_with path (ck_path c)"

definition cookie_pair :: "cookie \<Rightarrow> string" where
  "cookie_pair c = ck_name c @ ''='' @ ck_value c"

definition cookie_header_for :: "nat \<Rightarrow> cookie_jar \<Rightarrow> string \<Rightarrow> string option" where
  "cookie_header_for now jar url =
     (if \<not> cj_enabled jar then None
      else do {
        host \<leftarrow> url_host url;
        let parts = map cookie_pair
          (filter (sends now (starts_with url ''https://'') host (url_path url)) (cj_cookies jar));
        if parts = [] then None else Some (join ''; '' parts) })"

section \<open>Dates\<close>

definition months :: "(string \<times> nat) list" where
  "months = [(''Jan'', 1), (''Feb'', 2), (''Mar'', 3), (''Apr'', 4), (''May'', 5), (''Jun'', 6),
     (''Jul'', 7), (''Aug'', 8), (''Sep'', 9), (''Oct'', 10), (''Nov'', 11), (''Dec'', 12)]"

text \<open>Days since the epoch, in the steps of the source; \<open>div\<close> is \<open>div_euclid\<close>.\<close>

definition civil_days :: "int \<Rightarrow> nat \<Rightarrow> nat \<Rightarrow> int option" where
  "civil_days year month day = do {
     y \<leftarrow> i32 (if month \<le> 2 then year - 1 else year);
     let era = y div 400;
     e400 \<leftarrow> i32 (era * 400);
     yoe \<leftarrow> i32 (y - e400);
     doy \<leftarrow> i32 ((153 * (int month + (if 2 < month then - 3 else 9)) + 2) div 5 + wrap_i32 day);
     doy \<leftarrow> i32 (doy - 1);
     doe \<leftarrow> i32 (yoe * 365 + yoe div 4 - yoe div 100 + doy);
     Some (era * 146097 + doe - 719468) }"

text \<open>
  The outer \<open>None\<close> is a panic, the inner one no date.  The 64-bit products cannot overflow: the
  days are at most \<open>2 ^ 40\<close> in size.
\<close>

definition parse_http_date :: "string \<Rightarrow> nat option option" where
  "parse_http_date s =
     (let parts = split_whitespace s in
      if length parts < 4 then Some None
      else
        let day = parse_u32 (parts ! 1);
            month = map_of months (parts ! 2);
            year = parse_int 2147483647 (parts ! 3);
            tp = split_chr (CHR '':'') (if 4 < length parts then parts ! 4 else ''00:00:00'');
            hour = parse_u32 (tp ! 0);
            minute = (if 1 < length tp then parse_u32 (tp ! 1) else None);
            sec = parse_u32 (if 2 < length tp then tp ! 2 else ''0'')
        in case (day, month, year, hour, minute, sec) of
             (Some day, Some month, Some year, Some hour, Some minute, Some sec) \<Rightarrow> do {
               days \<leftarrow> civil_days year month day;
               let secs = days * 86400 + int hour * 3600 + int minute * 60 + int sec;
               Some (if secs < 0 then None else Some (nat secs)) }
           | _ \<Rightarrow> Some None)"

section \<open>Taking cookies from a response\<close>

definition max_age :: "nat \<Rightarrow> string \<Rightarrow> nat option \<Rightarrow> nat option" where
  "max_age now v old =
     (case parse_int 9223372036854775807 v of
        None \<Rightarrow> old
      | Some secs \<Rightarrow> if secs \<le> 0 then Some (now - 1) else Some (min (now + nat secs) u64_limit))"

definition apply_attr :: "nat \<Rightarrow> string \<Rightarrow> cookie \<Rightarrow> cookie option" where
  "apply_attr now attr0 c =
     (let attr = trim attr0 in
      if eq_ignore_case attr ''secure'' then Some (c\<lparr>ck_secure := True\<rparr>)
      else if eq_ignore_case attr ''httponly'' then Some (c\<lparr>ck_http_only := True\<rparr>)
      else case split_once (CHR ''='') attr of
        None \<Rightarrow> Some c
      | Some (k, v) \<Rightarrow>
          let k = trim k; v = trim v in
          if eq_ignore_case k ''domain'' then Some (c\<lparr>ck_domain := to_lower (trim_dots v)\<rparr>)
          else if eq_ignore_case k ''path'' then Some (c\<lparr>ck_path := v\<rparr>)
          else if eq_ignore_case k ''max-age'' then Some (c\<lparr>ck_expires_at := max_age now v (ck_expires_at c)\<rparr>)
          else if eq_ignore_case k ''expires'' then do {
            ts \<leftarrow> parse_http_date v;
            Some (case ts of None \<Rightarrow> c | Some ts \<Rightarrow> c\<lparr>ck_expires_at := Some ts\<rparr>) }
          else if eq_ignore_case k ''samesite'' then Some (c\<lparr>ck_same_site := v\<rparr>)
          else Some c)"

fun apply_attrs :: "nat \<Rightarrow> string list \<Rightarrow> cookie \<Rightarrow> cookie option" where
  "apply_attrs now [] c = Some c"
| "apply_attrs now (a # as) c = do { c \<leftarrow> apply_attr now a c; apply_attrs now as c }"

definition parse_set_cookie :: "string \<Rightarrow> string \<Rightarrow> string \<Rightarrow> nat \<Rightarrow> cookie option option" where
  "parse_set_cookie raw default_host default_path now =
     (let parts = split_chr (CHR '';'') raw in
      case split_once (CHR ''='') (hd parts) of
        None \<Rightarrow> Some None
      | Some (name, value) \<Rightarrow>
          map_option Some (apply_attrs now (tl parts)
            \<lparr>ck_name = trim name, ck_value = trim value, ck_domain = default_host, ck_path = default_path,
             ck_secure = False, ck_http_only = False, ck_same_site = [], ck_expires_at = None\<rparr>))"

definition expired :: "nat \<Rightarrow> cookie \<Rightarrow> bool" where
  "expired now c \<longleftrightarrow> (case ck_expires_at c of None \<Rightarrow> False | Some e \<Rightarrow> e \<le> now)"

definition put_cookie :: "nat \<Rightarrow> cookie \<Rightarrow> cookie list \<Rightarrow> cookie list" where
  "put_cookie now c cs =
     (let cs = filter (\<lambda>x. \<not> (ck_name x = ck_name c \<and> ck_domain x = ck_domain c)) cs in
      if expired now c then cs else cs @ [c])"

fun store_headers ::
    "nat \<Rightarrow> string \<Rightarrow> string \<Rightarrow> (string \<times> string) list \<Rightarrow> cookie list \<Rightarrow> cookie list option" where
  "store_headers now host path [] cs = Some cs"
| "store_headers now host path ((k, v) # hs) cs =
     (if \<not> eq_ignore_case k ''set-cookie'' then store_headers now host path hs cs
      else do {
        c \<leftarrow> parse_set_cookie v host path now;
        store_headers now host path hs (case c of None \<Rightarrow> cs | Some c \<Rightarrow> put_cookie now c cs) })"

definition store_from_response ::
    "nat \<Rightarrow> string \<Rightarrow> (string \<times> string) list \<Rightarrow> cookie_jar \<Rightarrow> cookie_jar option" where
  "store_from_response now url headers jar =
     (if \<not> cj_enabled jar then Some jar
      else do {
        cs \<leftarrow> store_headers now (default_to [] (url_host url)) (url_path url) headers (cj_cookies jar);
        Some (jar\<lparr>cj_cookies := filter (unexpired now) cs\<rparr>) })"

section \<open>The jar's invariant\<close>

text \<open>No two cookies share a name and a domain.\<close>

definition jar_ok :: "cookie list \<Rightarrow> bool" where
  "jar_ok cs \<longleftrightarrow> distinct (map (\<lambda>c. (ck_name c, ck_domain c)) cs)"

lemma jar_ok_filter: "jar_ok cs \<Longrightarrow> jar_ok (filter P cs)"
  by (simp add: jar_ok_def distinct_map_filter)

lemma jar_ok_put: "jar_ok cs \<Longrightarrow> jar_ok (put_cookie now c cs)"
  using jar_ok_filter [of cs "\<lambda>x. \<not> (ck_name x = ck_name c \<and> ck_domain x = ck_domain c)"]
  by (auto simp: put_cookie_def Let_def jar_ok_def)

lemma jar_ok_headers: "store_headers now host path hs cs = Some cs' \<Longrightarrow> jar_ok cs \<Longrightarrow> jar_ok cs'"
  by (induction now host path hs cs rule: store_headers.induct)
    (auto simp: bind_eq_Some_conv jar_ok_put split: if_splits option.splits)

text \<open>
  C24: Taking cookies from a response keeps the jar in order: there is at most one cookie for a
  name and a domain, and every cookie kept is still valid at that time.
\<close>

theorem jar_invariant:
  assumes "store_from_response now url headers jar = Some jar'" "cj_enabled jar" "jar_ok (cj_cookies jar)"
  shows "jar_ok (cj_cookies jar') \<and> (\<forall>c \<in> set (cj_cookies jar'). unexpired now c)"
  using assms jar_ok_headers jar_ok_filter
  by (fastforce simp: store_from_response_def bind_eq_Some_conv)

definition deep_jar :: cookie_jar where
  "deep_jar = \<lparr>cj_enabled = True, cj_cookies =
     [\<lparr>ck_name = ''a'', ck_value = ''1'', ck_domain = ''h'', ck_path = ''/'', ck_secure = False,
       ck_http_only = False, ck_same_site = [], ck_expires_at = Some 5\<rparr>]\<rparr>"

theorem jar_invariant_witness:
  "let jar' = the (store_from_response 3 ''http://h/x'' [(''Set-Cookie'', ''a=2'')] deep_jar)
   in jar_ok (cj_cookies jar') \<and> (\<forall>c \<in> set (cj_cookies jar'). unexpired 3 c)"
proof -
  have "store_from_response 3 ''http://h/x'' [(''Set-Cookie'', ''a=2'')] deep_jar \<noteq> None" by code_simp
  moreover have "cj_enabled deep_jar" "jar_ok (cj_cookies deep_jar)" by code_simp+
  ultimately show ?thesis using jar_invariant unfolding Let_def by fastforce
qed

section \<open>The calendar\<close>

text \<open>The calendar, counted year by year and month by month.\<close>

definition leap :: "nat \<Rightarrow> bool" where
  "leap y \<longleftrightarrow> 4 dvd y \<and> (\<not> 100 dvd y \<or> 400 dvd y)"

definition month_length :: "nat \<Rightarrow> nat \<Rightarrow> nat" where
  "month_length y m = (if m = 2 then if leap y then 29 else 28 else if m \<in> {4, 6, 9, 11} then 30 else 31)"

definition year_length :: "nat \<Rightarrow> nat" where
  "year_length y = (if leap y then 366 else 365)"

definition calendar_days :: "nat \<Rightarrow> nat \<Rightarrow> nat \<Rightarrow> nat" where
  "calendar_days y m d = (\<Sum>k \<leftarrow> [1970..<y]. year_length k) + (\<Sum>k \<leftarrow> [1..<m]. month_length y k) + (d - 1)"

definition leap_count :: "nat \<Rightarrow> int" where
  "leap_count n = int (n div 4) - int (n div 100) + int (n div 400)"

lemma hundreds: "(100::nat) dvd 400" "(4::nat) dvd 100"
  by (rule dvdI [of _ _ 4], simp, rule dvdI [of _ _ 25], simp)

lemma leap_count_Suc: "leap_count (Suc n) = leap_count n + (if leap (Suc n) then 1 else 0)"
proof -
  have d: "Suc n div k = n div k + (if k dvd Suc n then 1 else 0)" for k
    by (simp add: div_Suc dvd_eq_mod_eq_0)
  have c: "400 dvd Suc n \<longrightarrow> 100 dvd Suc n" "100 dvd Suc n \<longrightarrow> 4 dvd Suc n"
    by (intro impI, erule dvd_trans [OF hundreds(1)]) (intro impI, erule dvd_trans [OF hundreds(2)])
  have sum: "int (x + (if A then 1 else 0)) - int (y + (if B then 1 else 0)) + int (z + (if C then 1 else 0)) =
      int x - int y + int z + (if A \<and> (\<not> B \<or> C) then 1 else 0)"
    if "C \<longrightarrow> B" "B \<longrightarrow> A" for x y z A B C
    using that by (cases A; cases B; cases C) simp_all
  show ?thesis unfolding leap_count_def leap_def d by (rule sum [OF c])
qed

lemma years_sum: "1970 \<le> y \<Longrightarrow> int (\<Sum>k \<leftarrow> [1970..<y]. year_length k) = 365 * int y - 719050 + leap_count (y - 1) - 477"
proof (induction y rule: nat_induct_at_least)
  case base
  then show ?case by (simp add: leap_count_def)
next
  case (Suc n)
  then obtain k where "n = Suc k" by (cases n) auto
  with Suc show ?case using leap_count_Suc [of k] by (simp add: year_length_def)
qed

lemma era_form:
  fixes y :: nat
  shows "int y div 400 * 146097 + ((int y - int y div 400 * 400) * 365 + (int y - int y div 400 * 400) div 4 -
     (int y - int y div 400 * 400) div 100) = 365 * int y + leap_count y"
proof -
  define e r where "e = y div 400" "r = y mod 400"
  then have y: "y = 400 * e + r" "r < 400" by simp_all
  have e: "int y div 400 = int e" by (simp add: e_r_def zdiv_int)
  have "int y - int e * 400 = int r" using y(1) by simp
  moreover have "y div 4 = 100 * e + r div 4" "y div 100 = 4 * e + r div 100" "y div 400 = e" using y by simp_all
  ultimately show ?thesis using y(1) unfolding e by (simp add: leap_count_def zdiv_int)
qed

lemma i32_small: "\<bar>x\<bar> < 2 ^ 31 \<Longrightarrow> i32 x = Some x"
  by (auto simp: i32_def)

lemma civil_days_eq:
  assumes "y < 2 ^ 31" "1 \<le> d" "d \<le> 31" "1 \<le> m" "m \<le> 12" "y' = (if m \<le> 2 then y - 1 else y)" "1 \<le> y"
  shows "civil_days (int y) m d =
    Some (365 * int y' + leap_count y' + (153 * (int m + (if 2 < m then - 3 else 9)) + 2) div 5 + int d - 1 - 719468)"
proof -
  let ?p = "(153 * (int m + (if 2 < m then - 3 else 9)) + 2) div 5"
  have y: "(if m \<le> 2 then int y - 1 else int y) = int y'" using assms(6,7) by simp
  have y2: "y' < 2 ^ 31" using assms(1,6) by auto
  have e: "int y' div 400 * 400 \<le> int y'" "0 \<le> int y' div 400 * 400" by simp_all
  have yoe: "0 \<le> int y' - int y' div 400 * 400" "int y' - int y' div 400 * 400 < 400"
    by (simp_all add: minus_div_mult_eq_mod)
  have p: "0 \<le> ?p" "?p \<le> 337" using assms(4,5) by (auto simp: zdiv_mono1)
  have "\<bar>int y'\<bar> < 2 ^ 31" "\<bar>int y' div 400 * 400\<bar> < 2 ^ 31" "\<bar>int y' - int y' div 400 * 400\<bar> < 2 ^ 31"
    using y2 e yoe by simp_all
  note small = i32_small [OF this(1)] i32_small [OF this(2)] i32_small [OF this(3)]
  have w: "wrap_i32 d = int d" using assms(3) by (simp add: wrap_i32_def)
  have "\<bar>?p + int d\<bar> < 2 ^ 31" "\<bar>?p + int d - 1\<bar> < 2 ^ 31" using p assms(2,3) by simp_all
  note small2 = i32_small [OF this(1)] i32_small [OF this(2)]
  define z where "z = int y' - int y' div 400 * 400"
  have "\<bar>z * 365 + z div 4 - z div 100 + (?p + int d - 1)\<bar> < 2 ^ 31"
    using yoe p assms(2,3) unfolding z_def [symmetric] by simp
  note small3 = i32_small [OF this]
  show ?thesis
    using era_form [of y'] small3
    by (simp only: civil_days_def y small w small2 Let_def bind.bind_lunit z_def) simp
qed

lemma civil_days_eq_calendar:
  assumes "1970 \<le> y" "y < 2 ^ 31" "1 \<le> m" "m \<le> 12" "1 \<le> d" "d \<le> 31"
  shows "civil_days (int y) m d = Some (int (calendar_days y m d))"
proof -
  obtain k where k: "y = Suc k" using assms(1) by (cases y) auto
  have ms: "m \<in> {1, 2, 3, 4, 5, 6, 7, 8, 9, 10, 11, 12}" using assms(3,4) unfolding insert_iff empty_iff by presburger
  have "int (\<Sum>k \<leftarrow> [1..<m]. month_length y k) + 365 * int y - 719050 + leap_count (y - 1) - 477 =
      365 * int (if m \<le> 2 then y - 1 else y) + leap_count (if m \<le> 2 then y - 1 else y)
      + (153 * (int m + (if 2 < m then - 3 else 9)) + 2) div 5 - 719468"
    using ms leap_count_Suc [of k] unfolding k
    by (elim insertE emptyE) (simp_all add: month_length_def upt_conv_Cons)
  then show ?thesis
    using civil_days_eq [OF assms(2) assms(5,6,3,4) refl] assms(1,5) years_sum [OF assms(1)]
    by (simp add: calendar_days_def of_nat_diff)
qed

text \<open>The date of an \<open>Expires\<close> attribute, as RFC 7231 writes it.\<close>

definition imf_date :: "string \<Rightarrow> nat \<Rightarrow> string \<Rightarrow> nat \<Rightarrow> nat \<Rightarrow> nat \<Rightarrow> nat \<Rightarrow> string" where
  "imf_date wd d mon y hh mi ss =
     join '' '' [wd @ '','', pad0 2 (dec d), mon, pad0 4 (dec y),
       join '':'' [pad0 2 (dec hh), pad0 2 (dec mi), pad0 2 (dec ss)], ''GMT'']"

lemma padded:
  "list_all graphic (pad0 w (dec n))" "CHR '':'' \<notin> set (pad0 w (dec n))" "pad0 w (dec n) \<noteq> []"
proof -
  have "c \<in> set (pad0 w (dec n)) \<Longrightarrow> c = CHR ''0'' \<or> c \<in> set (dec n)" for c
    by (auto simp: pad0_def)
  then have c: "c \<in> set (pad0 w (dec n)) \<Longrightarrow> graphic c \<and> c \<noteq> CHR '':''" for c
    using dec_chars [of c n] by (fastforce simp: graphic_def)
  show "list_all graphic (pad0 w (dec n))" "CHR '':'' \<notin> set (pad0 w (dec n))"
    using c by (auto simp: list_all_iff)
  show "pad0 w (dec n) \<noteq> []" by (auto simp: pad0_def dec_def)
qed

lemma parse_int_pad0:
  assumes "n \<le> mx"
  shows "parse_int mx (pad0 w (dec n)) = Some (int n)"
proof -
  have "CHR ''-'' \<notin> set (pad0 w (dec n))" using dec_chars by (fastforce simp: pad0_def)
  then show ?thesis using parse_uint_pad0 [OF assms, of w] padded(3) [of w n]
    by (auto simp: parse_int_def split: list.splits)
qed

lemma month_names:
  "list_all (\<lambda>(s, m). s \<noteq> [] \<and> list_all graphic s \<and> map_of months s = Some m \<and> 1 \<le> m \<and> m \<le> 12) months"
  by code_simp

text \<open>
  The date of an Expires attribute is read as the seconds from the epoch to it, counted on the
  calendar day by day, leap years included.
\<close>

theorem expires_date:
  assumes "list_all graphic wd" "(mon, m) \<in> set months" "1970 \<le> y" "y < 2 ^ 31" "1 \<le> d" "d \<le> 31"
    "hh < 24" "mi < 60" "ss < 60"
  shows "parse_http_date (imf_date wd d mon y hh mi ss) =
    Some (Some (86400 * calendar_days y m d + 3600 * hh + 60 * mi + ss))"
proof -
  let ?time = "join '':'' [pad0 2 (dec hh), pad0 2 (dec mi), pad0 2 (dec ss)]"
  let ?ws = "[wd @ '','', pad0 2 (dec d), mon, pad0 4 (dec y), ?time, ''GMT'']"
  have mon: "mon \<noteq> [] \<and> list_all graphic mon \<and> map_of months mon = Some m \<and> 1 \<le> m \<and> m \<le> 12"
    using assms(2) month_names by (auto simp: list_all_iff)
  have "list_all graphic '':'' \<and> list_all graphic ''GMT'' \<and> list_all graphic '',''" by (simp add: graphic_def)
  then have "list_all (\<lambda>w. w \<noteq> [] \<and> list_all graphic w) ?ws"
    using assms(1) mon padded by simp
  then have ws: "split_whitespace (imf_date wd d mon y hh mi ss) = ?ws"
    unfolding imf_date_def by (rule split_words)
  have tp: "split_chr (CHR '':'') ?time = [pad0 2 (dec hh), pad0 2 (dec mi), pad0 2 (dec ss)]"
    by (rule split_chr_join) (simp_all add: padded)
  have year: "parse_int 2147483647 (pad0 4 (dec y)) = Some (int y)"
    using assms(4) by (intro parse_int_pad0) simp
  have u32: "parse_u32 (pad0 2 (dec n)) = Some n" if "n < 60" for n
    using that parse_uint_pad0 [of n u32_max 2] by (simp add: parse_u32_def u32_max_def)
  have days: "civil_days (int y) m d = Some (int (calendar_days y m d))"
    using mon assms by (intro civil_days_eq_calendar) auto
  show ?thesis unfolding parse_http_date_def ws Let_def
    using mon assms by (simp add: tp year u32 days del: join.simps)
qed

theorem expires_date_witness:
  "parse_http_date (imf_date ''Tue'' 29 ''Feb'' 1972 0 0 1) = Some (Some (86400 * 789 + 1))"
proof -
  have "calendar_days 1972 2 29 = 789"
    by (simp add: calendar_days_def upt_conv_Cons year_length_def month_length_def leap_def)
  moreover have "list_all graphic ''Tue''" "(''Feb'', 2) \<in> set months" by code_simp+
  ultimately show ?thesis using expires_date [of "''Tue''" "''Feb''" 2 1972 29 0 0 1] by simp
qed

section \<open>Whose cookies are sent where\<close>

text \<open>Lower-case words that mean nothing to the URL and cookie parsers.\<close>

definition plain_word :: "string \<Rightarrow> bool" where
  "plain_word s \<longleftrightarrow> s \<noteq> [] \<and> hd s \<noteq> CHR ''.'' \<and>
     list_all (\<lambda>c. graphic c \<and> lower_chr c = c \<and> c \<notin> set ''/?:[];='') s"

lemma plain_lower: "plain_word s \<Longrightarrow> to_lower s = s"
  unfolding to_lower_def plain_word_def list_all_iff by (intro map_idI) blast

lemma plain_trim: "plain_word s \<Longrightarrow> trim s = s"
  unfolding plain_word_def list_all_iff by (intro trim_graphic; elim conjE) (blast intro: hd_in_set last_in_set)+

lemma plain_dots: "plain_word s \<Longrightarrow> trim_dots s = s"
  by (cases s) (auto simp: plain_word_def trim_dots_def trim_start_matches.simps starts_with_def)

lemma plain_chars: "plain_word s \<Longrightarrow> c \<in> set ''/?:[];='' \<Longrightarrow> c \<notin> set s"
  by (auto simp: plain_word_def list_all_iff)

lemma plain_url:
  assumes "plain_word h"
  shows "url_host (''http://'' @ h @ ''/'') = Some h" "url_path (''http://'' @ h @ ''/'') = ''/''"
proof -
  have s: "strip_scheme (''http://'' @ h @ ''/'') = Some (h @ ''/'')"
    by (simp add: strip_scheme_def strip_prefix_def starts_with_def)
  have c: "CHR ''/'' \<notin> set h" "CHR ''?'' \<notin> set h" "CHR '':'' \<notin> set h" "CHR ''['' \<notin> set h"
    using assms plain_chars by auto
  have "strip_prefix h ''['' = None"
    using c(4) by (cases h) (auto simp: strip_prefix_def starts_with_def)
  moreover have "rsplit_once (CHR '':'') h = None"
    using c(3) by (simp add: rsplit_once_def split_once_def find_sub_chr_none)
  ultimately show "url_host (''http://'' @ h @ ''/'') = Some h"
    using c plain_lower [OF assms]
    by (simp add: url_host_def s split_chr_append split_chr_none del: append.simps)
  show "url_path (''http://'' @ h @ ''/'') = ''/''"
    using c by (simp add: url_path_def s [simplified] default_to_def find_sub_chr)
qed

lemma domain_attr:
  assumes "plain_word d"
  shows "apply_attr now (CHR '' '' # ''Domain='' @ d) c = Some (c\<lparr>ck_domain := d\<rparr>)"
proof -
  have "graphic (last (''Domain='' @ d))" "graphic (CHR ''D'')"
    using assms by (auto simp: plain_word_def list_all_iff graphic_def)
  then have t: "trim (CHR '' '' # ''Domain='' @ d) = ''Domain='' @ d"
    unfolding trim_space by (intro trim_graphic) simp_all
  have k: "trim ''Domain'' = ''Domain''" by (rule trim_graphic) (simp_all add: graphic_def)
  have "split_once (CHR ''='') (''Domain'' @ CHR ''='' # d) = Some (''Domain'', d)"
    by (rule split_once_chr) simp
  then have o: "split_once (CHR ''='') (''Domain='' @ d) = Some (''Domain'', d)" by simp
  have ne: "\<not> eq_ignore_case (''Domain='' @ d) ''secure''" "\<not> eq_ignore_case (''Domain='' @ d) ''httponly''"
    by (simp_all add: eq_ignore_case_def to_lower_def lower_chr_def)
  have e: "eq_ignore_case ''Domain'' ''domain''" by code_simp
  show ?thesis
    unfolding apply_attr_def t Let_def o
    using ne e by (simp add: k plain_trim [OF assms] plain_dots [OF assms] plain_lower [OF assms])
qed

lemma path_attr: "apply_attr now '' Path=/'' c = Some (c\<lparr>ck_path := ''/''\<rparr>)"
proof -
  have "trim '' Path=/'' = ''Path=/''" "trim ''Path'' = ''Path''" "trim ''/'' = ''/''"
    "split_once (CHR ''='') ''Path=/'' = Some (''Path'', ''/'')"
    "\<not> eq_ignore_case ''Path=/'' ''secure''" "\<not> eq_ignore_case ''Path=/'' ''httponly''"
    "\<not> eq_ignore_case ''Path'' ''domain''" "eq_ignore_case ''Path'' ''path''"
    by code_simp+
  then show ?thesis by (simp add: apply_attr_def Let_def)
qed

text \<open>
  The Domain attribute is not checked against the host that sets the cookie: a response from
  one host plants a cookie that is sent to any other host it names.
\<close>

theorem cookie_domain_unchecked:
  assumes "plain_word h" "plain_word d" "plain_word n" "plain_word v"
  shows "\<exists>jar. store_from_response now (''http://'' @ h @ ''/'')
      [(''Set-Cookie'', n @ ''='' @ v @ ''; Domain='' @ d @ ''; Path=/'')] \<lparr>cj_enabled = True, cj_cookies = []\<rparr> = Some jar \<and>
    cookie_header_for later jar (''http://'' @ d @ ''/'') = Some (n @ ''='' @ v)"
proof -
  let ?raw = "n @ ''='' @ v @ ''; Domain='' @ d @ ''; Path=/''"
  let ?c = "\<lparr>ck_name = n, ck_value = v, ck_domain = d, ck_path = ''/'', ck_secure = False,
    ck_http_only = False, ck_same_site = [], ck_expires_at = None\<rparr>"
  have "split_chr (CHR '';'') (join '';'' [n @ ''='' @ v, CHR '' '' # ''Domain='' @ d, '' Path=/'']) =
      [n @ ''='' @ v, CHR '' '' # ''Domain='' @ d, '' Path=/'']"
    using assms plain_chars by (intro split_chr_join) auto
  then have parts: "split_chr (CHR '';'') ?raw = [n @ ''='' @ v, CHR '' '' # ''Domain='' @ d, '' Path=/'']"
    by simp
  have nv: "split_once (CHR ''='') (n @ ''='' @ v) = Some (n, v)"
    using split_once_chr [of "CHR ''=''" n v] assms(3) plain_chars by simp
  have "parse_set_cookie ?raw h ''/'' now = Some (Some ?c)"
    unfolding parse_set_cookie_def parts Let_def
    using domain_attr [OF assms(2)] path_attr
    by (simp add: nv [simplified] plain_trim [OF assms(3)] plain_trim [OF assms(4)])
  moreover have "eq_ignore_case ''Set-Cookie'' ''set-cookie''" by code_simp
  ultimately have "store_headers now h ''/'' [(''Set-Cookie'', ?raw)] [] = Some [?c]"
    by (simp add: put_cookie_def expired_def)
  then have "store_from_response now (''http://'' @ h @ ''/'') [(''Set-Cookie'', ?raw)] \<lparr>cj_enabled = True, cj_cookies = []\<rparr> =
      Some \<lparr>cj_enabled = True, cj_cookies = [?c]\<rparr>"
    by (simp add: store_from_response_def plain_url [OF assms(1), simplified] default_to_def unexpired_def)
  moreover have "sends later False d ''/'' ?c"
    by (simp add: sends_def unexpired_def domain_matches_def plain_dots plain_lower assms(2) starts_with_def)
  then have "cookie_header_for later \<lparr>cj_enabled = True, cj_cookies = [?c]\<rparr> (''http://'' @ d @ ''/'') = Some (n @ ''='' @ v)"
    by (simp add: cookie_header_for_def plain_url [OF assms(2), simplified] starts_with_def cookie_pair_def)
  ultimately show ?thesis by blast
qed

theorem cookie_domain_unchecked_witness:
  "\<exists>jar. store_from_response 7 (''http://'' @ ''ads.test'' @ ''/'')
      [(''Set-Cookie'', ''sid'' @ ''='' @ ''x1'' @ ''; Domain='' @ ''bank.test'' @ ''; Path=/'')]
      \<lparr>cj_enabled = True, cj_cookies = []\<rparr> = Some jar \<and>
    cookie_header_for 9 jar (''http://'' @ ''bank.test'' @ ''/'') = Some (''sid'' @ ''='' @ ''x1'')"
  by (rule cookie_domain_unchecked) code_simp+

end
