(* ===== verification/Mitm.thy ===== *)
theory Mitm
  imports RustStr
begin

text \<open>
  Reading the server name out of a ClientHello (\<open>src/src/tls_mitm.rs\<close>) and the intercepting
  proxy's first steps with it (\<open>src/src/session/proxy.rs\<close>): \<open>read_client_hello\<close> and the stream
  that replays what was read.  Certificates are minted by a library.  The outer \<open>option\<close> is a
  panic.
\<close>

section \<open>The server name\<close>

function sni_names :: "bytes \<Rightarrow> nat \<Rightarrow> string option option" where
  "sni_names data i =
     (if i + 3 \<le> length data then do {
        name_type \<leftarrow> idx data i;
        hi \<leftarrow> idx data (i + 1);
        lo \<leftarrow> idx data (i + 2);
        let j = i + 3; name_len = from_be [hi, lo] in
          if length data < j + name_len then Some None
          else if name_type = 0 then do {
            name \<leftarrow> slice data j (j + name_len);
            Some (from_utf8 name) }
          else sni_names data (j + name_len) }
      else Some None)"
  by pat_completeness auto
termination
  by (relation "measure (\<lambda>(data, i). length data - i)") auto

definition parse_server_name_extension :: "bytes \<Rightarrow> string option option" where
  "parse_server_name_extension data = (if length data < 5 then Some None else sni_names data 2)"

function sni_extensions :: "bytes \<Rightarrow> nat \<Rightarrow> nat \<Rightarrow> string option option" where
  "sni_extensions payload end_off i =
     (if i + 4 \<le> end_off then do {
        t1 \<leftarrow> idx payload i;
        t2 \<leftarrow> idx payload (i + 1);
        l1 \<leftarrow> idx payload (i + 2);
        l2 \<leftarrow> idx payload (i + 3);
        let j = i + 4; len = from_be [l1, l2] in
          if end_off < j + len then Some None
          else if from_be [t1, t2] = 0 then do {
            ext \<leftarrow> slice payload j (j + len);
            parse_server_name_extension ext }
          else sni_extensions payload end_off (j + len) }
      else Some None)"
  by pat_completeness auto
termination
  by (relation "measure (\<lambda>(payload, e, i). e - i)") auto

declare sni_names.simps [simp del] sni_extensions.simps [simp del]

text \<open>The handshake message, without its record header when there is one.\<close>

definition hello_payload :: "bytes \<Rightarrow> bytes option option" where
  "hello_payload data =
     (if 5 \<le> length data \<and> data ! 0 = 0x16 then
        let len = from_be [data ! 3, data ! 4] in
        if length data < 5 + len then Some None
        else do { p \<leftarrow> slice data 5 (5 + len); Some (Some p) }
      else Some (Some data))"

definition parse_hello :: "bytes \<Rightarrow> string option option" where
  "parse_hello payload =
     (if (payload = [] \<or> hd payload \<noteq> 0x01) \<or> length payload < 38 then Some None
      else let i = 4 + 2 + 32 in
        if length payload \<le> i then Some None
        else do {
          session_len \<leftarrow> idx payload i;
          let i = i + (1 + unat session_len) in
          if length payload < i + 2 then Some None
          else do {
            c1 \<leftarrow> idx payload i;
            c2 \<leftarrow> idx payload (i + 1);
            let i = i + (2 + from_be [c1, c2]) in
            if length payload \<le> i then Some None
            else do {
              comp_len \<leftarrow> idx payload i;
              let i = i + (1 + unat comp_len) in
              if length payload < i + 2 then Some None
              else do {
                e1 \<leftarrow> idx payload i;
                e2 \<leftarrow> idx payload (i + 1);
                let i = i + 2; end_off = min (i + from_be [e1, e2]) (length payload) in
                sni_extensions payload end_off i } } } })"

definition parse_sni_from_client_hello :: "bytes \<Rightarrow> string option option" where
  "parse_sni_from_client_hello data = do {
     payload \<leftarrow> hello_payload data;
     case payload of None \<Rightarrow> Some None | Some payload \<Rightarrow> parse_hello payload }"

section \<open>The first record and its replay\<close>

datatype hello_error = HelloEof | NotHandshake u8

text \<open>\<open>read_exact\<close> on a blocking stream; what remains of the stream is returned with the hello.\<close>

definition read_client_hello :: "bytes \<Rightarrow> hello_error + bytes \<times> bytes" where
  "read_client_hello stream =
     (if length stream < 5 then Inl HelloEof
      else let header = take 5 stream; rest = drop 5 stream in
        if header ! 0 \<noteq> 0x16 then Inl (NotHandshake (header ! 0))
        else let len = from_be [header ! 3, header ! 4] in
          if length rest < len then Inl HelloEof
          else Inr (header @ take len rest, drop len rest))"

record prefixed_tcp =
  pt_prefix :: bytes
  pt_inner :: bytes

text \<open>\<open>poll_read\<close> with \<open>n\<close> bytes of room; \<open>k\<close> bytes are ready on the inner stream.\<close>

definition poll_read :: "nat \<Rightarrow> nat \<Rightarrow> prefixed_tcp \<Rightarrow> bytes \<times> prefixed_tcp" where
  "poll_read n k s =
     (if pt_prefix s \<noteq> [] then
        let n = min n (length (pt_prefix s)) in
        (take n (pt_prefix s), s\<lparr>pt_prefix := drop n (pt_prefix s)\<rparr>)
      else let n = min n k in (take n (pt_inner s), s\<lparr>pt_inner := drop n (pt_inner s)\<rparr>))"

definition sni_or :: "string \<Rightarrow> bytes \<Rightarrow> string option" where
  "sni_or up_host hello = map_option (default_to up_host) (parse_sni_from_client_hello hello)"

section \<open>No panic\<close>

lemma sni_names_total: "\<exists>r. sni_names data i = Some r"
proof (induction data i rule: sni_names.induct)
  case (1 data i)
  then show ?case by (subst sni_names.simps) (auto simp: Let_def)
qed

lemma sni_extensions_total: "e \<le> length payload \<Longrightarrow> \<exists>r. sni_extensions payload e i = Some r"
proof (induction payload e i rule: sni_extensions.induct)
  case (1 payload e i)
  then show ?case
    by (subst sni_extensions.simps) (auto simp: Let_def parse_server_name_extension_def sni_names_total)
qed

lemma hello_payload_total: "\<exists>r. hello_payload data = Some r"
  by (simp add: hello_payload_def Let_def)

lemma parse_hello_total: "\<exists>r. parse_hello payload = Some r"
  by (auto simp: parse_hello_def Let_def sni_extensions_total)

text \<open>
  Looking for the server name in what a client sent never panics, whatever the bytes are.
\<close>

theorem sni_total: "parse_sni_from_client_hello data \<noteq> None"
  using hello_payload_total [of data] parse_hello_total
  by (auto simp: parse_sni_from_client_hello_def split: option.splits)

section \<open>Reading back a hello\<close>

definition tls_ext :: "nat \<times> bytes \<Rightarrow> bytes" where
  "tls_ext e = (case e of (t, body) \<Rightarrow> to_be 2 t @ to_be 2 (length body) @ body)"

definition server_name :: "bytes \<Rightarrow> nat \<times> bytes" where
  "server_name host = (0, to_be 2 (length host + 3) @ [0] @ to_be 2 (length host) @ host)"

definition client_hello :: "bytes \<Rightarrow> bytes \<Rightarrow> bytes \<Rightarrow> bytes \<Rightarrow> bytes \<Rightarrow> (nat \<times> bytes) list \<Rightarrow> bytes" where
  "client_hello len3 version_random sid ciphers comps exts =
     (let es = concat (map tls_ext exts) in
      [1] @ len3 @ version_random @ [word_of_nat (length sid)] @ sid @ to_be 2 (length ciphers) @ ciphers
      @ [word_of_nat (length comps)] @ comps @ to_be 2 (length es) @ es)"

definition hello_record :: "bytes \<Rightarrow> bytes \<Rightarrow> bytes" where
  "hello_record version hs = [0x16] @ version @ to_be 2 (length hs) @ hs"

lemma be2E:
  assumes "n < 65536"
  obtains a b where "to_be 2 n = [a, b]" "from_be [a, b] = n"
  using assms from_be_to_be [of 2 n] that unfolding to_be_2 by simp

lemma sni_names_found:
  assumes "length h < 65536"
  shows "sni_names (p @ [0] @ to_be 2 (length h) @ h @ q) (length p) = Some (from_utf8 h)"
proof -
  obtain a b where "to_be 2 (length h) = [a, b]" "from_be [a, b] = length h" using be2E [OF assms] .
  then show ?thesis by (subst sni_names.simps) (simp add: nth_append)
qed

lemma server_name_found:
  assumes "length h < 65536" "snd (server_name h) = body"
  shows "parse_server_name_extension body = Some (from_utf8 h)"
proof -
  have "\<not> length body < 5" using assms(2) by (auto simp: server_name_def)
  then show ?thesis
    using sni_names_found [OF assms(1), of "to_be 2 (length h + 3)" "[]"] assms(2)
    by (simp add: parse_server_name_extension_def server_name_def)
qed

lemma ext_step:
  assumes "t < 65536" "length body < 65536" "length p + 4 + length body \<le> e" "e \<le> length (p @ tls_ext (t, body) @ q)"
  shows "sni_extensions (p @ tls_ext (t, body) @ q) e (length p) =
    (if t = 0 then parse_server_name_extension body
     else sni_extensions (p @ tls_ext (t, body) @ q) e (length p + 4 + length body))"
proof -
  obtain a b where t: "to_be 2 t = [a, b]" "from_be [a, b] = t" using be2E [OF assms(1)] .
  obtain c d where l: "to_be 2 (length body) = [c, d]" "from_be [c, d] = length body" using be2E [OF assms(2)] .
  have x: "p @ tls_ext (t, body) @ q = p @ [a, b, c, d] @ body @ q" by (simp add: tls_ext_def t l)
  show ?thesis
    using assms(3,4) t(2) l(2) unfolding x
    by (subst sni_extensions.simps) (simp add: nth_append)
qed

lemma exts_found:
  assumes "\<forall>(t, b) \<in> set pre. t \<noteq> 0 \<and> t < 65536 \<and> length b < 65536" "length h + 5 < 65536"
    "e = length (p @ concat (map tls_ext (pre @ server_name h # post)))"
  shows "sni_extensions (p @ concat (map tls_ext (pre @ server_name h # post))) e (length p) = Some (from_utf8 h)"
  using assms
proof (induction pre arbitrary: p)
  case Nil
  obtain body where b: "server_name h = (0, body)" "length body = length h + 5" by (simp add: server_name_def)
  then show ?case
    using Nil server_name_found [of h body] ext_step [of 0 body p e "concat (map tls_ext post)"]
    by (auto simp: tls_ext_def [of "(0, body)"])
next
  case (Cons x pre)
  obtain t body where x: "x = (t, body)" by (cases x)
  let ?q = "concat (map tls_ext (pre @ server_name h # post))"
  have l: "length (tls_ext (t, body)) = 4 + length body" by (simp add: tls_ext_def)
  then have e: "e = length ((p @ tls_ext (t, body)) @ ?q)" using Cons.prems(3) by (simp add: x)
  have "sni_extensions (p @ tls_ext (t, body) @ ?q) e (length p) =
      sni_extensions (p @ tls_ext (t, body) @ ?q) e (length p + 4 + length body)"
    using Cons.prems(1) l e by (subst ext_step) (simp_all add: x)
  moreover have "length p + 4 + length body = length (p @ tls_ext (t, body))" by (simp add: l)
  ultimately show ?case using Cons.IH [OF _ Cons.prems(2) e] Cons.prems(1) by (simp add: x)
qed

lemma at: "xs = p @ x # q \<Longrightarrow> length p = i \<Longrightarrow> xs ! i = x"
  by auto

lemma parse_hello_found:
  assumes "length len3 = 3" "length version_random = 34" "length sid < 256" "length ciphers < 65536"
    "length comps < 256" "\<forall>(t, b) \<in> set pre. t \<noteq> 0 \<and> t < 65536 \<and> length b < 65536" "length h + 5 < 65536"
    "length (concat (map tls_ext (pre @ server_name h # post))) < 65536"
  shows "parse_hello (client_hello len3 version_random sid ciphers comps (pre @ server_name h # post)) = Some (from_utf8 h)"
proof -
  define es where "es = concat (map tls_ext (pre @ server_name h # post))"
  define hs where "hs = client_hello len3 version_random sid ciphers comps (pre @ server_name h # post)"
  obtain c1 c2 where c: "to_be 2 (length ciphers) = [c1, c2]" "from_be [c1, c2] = length ciphers" using be2E [OF assms(4)] .
  obtain e1 e2 where e: "to_be 2 (length es) = [e1, e2]" "from_be [e1, e2] = length es"
    using be2E [OF assms(8)] unfolding es_def .
  let ?a = "[1] @ len3 @ version_random" let ?b = "?a @ [word_of_nat (length sid)] @ sid"
  let ?c = "?b @ [c1, c2] @ ciphers" let ?d = "?c @ [word_of_nat (length comps)] @ comps"
  have hs: "hs = ?d @ [e1, e2] @ es"
    unfolding hs_def client_hello_def Let_def es_def [symmetric] by (simp add: c e)
  have la: "length ?a = 38" using assms(1,2) by simp
  define i2 where "i2 = 39 + length sid" define i3 where "i3 = i2 + 2 + length ciphers"
  define i4 where "i4 = i3 + 1 + length comps"
  have len: "length hs = i4 + 2 + length es" using la by (simp add: hs i2_def i3_def i4_def)
  have n: "hs ! 38 = word_of_nat (length sid)" "hs ! i2 = c1" "hs ! Suc i2 = c2" "hs ! i3 = word_of_nat (length comps)"
    "hs ! i4 = e1" "hs ! Suc i4 = e2"
    using la unfolding hs i2_def i3_def i4_def
    by - (rule at [of _ ?a], simp, simp, rule at [of _ ?b], simp, simp, rule at [of _ "?b @ [c1]"], simp, simp,
      rule at [of _ ?c], simp, simp, rule at [of _ ?d], simp, simp, rule at [of _ "?d @ [e1]"], simp, simp)
  have "sni_extensions (?d @ [e1, e2] @ es) (length hs) (length (?d @ [e1, e2])) = Some (from_utf8 h)"
    using exts_found [OF assms(6,7), of "length hs" "?d @ [e1, e2]" post] unfolding hs es_def by simp
  moreover have "length (?d @ [e1, e2]) = i4 + 2" using la by (simp add: i2_def i3_def i4_def)
  ultimately have x: "sni_extensions hs (length hs) (i4 + 2) = Some (from_utf8 h)" using hs by simp
  have h1: "hs \<noteq> []" "hd hs = 1" by (simp_all add: hs)
  have sid: "unat (word_of_nat (length sid) :: u8) = length sid" "unat (word_of_nat (length comps) :: u8) = length comps"
    using assms(3,5) by simp_all
  have i: "38 + (1 + length sid) = i2" "i2 + (2 + length ciphers) = i3" "i3 + (1 + length comps) = i4"
    by (simp_all add: i2_def i3_def i4_def)
  have k: "((hs = [] \<or> hd hs \<noteq> 0x01) \<or> length hs < 38) = False" "(length hs \<le> 38) = False"
    "(length hs < i2 + 2) = False" "(length hs \<le> i3) = False" "(length hs < i4 + 2) = False"
    "min (i4 + 2 + length es) (length hs) = length hs"
    using h1 by (simp_all add: len i2_def i3_def i4_def)
  have d: "idx hs 38 = Some (word_of_nat (length sid))" "idx hs i2 = Some c1" "idx hs (i2 + 1) = Some c2"
    "idx hs i3 = Some (word_of_nat (length comps))" "idx hs i4 = Some e1" "idx hs (i4 + 1) = Some e2"
    using n by (simp_all add: idx_def len i2_def i3_def i4_def)
  have six: "(4 + 2 + 32 :: nat) = 38" by simp
  show ?thesis
    unfolding hs_def [symmetric] parse_hello_def
    by (simp only: six Let_def k d bind.bind_lunit if_False sid i c(2) e(2) x)
qed

text \<open>
  C13: The server name of a ClientHello is found: in a record that carries a hello with any session
  id, cipher suites and compression methods, and any extensions before and after, the name in its
  server name extension is returned.
\<close>

theorem sni_roundtrip:
  assumes "length len3 = 3" "length version_random = 34" "length sid < 256" "length ciphers < 65536"
    "length comps < 256" "\<forall>(t, b) \<in> set pre. t \<noteq> 0 \<and> t < 65536 \<and> length b < 65536" "length h + 5 < 65536"
    "length version = 2"
    "length (client_hello len3 version_random sid ciphers comps (pre @ server_name h # post)) < 65536"
  shows "parse_sni_from_client_hello
      (hello_record version (client_hello len3 version_random sid ciphers comps (pre @ server_name h # post)) @ rest)
    = Some (from_utf8 h)"
proof -
  define hs where "hs = client_hello len3 version_random sid ciphers comps (pre @ server_name h # post)"
  obtain a b where n: "to_be 2 (length hs) = [a, b]" "from_be [a, b] = length hs"
    using be2E [OF assms(9)] unfolding hs_def .
  obtain v w where v: "version = [v, w]" using assms(8) by (auto simp: length_Suc_conv numeral_2_eq_2)
  have "hello_payload (hello_record version hs @ rest) = Some (Some hs)"
    by (simp add: hello_payload_def hello_record_def n v)
  moreover have "length (concat (map tls_ext (pre @ server_name h # post))) < 65536"
    using assms(9) by (simp add: client_hello_def Let_def)
  ultimately show ?thesis
    using parse_hello_found [OF assms(1-7)] by (simp add: parse_sni_from_client_hello_def hs_def)
qed

theorem sni_roundtrip_witness:
  "parse_sni_from_client_hello (hello_record [3, 1]
     (client_hello [0, 0, 60] (replicate 34 7) [] [0, 47] [0] ([(10, [0, 29])] @ server_name [97, 46, 98] # [(16, [])])) @ [23]) =
   Some (Some ''a.b'')"
proof -
  have "from_utf8 [97, 46, 98] = Some ''a.b''"
    by code_simp
  then show ?thesis
    using sni_roundtrip [of "[0, 0, 60]" "replicate 34 7" "[]" "[0, 47]" "[0]" "[(10, [0, 29])]" "[97, 46, 98]" "[3, 1]" "[(16, [])]" "[23]"]
    by (simp add: client_hello_def tls_ext_def server_name_def)
qed

section \<open>What the interceptor sees is what the client sent\<close>

fun reads :: "(nat \<times> nat) list \<Rightarrow> prefixed_tcp \<Rightarrow> bytes \<times> prefixed_tcp" where
  "reads [] s = ([], s)"
| "reads ((n, k) # rs) s = (let (got, s) = poll_read n k s; (more, s) = reads rs s in (got @ more, s))"

lemma reads_conserve: "reads rs s = (got, s') \<Longrightarrow> got @ pt_prefix s' @ pt_inner s' = pt_prefix s @ pt_inner s"
proof (induction rs arbitrary: s got)
  case (Cons r rs)
  obtain n k where "r = (n, k)" by (cases r)
  with Cons show ?case
    by (auto simp: poll_read_def Let_def split: prod.splits if_splits)
qed simp

text \<open>
  C14: Peeking at the hello does not disturb the connection: however its bytes are read after that,
  what has been read and what is left are together the client's stream, from its first byte on.
\<close>

theorem hello_replayed:
  assumes "read_client_hello stream = Inr (hello, rest)" "reads rs \<lparr>pt_prefix = hello, pt_inner = rest\<rparr> = (got, s)"
  shows "got @ pt_prefix s @ pt_inner s = stream"
proof -
  define len where "len = from_be [stream ! 3, stream ! 4]"
  have "hello = take 5 stream @ take len (drop 5 stream) \<and> rest = drop len (drop 5 stream)"
    using assms(1) unfolding len_def by (simp add: read_client_hello_def Let_def split: if_splits)
  then have "hello @ rest = stream" by (simp only: append_assoc append_take_drop_id)
  then show ?thesis using reads_conserve [OF assms(2)] by simp
qed

theorem hello_replayed_witness:
  "fst (reads [(2, 0), (9, 0), (9, 1)] \<lparr>pt_prefix = [0x16, 3, 1, 0, 1, 7], pt_inner = [8, 9]\<rparr>) = [0x16, 3, 1, 0, 1, 7, 8]"
proof -
  have "read_client_hello [0x16, 3, 1, 0, 1, 7, 8, 9] = Inr ([0x16, 3, 1, 0, 1, 7], [8, 9])"
    "reads [(2, 0), (9, 0), (9, 1)] \<lparr>pt_prefix = [0x16, 3, 1, 0, 1, 7], pt_inner = [8, 9]\<rparr> =
      ([0x16, 3, 1, 0, 1, 7, 8], \<lparr>pt_prefix = [], pt_inner = [9]\<rparr>)"
    by code_simp+
  from hello_replayed [OF this] this(2) show ?thesis by simp
qed

end
