(* ===== verification/Assembler.thy ===== *)
theory Assembler
  imports RustStr
begin

text \<open>
  Finding HTTP/1.1 messages in intercepted plaintext (\<open>Http1Assembler\<close> of
  \<open>src/src/session/proxy.rs\<close>).  \<open>checked\<close> tells a build with overflow checks, where an overflow
  is a panic (\<open>None\<close>), from one where the sum wraps.
\<close>

section \<open>The assembler\<close>

record http_msg =
  hm_tag :: string
  hm_body :: bytes

record assembler =
  as_buf :: bytes
  as_request :: bool

definition assembler_new :: "bool \<Rightarrow> assembler" where
  "assembler_new is_request = \<lparr>as_buf = [], as_request = is_request\<rparr>"

definition add_usize :: "bool \<Rightarrow> nat \<Rightarrow> nat \<Rightarrow> nat option" where
  "add_usize checked a b =
     (if a + b \<le> usize_max then Some (a + b)
      else if checked then None else Some ((a + b) mod 2 ^ 64))"

definition crlf2 :: bytes where
  "crlf2 = [13, 10, 13, 10]"

definition head_sep :: "bytes \<Rightarrow> nat option" where
  "head_sep buf = (case find_sub buf crlf2 of Some i \<Rightarrow> Some i | None \<Rightarrow> find_sub buf [10, 10])"

definition content_length :: "string list \<Rightarrow> nat option" where
  "content_length ls =
     fold (\<lambda>line acc. case split_once (CHR '':'') line of
         None \<Rightarrow> acc
       | Some (k, v) \<Rightarrow>
           if eq_ignore_case k ''content-length''
           then (case parse_uint usize_max (trim v) of Inr n \<Rightarrow> Some n | Inl _ \<Rightarrow> None)
           else acc) (drop 1 ls) None"

definition msg_tag :: "bool \<Rightarrow> string \<Rightarrow> string" where
  "msg_tag is_request first =
     (if is_request then
        let parts = split_whitespace first in
        ''HTTP '' @ (case parts of [] \<Rightarrow> ''REQ'' | m # _ \<Rightarrow> m) @ '' '' @ (case parts of _ # p # _ \<Rightarrow> p | _ \<Rightarrow> ''/'')
      else ''HTTP '' @ first)"

text \<open>The outer \<open>option\<close> is a panic, the inner one \<open>try_pop\<close>'s own.\<close>

definition try_pop :: "bool \<Rightarrow> assembler \<Rightarrow> (http_msg \<times> assembler) option option" where
  "try_pop checked a =
     (let buf = as_buf a in
      case head_sep buf of
        None \<Rightarrow> Some None
      | Some sep \<Rightarrow>
          let sep_len = (if starts_with (drop sep buf) crlf2 then 4 else 2);
              ls = str_lines (from_utf8_lossy (take sep buf));
              first = trim (case ls of [] \<Rightarrow> [] | l # _ \<Rightarrow> l);
              body_start = sep + sep_len;
              body_len = default_to 0 (content_length ls)
          in do {
            total \<leftarrow> add_usize checked body_start body_len;
            if length buf < total then Some None
            else let frame = take total buf in
              Some (Some (\<lparr>hm_tag = msg_tag (as_request a) first,
                  hm_body = (if 4096 < length frame then take 4096 frame else frame)\<rparr>,
                a\<lparr>as_buf := drop total buf\<rparr>)) })"

text \<open>\<open>None\<close>: the loop panics or never ends.\<close>

partial_function (option) pop_all :: "bool \<Rightarrow> assembler \<Rightarrow> (http_msg list \<times> assembler) option" where
  "pop_all checked a =
     (case try_pop checked a of
        None \<Rightarrow> None
      | Some None \<Rightarrow> Some ([], a)
      | Some (Some (m, a')) \<Rightarrow> Option.bind (pop_all checked a') (\<lambda>(ms, a''). Some (m # ms, a'')))"

definition asm_push :: "bool \<Rightarrow> bytes \<Rightarrow> assembler \<Rightarrow> (http_msg list \<times> assembler) option" where
  "asm_push checked chunk a = pop_all checked (a\<lparr>as_buf := as_buf a @ chunk\<rparr>)"

fun asm_pushes :: "bool \<Rightarrow> bytes list \<Rightarrow> assembler \<Rightarrow> (http_msg list \<times> assembler) option" where
  "asm_pushes checked [] a = Some ([], a)"
| "asm_pushes checked (c # cs) a = do {
     (ms, a) \<leftarrow> asm_push checked c a;
     (ms', a) \<leftarrow> asm_pushes checked cs a;
     Some (ms @ ms', a) }"

section \<open>Well-formed messages\<close>

definition line_ok :: "string \<Rightarrow> bool" where
  "line_ok l \<longleftrightarrow> l \<noteq> [] \<and> list_all (\<lambda>c. graphic c \<or> c = CHR '' '') l"

definition header_line :: "string \<times> string \<Rightarrow> string" where
  "header_line h = fst h @ '': '' @ snd h"

definition head_text :: "string \<Rightarrow> (string \<times> string) list \<Rightarrow> string" where
  "head_text first hs = join [CHR 13, CHR 10] (first # map header_line hs)"

definition http_message :: "string \<times> (string \<times> string) list \<times> bytes \<Rightarrow> bytes" where
  "http_message m = (case m of (first, hs, body) \<Rightarrow> as_bytes (head_text first hs) @ crlf2 @ body)"

text \<open>A body is announced by one Content-Length header; without one there is none.\<close>

definition announces :: "(string \<times> string) list \<Rightarrow> nat \<Rightarrow> bool" where
  "announces hs n \<longleftrightarrow>
     (let ls = map snd (filter (\<lambda>(k, v). eq_ignore_case k ''content-length'') hs) in
      if ls = [] then n = 0 else ls = [dec n])"

definition message_ok :: "string \<times> (string \<times> string) list \<times> bytes \<Rightarrow> bool" where
  "message_ok m = (case m of (first, hs, body) \<Rightarrow>
     line_ok first \<and> list_all (\<lambda>(k, v). line_ok (header_line (k, v)) \<and> CHR '':'' \<notin> set k) hs \<and>
     announces hs (length body) \<and> length (http_message m) \<le> usize_max)"

lemma line_ok_chars: "line_ok l \<Longrightarrow> c \<in> set l \<Longrightarrow> graphic c \<or> c = CHR '' ''"
  by (auto simp: line_ok_def list_all_iff)

lemma line_ok_breaks: "line_ok l \<Longrightarrow> CHR 13 \<notin> set l \<and> CHR 10 \<notin> set l"
  using line_ok_chars [of l "CHR 13"] line_ok_chars [of l "CHR 10"] by (auto simp: graphic_def)

lemma join_cons: "ls \<noteq> [] \<Longrightarrow> join sep (l # ls) = l @ sep @ join sep ls"
  by (cases ls) simp_all

lemma split_crlf:
  assumes "list_all line_ok ls" "ls \<noteq> []"
  shows "split_chr (CHR 10) (join [CHR 13, CHR 10] ls) = map (\<lambda>l. l @ [CHR 13]) (butlast ls) @ [last ls]"
  using assms
proof (induction ls)
  case (Cons l ls)
  have l: "CHR 10 \<notin> set (l @ [CHR 13])" "CHR 10 \<notin> set l" using Cons.prems line_ok_breaks [of l] by auto
  show ?case
  proof (cases "ls = []")
    case False
    then have "join [CHR 13, CHR 10] (l # ls) = (l @ [CHR 13]) @ CHR 10 # join [CHR 13, CHR 10] ls"
      by (simp add: join_cons)
    then show ?thesis using Cons False split_chr_append [OF l(1)] by simp
  qed (simp add: split_chr_none l)
qed simp

lemma lines_crlf:
  assumes "list_all line_ok ls" "ls \<noteq> []"
  shows "str_lines (join [CHR 13, CHR 10] ls) = ls"
proof -
  have "last ls \<noteq> []" using assms by (cases ls rule: rev_cases) (auto simp: line_ok_def)
  moreover have "map (\<lambda>l. if l \<noteq> [] \<and> last l = CHR 13 then butlast l else l) (map (\<lambda>l. l @ [CHR 13]) (butlast ls)) = butlast ls"
    by (simp add: map_idI)
  ultimately show ?thesis using assms(2) by (simp add: str_lines_def split_crlf [OF assms])
qed

section \<open>The end of a head\<close>

lemma line_bytes: "line_ok l \<Longrightarrow> 13 \<notin> set (as_bytes l) \<and> 10 \<notin> set (as_bytes l)"
proof -
  assume l: "line_ok l"
  have "byte_of_chr c \<noteq> 13 \<and> byte_of_chr c \<noteq> 10" if "c \<in> set l" for c
  proof -
    have "c \<noteq> CHR 13" "c \<noteq> CHR 10" using line_ok_breaks [OF l] that by auto
    moreover have "chr_of_byte 13 = CHR 13" "chr_of_byte 10 = CHR 10" by code_simp+
    ultimately show ?thesis using byte_of_chr_inverse [of c] by metis
  qed
  then show ?thesis by (auto simp: as_bytes_def)
qed

lemma join_bytes_start:
  assumes "list_all line_ok ls" "ls \<noteq> []"
  obtains b bs where "as_bytes (join [CHR 13, CHR 10] ls) = b # bs" "b \<noteq> 13" "b \<noteq> 10"
proof -
  obtain l ls' where ls: "ls = l # ls'" using assms(2) by (cases ls) auto
  obtain c cs where l: "l = c # cs" using assms(1) by (cases l) (auto simp: ls line_ok_def)
  have "as_bytes (join [CHR 13, CHR 10] ls) = byte_of_chr c # as_bytes (cs @ (if ls' = [] then [] else [CHR 13, CHR 10] @ join [CHR 13, CHR 10] ls'))"
    by (simp add: ls l join_cons as_bytes_def)
  moreover have "byte_of_chr c \<noteq> 13" "byte_of_chr c \<noteq> 10"
    using assms(1) line_bytes [of l] by (auto simp: ls l as_bytes_def)
  ultimately show thesis by (rule that)
qed

lemma crlf_bytes: "byte_of_chr (CHR 13) = 13" "byte_of_chr (CHR 10) = 10"
  by code_simp+

lemma sep_found:
  assumes "list_all line_ok ls" "ls \<noteq> []"
  shows "find_sub (as_bytes (join [CHR 13, CHR 10] ls) @ crlf2 @ x) crlf2 = Some (length (join [CHR 13, CHR 10] ls))"
  using assms
proof (induction ls)
  case (Cons l ls)
  have l: "13 \<notin> set (as_bytes l)" using Cons.prems line_bytes [of l] by simp
  note skip = find_sub_skip [OF l, of _ "[10, 13, 10]", folded crlf2_def]
  show ?case
  proof (cases "ls = []")
    case True
    then show ?thesis by (simp add: skip) (simp add: crlf2_def starts_with_def)
  next
    case False
    then obtain b bs where b: "as_bytes (join [CHR 13, CHR 10] ls) = b # bs" "b \<noteq> 13" "b \<noteq> 10"
      using Cons.prems join_bytes_start [of ls] by auto
    have "find_sub ([13, 10] @ (b # bs) @ crlf2 @ x) crlf2 = map_option (Suc \<circ> Suc) (find_sub ((b # bs) @ crlf2 @ x) crlf2)"
      using b(2) by (simp add: crlf2_def starts_with_def option.map_comp comp_assoc)
    then have "find_sub ([13, 10] @ as_bytes (join [CHR 13, CHR 10] ls) @ crlf2 @ x) crlf2 = Some (Suc (Suc (length (join [CHR 13, CHR 10] ls))))"
      using Cons False unfolding b(1) [symmetric] by (simp del: find_sub.simps)
    then show ?thesis using False by (simp add: join_cons crlf_bytes skip del: find_sub.simps)
  qed
qed simp

lemma no_lf2:
  assumes "list_all line_ok ls" "ls \<noteq> []"
  shows "find_sub (as_bytes (join [CHR 13, CHR 10] ls) @ crlf2) [10, 10] = None"
  using assms
proof (induction ls)
  case (Cons l ls)
  have l: "10 \<notin> set (as_bytes l)" using Cons.prems line_bytes [of l] by simp
  note skip = find_sub_skip [OF l, of _ "[10]"]
  show ?case
  proof (cases "ls = []")
    case True
    then show ?thesis by (simp add: skip) (simp add: crlf2_def starts_with_def)
  next
    case False
    then obtain b bs where b: "as_bytes (join [CHR 13, CHR 10] ls) = b # bs" "b \<noteq> 13" "b \<noteq> 10"
      using Cons.prems join_bytes_start [of ls] by auto
    have "find_sub ([13, 10] @ (b # bs) @ crlf2) [10, 10] = map_option (Suc \<circ> Suc) (find_sub ((b # bs) @ crlf2) [10, 10])"
      using b(3) by (simp add: starts_with_def option.map_comp comp_assoc)
    then have "find_sub ([13, 10] @ as_bytes (join [CHR 13, CHR 10] ls) @ crlf2) [10, 10] = None"
      using Cons False unfolding b(1) [symmetric] by (simp del: find_sub.simps)
    then show ?thesis using False by (simp add: join_cons crlf_bytes skip del: find_sub.simps)
  qed
qed simp

lemma find_sub_take:
  assumes "find_sub (take k s) p = Some i"
  shows "starts_with (drop i s) p" "i + length p \<le> k"
proof -
  have sw: "starts_with (drop i (take k s)) p" "i \<le> length (take k s)" using find_sub_Some [OF assms] by simp_all
  then obtain t where t: "drop i (take k s) = p @ t" by (auto simp: starts_with_iff)
  then have "length (drop i (take k s)) = length p + length t" by simp
  then show "i + length p \<le> k" using sw(2) by (auto simp: min_def split: if_splits)
  have "drop i (take k s) = take (k - i) (drop i s)" by (simp add: drop_take)
  then have "drop i s = p @ t @ drop (k - i) (drop i s)" using t by (metis append_assoc append_take_drop_id)
  then show "starts_with (drop i s) p" by (auto simp: starts_with_iff)
qed

lemma head_not_ended:
  assumes "list_all line_ok ls" "ls \<noteq> []" "k < length (join [CHR 13, CHR 10] ls) + 4"
  shows "head_sep (take k (as_bytes (join [CHR 13, CHR 10] ls) @ crlf2)) = None"
proof -
  let ?h = "as_bytes (join [CHR 13, CHR 10] ls)"
  have "find_sub (take k (?h @ crlf2)) crlf2 = None"
  proof (rule ccontr)
    assume "find_sub (take k (?h @ crlf2)) crlf2 \<noteq> None"
    then obtain i where i: "find_sub (take k (?h @ crlf2)) crlf2 = Some i" by blast
    have "i < length (join [CHR 13, CHR 10] ls)" using find_sub_take(2) [OF i] assms(3) by (simp add: crlf2_def)
    then show False
      using find_sub_take(1) [OF i] find_sub_first sep_found [OF assms(1,2), of "[]"] by (metis append_Nil2)
  qed
  moreover have "find_sub (take k (?h @ crlf2)) [10, 10] = None"
  proof (rule ccontr)
    assume "find_sub (take k (?h @ crlf2)) [10, 10] \<noteq> None"
    then obtain i where i: "find_sub (take k (?h @ crlf2)) [10, 10] = Some i" by blast
    obtain t where "drop i (?h @ crlf2) = [10, 10] @ t" using find_sub_take(1) [OF i] unfolding starts_with_iff ..
    then have "?h @ crlf2 = take i (?h @ crlf2) @ [10, 10] @ t" by (metis append_take_drop_id)
    then have "contains (?h @ crlf2) [10, 10]" unfolding contains_iff by blast
    then show False using no_lf2 [OF assms(1,2)] by (simp add: contains_def)
  qed
  ultimately show ?thesis by (simp add: head_sep_def)
qed

section \<open>Popping well-formed messages\<close>

lemma content_length_lines:
  assumes "list_all (\<lambda>(k, v). CHR '':'' \<notin> set k) hs" "announces hs n" "n \<le> usize_max"
  shows "default_to 0 (content_length (first # map header_line hs)) = n"
proof -
  define f where "f = (\<lambda>line acc. case split_once (CHR '':'') line of None \<Rightarrow> acc | Some (k, v) \<Rightarrow>
      if eq_ignore_case k ''content-length'' then (case parse_uint usize_max (trim v) of Inr n \<Rightarrow> Some n | Inl _ \<Rightarrow> None) else acc)"
  let ?ls = "\<lambda>hs. map snd (filter (\<lambda>(k, v). eq_ignore_case k ''content-length'') hs)"
  have other: "f (header_line (k, v)) acc = acc"
    if "CHR '':'' \<notin> set k" "\<not> eq_ignore_case k ''content-length''" for k v acc
    using split_once_chr [OF that(1), of "'' '' @ v"] that(2) by (simp add: f_def header_line_def)
  have this_line: "f (header_line (k, dec n)) acc = Some n"
    if "CHR '':'' \<notin> set k" "eq_ignore_case k ''content-length''" for k acc
    using split_once_chr [OF that(1), of "'' '' @ dec n"] that(2) parse_uint_dec [OF assms(3)]
    by (simp add: f_def header_line_def trim_space trim_dec)
  have none: "fold f (map header_line hs) acc = acc"
    if "list_all (\<lambda>(k, v). CHR '':'' \<notin> set k) hs" "?ls hs = []" for hs acc
    using that by (induction hs arbitrary: acc) (auto simp: other split: if_splits)
  have one: "fold f (map header_line hs) acc = Some n"
    if "list_all (\<lambda>(k, v). CHR '':'' \<notin> set k) hs" "?ls hs = [dec n]" for hs acc
    using that
  proof (induction hs arbitrary: acc)
    case (Cons h hs)
    obtain k v where h: "h = (k, v)" by (cases h)
    show ?case
    proof (cases "eq_ignore_case k ''content-length''")
      case True
      then have v: "v = dec n" "?ls hs = []" using Cons.prems by (simp_all add: h)
      have "fold f (map header_line hs) (Some n) = Some n" using none [OF _ v(2)] Cons.prems by simp
      then show ?thesis using this_line [OF _ True] Cons.prems by (simp add: h v(1))
    next
      case False
      then show ?thesis using Cons other [OF _ False] by (simp add: h)
    qed
  qed simp
  have "content_length (first # map header_line hs) = fold f (map header_line hs) None"
    by (simp add: content_length_def f_def)
  moreover consider "?ls hs = []" "n = 0" | "?ls hs = [dec n]"
    using assms(2) unfolding announces_def Let_def by presburger
  then have "default_to 0 (fold f (map header_line hs) None) = n"
    by cases (simp_all only: none [OF assms(1)] one [OF assms(1)] default_to_def option.case)
  ultimately show ?thesis by simp
qed

definition popped :: "bool \<Rightarrow> string \<times> (string \<times> string) list \<times> bytes \<Rightarrow> http_msg" where
  "popped req m = \<lparr>hm_tag = msg_tag req (trim (fst m)), hm_body = take 4096 (http_message m)\<rparr>"

lemma line_ok_ascii: "line_ok l \<Longrightarrow> c \<in> set l \<Longrightarrow> (of_char c :: nat) < 128"
  using line_ok_chars [of l c] by (auto simp: graphic_def)

lemma ascii_head:
  assumes "list_all line_ok ls"
  shows "from_utf8_lossy (as_bytes (join [CHR 13, CHR 10] ls)) = join [CHR 13, CHR 10] ls"
proof -
  have "\<forall>c \<in> set (join [CHR 13, CHR 10] ls). (of_char c :: nat) < 128"
    using assms
  proof (induction "[CHR 13, CHR 10]" ls rule: join.induct)
    case (2 p)
    then show ?case using line_ok_ascii [of p] by auto
  next
    case (3 p q ps)
    then show ?case using line_ok_ascii [of p] by auto
  qed simp
  then have "utf8_valid (as_bytes (join [CHR 13, CHR 10] ls))"
    by (intro utf8_valid_ascii) (auto simp: as_bytes_def byte_of_chr_def)
  then show ?thesis by (simp add: from_utf8_lossy_valid)
qed

lemma pop_message:
  assumes "message_ok m" "as_buf a = http_message m @ rest"
  shows "try_pop ch a = Some (Some (popped (as_request a) m, a\<lparr>as_buf := rest\<rparr>))"
proof -
  obtain first hs body where m: "m = (first, hs, body)" by (cases m)
  let ?ls = "first # map header_line hs"
  let ?h = "join [CHR 13, CHR 10] ?ls"
  have ok: "list_all line_ok ?ls" "list_all (\<lambda>(k, v). CHR '':'' \<notin> set k) hs" "announces hs (length body)"
    "length (http_message m) \<le> usize_max"
    using assms(1) by (auto simp: m message_ok_def list_all_iff)
  have msg: "http_message m = as_bytes ?h @ crlf2 @ body" by (simp add: m http_message_def head_text_def)
  have len: "length (http_message m) = length ?h + 4 + length body" by (simp add: msg crlf2_def)
  have sep: "head_sep (as_buf a) = Some (length ?h)"
    using sep_found [OF ok(1), of "body @ rest"] by (simp add: head_sep_def assms(2) msg)
  have "default_to 0 (content_length ?ls) = length body"
    using ok len by (intro content_length_lines) simp_all
  moreover have "str_lines ?h = ?ls" using lines_crlf [OF ok(1)] by simp
  moreover have "take (length ?h) (as_buf a) = as_bytes ?h" by (simp add: assms(2) msg)
  moreover have "starts_with (drop (length ?h) (as_buf a)) crlf2" by (simp add: assms(2) msg)
  moreover have "add_usize ch (length ?h + 4) (length body) = Some (length (http_message m))"
    using ok(4) len by (simp add: add_usize_def)
  moreover have "(length (as_buf a) < length (http_message m)) = False" "take (length (http_message m)) (as_buf a) = http_message m"
    "drop (length (http_message m)) (as_buf a) = rest"
    by (simp_all add: assms(2))
  ultimately show ?thesis
    unfolding try_pop_def Let_def sep option.case
    by (simp only: ascii_head [OF ok(1)] bind.bind_lunit if_True if_False list.case popped_def fst_conv m)
      (simp add: m)
qed

lemma pop_partial:
  assumes "message_ok m" "as_buf a = take k (http_message m)" "k < length (http_message m)"
  shows "try_pop ch a = Some None"
proof -
  obtain first hs body where m: "m = (first, hs, body)" by (cases m)
  let ?ls = "first # map header_line hs"
  let ?h = "join [CHR 13, CHR 10] ?ls"
  have ok: "list_all line_ok ?ls" "list_all (\<lambda>(k, v). CHR '':'' \<notin> set k) hs" "announces hs (length body)"
    "length (http_message m) \<le> usize_max"
    using assms(1) by (auto simp: m message_ok_def list_all_iff)
  have msg: "http_message m = as_bytes ?h @ crlf2 @ body" by (simp add: m http_message_def head_text_def)
  have len: "length (http_message m) = length ?h + 4 + length body" by (simp add: msg crlf2_def)
  have len4: "length crlf2 = 4" by (simp add: crlf2_def)
  show ?thesis
  proof (cases "k < length ?h + 4")
    case True
    have "as_buf a = take k (as_bytes ?h @ crlf2)" using True by (simp add: assms(2) msg len4)
    then show ?thesis using head_not_ended [OF ok(1) _ True] by (simp add: try_pop_def)
  next
    case False
    then have buf: "as_buf a = as_bytes ?h @ crlf2 @ take (k - (length ?h + 4)) body"
      by (simp add: assms(2) msg len4)
    have sep: "head_sep (as_buf a) = Some (length ?h)"
      using sep_found [OF ok(1)] by (simp add: head_sep_def buf)
    have "default_to 0 (content_length ?ls) = length body"
      using ok len by (intro content_length_lines) simp_all
    moreover have "str_lines ?h = ?ls" using lines_crlf [OF ok(1)] by simp
    moreover have "take (length ?h) (as_buf a) = as_bytes ?h" "starts_with (drop (length ?h) (as_buf a)) crlf2"
      by (simp_all add: buf)
    moreover have "length (as_buf a) = k" using assms(2,3) by simp
    ultimately show ?thesis
      using ok(4) ascii_head [OF ok(1)] len assms(3)
      by (simp add: try_pop_def sep add_usize_def Let_def del: join.simps)
  qed
qed

section \<open>Popping from a stream\<close>

lemma message_nonempty: "0 < length (http_message m)"
  by (cases m) (simp add: http_message_def crlf2_def)

lemma pop_all_stream:
  assumes "list_all message_ok ms" "as_buf a @ later = concat (map http_message ms)"
  shows "\<exists>j r. j \<le> length ms \<and> pop_all ch a = Some (map (popped (as_request a)) (take j ms), a\<lparr>as_buf := r\<rparr>) \<and>
    r @ later = concat (map http_message (drop j ms)) \<and> (j < length ms \<longrightarrow> length r < length (http_message (ms ! j)))"
  using assms
proof (induction ms arbitrary: a)
  case Nil
  have "try_pop ch a = Some None" using Nil by (simp add: try_pop_def head_sep_def crlf2_def)
  then have "pop_all ch a = Some ([], a\<lparr>as_buf := []\<rparr>)" using Nil by (simp add: pop_all.simps [of ch a])
  then show ?case using Nil by simp
next
  case (Cons m ms)
  show ?case
  proof (cases "length (as_buf a) < length (http_message m)")
    case True
    have "as_buf a = take (length (as_buf a)) (as_buf a @ later)" by simp
    also have "\<dots> = take (length (as_buf a)) (http_message m)" using Cons.prems(2) True by simp
    finally have "try_pop ch a = Some None" using Cons.prems(1) True by (intro pop_partial [of m]) simp_all
    then have "pop_all ch a = Some ([], a)" by (simp add: pop_all.simps [of ch a])
    then show ?thesis using Cons.prems(2) True by (intro exI [of _ 0] exI [of _ "as_buf a"]) simp
  next
    case False
    let ?n = "length (http_message m)"
    have "take ?n (as_buf a @ later) = http_message m" "drop ?n (as_buf a @ later) = concat (map http_message ms)"
      unfolding Cons.prems(2) by simp_all
    then have t: "take ?n (as_buf a) = http_message m" "drop ?n (as_buf a) @ later = concat (map http_message ms)"
      using False by simp_all
    let ?a = "a\<lparr>as_buf := drop ?n (as_buf a)\<rparr>"
    have "as_buf a = http_message m @ drop ?n (as_buf a)" by (metis t(1) append_take_drop_id)
    then have "try_pop ch a = Some (Some (popped (as_request a) m, ?a))"
      using Cons.prems(1) by (intro pop_message) simp_all
    moreover obtain j r where "j \<le> length ms" "pop_all ch ?a = Some (map (popped (as_request a)) (take j ms), ?a\<lparr>as_buf := r\<rparr>)"
      "r @ later = concat (map http_message (drop j ms))" "j < length ms \<longrightarrow> length r < length (http_message (ms ! j))"
      using Cons.IH [of ?a] Cons.prems(1) t(2) by auto
    ultimately show ?thesis
      by (intro exI [of _ "Suc j"] exI [of _ r]) (simp add: pop_all.simps [of ch a])
  qed
qed

lemma pushes_stream:
  assumes "list_all message_ok ms" "as_buf a @ concat cs = concat (map http_message ms)"
    "ms \<noteq> [] \<longrightarrow> length (as_buf a) < length (http_message (hd ms))"
  shows "asm_pushes ch cs a = Some (map (popped (as_request a)) ms, a\<lparr>as_buf := []\<rparr>)"
  using assms
proof (induction cs arbitrary: a ms)
  case Nil
  then have "ms = []" by (cases ms) auto
  with Nil show ?case by simp
next
  case (Cons c cs)
  let ?a = "a\<lparr>as_buf := as_buf a @ c\<rparr>"
  obtain j r where j: "j \<le> length ms" "pop_all ch ?a = Some (map (popped (as_request a)) (take j ms), ?a\<lparr>as_buf := r\<rparr>)"
    "r @ concat cs = concat (map http_message (drop j ms))" "j < length ms \<longrightarrow> length r < length (http_message (ms ! j))"
    using pop_all_stream [OF Cons.prems(1), of ?a "concat cs" ch] Cons.prems(2) by auto
  have "list_all message_ok (drop j ms)" using Cons.prems(1) by (auto simp: list_all_iff dest: in_set_dropD)
  moreover have "drop j ms \<noteq> [] \<longrightarrow> length r < length (http_message (hd (drop j ms)))"
    using j(4) by (auto simp: hd_drop_conv_nth)
  ultimately have "asm_pushes ch cs (?a\<lparr>as_buf := r\<rparr>) = Some (map (popped (as_request a)) (drop j ms), ?a\<lparr>as_buf := []\<rparr>)"
    using Cons.IH [of "drop j ms" "?a\<lparr>as_buf := r\<rparr>"] j(3) by simp
  then show ?case using j(2) by (simp add: asm_push_def flip: map_append)
qed


definition hello_msg :: "string \<times> (string \<times> string) list \<times> bytes" where
  "hello_msg = (''GET /hi HTTP/1.1'', [(''Host'', ''a''), (''Content-Length'', ''5'')], [104, 101, 108, 108, 111])"


section \<open>A length that overflows\<close>

lemma content_length_last:
  assumes "n \<le> usize_max"
  shows "default_to 0 (content_length [first, header_line (''Content-Length'', dec n)]) = n"
proof -
  have "announces [(''Content-Length'', dec n)] n" by (simp add: announces_def Let_def) code_simp
  then show ?thesis using content_length_lines [of "[(''Content-Length'', dec n)]" n first] assms by simp
qed

lemma wrap_pop:
  assumes "line_ok first" "n \<le> usize_max" "length (head_text first [(''Content-Length'', dec n)]) + 4 + n = 2 ^ 64"
    "as_buf a = as_bytes (head_text first [(''Content-Length'', dec n)]) @ crlf2 @ rest"
  shows "try_pop True a = None"
    "try_pop False a = Some (Some (\<lparr>hm_tag = msg_tag (as_request a) (trim first), hm_body = []\<rparr>, a))"
proof -
  let ?ls = "[first, header_line (''Content-Length'', dec n)]"
  let ?h = "join [CHR 13, CHR 10] ?ls"
  have "list_all (\<lambda>c. graphic c \<or> c = CHR '' '') ''Content-Length: ''" by code_simp
  then have ok: "list_all line_ok ?ls"
    using assms(1) dec_chars by (auto simp: line_ok_def header_line_def list_all_iff)
  have h: "head_text first [(''Content-Length'', dec n)] = ?h" by (simp add: head_text_def)
  have buf: "as_buf a = as_bytes ?h @ crlf2 @ rest" using assms(4) h by simp
  have sep: "head_sep (as_buf a) = Some (length ?h)"
    using sep_found [OF ok] by (simp add: head_sep_def buf)
  have f: "take (length ?h) (as_buf a) = as_bytes ?h" "starts_with (drop (length ?h) (as_buf a)) crlf2"
    "str_lines ?h = ?ls"
    using lines_crlf [OF ok] by (simp_all add: buf)
  have sum: "length ?h + 4 + n = 2 ^ 64" using assms(3) unfolding h .
  then have add: "add_usize True (length ?h + 4) n = None" "add_usize False (length ?h + 4) n = Some 0"
    unfolding add_usize_def sum by (simp_all add: usize_max_def)
  have zero: "(length (as_buf a) < 0) = False" "take 0 (as_buf a) = []" "drop 0 (as_buf a) = as_buf a"
    "(4096 < length ([] :: bytes)) = False" by simp_all
  show "try_pop True a = None"
    unfolding try_pop_def Let_def sep option.case
    by (simp only: f ascii_head [OF ok] if_True content_length_last [OF assms(2)] add bind.bind_lzero)
  show "try_pop False a = Some (Some (\<lparr>hm_tag = msg_tag (as_request a) (trim first), hm_body = []\<rparr>, a))"
    unfolding try_pop_def Let_def sep option.case
    by (simp only: f ascii_head [OF ok] if_True content_length_last [OF assms(2)] add bind.bind_lunit zero if_False list.case) simp
qed

lemma pop_all_stuck: "try_pop ch a = Some (Some (m, a)) \<Longrightarrow> pop_all ch a = None"
proof -
  assume "try_pop ch a = Some (Some (m, a))"
  then have p: "pop_all ch a = Option.bind (pop_all ch a) (\<lambda>(ms, a''). Some (m # ms, a''))"
    by (subst pop_all.simps) simp
  show "pop_all ch a = None"
  proof (rule ccontr)
    assume "pop_all ch a \<noteq> None"
    then obtain ms a'' where x: "pop_all ch a = Some (ms, a'')" by auto
    with p have "ms = m # ms" by simp
    then show False by simp
  qed
qed

text \<open>
  A declared length that carries the message to the end of the address space stops the
  connection: where overflow is checked the task panics, and where it is not the sum wraps to zero,
  an empty frame is popped, the buffer does not shrink and the loop never ends.
\<close>

theorem declared_length_overflows:
  assumes "line_ok first" "n \<le> usize_max" "length (head_text first [(''Content-Length'', dec n)]) + 4 + n = 2 ^ 64"
    "a = (assembler_new req)\<lparr>as_buf := as_bytes (head_text first [(''Content-Length'', dec n)]) @ crlf2 @ rest\<rparr>"
  shows "try_pop True a = None \<and> (\<exists>m. try_pop False a = Some (Some (m, a)) \<and> hm_body m = []) \<and> pop_all False a = None"
proof -
  have "as_buf a = as_bytes (head_text first [(''Content-Length'', dec n)]) @ crlf2 @ rest" by (simp add: assms(4))
  note w = wrap_pop [OF assms(1-3) this]
  show ?thesis using w pop_all_stuck [OF w(2)] by simp
qed

theorem declared_length_overflows_witness:
  "pop_all False ((assembler_new False)\<lparr>as_buf :=
     as_bytes (head_text ''HTTP/1.1 200 OK'' [(''Content-Length'', dec 18446744073709551559)]) @ crlf2 @ []\<rparr>) = None"
proof -
  have "dec 18446744073709551559 = ''18446744073709551559''"
    by (simp add: dec_rec dec_small)
  then have "length (head_text ''HTTP/1.1 200 OK'' [(''Content-Length'', dec 18446744073709551559)]) + 4 + 18446744073709551559 = 2 ^ 64"
    by (simp add: head_text_def header_line_def)
  moreover have "line_ok ''HTTP/1.1 200 OK''" by code_simp
  ultimately show ?thesis
    using declared_length_overflows [where first = "''HTTP/1.1 200 OK''" and n = 18446744073709551559 and req = False and rest = "[]", OF _ _ _ refl]
    by (simp add: usize_max_def)
qed

end
