(* ===== verification/Proxy.thy ===== *)
theory Proxy
  imports Frame Mitm Assembler "HOL-Library.Sublist"
begin

text \<open>
  The intercepting proxy (\<open>src/src/session/proxy.rs\<close>): connection tasks, their two copy loops
  and the injection channel, run concurrently.  A step is what one task does between two waits;
  the order of the steps and what the sockets deliver are free.  A connection's sender is alive
  exactly while \<open>inject\<close> holds it.  \<open>checked\<close> is the assembler's.
\<close>

section \<open>Events of a session\<close>

datatype io_event =
    EvConnected string
  | EvDisconnected string
  | EvFrame direction bytes "string option"
  | EvJoined nat string
  | EvLeft nat
  | EvError string
  | EvStatus string

datatype io_command = CmdSend bytes "nat option" | CmdBroadcast bytes | CmdClose

section \<open>State\<close>

text \<open>Where a copy loop is: before its check of \<open>active\<close>, waiting, or over.\<close>

datatype loop_pc = AtCheck | AtIo | Frozen | Stopped | Crashed

datatype stage = Absent | Accepted | Registered | Connecting | Splicing | Lowered | Cleared | Gone

record conn =
  cn_stage :: stage
  cn_queue :: "bytes list"
  cn_active :: bool
  cn_up :: loop_pc
  cn_down :: loop_pc
  cn_up_asm :: assembler
  cn_down_asm :: assembler
  cn_to_server :: "bytes list"
  cn_to_client :: "bytes list"
  cn_error :: "string option"

record proxy =
  px_http :: bool
  px_conns :: "nat \<Rightarrow> conn"
  px_inject :: "nat option"
  px_live :: bool
  px_commands :: bool
  px_log :: "io_event list"

definition conn_init :: conn where
  "conn_init = \<lparr>cn_stage = Absent, cn_queue = [], cn_active = True, cn_up = AtCheck, cn_down = AtCheck,
     cn_up_asm = assembler_new True, cn_down_asm = assembler_new False, cn_to_server = [], cn_to_client = [],
     cn_error = None\<rparr>"

definition proxy_init :: "bool \<Rightarrow> proxy" where
  "proxy_init http = \<lparr>px_http = http, px_conns = (\<lambda>_. conn_init), px_inject = None, px_live = False,
     px_commands = True, px_log = []\<rparr>"

definition on_conn :: "nat \<Rightarrow> (conn \<Rightarrow> conn) \<Rightarrow> proxy \<Rightarrow> proxy" where
  "on_conn i f s = s\<lparr>px_conns := (px_conns s)(i := f (px_conns s i))\<rparr>"

definition emit :: "io_event list \<Rightarrow> proxy \<Rightarrow> proxy" where
  "emit evs s = s\<lparr>px_log := px_log s @ evs\<rparr>"

section \<open>Steps\<close>

definition up_tag :: string where
  "up_tag = ''C'' @ [CHR 0xE2, CHR 0x86, CHR 0x92] @ ''S''"

definition down_tag :: string where
  "down_tag = ''S'' @ [CHR 0xE2, CHR 0x86, CHR 0x92] @ ''C''"

definition inject_tag :: string where
  "inject_tag = ''inject'' @ [CHR 0xE2, CHR 0x86, CHR 0x92] @ ''up''"

definition shown_frames :: "direction \<Rightarrow> http_msg list \<Rightarrow> io_event list" where
  "shown_frames d ms = map (\<lambda>m. EvFrame d (hm_body m) (Some (hm_tag m))) ms"

text \<open>A loop that has written goes back to its check; one that could not breaks and clears \<open>active\<close>.\<close>

definition up_wrote :: "bool \<Rightarrow> bytes \<Rightarrow> conn \<Rightarrow> conn" where
  "up_wrote ok p c =
     (if ok then c\<lparr>cn_to_server := cn_to_server c @ [p], cn_up := AtCheck\<rparr>
      else c\<lparr>cn_up := Stopped, cn_active := False\<rparr>)"

definition down_wrote :: "bool \<Rightarrow> bytes \<Rightarrow> conn \<Rightarrow> conn" where
  "down_wrote ok p c =
     (if ok then c\<lparr>cn_to_client := cn_to_client c @ [p], cn_down := AtCheck\<rparr>
      else c\<lparr>cn_down := Stopped, cn_active := False\<rparr>)"

definition up_read :: "bool \<Rightarrow> nat \<Rightarrow> bytes \<Rightarrow> bool \<Rightarrow> proxy \<Rightarrow> proxy" where
  "up_read checked i p ok s =
     (if px_http s then
        case asm_push checked p (cn_up_asm (px_conns s i)) of
          None \<Rightarrow> on_conn i (\<lambda>c. c\<lparr>cn_up := Crashed\<rparr>) s
        | Some (ms, a) \<Rightarrow> emit (shown_frames DirOut ms) (on_conn i (\<lambda>c. up_wrote ok p (c\<lparr>cn_up_asm := a\<rparr>)) s)
      else emit [EvFrame DirOut p (Some up_tag)] (on_conn i (up_wrote ok p) s))"

definition down_read :: "bool \<Rightarrow> nat \<Rightarrow> bytes \<Rightarrow> bool \<Rightarrow> proxy \<Rightarrow> proxy" where
  "down_read checked i p ok s =
     (if px_http s then
        case asm_push checked p (cn_down_asm (px_conns s i)) of
          None \<Rightarrow> on_conn i (\<lambda>c. c\<lparr>cn_down := Crashed\<rparr>) s
        | Some (ms, a) \<Rightarrow> emit (shown_frames DirIn ms) (on_conn i (\<lambda>c. down_wrote ok p (c\<lparr>cn_down_asm := a\<rparr>)) s)
      else emit [EvFrame DirIn p (Some down_tag)] (on_conn i (down_wrote ok p) s))"

definition loop_over :: "loop_pc \<Rightarrow> bool" where
  "loop_over pc \<longleftrightarrow> pc = Stopped \<or> pc = Crashed"

text \<open>Every rule is one step of a task; \<open>UpClosed\<close> is the branch of a channel whose sender is gone.\<close>

inductive proxy_step :: "bool \<Rightarrow> proxy \<Rightarrow> proxy \<Rightarrow> bool" for checked where
  Accept: "cn_stage (px_conns s i) = Absent \<Longrightarrow>
    proxy_step checked s (emit [EvJoined 1 peer] (on_conn i (\<lambda>c. c\<lparr>cn_stage := Accepted\<rparr>) s))"
| Register: "cn_stage (px_conns s i) = Accepted \<Longrightarrow>
    proxy_step checked s ((on_conn i (\<lambda>c. c\<lparr>cn_stage := Registered\<rparr>) s)\<lparr>px_inject := Some i\<rparr>)"
| Raise: "cn_stage (px_conns s i) = Registered \<Longrightarrow>
    proxy_step checked s ((on_conn i (\<lambda>c. c\<lparr>cn_stage := Connecting\<rparr>) s)\<lparr>px_live := True\<rparr>)"
| Connected: "cn_stage (px_conns s i) = Connecting \<Longrightarrow>
    proxy_step checked s (on_conn i (\<lambda>c. c\<lparr>cn_stage := Splicing\<rparr>) s)"
| ConnectFails: "cn_stage (px_conns s i) = Connecting \<Longrightarrow>
    proxy_step checked s ((on_conn i (\<lambda>c. c\<lparr>cn_stage := Lowered, cn_error := Some e\<rparr>) s)\<lparr>px_live := False\<rparr>)"
| Lower: "cn_stage (px_conns s i) = Splicing \<Longrightarrow> loop_over (cn_up (px_conns s i)) \<Longrightarrow>
    loop_over (cn_down (px_conns s i)) \<Longrightarrow>
    proxy_step checked s ((on_conn i (\<lambda>c. c\<lparr>cn_stage := Lowered\<rparr>) s)\<lparr>px_live := False\<rparr>)"
| Clear: "cn_stage (px_conns s i) = Lowered \<Longrightarrow>
    proxy_step checked s ((on_conn i (\<lambda>c. c\<lparr>cn_stage := Cleared\<rparr>) s)\<lparr>px_inject := None\<rparr>)"
| Leave: "cn_stage (px_conns s i) = Cleared \<Longrightarrow>
    proxy_step checked s (emit ((case cn_error (px_conns s i) of None \<Rightarrow> [] | Some e \<Rightarrow> [EvError e]) @ [EvLeft 1])
      (on_conn i (\<lambda>c. c\<lparr>cn_stage := Gone\<rparr>) s))"
| UpCheck: "cn_stage (px_conns s i) = Splicing \<Longrightarrow> cn_up (px_conns s i) = AtCheck \<Longrightarrow>
    proxy_step checked s (on_conn i (\<lambda>c. if cn_active c then c\<lparr>cn_up := AtIo\<rparr> else c\<lparr>cn_up := Stopped\<rparr>) s)"
| UpInject: "cn_stage (px_conns s i) = Splicing \<Longrightarrow> cn_up (px_conns s i) = AtIo \<Longrightarrow> cn_queue (px_conns s i) = p # q \<Longrightarrow>
    proxy_step checked s (emit [EvFrame DirOut p (Some inject_tag)]
      (on_conn i (\<lambda>c. up_wrote ok p (c\<lparr>cn_queue := q\<rparr>)) s))"
| UpClosed: "cn_stage (px_conns s i) = Splicing \<Longrightarrow> cn_up (px_conns s i) = AtIo \<Longrightarrow> cn_queue (px_conns s i) = [] \<Longrightarrow>
    px_inject s \<noteq> Some i \<Longrightarrow> proxy_step checked s (on_conn i (\<lambda>c. c\<lparr>cn_up := Frozen\<rparr>) s)"
| UpRead: "cn_stage (px_conns s i) = Splicing \<Longrightarrow> cn_up (px_conns s i) = AtIo \<Longrightarrow> cn_queue (px_conns s i) = [] \<Longrightarrow>
    px_inject s = Some i \<Longrightarrow> p \<noteq> [] \<Longrightarrow> length p \<le> 8192 \<Longrightarrow> proxy_step checked s (up_read checked i p ok s)"
| UpEnd: "cn_stage (px_conns s i) = Splicing \<Longrightarrow> cn_up (px_conns s i) = AtIo \<Longrightarrow> cn_queue (px_conns s i) = [] \<Longrightarrow>
    px_inject s = Some i \<Longrightarrow> proxy_step checked s (on_conn i (\<lambda>c. c\<lparr>cn_up := Stopped, cn_active := False\<rparr>) s)"
| DownCheck: "cn_stage (px_conns s i) = Splicing \<Longrightarrow> cn_down (px_conns s i) = AtCheck \<Longrightarrow>
    proxy_step checked s (on_conn i (\<lambda>c. if cn_active c then c\<lparr>cn_down := AtIo\<rparr> else c\<lparr>cn_down := Stopped\<rparr>) s)"
| DownRead: "cn_stage (px_conns s i) = Splicing \<Longrightarrow> cn_down (px_conns s i) = AtIo \<Longrightarrow> p \<noteq> [] \<Longrightarrow> length p \<le> 8192 \<Longrightarrow>
    proxy_step checked s (down_read checked i p ok s)"
| DownEnd: "cn_stage (px_conns s i) = Splicing \<Longrightarrow> cn_down (px_conns s i) = AtIo \<Longrightarrow>
    proxy_step checked s (on_conn i (\<lambda>c. c\<lparr>cn_down := Stopped, cn_active := False\<rparr>) s)"
| Command: "px_commands s \<Longrightarrow> cmd = CmdSend p c \<or> cmd = CmdBroadcast p \<Longrightarrow>
    proxy_step checked s (case px_inject s of None \<Rightarrow> s | Some i \<Rightarrow> on_conn i (\<lambda>c. c\<lparr>cn_queue := cn_queue c @ [p]\<rparr>) s)"
| CommandClose: "px_commands s \<Longrightarrow> proxy_step checked s (s\<lparr>px_commands := False\<rparr>)"

abbreviation proxy_steps :: "bool \<Rightarrow> proxy \<Rightarrow> proxy \<Rightarrow> bool" where
  "proxy_steps checked \<equiv> (proxy_step checked)\<^sup>*\<^sup>*"

lemmas conn_simps = on_conn_def emit_def up_wrote_def down_wrote_def

lemma read_simps [simp]:
  "px_inject (up_read ch i p ok s) = px_inject s" "px_inject (down_read ch i p ok s) = px_inject s"
  "px_live (up_read ch i p ok s) = px_live s" "px_live (down_read ch i p ok s) = px_live s"
  "cn_stage (px_conns (up_read ch i p ok s) j) = cn_stage (px_conns s j)"
  "cn_stage (px_conns (down_read ch i p ok s) j) = cn_stage (px_conns s j)"
  "cn_queue (px_conns (up_read ch i p ok s) j) = cn_queue (px_conns s j)"
  "cn_queue (px_conns (down_read ch i p ok s) j) = cn_queue (px_conns s j)"
  "cn_to_client (px_conns (up_read ch i p ok s) j) = cn_to_client (px_conns s j)"
  "cn_to_server (px_conns (down_read ch i p ok s) j) = cn_to_server (px_conns s j)"
  "cn_down (px_conns (up_read ch i p ok s) j) = cn_down (px_conns s j)"
  "cn_up (px_conns (down_read ch i p ok s) j) = cn_up (px_conns s j)"
  by (auto simp: up_read_def down_read_def conn_simps split: option.splits)

lemma read_other:
  "j \<noteq> i \<Longrightarrow> px_conns (up_read ch i p ok s) j = px_conns s j"
  "j \<noteq> i \<Longrightarrow> px_conns (down_read ch i p ok s) j = px_conns s j"
  by (auto simp: up_read_def down_read_def conn_simps split: option.splits)

section \<open>A second client\<close>

text \<open>The sender of a connection that has registered is gone.\<close>

definition silenced :: "nat \<Rightarrow> proxy \<Rightarrow> bool" where
  "silenced i s \<longleftrightarrow> px_inject s \<noteq> Some i \<and> cn_stage (px_conns s i) \<noteq> Absent \<and> cn_stage (px_conns s i) \<noteq> Accepted"

lemma silenced_step:
  assumes "proxy_step ch s s'" "silenced i s"
  shows "silenced i s' \<and> (\<exists>ts. cn_to_server (px_conns s' i) = cn_to_server (px_conns s i) @ ts \<and>
    subseq (ts @ cn_queue (px_conns s' i)) (cn_queue (px_conns s i)))"
  using assms
proof (cases rule: proxy_step.cases)
  case (UpInject j p q ok)
  show ?thesis
  proof (cases "j = i")
    case True
    then show ?thesis using UpInject assms(2)
      by (auto simp: silenced_def conn_simps intro: exI [of _ "if ok then [p] else []"])
  qed (use UpInject assms(2) in \<open>simp add: silenced_def conn_simps\<close>)
next
  case (UpRead j p ok)
  then have "j \<noteq> i" using assms(2) by (auto simp: silenced_def)
  then show ?thesis using UpRead assms(2) by (simp add: silenced_def read_other)
next
  case (Command cmd p c)
  then show ?thesis using assms(2) by (auto simp: silenced_def conn_simps split: option.splits)
qed (auto simp: silenced_def conn_simps)

lemma silenced_steps:
  assumes "proxy_steps ch s s'" "silenced i s"
  shows "silenced i s' \<and> (\<exists>ts. cn_to_server (px_conns s' i) = cn_to_server (px_conns s i) @ ts \<and>
    subseq (ts @ cn_queue (px_conns s' i)) (cn_queue (px_conns s i)))"
  using assms
proof (induction rule: rtranclp_induct)
  case base
  then show ?case by simp
next
  case (step s1 s2)
  then obtain ts where ts: "cn_to_server (px_conns s1 i) = cn_to_server (px_conns s i) @ ts"
    "subseq (ts @ cn_queue (px_conns s1 i)) (cn_queue (px_conns s i))" "silenced i s1" by blast
  obtain us where us: "cn_to_server (px_conns s2 i) = cn_to_server (px_conns s1 i) @ us"
    "subseq (us @ cn_queue (px_conns s2 i)) (cn_queue (px_conns s1 i))" "silenced i s2"
    using silenced_step [OF step(2) ts(3)] by blast
  have "subseq (ts @ us @ cn_queue (px_conns s2 i)) (ts @ cn_queue (px_conns s1 i))"
    using us(2) by (simp add: list_emb_append_mono)
  then have "subseq ((ts @ us) @ cn_queue (px_conns s2 i)) (cn_queue (px_conns s i))"
    using ts(2) subseq_order.trans by fastforce
  then show ?case using ts(1) us by (intro conjI exI [of _ "ts @ us"]) simp_all
qed

text \<open>
  A client that connects, or leaves, cuts off every other one: once the injection sender is not
  that of a running connection, nothing its client sends reaches the server any more, whatever
  happens later; only injections already waiting in its channel can still be written.
\<close>

theorem second_client_silences_first:
  assumes "px_inject s \<noteq> Some i" "cn_stage (px_conns s i) = Splicing" "proxy_steps checked s s'"
  shows "\<exists>ts. cn_to_server (px_conns s' i) = cn_to_server (px_conns s i) @ ts \<and> subseq ts (cn_queue (px_conns s i))"
proof -
  have "silenced i s" using assms(1,2) by (simp add: silenced_def)
  from silenced_steps [OF assms(3) this] obtain ts where "cn_to_server (px_conns s' i) = cn_to_server (px_conns s i) @ ts"
    "subseq (ts @ cn_queue (px_conns s' i)) (cn_queue (px_conns s i))" by blast
  moreover from this(2) have "subseq ts (cn_queue (px_conns s i))"
    using subseq_order.trans list_emb_append2 by (metis append_Nil2 list_emb_Nil list_emb_append_mono subseq_order.order_refl)
  ultimately show ?thesis by blast
qed

lemma frozen_step:
  assumes "proxy_step ch s s'" "cn_stage (px_conns s i) = Splicing \<and> cn_up (px_conns s i) = Frozen"
  shows "cn_stage (px_conns s' i) = Splicing \<and> cn_up (px_conns s' i) = Frozen"
  using assms
proof (cases rule: proxy_step.cases)
  case (UpRead j p ok)
  then have "j \<noteq> i" using assms(2) by auto
  then show ?thesis using UpRead assms(2) by (simp add: read_other)
qed (auto simp: conn_simps loop_over_def split: option.splits)

text \<open>
  A connection whose upward loop has met the closed channel never ends: it waits for ever, so
  its task never lowers the flag, and its client is never reported as gone.
\<close>

theorem frozen_never_leaves:
  assumes "proxy_steps checked s s'" "cn_stage (px_conns s i) = Splicing" "cn_up (px_conns s i) = Frozen"
  shows "cn_stage (px_conns s' i) = Splicing \<and> cn_up (px_conns s' i) = Frozen"
  using assms by (induction rule: rtranclp_induct) (auto dest: frozen_step)

section \<open>Half-closed connections\<close>

lemma inactive_step:
  "proxy_step ch s s' \<Longrightarrow> \<not> cn_active (px_conns s i) \<Longrightarrow>
   \<not> cn_active (px_conns s' i) \<and>
   length (cn_to_client (px_conns s' i)) + (if cn_down (px_conns s' i) = AtIo then 1 else 0) \<le>
   length (cn_to_client (px_conns s i)) + (if cn_down (px_conns s i) = AtIo then 1 else 0)"
  by (induction rule: proxy_step.induct)
    (auto simp: conn_simps up_read_def down_read_def split: option.splits if_splits)

text \<open>
  When one side has ended the other is cut short: after the flag of a connection is cleared, for
  instance because its client has sent all it had, at most one more piece of the server's answer is
  passed on, however much the server still sends.
\<close>

theorem half_close_cuts_answer:
  assumes "proxy_steps checked s s'" "\<not> cn_active (px_conns s i)"
  shows "length (cn_to_client (px_conns s' i)) \<le> length (cn_to_client (px_conns s i)) + 1"
proof -
  have "\<not> cn_active (px_conns s' i) \<and>
   length (cn_to_client (px_conns s' i)) + (if cn_down (px_conns s' i) = AtIo then 1 else 0) \<le>
   length (cn_to_client (px_conns s i)) + (if cn_down (px_conns s i) = AtIo then 1 else 0)"
    using assms by (induction rule: rtranclp_induct) (auto dest!: inactive_step [where i = i])
  then show ?thesis by (auto split: if_splits)
qed

section \<open>Connections that can end\<close>

definition fresh_ok :: "proxy \<Rightarrow> bool" where
  "fresh_ok s \<longleftrightarrow> (\<forall>i. (cn_stage (px_conns s i) \<in> {Absent, Accepted, Registered, Connecting} \<longrightarrow> cn_up (px_conns s i) = AtCheck) \<and>
     (px_inject s = Some i \<longrightarrow> cn_up (px_conns s i) \<noteq> Frozen) \<and> cn_down (px_conns s i) \<noteq> Frozen)"

lemma read_frozen:
  "cn_up (px_conns (up_read ch i p ok s) j) = Frozen \<Longrightarrow> cn_up (px_conns s j) = Frozen \<and> i \<noteq> j"
  "cn_down (px_conns (down_read ch i p ok s) j) = Frozen \<Longrightarrow> cn_down (px_conns s j) = Frozen"
  by (auto simp: up_read_def down_read_def conn_simps split: option.splits if_splits)

lemma read_fresh:
  "cn_stage (px_conns s i) = Splicing \<Longrightarrow> cn_stage (px_conns s j) \<noteq> Splicing \<Longrightarrow> cn_up (px_conns (up_read ch i p ok s) j) = cn_up (px_conns s j)"
  by (cases "i = j") (auto simp: read_other)

lemma fresh_step: "proxy_step ch s s' \<Longrightarrow> fresh_ok s \<Longrightarrow> fresh_ok s'"
proof (induction rule: proxy_step.induct)
  case (UpRead s i p ok)
  then show ?case
    unfolding fresh_ok_def by (metis read_fresh read_frozen(1) read_simps(1,5,11) stage.distinct insertE singletonD)
next
  case (DownRead s i p ok)
  then show ?case
    unfolding fresh_ok_def by (metis read_frozen(2) read_simps(2,6,12))
qed (auto simp: fresh_ok_def conn_simps split: option.splits)

lemma fresh_reachable: "proxy_steps ch (proxy_init http) s \<Longrightarrow> fresh_ok s"
proof (induction rule: rtranclp_induct)
  case base
  then show ?case by (simp add: fresh_ok_def proxy_init_def conn_init_def)
qed (rule fresh_step)

lemma up_can_stop:
  assumes "cn_stage (px_conns s i) = Splicing" "px_inject s = Some i" "cn_up (px_conns s i) \<noteq> Frozen"
  shows "\<exists>s'. proxy_steps ch s s' \<and> cn_stage (px_conns s' i) = Splicing \<and> loop_over (cn_up (px_conns s' i)) \<and>
    cn_down (px_conns s' i) = cn_down (px_conns s i)"
proof -
  have io: "\<exists>s'. proxy_step ch s s' \<and> cn_stage (px_conns s' i) = Splicing \<and> loop_over (cn_up (px_conns s' i)) \<and>
      cn_down (px_conns s' i) = cn_down (px_conns s i)"
    if "cn_stage (px_conns s i) = Splicing" "px_inject s = Some i" "cn_up (px_conns s i) = AtIo" for s
  proof (cases "cn_queue (px_conns s i)")
    case Nil
    from UpEnd [OF that(1,3) Nil that(2)] show ?thesis using that(1)
      by (intro exI conjI) (assumption, simp_all add: conn_simps loop_over_def)
  next
    case (Cons p q)
    from UpInject [OF that(1,3) Cons, of ch False] show ?thesis using that(1)
      by (intro exI conjI) (assumption, simp_all add: conn_simps loop_over_def)
  qed
  consider "loop_over (cn_up (px_conns s i))" | "cn_up (px_conns s i) = AtIo" | "cn_up (px_conns s i) = AtCheck"
    using assms(3) by (cases "cn_up (px_conns s i)") (auto simp: loop_over_def)
  then show ?thesis
  proof cases
    case 1
    then show ?thesis using assms(1) by blast
  next
    case 2
    then show ?thesis using io [OF assms(1,2)] by blast
  next
    case 3
    let ?s = "on_conn i (\<lambda>c. if cn_active c then c\<lparr>cn_up := AtIo\<rparr> else c\<lparr>cn_up := Stopped\<rparr>) s"
    have st: "proxy_step ch s ?s" by (rule UpCheck [OF assms(1) 3])
    have eqs: "cn_stage (px_conns ?s i) = Splicing" "px_inject ?s = Some i" "cn_down (px_conns ?s i) = cn_down (px_conns s i)"
      using assms(1,2) by (simp_all add: conn_simps)
    show ?thesis
    proof (cases "cn_active (px_conns s i)")
      case True
      then have "cn_up (px_conns ?s i) = AtIo" by (simp add: conn_simps)
      from io [OF eqs(1,2) this] obtain s' where "proxy_step ch ?s s'" "cn_stage (px_conns s' i) = Splicing"
        "loop_over (cn_up (px_conns s' i))" "cn_down (px_conns s' i) = cn_down (px_conns ?s i)" by blast
      then show ?thesis using st eqs(3) by (intro exI [of _ s']) auto
    next
      case False
      then have "loop_over (cn_up (px_conns ?s i))" by (simp add: conn_simps loop_over_def)
      then show ?thesis using st eqs by (intro exI [of _ ?s]) auto
    qed
  qed
qed

lemma down_can_stop:
  assumes "cn_stage (px_conns s i) = Splicing" "cn_down (px_conns s i) \<noteq> Frozen"
  shows "\<exists>s'. proxy_steps ch s s' \<and> cn_stage (px_conns s' i) = Splicing \<and> loop_over (cn_down (px_conns s' i)) \<and>
    cn_up (px_conns s' i) = cn_up (px_conns s i)"
proof -
  have io: "\<exists>s'. proxy_step ch s s' \<and> cn_stage (px_conns s' i) = Splicing \<and> loop_over (cn_down (px_conns s' i)) \<and>
      cn_up (px_conns s' i) = cn_up (px_conns s i)"
    if "cn_stage (px_conns s i) = Splicing" "cn_down (px_conns s i) = AtIo" for s
    using DownEnd [OF that, of ch] that(1) by (intro exI conjI) (assumption, simp_all add: conn_simps loop_over_def)
  consider "loop_over (cn_down (px_conns s i))" | "cn_down (px_conns s i) = AtIo" | "cn_down (px_conns s i) = AtCheck"
    using assms(2) by (cases "cn_down (px_conns s i)") (auto simp: loop_over_def)
  then show ?thesis
  proof cases
    case 1
    then show ?thesis using assms(1) by blast
  next
    case 2
    then show ?thesis using io [OF assms(1)] by blast
  next
    case 3
    let ?s = "on_conn i (\<lambda>c. if cn_active c then c\<lparr>cn_down := AtIo\<rparr> else c\<lparr>cn_down := Stopped\<rparr>) s"
    have st: "proxy_step ch s ?s" by (rule DownCheck [OF assms(1) 3])
    have eqs: "cn_stage (px_conns ?s i) = Splicing" "cn_up (px_conns ?s i) = cn_up (px_conns s i)"
      using assms(1) by (simp_all add: conn_simps)
    show ?thesis
    proof (cases "cn_active (px_conns s i)")
      case True
      then have "cn_down (px_conns ?s i) = AtIo" by (simp add: conn_simps)
      from io [OF eqs(1) this] obtain s' where "proxy_step ch ?s s'" "cn_stage (px_conns s' i) = Splicing"
        "loop_over (cn_down (px_conns s' i))" "cn_up (px_conns s' i) = cn_up (px_conns ?s i)" by blast
      then show ?thesis using st eqs(2) by (intro exI [of _ s']) auto
    next
      case False
      then have "loop_over (cn_down (px_conns ?s i))" by (simp add: conn_simps loop_over_def)
      then show ?thesis using st eqs by (intro exI [of _ ?s]) auto
    qed
  qed
qed

lemma over_leaves:
  assumes "cn_stage (px_conns s i) = Splicing" "loop_over (cn_up (px_conns s i))" "loop_over (cn_down (px_conns s i))"
  shows "\<exists>s'. proxy_steps ch s s' \<and> cn_stage (px_conns s' i) = Gone"
proof -
  let ?a = "(on_conn i (\<lambda>c. c\<lparr>cn_stage := Lowered\<rparr>) s)\<lparr>px_live := False\<rparr>"
  let ?b = "(on_conn i (\<lambda>c. c\<lparr>cn_stage := Cleared\<rparr>) ?a)\<lparr>px_inject := None\<rparr>"
  have "cn_stage (px_conns ?a i) = Lowered" "cn_stage (px_conns ?b i) = Cleared" by (simp_all add: conn_simps)
  from Lower [OF assms, of ch] Clear [OF this(1), of ch] Leave [OF this(2), of ch]
  have "proxy_steps ch s (emit ((case cn_error (px_conns ?b i) of None \<Rightarrow> [] | Some e \<Rightarrow> [EvError e]) @ [EvLeft 1])
      (on_conn i (\<lambda>c. c\<lparr>cn_stage := Gone\<rparr>) ?b))"
    by (meson rtranclp.rtrancl_into_rtrancl r_into_rtranclp)
  moreover have "cn_stage (px_conns (emit evs (on_conn i (\<lambda>c. c\<lparr>cn_stage := Gone\<rparr>) ?b)) i) = Gone" for evs
    by (simp add: conn_simps)
  ultimately show ?thesis by blast
qed

text \<open>
  C37: A client can always leave as long as the proxy holds its own injection sender: from every
  reachable state in which a connection is copying and is the one injections go to, there is a way
  on, the two sides ending, at whose end the connection is gone.
\<close>

theorem open_splice_can_end:
  assumes "proxy_steps checked (proxy_init http) s" "cn_stage (px_conns s i) = Splicing" "px_inject s = Some i"
  shows "\<exists>s'. proxy_steps checked s s' \<and> cn_stage (px_conns s' i) = Gone"
proof -
  have up: "cn_up (px_conns s i) \<noteq> Frozen" and down: "cn_down (px_conns s i) \<noteq> Frozen"
    using fresh_reachable [OF assms(1)] assms(3) by (auto simp: fresh_ok_def)
  obtain s1 where s1: "proxy_steps checked s s1" "cn_stage (px_conns s1 i) = Splicing"
    "loop_over (cn_up (px_conns s1 i))" "cn_down (px_conns s1 i) = cn_down (px_conns s i)"
    using up_can_stop [OF assms(2,3) up] by blast
  obtain s2 where s2: "proxy_steps checked s1 s2" "cn_stage (px_conns s2 i) = Splicing"
    "loop_over (cn_down (px_conns s2 i))" "cn_up (px_conns s2 i) = cn_up (px_conns s1 i)"
    using down_can_stop [OF s1(2)] s1(4) down by metis
  obtain s3 where "proxy_steps checked s2 s3" "cn_stage (px_conns s3 i) = Gone"
    using over_leaves [OF s2(2)] s1(3) s2(3,4) by metis
  then show ?thesis using s1(1) s2(1) by (meson rtranclp_trans)
qed

section \<open>One client alone\<close>

definition lone :: "nat \<Rightarrow> proxy \<Rightarrow> bool" where
  "lone i s \<longleftrightarrow> (\<forall>j. j \<noteq> i \<longrightarrow> cn_stage (px_conns s j) = Absent)"

definition lone_ok :: "nat \<Rightarrow> proxy \<Rightarrow> bool" where
  "lone_ok i s \<longleftrightarrow> (px_inject s = Some i \<longleftrightarrow> cn_stage (px_conns s i) \<in> {Registered, Connecting, Splicing, Lowered}) \<and>
     (px_inject s = None \<longleftrightarrow> cn_stage (px_conns s i) \<in> {Absent, Accepted, Cleared, Gone}) \<and>
     (px_live s \<longleftrightarrow> cn_stage (px_conns s i) \<in> {Connecting, Splicing}) \<and> cn_up (px_conns s i) \<noteq> Frozen"

lemma lone_back: "proxy_step ch s s' \<Longrightarrow> lone i s' \<Longrightarrow> lone i s"
  by (induction rule: proxy_step.induct) (auto simp: lone_def conn_simps split: option.splits if_splits)

lemma lone_step:
  assumes "proxy_step ch s s'" "lone i s" "lone_ok i s"  "lone i s'"
  shows "lone_ok i s'"
  using assms
proof (cases rule: proxy_step.cases)
  case (UpRead j p ok)
  then have "j = i" using assms(2) by (auto simp: lone_def)
  then show ?thesis using UpRead assms(3) read_frozen(1) by (auto simp: lone_ok_def)
next
  case (DownRead j p ok)
  then show ?thesis using assms(3) by (auto simp: lone_ok_def)
qed (auto simp: lone_def lone_ok_def conn_simps loop_over_def split: option.splits if_splits)

lemma lone_reachable: "proxy_steps ch (proxy_init http) s \<Longrightarrow> lone i s \<Longrightarrow> lone_ok i s"
proof (induction rule: rtranclp_induct)
  case base
  then show ?case by (simp add: lone_ok_def proxy_init_def conn_init_def)
next
  case (step s s')
  then show ?case using lone_back lone_step by blast
qed

text \<open>
  C7: While no second client has ever connected the proxy's flags tell the truth: injections go to
  the connection exactly while it is registered, the user interface sees a live splice exactly
  while it is connecting or copying, and its upward loop never freezes.
\<close>

theorem lone_client_served:
  assumes "proxy_steps checked (proxy_init http) s" "\<forall>j. j \<noteq> i \<longrightarrow> cn_stage (px_conns s j) = Absent"
  shows "(px_inject s = Some i \<longleftrightarrow> cn_stage (px_conns s i) \<in> {Registered, Connecting, Splicing, Lowered}) \<and>
    (px_live s \<longleftrightarrow> cn_stage (px_conns s i) \<in> {Connecting, Splicing}) \<and> cn_up (px_conns s i) \<noteq> Frozen"
  using lone_reachable [OF assms(1), of i] assms(2) by (simp add: lone_def lone_ok_def)

section \<open>Runs\<close>

lemma one_client:
  "\<exists>s. proxy_steps True (proxy_init False) s \<and> px_inject s = Some 1 \<and> cn_stage (px_conns s 1) = Splicing \<and>
    cn_up (px_conns s 1) = AtIo \<and> cn_queue (px_conns s 1) = [] \<and> (\<forall>j. j \<noteq> 1 \<longrightarrow> cn_stage (px_conns s j) = Absent) \<and>
    px_log s = [EvJoined 1 ''a''] \<and> \<not> px_http s"
proof -
  let ?to = "\<lambda>i st. on_conn i (\<lambda>c. c\<lparr>cn_stage := st\<rparr>)"
  define s0 where "s0 = proxy_init False"
  define s1 where "s1 = emit [EvJoined 1 ''a''] (?to 1 Accepted s0)"
  define s2 where "s2 = (?to 1 Registered s1)\<lparr>px_inject := Some 1\<rparr>"
  define s3 where "s3 = (?to 1 Connecting s2)\<lparr>px_live := True\<rparr>"
  define s4 where "s4 = ?to 1 Splicing s3"
  define s5 where "s5 = on_conn 1 (\<lambda>c. if cn_active c then c\<lparr>cn_up := AtIo\<rparr> else c\<lparr>cn_up := Stopped\<rparr>) s4"
  note defs = s0_def s1_def s2_def s3_def s4_def s5_def
  note ev = conn_simps proxy_init_def conn_init_def
  have "proxy_step True s0 s1" unfolding s1_def by (rule Accept) (simp add: defs ev)
  moreover have "proxy_step True s1 s2" unfolding s2_def by (rule Register) (simp add: defs ev)
  moreover have "proxy_step True s2 s3" unfolding s3_def by (rule Raise) (simp add: defs ev)
  moreover have "proxy_step True s3 s4" unfolding s4_def by (rule Connected) (simp add: defs ev)
  moreover have "proxy_step True s4 s5" unfolding s5_def by (rule UpCheck) (simp_all add: defs ev)
  ultimately have "proxy_steps True s0 s5" by (meson converse_rtranclp_into_rtranclp rtranclp.rtrancl_refl)
  moreover have "px_inject s5 = Some 1 \<and> cn_stage (px_conns s5 1) = Splicing \<and> cn_up (px_conns s5 1) = AtIo \<and>
      cn_queue (px_conns s5 1) = [] \<and> (\<forall>j. j \<noteq> 1 \<longrightarrow> cn_stage (px_conns s5 j) = Absent) \<and>
      px_log s5 = [EvJoined 1 ''a''] \<and> \<not> px_http s5"
    by (simp add: defs ev)
  ultimately show ?thesis unfolding s0_def by blast
qed

lemma two_clients:
  "\<exists>s. proxy_steps True (proxy_init False) s \<and> px_inject s = Some 2 \<and> cn_stage (px_conns s 1) = Splicing \<and>
    cn_up (px_conns s 1) = AtIo \<and> cn_queue (px_conns s 1) = []"
proof -
  obtain s where s: "proxy_steps True (proxy_init False) s" "cn_stage (px_conns s 1) = Splicing"
    "cn_up (px_conns s 1) = AtIo" "cn_queue (px_conns s 1) = []" "cn_stage (px_conns s 2) = Absent"
    using one_client by fastforce
  let ?a = "emit [EvJoined 1 ''b''] (on_conn 2 (\<lambda>c. c\<lparr>cn_stage := Accepted\<rparr>) s)"
  let ?b = "(on_conn 2 (\<lambda>c. c\<lparr>cn_stage := Registered\<rparr>) ?a)\<lparr>px_inject := Some 2\<rparr>"
  have "cn_stage (px_conns ?a 2) = Accepted" by (simp add: conn_simps)
  from s(1) Accept [OF s(5), of True "''b''"] Register [OF this, of True] have "proxy_steps True (proxy_init False) ?b"
    by (meson rtranclp.rtrancl_into_rtrancl)
  moreover have "px_inject ?b = Some 2" "cn_stage (px_conns ?b 1) = Splicing" "cn_up (px_conns ?b 1) = AtIo" "cn_queue (px_conns ?b 1) = []"
    using s by (simp_all add: conn_simps)
  ultimately show ?thesis by blast
qed

lemma frozen_reachable:
  "\<exists>s s'. proxy_steps True (proxy_init False) s \<and> proxy_step True s s' \<and> px_inject s = Some 2 \<and>
    cn_stage (px_conns s 1) = Splicing \<and> cn_queue (px_conns s 1) = [] \<and>
    cn_stage (px_conns s' 1) = Splicing \<and> cn_up (px_conns s' 1) = Frozen"
proof -
  obtain s where s: "proxy_steps True (proxy_init False) s" "px_inject s = Some 2" "cn_stage (px_conns s 1) = Splicing"
    "cn_up (px_conns s 1) = AtIo" "cn_queue (px_conns s 1) = []" using two_clients by blast
  from UpClosed [OF s(3,4,5), of True] s(2) have "proxy_step True s (on_conn 1 (\<lambda>c. c\<lparr>cn_up := Frozen\<rparr>) s)" by simp
  moreover have "cn_stage (px_conns (on_conn 1 (\<lambda>c. c\<lparr>cn_up := Frozen\<rparr>) s) 1) = Splicing"
    "cn_up (px_conns (on_conn 1 (\<lambda>c. c\<lparr>cn_up := Frozen\<rparr>) s) 1) = Frozen"
    using s(3) by (simp_all add: conn_simps)
  ultimately show ?thesis using s by blast
qed

theorem second_client_silences_first_witness:
  "\<exists>s s'. proxy_steps True (proxy_init False) s \<and> proxy_steps True s s' \<and> cn_up (px_conns s' 1) = Frozen \<and>
    (\<exists>ts. cn_to_server (px_conns s' 1) = cn_to_server (px_conns s 1) @ ts \<and> subseq ts (cn_queue (px_conns s 1)))"
proof -
  obtain s s' where s: "proxy_steps True (proxy_init False) s" "proxy_step True s s'" "px_inject s = Some 2"
    "cn_stage (px_conns s 1) = Splicing" "cn_up (px_conns s' 1) = Frozen" using frozen_reachable by blast
  then have "px_inject s \<noteq> Some 1" by simp
  from second_client_silences_first [OF this s(4) r_into_rtranclp [of "proxy_step True", OF s(2)]] s show ?thesis by blast
qed

theorem frozen_never_leaves_witness:
  "\<exists>s. proxy_steps True (proxy_init False) s \<and>
     (\<forall>s'. proxy_steps True s s' \<longrightarrow> cn_stage (px_conns s' 1) = Splicing \<and> cn_up (px_conns s' 1) = Frozen)"
proof -
  obtain s s' where s: "proxy_steps True (proxy_init False) s" "proxy_step True s s'"
    "cn_stage (px_conns s' 1) = Splicing" "cn_up (px_conns s' 1) = Frozen" using frozen_reachable by blast
  then have "proxy_steps True (proxy_init False) s'" by (meson rtranclp.rtrancl_into_rtrancl)
  then show ?thesis using frozen_never_leaves [OF _ s(3,4)] by blast
qed

definition half_closed :: proxy where
  "half_closed = (proxy_init False)\<lparr>px_conns := (px_conns (proxy_init False))
     (1 := conn_init\<lparr>cn_stage := Splicing, cn_active := False, cn_up := Stopped, cn_down := AtIo\<rparr>)\<rparr>"

theorem half_close_cuts_answer_witness:
  "\<exists>s'. proxy_steps True half_closed s' \<and> cn_to_client (px_conns s' 1) = [[65]] \<and>
     length (cn_to_client (px_conns s' 1)) \<le> length (cn_to_client (px_conns half_closed 1)) + 1"
proof -
  let ?s = "down_read True 1 [65] True half_closed"
  have "proxy_step True half_closed ?s"
    by (rule DownRead) (simp_all add: half_closed_def)
  then have "proxy_steps True half_closed ?s" ..
  moreover have "\<not> cn_active (px_conns half_closed 1)" by (simp add: half_closed_def)
  moreover have "cn_to_client (px_conns ?s 1) = [[65]]"
    by (simp add: half_closed_def down_read_def conn_simps proxy_init_def conn_init_def)
  ultimately show ?thesis using half_close_cuts_answer by blast
qed

theorem open_splice_can_end_witness:
  "\<exists>s s'. proxy_steps True (proxy_init False) s \<and> cn_stage (px_conns s 1) = Splicing \<and>
     proxy_steps True s s' \<and> cn_stage (px_conns s' 1) = Gone"
proof -
  obtain s where "proxy_steps True (proxy_init False) s" "px_inject s = Some 1" "cn_stage (px_conns s 1) = Splicing"
    using one_client by blast
  then show ?thesis using open_splice_can_end by blast
qed

theorem lone_client_served_witness:
  "\<exists>s. proxy_steps True (proxy_init False) s \<and> cn_stage (px_conns s 1) = Splicing \<and> px_live s \<and> cn_up (px_conns s 1) \<noteq> Frozen"
proof -
  obtain s where s: "proxy_steps True (proxy_init False) s" "cn_stage (px_conns s 1) = Splicing"
    "\<forall>j. j \<noteq> 1 \<longrightarrow> cn_stage (px_conns s j) = Absent"
    using one_client by blast
  from lone_client_served [OF s(1,3)] have "px_live s" "cn_up (px_conns s 1) \<noteq> Frozen"
    unfolding s(2) by simp_all
  with s(1,2) show ?thesis by blast
qed

section \<open>The log\<close>

definition logged :: "direction \<Rightarrow> io_event list \<Rightarrow> bytes list" where
  "logged d evs = List.map_filter (\<lambda>e. case e of EvFrame d' p _ \<Rightarrow> if d' = d then Some p else None | _ \<Rightarrow> None) evs"

lemma logged_append: "logged d (xs @ ys) = logged d xs @ logged d ys"
  by (simp add: logged_def List.map_filter_def)

lemma logged_simps [simp]:
  "logged d [] = []" "logged d [EvFrame d' p t] = (if d' = d then [p] else [])" "logged d [EvJoined n peer] = []"
  "logged d (case e of None \<Rightarrow> [] | Some e \<Rightarrow> [EvError e]) = []" "logged d [EvLeft n] = []"
  by (auto simp: logged_def map_filter_simps split: option.splits)

definition relayed :: "loop_pc \<Rightarrow> bytes list \<Rightarrow> bytes list \<Rightarrow> bool" where
  "relayed pc seen sent \<longleftrightarrow> (if pc = Stopped then sent = seen \<or> (seen \<noteq> [] \<and> sent = butlast seen) else sent = seen)"

definition log_ok :: "nat \<Rightarrow> proxy \<Rightarrow> bool" where
  "log_ok i s \<longleftrightarrow> \<not> px_http s \<and> relayed (cn_up (px_conns s i)) (logged DirOut (px_log s)) (cn_to_server (px_conns s i)) \<and>
     relayed (cn_down (px_conns s i)) (logged DirIn (px_log s)) (cn_to_client (px_conns s i))"

lemma relayed_move: "relayed pc seen sent \<Longrightarrow> pc \<noteq> Stopped \<Longrightarrow> relayed pc' seen sent"
  by (simp add: relayed_def)

lemma relayed_write:
  "relayed pc seen sent \<Longrightarrow> pc = AtIo \<Longrightarrow> relayed AtCheck (seen @ [p]) (sent @ [p])"
  "relayed pc seen sent \<Longrightarrow> pc = AtIo \<Longrightarrow> relayed Stopped (seen @ [p]) sent"
  by (simp_all add: relayed_def)

lemma log_step:
  assumes "proxy_step ch s s'" "lone i s" "log_ok i s"
  shows "log_ok i s'"
proof -
  have h: "\<not> px_http s" "relayed (cn_up (px_conns s i)) (logged DirOut (px_log s)) (cn_to_server (px_conns s i))"
    "relayed (cn_down (px_conns s i)) (logged DirIn (px_log s)) (cn_to_client (px_conns s i))"
    using assms(3) by (simp_all add: log_ok_def)
  have other: "j = i" if "cn_stage (px_conns s j) = Splicing" for j
    using assms(2) that by (auto simp: lone_def)
  note up = relayed_move [OF h(2)] relayed_write [OF h(2)] note down = relayed_move [OF h(3)] relayed_write [OF h(3)]
  show ?thesis
    using assms(1)
  proof (cases rule: proxy_step.cases)
    case (UpRead j p ok)
    then show ?thesis using other [of j] h up by (simp add: log_ok_def up_read_def conn_simps logged_append)
  next
    case (DownRead j p ok)
    then show ?thesis using other [of j] h down by (simp add: log_ok_def down_read_def conn_simps logged_append)
  next
    case (UpInject j p q ok)
    then show ?thesis using other [of j] h up by (simp add: log_ok_def conn_simps logged_append)
  next
    case (UpCheck j)
    then show ?thesis using other [of j] h up by (simp add: log_ok_def conn_simps)
  next
    case (DownCheck j)
    then show ?thesis using other [of j] h down by (simp add: log_ok_def conn_simps)
  next
    case (UpClosed j)
    then show ?thesis using other [of j] h up by (simp add: log_ok_def conn_simps)
  next
    case (UpEnd j)
    then show ?thesis using other [of j] h up by (simp add: log_ok_def conn_simps)
  next
    case (DownEnd j)
    then show ?thesis using other [of j] h down by (simp add: log_ok_def conn_simps)
  next
    case (Command cmd p c)
    then show ?thesis using h by (cases "px_inject s") (auto simp: log_ok_def conn_simps)
  qed (use h in \<open>auto simp: log_ok_def conn_simps logged_append\<close>)
qed

text \<open>
  C8: The log of a tapped connection is its traffic: without interception, and with one client, the
  frames logged in a direction are exactly the pieces passed on in it, injections included, in
  order; only the last one may be shown although the other side could not be written to any more.
\<close>

theorem log_shows_traffic:
  assumes "proxy_steps checked (proxy_init False) s" "\<forall>j. j \<noteq> i \<longrightarrow> cn_stage (px_conns s j) = Absent"
  shows "(cn_to_server (px_conns s i) = logged DirOut (px_log s) \<or> cn_to_server (px_conns s i) = butlast (logged DirOut (px_log s))) \<and>
    (cn_to_client (px_conns s i) = logged DirIn (px_log s) \<or> cn_to_client (px_conns s i) = butlast (logged DirIn (px_log s)))"
proof -
  have "lone i s \<Longrightarrow> log_ok i s"
    using assms(1)
  proof (induction rule: rtranclp_induct)
    case base
    then show ?case by (simp add: log_ok_def relayed_def proxy_init_def conn_init_def)
  next
    case (step s s')
    then show ?case using lone_back log_step by blast
  qed
  then have "log_ok i s" using assms(2) by (simp add: lone_def)
  then show ?thesis unfolding log_ok_def relayed_def by (metis (full_types))
qed

theorem log_shows_traffic_witness:
  "\<exists>s. proxy_steps True (proxy_init False) s \<and> logged DirOut (px_log s) = [[71]] \<and>
     (cn_to_server (px_conns s 1) = [[71]] \<or> cn_to_server (px_conns s 1) = [])"
proof -
  obtain s where s: "proxy_steps True (proxy_init False) s" "px_inject s = Some 1" "cn_stage (px_conns s 1) = Splicing"
    "cn_up (px_conns s 1) = AtIo" "cn_queue (px_conns s 1) = []" "\<forall>j. j \<noteq> 1 \<longrightarrow> cn_stage (px_conns s j) = Absent"
    "px_log s = [EvJoined 1 ''a'']" "\<not> px_http s" using one_client by blast
  let ?s = "up_read True 1 [71] True s"
  have "proxy_steps True (proxy_init False) ?s"
    using s(1) UpRead [OF s(3,4,5,2), of "[71]" True True] by (simp add: rtranclp.rtrancl_into_rtrancl)
  moreover have "logged DirOut (px_log ?s) = [[71]]"
    using s(7,8) logged_append [of DirOut "[EvJoined 1 ''a'']"] by (simp add: up_read_def conn_simps)
  moreover have "\<forall>j. j \<noteq> 1 \<longrightarrow> cn_stage (px_conns ?s j) = Absent" using s(6) by simp
  ultimately have "proxy_steps True (proxy_init False) ?s" "logged DirOut (px_log ?s) = [[71]]"
    "cn_to_server (px_conns ?s 1) = [[71]] \<or> cn_to_server (px_conns ?s 1) = butlast [[71]]"
    using log_shows_traffic [of True ?s 1] by (simp_all only:)
  then show ?thesis by (intro exI [of _ ?s]) simp
qed

end
