(* ===== verification/Targets.thy ===== *)
theory Targets
  imports NetAddr
begin

text \<open>
  Target URIs and diagnose specifications (\<open>src/src/cli.rs\<close>).  A \<open>PathBuf\<close> is its text; comparing
  it with the root compares components, so empty and \<open>.\<close> components do not count.
\<close>

section \<open>Targets\<close>

datatype target =
    TgtTcp string nat
  | TgtUdp string nat
  | TgtUnix string
  | TgtWs string bool
  | TgtTls string nat
  | TgtHttp string bool

fun display :: "target \<Rightarrow> string" where
  "display (TgtTcp host port) = ''tcp://'' @ host @ '':'' @ dec port"
| "display (TgtUdp host port) = ''udp://'' @ host @ '':'' @ dec port"
| "display (TgtUnix path) = ''unix://'' @ path"
| "display (TgtWs url secure) = url"
| "display (TgtTls host port) = ''tls://'' @ host @ '':'' @ dec port"
| "display (TgtHttp url secure) = url"

fun kind_label :: "target \<Rightarrow> string" where
  "kind_label (TgtTcp _ _) = ''TCP''"
| "kind_label (TgtUdp _ _) = ''UDP''"
| "kind_label (TgtUnix _) = ''UNIX''"
| "kind_label (TgtWs _ secure) = (if secure then ''WSS'' else ''WS'')"
| "kind_label (TgtTls _ _) = ''TLS''"
| "kind_label (TgtHttp _ secure) = (if secure then ''HTTPS'' else ''HTTP'')"

fun is_http :: "target \<Rightarrow> bool" where
  "is_http (TgtHttp _ _) = True"
| "is_http _ = False"

definition ip_of :: "string \<Rightarrow> ip_addr option" where
  "ip_of host = (case parse_ip_addr host of Inr ip \<Rightarrow> Some ip | Inl _ \<Rightarrow> None)"

fun target_socket_addr :: "target \<Rightarrow> (ip_addr \<times> nat) option" where
  "target_socket_addr (TgtTcp host port) = map_option (\<lambda>ip. (ip, port)) (ip_of host)"
| "target_socket_addr (TgtUdp host port) = map_option (\<lambda>ip. (ip, port)) (ip_of host)"
| "target_socket_addr (TgtTls host port) = map_option (\<lambda>ip. (ip, port)) (ip_of host)"
| "target_socket_addr _ = None"

datatype target_error =
    TgtEmpty
  | MissingScheme string
  | UnsupportedScheme string
  | InvalidHostPort string
  | MissingUnixPath
  | InvalidPort string

text \<open>\<open>str::split_once\<close> with a string.\<close>

definition split_once_str :: "string \<Rightarrow> string \<Rightarrow> (string \<times> string) option" where
  "split_once_str p s =
     (case find_sub s p of None \<Rightarrow> None | Some i \<Rightarrow> Some (take i s, drop (i + length p) s))"

definition port_of_text :: "string \<Rightarrow> target_error + nat" where
  "port_of_text p = (case parse_uint u16_max p of Inr n \<Rightarrow> Inr n | Inl _ \<Rightarrow> Inl (InvalidPort p))"

definition split_host_port :: "string \<Rightarrow> target_error + string \<times> nat" where
  "split_host_port rest =
     (let authority = hd (split_chr (CHR ''/'') rest) in
      if authority = [] then Inl (InvalidHostPort rest)
      else case strip_prefix authority ''['' of
          Some inner \<Rightarrow>
            (case split_once_str '']:'' inner of
               None \<Rightarrow> Inl (InvalidHostPort authority)
             | Some (host, port_part) \<Rightarrow> res_bind (port_of_text port_part) (\<lambda>port. Inr (host, port)))
        | None \<Rightarrow>
            (case rsplit_once (CHR '':'') authority of
               None \<Rightarrow> Inl (InvalidHostPort authority)
             | Some (host, port_str) \<Rightarrow>
                 if host = [] then Inl (InvalidHostPort authority)
                 else res_bind (port_of_text port_str) (\<lambda>port. Inr (host, port))))"

definition join_host_port :: "string \<Rightarrow> nat \<Rightarrow> string" where
  "join_host_port host port =
     (if contains host '':'' \<and> \<not> starts_with host ''[''
      then ''['' @ host @ '']:'' @ dec port else host @ '':'' @ dec port)"

definition is_root :: "string \<Rightarrow> bool" where
  "is_root path \<longleftrightarrow> starts_with path ''/'' \<and> list_all (\<lambda>c. c = [] \<or> c = ''.'') (split_chr (CHR ''/'') path)"

definition unix_target :: "string \<Rightarrow> target_error + target" where
  "unix_target rest =
     (let path = trim_start_matches ''/'' rest in
      if \<not> starts_with rest ''/'' \<and> path = [] then Inl MissingUnixPath
      else let path = (if starts_with rest ''/'' then rest else ''/'' @ path) in
        if path = [] \<or> is_root path then Inl MissingUnixPath else Inr (TgtUnix path))"

definition parse_target :: "string \<Rightarrow> target_error + target" where
  "parse_target input =
     (let s = trim input in
      if s = [] then Inl TgtEmpty
      else case split_once_str ''://'' s of
          None \<Rightarrow> Inl (MissingScheme s)
        | Some (scheme, rest) \<Rightarrow>
            let k = to_lower scheme in
            if k = ''tcp'' then res_bind (split_host_port rest) (\<lambda>(host, port). Inr (TgtTcp host port))
            else if k = ''udp'' then res_bind (split_host_port rest) (\<lambda>(host, port). Inr (TgtUdp host port))
            else if k = ''tls'' then res_bind (split_host_port rest) (\<lambda>(host, port). Inr (TgtTls host port))
            else if k = ''unix'' then unix_target rest
            else if k = ''ws'' then Inr (TgtWs s False)
            else if k = ''wss'' then Inr (TgtWs s True)
            else if k = ''http'' then Inr (TgtHttp s False)
            else if k = ''https'' then Inr (TgtHttp s True)
            else Inl (UnsupportedScheme k))"

section \<open>Diagnose specifications\<close>

datatype diag_spec =
    DiagDns string
  | DiagPing string "nat option"
  | DiagTcp string nat
  | DiagTls string nat
  | DiagTrace string "nat option"

definition parse_ping_like :: "string \<Rightarrow> (string \<Rightarrow> nat option \<Rightarrow> diag_spec) \<Rightarrow> target_error + diag_spec" where
  "parse_ping_like rest f =
     (if contains rest '':'' \<and> \<not> starts_with rest ''['' then
        res_bind (split_host_port rest) (\<lambda>(host, port). Inr (f host (Some port)))
      else case strip_prefix rest ''['' of
          Some inner \<Rightarrow> res_bind (split_host_port (''['' @ inner)) (\<lambda>(host, port). Inr (f host (Some port)))
        | None \<Rightarrow> Inr (f rest None))"

definition parse_diag :: "string \<Rightarrow> target_error + diag_spec" where
  "parse_diag input =
     (let s = trim input in
      if s = [] then Inl TgtEmpty
      else case strip_prefix s ''dns://'' of Some rest \<Rightarrow> Inr (DiagDns rest)
      | None \<Rightarrow> (case strip_prefix s ''ping://'' of Some rest \<Rightarrow> parse_ping_like rest DiagPing
      | None \<Rightarrow> (case strip_prefix s ''trace://'' of Some rest \<Rightarrow> parse_ping_like rest DiagTrace
      | None \<Rightarrow> (case strip_prefix s ''tcp://'' of
          Some rest \<Rightarrow> res_bind (split_host_port rest) (\<lambda>(host, port). Inr (DiagTcp host port))
      | None \<Rightarrow> (case strip_prefix s ''tls://'' of
          Some rest \<Rightarrow> res_bind (split_host_port rest) (\<lambda>(host, port). Inr (DiagTls host port))
      | None \<Rightarrow> Inr (DiagDns s))))))"

section \<open>Host and port\<close>

lemma dec_no_slash: "CHR ''/'' \<notin> set (dec n)" "CHR '']'' \<notin> set (dec n)"
  using dec_codes [of "CHR ''/''" n] dec_codes [of "CHR '']''" n] by auto

lemma split_chr_nonempty: "split_chr c s \<noteq> []"
  by (induction s) (auto split: list.splits)

lemma authority_of: "CHR ''/'' \<notin> set a \<Longrightarrow> hd (split_chr (CHR ''/'') (a @ rest)) = a @ hd (split_chr (CHR ''/'') rest)"
proof (induction a)
  case (Cons c a)
  then show ?case using split_chr_nonempty [of "CHR ''/''" "a @ rest"] by (auto split: list.splits)
qed simp

lemma path_authority:
  "CHR ''/'' \<notin> set a \<Longrightarrow> path = [] \<or> hd path = CHR ''/'' \<Longrightarrow> hd (split_chr (CHR ''/'') (a @ path)) = a"
  by (cases path) (auto simp: authority_of split_chr_none)

lemma port_of_dec: "port \<le> u16_max \<Longrightarrow> port_of_text (dec port) = Inr port"
  by (simp add: port_of_text_def parse_uint_dec)

lemma plain_host_port:
  assumes "host \<noteq> []" "CHR ''/'' \<notin> set host" "\<not> starts_with host ''[''" "port \<le> u16_max"
    "path = [] \<or> hd path = CHR ''/''"
  shows "split_host_port (host @ '':'' @ dec port @ path) = Inr (host, port)"
proof -
  have "CHR ''/'' \<notin> set (host @ '':'' @ dec port)" using assms(2) dec_no_slash by simp
  from path_authority [OF this assms(5)]
  have a: "hd (split_chr (CHR ''/'') (host @ '':'' @ dec port @ path)) = host @ '':'' @ dec port" by simp
  have "strip_prefix (host @ '':'' @ dec port) ''['' = None"
    using assms(1,3) by (cases host) (auto simp: strip_prefix_def starts_with_def)
  moreover have "rsplit_once (CHR '':'') (host @ CHR '':'' # dec port) = Some (host, dec port)"
    using dec_chars by (intro rsplit_once_append) blast
  ultimately show ?thesis using assms(1,4) unfolding split_host_port_def a by (simp add: port_of_dec)
qed

text \<open>
  A host and a port that were joined are taken apart again, whatever path follows: for every
  host without a slash or a bracket, IPv6 addresses, which are put in brackets, included.
\<close>

theorem host_port_roundtrip:
  assumes "host \<noteq> []" "CHR ''/'' \<notin> set host" "\<not> starts_with host ''[''" "CHR '']'' \<notin> set host" "port \<le> u16_max"
    "path = [] \<or> hd path = CHR ''/''"
  shows "split_host_port (join_host_port host port @ path) = Inr (host, port)"
proof (cases "contains host '':''")
  case False
  then show ?thesis using plain_host_port [OF assms(1-3,5,6)] by (simp add: join_host_port_def)
next
  case True
  have "CHR ''/'' \<notin> set (''['' @ host @ '']:'' @ dec port)" using assms(2) dec_no_slash by simp
  from path_authority [OF this assms(6)]
  have a: "hd (split_chr (CHR ''/'') ((''['' @ host @ '']:'' @ dec port) @ path)) = ''['' @ host @ '']:'' @ dec port" .
  have "find_sub (host @ '']:'' @ dec port) '']:'' = Some (length host)"
    using find_sub_skip [OF assms(4), of "'']:'' @ dec port" "'':''"] by (simp add: starts_with_def)
  then have "split_once_str '']:'' (host @ '']:'' @ dec port) = Some (host, dec port)"
    by (simp add: split_once_str_def)
  moreover have "strip_prefix (''['' @ host @ '']:'' @ dec port) ''['' = Some (host @ '']:'' @ dec port)"
    by (simp add: strip_prefix_def starts_with_def)
  moreover have j: "join_host_port host port @ path = (''['' @ host @ '']:'' @ dec port) @ path"
    using True assms(3) by (simp add: join_host_port_def)
  moreover have ne: "(''['' @ host @ '']:'' @ dec port = []) = False" by simp
  ultimately show ?thesis using port_of_dec [OF assms(5)]
    unfolding split_host_port_def Let_def j a ne by (simp only: if_False option.case prod.case res_bind.simps)
qed

theorem host_port_roundtrip_witness:
  "split_host_port (join_host_port ''fe80::1'' 8080 @ ''/x'') = Inr (''fe80::1'', 8080)"
  by (rule host_port_roundtrip) (simp_all add: starts_with_def u16_max_def)

text \<open>Targets whose text is read back.\<close>

definition host_ok :: "string \<Rightarrow> nat \<Rightarrow> bool" where
  "host_ok h p \<longleftrightarrow> h \<noteq> [] \<and> CHR ''/'' \<notin> set h \<and> \<not> starts_with h ''['' \<and> p \<le> u16_max"

fun target_ok :: "target \<Rightarrow> bool" where
  "target_ok (TgtTcp h p) = host_ok h p"
| "target_ok (TgtUdp h p) = host_ok h p"
| "target_ok (TgtTls h p) = host_ok h p"
| "target_ok (TgtUnix path) = (\<not> is_root path \<and> starts_with path ''/'' \<and> graphic (last path))"
| "target_ok (TgtWs url secure) = (parse_target url = Inr (TgtWs url secure))"
| "target_ok (TgtHttp url secure) = (parse_target url = Inr (TgtHttp url secure))"

lemma scheme_found:
  assumes "CHR '':'' \<notin> set k"
  shows "split_once_str ''://'' (k @ ''://'' @ rest) = Some (k, rest)"
  using find_sub_skip [OF assms, of "''://'' @ rest" "''//''"] by (simp add: split_once_str_def starts_with_def)

lemma trim_graphic_ends: "graphic a \<Longrightarrow> graphic (last b) \<Longrightarrow> b \<noteq> [] \<Longrightarrow> trim (a # b) = a # b"
  by (rule trim_graphic) simp_all

lemma dec_last: "graphic (last (dec n))"
  using dec_chars [OF last_in_set [of "dec n"]] by (simp add: dec_def)

lemma stream_target:
  assumes "host_ok h p"
  shows "parse_target (''tcp://'' @ h @ '':'' @ dec p) = Inr (TgtTcp h p)"
    "parse_target (''udp://'' @ h @ '':'' @ dec p) = Inr (TgtUdp h p)"
    "parse_target (''tls://'' @ h @ '':'' @ dec p) = Inr (TgtTls h p)"
proof -
  have hp: "split_host_port (h @ '':'' @ dec p) = Inr (h, p)"
    using plain_host_port [of h p "[]"] assms by (simp add: host_ok_def)
  have t: "trim (k @ ''://'' @ h @ '':'' @ dec p) = k @ ''://'' @ h @ '':'' @ dec p" if "k \<noteq> []" "graphic (hd k)" for k
    using that dec_last by (intro trim_graphic) (simp_all add: dec_def)
  have g: "graphic (CHR ''t'')" "graphic (CHR ''u'')" by (simp_all add: graphic_def)
  have k: "to_lower ''tcp'' = ''tcp''" "to_lower ''udp'' = ''udp''" "to_lower ''tls'' = ''tls''" by code_simp+
  show "parse_target (''tcp://'' @ h @ '':'' @ dec p) = Inr (TgtTcp h p)"
    using t [of "''tcp''"] scheme_found [of "''tcp''" "h @ '':'' @ dec p"] hp g
    by (simp add: parse_target_def k)
  show "parse_target (''udp://'' @ h @ '':'' @ dec p) = Inr (TgtUdp h p)"
    using t [of "''udp''"] scheme_found [of "''udp''" "h @ '':'' @ dec p"] hp g
    by (simp add: parse_target_def k)
  show "parse_target (''tls://'' @ h @ '':'' @ dec p) = Inr (TgtTls h p)"
    using t [of "''tls''"] scheme_found [of "''tls''" "h @ '':'' @ dec p"] hp g
    by (simp add: parse_target_def k)
qed

lemma unix_parse:
  assumes "\<not> is_root path" "starts_with path ''/''" "graphic (last path)"
  shows "parse_target (''unix://'' @ path) = Inr (TgtUnix path)"
proof -
  have ne: "path \<noteq> []" using assms(2) by (auto simp: starts_with_def)
  have "trim (''unix://'' @ path) = ''unix://'' @ path"
    using assms(3) ne by (intro trim_graphic) (simp_all add: graphic_def)
  moreover have "to_lower ''unix'' = ''unix''" by code_simp
  ultimately show ?thesis
    using scheme_found [of "''unix''" path] assms ne by (simp add: parse_target_def unix_target_def)
qed

text \<open>
  The text a target is displayed as is a URI of the same target: for stream targets whose host
  has no slash and does not start with a bracket (IPv6 addresses included: they are shown without
  brackets, and the last colon counts), for socket paths, and for URLs that parsing accepts.
\<close>

theorem target_roundtrip:
  assumes "target_ok t"
  shows "parse_target (display t) = Inr t"
proof (cases t)
  case (TgtUnix path)
  then show ?thesis using assms unix_parse [of path] by simp
qed (use assms stream_target in simp_all)

theorem target_roundtrip_witness:
  "parse_target (display (TgtTls ''::1'' 443)) = Inr (TgtTls ''::1'' 443)"
  by (rule target_roundtrip) (simp add: host_ok_def starts_with_def u16_max_def)

end
