(* ===== verification/Session.thy ===== *)
theory Session
  imports Composer Framing Targets Proxy
begin

text \<open>
  Stream, listen and proxy sessions (\<open>src/src/session/\<close>): what an event of the transport, a key
  or the composer does to the state the interface shows.  A text area is the list of its lines
  (\<open>src/src/ui/textarea_util.rs\<close>); commands go to the channel of the current connection, which
  has a number.  Times come from the clock; the outer \<open>option\<close> is the composer's panic.
\<close>

section \<open>Shared state\<close>

datatype session_kind = KindStream | KindHttp | KindListen | KindProxy | KindDiag | KindCapture

fun session_label :: "session_kind \<Rightarrow> string" where
  "session_label KindStream = ''STREAM''"
| "session_label KindHttp = ''HTTP''"
| "session_label KindListen = ''LISTEN''"
| "session_label KindProxy = ''PROXY''"
| "session_label KindDiag = ''DIAG''"
| "session_label KindCapture = ''CAPTURE''"

datatype conn_status = StIdle | StConnecting | StConnected | StListening | StDisconnected | StError

fun status_label :: "conn_status \<Rightarrow> string" where
  "status_label StIdle = ''IDLE''"
| "status_label StConnecting = ''CONNECTING''"
| "status_label StConnected = ''CONNECTED''"
| "status_label StListening = ''LISTENING''"
| "status_label StDisconnected = ''DISCONNECTED''"
| "status_label StError = ''ERROR''"

datatype pane_focus = PaneLog | PaneInspector | PaneComposer | PaneClients | PaneForm | PaneTree | PaneHex | PaneHistory

datatype inspect_mode = InspectHex | InspectRaw | InspectJson | InspectMsgPack

text \<open>\<open>usize::saturating_sub\<close> is subtraction of naturals; \<open>delta\<close> is signed.\<close>

definition move_selection :: "nat \<Rightarrow> bool \<Rightarrow> nat \<Rightarrow> int \<Rightarrow> nat \<times> bool" where
  "move_selection selected follow len delta =
     (if len = 0 then (0, follow)
      else let cur = min selected (len - 1);
               next = (if delta < 0 then cur - nat (- delta) else min (cur + nat delta) (len - 1))
           in (next, len \<le> next + 1))"

definition jump_top :: "nat \<times> bool" where
  "jump_top = (0, False)"

definition jump_bottom :: "nat \<Rightarrow> nat \<times> bool" where
  "jump_bottom len = (if len = 0 then (0, True) else (len - 1, True))"

text \<open>The middle dot of the messages.\<close>

definition middot :: string where
  "middot = '' '' @ [CHR 0xC2, CHR 0xB7] @ '' ''"

section \<open>Text areas\<close>

definition single_line :: "string \<Rightarrow> string list" where
  "single_line initial = [initial]"

definition multi_line :: "string \<Rightarrow> string list" where
  "multi_line initial = (if initial = [] then [[]] else str_lines initial)"

definition text_of :: "string list \<Rightarrow> string" where
  "text_of ta = join [CHR 10] ta"

definition set_text :: "string \<Rightarrow> string list" where
  "set_text s = (if contains s [CHR 10] then multi_line s else single_line s)"

section \<open>Stream sessions\<close>

record stream_session =
  ss_target :: target
  ss_framing :: framing_config
  ss_status :: conn_status
  ss_frames :: frame_buffer
  ss_selected :: nat
  ss_follow :: bool
  ss_focus :: pane_focus
  ss_inspect :: inspect_mode
  ss_composer_mode :: composer_mode
  ss_composer :: "string list"
  ss_filter :: string
  ss_status_msg :: string
  ss_channel :: nat
  ss_sent :: "(nat \<times> io_command) list"
  ss_max_frames :: nat

definition stream_start :: "target \<Rightarrow> framing_config \<Rightarrow> nat \<Rightarrow> stream_session" where
  "stream_start t framing max_frames =
     \<lparr>ss_target = t, ss_framing = framing, ss_status = StConnecting, ss_frames = fb_new max_frames,
      ss_selected = 0, ss_follow = True, ss_focus = PaneLog, ss_inspect = InspectHex,
      ss_composer_mode = ModeUtf8, ss_composer = multi_line [], ss_filter = [], ss_status_msg = [],
      ss_channel = 0, ss_sent = [], ss_max_frames = max_frames\<rparr>"

definition stream_inert :: "target \<Rightarrow> framing_config \<Rightarrow> nat \<Rightarrow> stream_session" where
  "stream_inert t framing max_frames = (stream_start t framing max_frames)\<lparr>ss_status := StIdle\<rparr>"

definition stream_command :: "io_command \<Rightarrow> stream_session \<Rightarrow> stream_session" where
  "stream_command c s = s\<lparr>ss_sent := ss_sent s @ [(ss_channel s, c)]\<rparr>"

definition reconnecting :: string where
  "reconnecting = ''reconnecting'' @ ellipsis"

definition stream_reconnect :: "stream_session \<Rightarrow> stream_session" where
  "stream_reconnect s =
     (stream_command CmdClose s)\<lparr>ss_channel := ss_channel s + 1, ss_status := StConnecting, ss_status_msg := reconnecting\<rparr>"

definition send_bytes :: "bytes \<Rightarrow> stream_session \<Rightarrow> stream_session" where
  "send_bytes payload s = stream_command (CmdSend payload None) s"

definition stream_view :: "stream_session \<Rightarrow> frame list" where
  "stream_view s = fb_filtered (ss_frames s) (ss_filter s)"

definition replay_selected :: "stream_session \<Rightarrow> stream_session" where
  "replay_selected s = (case idx (stream_view s) (ss_selected s) of None \<Rightarrow> s | Some f \<Rightarrow> send_bytes (fr_payload f) s)"

definition load_selected_to_composer :: "stream_session \<Rightarrow> stream_session" where
  "load_selected_to_composer s =
     (case idx (stream_view s) (ss_selected s) of
        None \<Rightarrow> s
      | Some f \<Rightarrow> s\<lparr>ss_composer := set_text (encode_for_edit (fr_payload f) (ss_composer_mode s)), ss_focus := PaneComposer\<rparr>)"

definition send_composer :: "stream_session \<Rightarrow> stream_session option" where
  "send_composer s =
     (case decode_payload (text_of (ss_composer s)) (ss_composer_mode s) of
        None \<Rightarrow> None
      | Some (Inr bytes) \<Rightarrow> Some (send_bytes bytes s)
      | Some (Inl e) \<Rightarrow> Some (s\<lparr>ss_status_msg := e\<rparr>))"

definition cycle_focus :: "stream_session \<Rightarrow> stream_session" where
  "cycle_focus s = s\<lparr>ss_focus := (case ss_focus s of PaneLog \<Rightarrow> PaneInspector | PaneInspector \<Rightarrow> PaneComposer | _ \<Rightarrow> PaneLog)\<rparr>"

definition nav_by :: "int \<Rightarrow> stream_session \<Rightarrow> stream_session" where
  "nav_by delta s =
     (let (sel, follow) = move_selection (ss_selected s) (ss_follow s) (length (stream_view s)) delta
      in s\<lparr>ss_selected := sel, ss_follow := follow\<rparr>)"

definition nav_up :: "stream_session \<Rightarrow> stream_session" where
  "nav_up s = nav_by (- 1) s"

definition nav_down :: "stream_session \<Rightarrow> stream_session" where
  "nav_down s = nav_by 1 s"

definition nav_top :: "stream_session \<Rightarrow> stream_session" where
  "nav_top s = (let (sel, follow) = jump_top in s\<lparr>ss_selected := sel, ss_follow := follow\<rparr>)"

definition nav_bottom :: "stream_session \<Rightarrow> stream_session" where
  "nav_bottom s = (let (sel, follow) = jump_bottom (length (stream_view s)) in s\<lparr>ss_selected := sel, ss_follow := follow\<rparr>)"

definition follow_frames :: "bool \<Rightarrow> nat \<Rightarrow> nat \<Rightarrow> nat" where
  "follow_frames follow len selected = (if follow \<and> 0 < len then len - 1 else selected)"

definition reconnect_hint :: string where
  "reconnect_hint = '' '' @ [CHR 0xE2, CHR 0x80, CHR 0x94] @ '' F6 reconnect''"

definition stream_on_io :: "nat \<Rightarrow> int \<Rightarrow> io_event \<Rightarrow> stream_session \<Rightarrow> stream_session" where
  "stream_on_io at_now wall_now e s =
     (case e of
        EvConnected peer \<Rightarrow> s\<lparr>ss_status := StConnected, ss_status_msg := ''connected to '' @ peer\<rparr>
      | EvDisconnected reason \<Rightarrow> s\<lparr>ss_status := StDisconnected, ss_status_msg := ''disconnected: '' @ reason @ reconnect_hint\<rparr>
      | EvFrame d p peer \<Rightarrow>
          let s = s\<lparr>ss_frames := fb_push_full at_now wall_now d p peer None (ss_frames s)\<rparr> in
          s\<lparr>ss_selected := follow_frames (ss_follow s) (length (stream_view s)) (ss_selected s)\<rparr>
      | EvError m \<Rightarrow> s\<lparr>ss_status := StError, ss_status_msg := m\<rparr>
      | EvStatus m \<Rightarrow> s\<lparr>ss_status_msg := m\<rparr>
      | EvJoined _ _ \<Rightarrow> s
      | EvLeft _ \<Rightarrow> s)"

section \<open>Listen sessions\<close>

record client_info =
  ci_id :: nat
  ci_peer :: string
  ci_bytes_in :: nat
  ci_bytes_out :: nat

record listen_session =
  ln_target :: target
  ln_framing :: framing_config
  ln_status :: conn_status
  ln_frames :: frame_buffer
  ln_clients :: "client_info list"
  ln_selected_client :: "nat option"
  ln_selected :: nat
  ln_follow :: bool
  ln_focus :: pane_focus
  ln_inspect :: inspect_mode
  ln_composer_mode :: composer_mode
  ln_composer :: "string list"
  ln_broadcast :: bool
  ln_filter :: string
  ln_status_msg :: string
  ln_sent :: "io_command list"

definition listen_start :: "target \<Rightarrow> framing_config \<Rightarrow> nat \<Rightarrow> listen_session" where
  "listen_start t framing max_frames =
     \<lparr>ln_target = t, ln_framing = framing, ln_status = StListening, ln_frames = fb_new max_frames,
      ln_clients = [], ln_selected_client = None, ln_selected = 0, ln_follow = True, ln_focus = PaneClients,
      ln_inspect = InspectHex, ln_composer_mode = ModeUtf8, ln_composer = multi_line [], ln_broadcast = False,
      ln_filter = [], ln_status_msg = ''waiting for clients'' @ ellipsis, ln_sent = []\<rparr>"

definition listen_inert :: "target \<Rightarrow> framing_config \<Rightarrow> nat \<Rightarrow> listen_session" where
  "listen_inert t framing max_frames = (listen_start t framing max_frames)\<lparr>ln_focus := PaneComposer\<rparr>"

definition listen_send_composer :: "listen_session \<Rightarrow> listen_session option" where
  "listen_send_composer s =
     (case decode_payload (text_of (ln_composer s)) (ln_composer_mode s) of
        None \<Rightarrow> None
      | Some (Inl e) \<Rightarrow> Some (s\<lparr>ln_status_msg := e\<rparr>)
      | Some (Inr p) \<Rightarrow>
          Some (s\<lparr>ln_sent := ln_sent s @ [if ln_broadcast s then CmdBroadcast p else CmdSend p (ln_selected_client s)]\<rparr>))"

definition select_client_index :: "nat \<Rightarrow> listen_session \<Rightarrow> listen_session" where
  "select_client_index i s =
     (case idx (ln_clients s) i of None \<Rightarrow> s | Some c \<Rightarrow> s\<lparr>ln_selected_client := Some (ci_id c)\<rparr>)"

definition count_bytes :: "direction \<Rightarrow> nat \<Rightarrow> client_info \<Rightarrow> client_info" where
  "count_bytes d len c =
     (case d of DirIn \<Rightarrow> c\<lparr>ci_bytes_in := ci_bytes_in c + len\<rparr> | DirOut \<Rightarrow> c\<lparr>ci_bytes_out := ci_bytes_out c + len\<rparr>)"

text \<open>\<open>iter_mut().find(...)\<close>: the first entry that passes the test is changed.\<close>

fun update_first :: "('a \<Rightarrow> bool) \<Rightarrow> ('a \<Rightarrow> 'a) \<Rightarrow> 'a list \<Rightarrow> 'a list" where
  "update_first P f [] = []"
| "update_first P f (x # xs) = (if P x then f x # xs else x # update_first P f xs)"

definition listen_on_io :: "nat \<Rightarrow> int \<Rightarrow> io_event \<Rightarrow> listen_session \<Rightarrow> listen_session" where
  "listen_on_io at_now wall_now e s =
     (case e of
        EvConnected _ \<Rightarrow> s\<lparr>ln_status := StListening\<rparr>
      | EvJoined i peer \<Rightarrow>
          s\<lparr>ln_clients := ln_clients s @ [\<lparr>ci_id = i, ci_peer = peer, ci_bytes_in = 0, ci_bytes_out = 0\<rparr>],
            ln_selected_client := (if ln_selected_client s = None then Some i else ln_selected_client s),
            ln_status_msg := ''client joined '' @ peer\<rparr>
      | EvLeft i \<Rightarrow>
          let cs = filter (\<lambda>c. ci_id c \<noteq> i) (ln_clients s) in
          s\<lparr>ln_clients := cs,
            ln_selected_client := (if ln_selected_client s = Some i
              then (case cs of [] \<Rightarrow> None | c # _ \<Rightarrow> Some (ci_id c)) else ln_selected_client s)\<rparr>
      | EvFrame d p peer \<Rightarrow>
          let s = s\<lparr>ln_clients := (case peer of None \<Rightarrow> ln_clients s
                | Some q \<Rightarrow> update_first (\<lambda>c. ci_peer c = q) (count_bytes d (length p)) (ln_clients s)),
              ln_frames := fb_push_full at_now wall_now d p peer None (ln_frames s)\<rparr> in
          s\<lparr>ln_selected := follow_frames (ln_follow s) (length (fb_filtered (ln_frames s) (ln_filter s))) (ln_selected s)\<rparr>
      | EvError m \<Rightarrow> s\<lparr>ln_status := StError, ln_status_msg := m\<rparr>
      | EvStatus m \<Rightarrow> s\<lparr>ln_status_msg := m\<rparr>
      | EvDisconnected reason \<Rightarrow> s\<lparr>ln_status_msg := reason\<rparr>)"

section \<open>Proxy sessions\<close>

record proxy_session =
  py_bind :: target
  py_upstream :: target
  py_status :: conn_status
  py_frames :: frame_buffer
  py_selected :: nat
  py_follow :: bool
  py_focus :: pane_focus
  py_inspect :: inspect_mode
  py_filter :: string
  py_status_msg :: string
  py_tls_intercept :: bool
  py_composer_mode :: composer_mode
  py_composer :: "string list"
  py_sent :: "io_command list"

definition proxy_send_composer :: "bool \<Rightarrow> proxy_session \<Rightarrow> proxy_session option" where
  "proxy_send_composer live s =
     (case decode_payload (text_of (py_composer s)) (py_composer_mode s) of
        None \<Rightarrow> None
      | Some (Inr p) \<Rightarrow>
          if p = [] then Some (s\<lparr>py_status_msg := ''composer empty''\<rparr>)
          else if \<not> live then Some (s\<lparr>py_status_msg := ''no active splice '' @ [CHR 0xE2, CHR 0x80, CHR 0x94] @ '' wait for a client connection''\<rparr>)
          else Some (s\<lparr>py_sent := py_sent s @ [CmdSend p None],
            py_status_msg := ''inject queued '' @ [CHR 0xE2, CHR 0x86, CHR 0x92] @ '' upstream''\<rparr>)
      | Some (Inl e) \<Rightarrow> Some (s\<lparr>py_status_msg := ''composer: '' @ e\<rparr>))"

definition proxy_on_io :: "nat \<Rightarrow> int \<Rightarrow> io_event \<Rightarrow> proxy_session \<Rightarrow> proxy_session" where
  "proxy_on_io at_now wall_now e s =
     (case e of
        EvConnected _ \<Rightarrow> s\<lparr>py_status := StListening\<rparr>
      | EvFrame d p peer \<Rightarrow>
          let s = s\<lparr>py_frames := fb_push_full at_now wall_now d p peer None (py_frames s)\<rparr> in
          s\<lparr>py_selected := follow_frames (py_follow s) (fb_len (py_frames s)) (py_selected s)\<rparr>
      | EvError m \<Rightarrow> s\<lparr>py_status := StError, py_status_msg := m\<rparr>
      | EvStatus m \<Rightarrow> s\<lparr>py_status_msg := m\<rparr>
      | _ \<Rightarrow> s)"

section \<open>Keys and clicks\<close>

text \<open>The session's part of \<open>src/src/app.rs\<close>: a click on a row of the log, the keys of the client list,
  the focus and the modes.  \<open>InspectMode::next\<close> and \<open>prev\<close> are of \<open>src/src/inspect.rs\<close>.\<close>

fun inspect_next :: "inspect_mode \<Rightarrow> inspect_mode" where
  "inspect_next InspectHex = InspectRaw"
| "inspect_next InspectRaw = InspectJson"
| "inspect_next InspectJson = InspectMsgPack"
| "inspect_next InspectMsgPack = InspectHex"

fun inspect_prev :: "inspect_mode \<Rightarrow> inspect_mode" where
  "inspect_prev InspectHex = InspectMsgPack"
| "inspect_prev InspectRaw = InspectHex"
| "inspect_prev InspectJson = InspectRaw"
| "inspect_prev InspectMsgPack = InspectJson"

definition cycle_format_dir :: "bool \<Rightarrow> stream_session \<Rightarrow> stream_session" where
  "cycle_format_dir next s =
     s\<lparr>ss_inspect := (if next then inspect_next (ss_inspect s) else inspect_prev (ss_inspect s))\<rparr>"

definition toggle_composer_mode :: "stream_session \<Rightarrow> stream_session" where
  "toggle_composer_mode s =
     s\<lparr>ss_composer_mode := (case ss_composer_mode s of ModeUtf8 \<Rightarrow> ModeHex | ModeHex \<Rightarrow> ModeUtf8)\<rparr>"

definition select_log_row :: "nat \<Rightarrow> stream_session \<Rightarrow> stream_session" where
  "select_log_row i s =
     (let len = length (stream_view s) in
      if i < len then s\<lparr>ss_selected := i, ss_follow := (len \<le> i + 1)\<rparr> else s)"

definition focus_back :: "stream_session \<Rightarrow> stream_session" where
  "focus_back s =
     s\<lparr>ss_focus := (case ss_focus s of PaneLog \<Rightarrow> PaneComposer | PaneInspector \<Rightarrow> PaneLog | _ \<Rightarrow> PaneInspector)\<rparr>"

definition listen_cycle_focus :: "bool \<Rightarrow> listen_session \<Rightarrow> listen_session" where
  "listen_cycle_focus reverse s =
     s\<lparr>ln_focus :=
        (if reverse then
           (case ln_focus s of PaneClients \<Rightarrow> PaneComposer | PaneLog \<Rightarrow> PaneClients | PaneInspector \<Rightarrow> PaneLog
              | _ \<Rightarrow> PaneInspector)
         else
           (case ln_focus s of PaneClients \<Rightarrow> PaneLog | PaneLog \<Rightarrow> PaneInspector | PaneInspector \<Rightarrow> PaneComposer
              | _ \<Rightarrow> PaneClients))\<rparr>"

text \<open>\<open>iter().position(...)\<close>.\<close>

definition position :: "('a \<Rightarrow> bool) \<Rightarrow> 'a list \<Rightarrow> nat option" where
  "position P xs = (case dropWhile (\<lambda>x. \<not> P x) xs of [] \<Rightarrow> None | ys \<Rightarrow> Some (length xs - length ys))"

definition listen_view :: "listen_session \<Rightarrow> frame list" where
  "listen_view s = fb_filtered (ln_frames s) (ln_filter s)"

definition listen_nav :: "int \<Rightarrow> listen_session \<Rightarrow> listen_session" where
  "listen_nav delta s =
     (if ln_focus s = PaneClients then
        if ln_clients s = [] then s
        else
          let cur = (case position (\<lambda>c. Some (ci_id c) = ln_selected_client s) (ln_clients s) of None \<Rightarrow> 0 | Some i \<Rightarrow> i);
              next = (if delta < 0 then cur - 1 else min (cur + 1) (length (ln_clients s) - 1))
          in select_client_index next s
      else
        let (sel, follow) = move_selection (ln_selected s) (ln_follow s) (length (listen_view s)) delta
        in s\<lparr>ln_selected := sel, ln_follow := follow\<rparr>)"

definition listen_select_row :: "nat \<Rightarrow> listen_session \<Rightarrow> listen_session" where
  "listen_select_row i s =
     (let len = length (listen_view s) in
      if i < len then s\<lparr>ln_selected := i, ln_follow := (len \<le> i + 1)\<rparr> else s)"

definition proxy_view :: "proxy_session \<Rightarrow> frame list" where
  "proxy_view s = fb_filtered (py_frames s) (py_filter s)"

definition proxy_nav :: "int \<Rightarrow> proxy_session \<Rightarrow> proxy_session" where
  "proxy_nav delta s =
     (let (sel, follow) = move_selection (py_selected s) (py_follow s) (length (proxy_view s)) delta
      in s\<lparr>py_selected := sel, py_follow := follow\<rparr>)"

definition proxy_select_row :: "nat \<Rightarrow> proxy_session \<Rightarrow> proxy_session" where
  "proxy_select_row i s =
     (let len = length (proxy_view s) in
      if i < len then s\<lparr>py_selected := i, py_follow := (len \<le> i + 1)\<rparr> else s)"

section \<open>From the log to the composer and back\<close>

lemma split_lf_terminated:
  "list_all (\<lambda>l. CHR 10 \<notin> set l) ls \<Longrightarrow>
   split_chr (CHR 10) (concat (map (\<lambda>l. l @ [CHR 13, CHR 10]) ls)) = map (\<lambda>l. l @ [CHR 13]) ls @ [[]]"
proof (induction ls)
  case (Cons l ls)
  have "split_chr (CHR 10) ((l @ [CHR 13]) @ CHR 10 # concat (map (\<lambda>l. l @ [CHR 13, CHR 10]) ls)) =
      (l @ [CHR 13]) # split_chr (CHR 10) (concat (map (\<lambda>l. l @ [CHR 13, CHR 10]) ls))"
    using Cons.prems by (intro split_chr_append) auto
  then show ?case using Cons by simp
qed simp

lemma lines_terminated:
  "list_all (\<lambda>l. CHR 10 \<notin> set l) ls \<Longrightarrow> str_lines (concat (map (\<lambda>l. l @ [CHR 13, CHR 10]) ls)) = ls"
  by (simp add: str_lines_def split_lf_terminated map_idI)

text \<open>A line of printable ASCII without a backslash; it may be empty.\<close>

definition typed_line :: "string \<Rightarrow> bool" where
  "typed_line l \<longleftrightarrow> list_all (\<lambda>c. (graphic c \<and> of_char c \<noteq> (127 :: nat) \<or> c = CHR '' '') \<and> c \<noteq> CHR 92) l"

lemma typed_bytes:
  assumes "typed_line l" "b \<in> set (as_bytes l)"
  shows "32 \<le> unat b \<and> unat b \<le> 126 \<and> b \<noteq> 92"
proof -
  have bs: "chr_of_byte 92 = CHR 92" by code_simp
  obtain c where c: "c \<in> set l" "b = byte_of_chr c" using assms(2) by (auto simp: as_bytes_def)
  then have "(graphic c \<and> of_char c \<noteq> (127 :: nat) \<or> c = CHR '' '') \<and> c \<noteq> CHR 92"
    using assms(1) by (simp add: typed_line_def list_all_iff)
  moreover have "unat b = of_char c" using c(2) by (simp add: byte_of_chr_def)
  moreover have "c \<noteq> CHR 92 \<Longrightarrow> b \<noteq> 92" using c(2) byte_of_chr_inverse [of c] bs by metis
  ultimately show ?thesis by (auto simp: graphic_def)
qed

lemma typed_no_lf: "typed_line l \<Longrightarrow> CHR 10 \<notin> set l"
proof
  assume "typed_line l" "CHR 10 \<in> set l"
  then have "graphic (CHR 10) \<or> CHR 10 = CHR '' ''" unfolding typed_line_def list_all_iff by blast
  then show False by (simp add: graphic_def)
qed

lemma chr_of_byte_lf: "b \<noteq> 10 \<Longrightarrow> chr_of_byte b \<noteq> CHR 10"
proof
  assume b: "b \<noteq> 10" "chr_of_byte b = CHR 10"
  then have "byte_of_chr (chr_of_byte b) = byte_of_chr (CHR 10)" by simp
  moreover have "byte_of_chr (CHR 10) = 10" by code_simp
  ultimately show False using b(1) by simp
qed

lemma no_controls_plain: "\<forall>b \<in> set bs. b = 10 \<or> b = 13 \<or> 32 \<le> unat b \<and> unat b \<le> 126 \<Longrightarrow> no_controls bs"
  by (induction bs) auto

lemma typed_text:
  assumes "list_all typed_line ls" "\<forall>b \<in> set sep. b = 10 \<or> b = 13"
    "\<forall>b \<in> set bs. b \<in> set sep \<or> (\<exists>l \<in> set ls. b \<in> set (as_bytes l))"
  shows "utf8_valid bs" "no_controls bs" "92 \<notin> set bs"
proof -
  have b: "b = 10 \<or> b = 13 \<or> 32 \<le> unat b \<and> unat b \<le> 126 \<and> b \<noteq> 92" if "b \<in> set bs" for b
    using assms that typed_bytes unfolding list_all_iff by blast
  then show "no_controls bs" by (intro no_controls_plain) blast
  show "92 \<notin> set bs" using b [of 92] by auto
  have "unat b < 128" if "b \<in> set bs" for b using b [OF that] by auto
  then show "utf8_valid bs" by (intro utf8_valid_ascii) blast
qed

lemma set_join: "set (join sep ls) \<subseteq> set sep \<union> (\<Union>l \<in> set ls. set l)"
  by (induction sep ls rule: join.induct) auto

lemma as_bytes_members: "b \<in> set (as_bytes s) \<longleftrightarrow> (\<exists>c \<in> set s. b = byte_of_chr c)"
  by (auto simp: as_bytes_def)

text \<open>
  Loading a logged text and sending it again does not send what was logged: of a payload of
  lines ended by CR LF, as HTTP has them, the composer keeps the lines only, and sends them
  separated by single line feeds, without the end of the last one.
\<close>

theorem resend_mangles_lines:
  assumes "idx (stream_view s) (ss_selected s) = Some f" "ss_composer_mode s = ModeUtf8" "ls \<noteq> []"
    "list_all typed_line ls" "fr_payload f = as_bytes (concat (map (\<lambda>l. l @ [CHR 13, CHR 10]) ls))"
  shows "\<exists>s'. send_composer (load_selected_to_composer s) = Some s' \<and>
    ss_sent s' = ss_sent s @ [(ss_channel s, CmdSend (as_bytes (join [CHR 10] ls)) None)]"
proof -
  let ?text = "concat (map (\<lambda>l. l @ [CHR 13, CHR 10]) ls)"
  have cr: "byte_of_chr (CHR 13) = 13" "byte_of_chr (CHR 10) = 10" by code_simp+
  have "\<forall>b \<in> set (as_bytes ?text). b \<in> set [13, 10] \<or> (\<exists>l \<in> set ls. b \<in> set (as_bytes l))"
    using cr assms(3) by (auto simp: as_bytes_members)
  note t = typed_text [OF assms(4) _ this]
  have "\<forall>b \<in> set (as_bytes (join [CHR 10] ls)). b \<in> set [10] \<or> (\<exists>l \<in> set ls. b \<in> set (as_bytes l))"
    using subsetD [OF set_join [of "[CHR 10]" ls]] cr by (fastforce simp: as_bytes_members)
  note j = typed_text [OF assms(4) _ this]
  have enc: "encode_for_edit (fr_payload f) ModeUtf8 = ?text"
    using t by (simp add: encode_for_edit_def assms(5))
  have lf: "list_all (\<lambda>l. CHR 10 \<notin> set l) ls"
    using assms(4) typed_no_lf unfolding list_all_iff by blast
  have "CHR 10 \<in> set ?text" using assms(3) by (cases ls) auto
  then obtain u v where "?text = u @ CHR 10 # v" by (blast dest: split_list)
  then have "contains ?text [CHR 10]" unfolding contains_iff by (intro exI [of _ u] exI [of _ v]) simp
  then have area: "set_text ?text = ls"
    using lines_terminated [OF lf] assms(3) by (cases ls) (auto simp: set_text_def multi_line_def)
  have dec: "decode_payload (join [CHR 10] ls) ModeUtf8 = Some (Inr (as_bytes (join [CHR 10] ls)))"
    using esc_loop_plain [OF j(1,3), of "[]"] by (simp add: decode_payload_def decode_utf8_escapes_def)
  show ?thesis
    by (simp add: load_selected_to_composer_def send_composer_def assms(1,2) enc area text_of_def dec
        send_bytes_def stream_command_def)
qed

definition one_frame :: "bytes \<Rightarrow> stream_session" where
  "one_frame p = stream_on_io 0 0 (EvFrame DirIn p None) (stream_inert (TgtTcp ''h'' 1) default_framing 4)"

lemma one_frame_selected:
  "\<exists>f. idx (stream_view (one_frame p)) (ss_selected (one_frame p)) = Some f \<and> fr_payload f = p"
  "ss_composer_mode (one_frame p) = ModeUtf8" "ss_channel (one_frame p) = 0" "ss_sent (one_frame p) = []"
  by (simp_all add: one_frame_def stream_on_io_def stream_inert_def stream_start_def stream_view_def fb_filtered_def
      fb_push_full_def fb_insert_def fb_new_def frame_new_def matches_filter_def follow_frames_def)

theorem resend_mangles_lines_witness:
  "\<exists>s'. send_composer (load_selected_to_composer (one_frame (as_bytes (concat (map (\<lambda>l. l @ [CHR 13, CHR 10]) [''HEAD / HTTP/1.1'', []])))))
      = Some s' \<and> ss_sent s' = [(0, CmdSend (as_bytes (join [CHR 10] [''HEAD / HTTP/1.1'', []])) None)]"
proof -
  let ?s = "one_frame (as_bytes (concat (map (\<lambda>l. l @ [CHR 13, CHR 10]) [''HEAD / HTTP/1.1'', []])))"
  obtain f where f: "idx (stream_view ?s) (ss_selected ?s) = Some f"
    "fr_payload f = as_bytes (concat (map (\<lambda>l. l @ [CHR 13, CHR 10]) [''HEAD / HTTP/1.1'', []]))"
    using one_frame_selected(1) by blast
  have "list_all typed_line [''HEAD / HTTP/1.1'', []]" by code_simp
  from resend_mangles_lines [OF f(1) one_frame_selected(2) _ this f(2)] show ?thesis
    unfolding one_frame_selected(3,4) by simp
qed

lemma digit_chr_line: "n < 16 \<Longrightarrow> digit_chr n \<noteq> CHR 10"
  using digit_chr_code [of n] by auto

lemma hex02_line: "CHR 10 \<notin> set (hex02 (unat (b :: u8)))"
  using digit_chr_line [of "unat b div 16"] digit_chr_line [of "unat b mod 16"] div16_less [of b]
  by (auto simp: hex_two)

lemma edit_byte_line: "CHR 10 \<notin> set (edit_byte b)"
proof -
  show ?thesis using chr_of_byte_lf [of b] hex02_line [of b] by (auto simp: edit_byte_def)
qed

lemma hex_line: "CHR 10 \<notin> set (join '' '' (map (\<lambda>b. hex02 (unat (b :: u8))) bs))"
  using subsetD [OF set_join [of "'' ''" "map (\<lambda>b. hex02 (unat (b :: u8))) bs"]] hex02_line by fastforce

lemma one_line_area: "CHR 10 \<notin> set t \<Longrightarrow> text_of (set_text t) = t"
proof -
  assume t: "CHR 10 \<notin> set t"
  have "\<not> contains t [CHR 10]" unfolding contains_iff using t by auto
  then show ?thesis by (simp add: set_text_def single_line_def text_of_def)
qed

text \<open>Payloads the composer shows on one line and reads back.\<close>

definition survives :: "composer_mode \<Rightarrow> bytes \<Rightarrow> bool" where
  "survives mode p \<longleftrightarrow> mode = ModeHex \<or> \<not> (utf8_valid p \<and> no_controls p) \<or> 10 \<notin> set p \<and> 92 \<notin> set p"

lemma survives_line: "survives mode p \<Longrightarrow> CHR 10 \<notin> set (encode_for_edit p mode)"
proof -
  assume s: "survives mode p"
  have "10 \<notin> set p \<Longrightarrow> CHR 10 \<notin> set (str_of p)"
    unfolding str_of_def set_map image_iff using chr_of_byte_lf by metis
  moreover have "CHR 10 \<notin> set (concat (map edit_byte p))" using edit_byte_line by auto
  ultimately show ?thesis using s hex_line [of p]
    by (auto simp: encode_for_edit_def survives_def split: composer_mode.splits)
qed

lemma survives_decode: "survives mode p \<Longrightarrow> decode_payload (encode_for_edit p mode) mode = Some (Inr p)"
  using hex_mode_decodes [of p] esc_loop_edit [of "[]" p] esc_loop_plain [of p "[]"]
  by (cases mode) (auto simp: survives_def decode_payload_def encode_for_edit_def decode_utf8_escapes_def)

text \<open>
  What is loaded into the composer and sent again is what was logged, in hex mode always, and in
  text mode for payloads that are shown escaped and for text of one line without a backslash.
\<close>

theorem resend_exact:
  assumes "idx (stream_view s) (ss_selected s) = Some f" "survives (ss_composer_mode s) (fr_payload f)"
  shows "\<exists>s'. send_composer (load_selected_to_composer s) = Some s' \<and>
    ss_sent s' = ss_sent s @ [(ss_channel s, CmdSend (fr_payload f) None)]"
  using survives_decode [OF assms(2)] one_line_area [OF survives_line [OF assms(2)]]
  by (simp add: load_selected_to_composer_def send_composer_def assms(1) send_bytes_def stream_command_def)

theorem resend_exact_witness:
  "\<exists>s'. send_composer (load_selected_to_composer (one_frame [0, 92, 10, 255])) = Some s' \<and>
     ss_sent s' = [(0, CmdSend [0, 92, 10, 255] None)]"
proof -
  obtain f where f: "idx (stream_view (one_frame [0, 92, 10, 255])) (ss_selected (one_frame [0, 92, 10, 255])) = Some f"
    "fr_payload f = [0, 92, 10, 255]" using one_frame_selected(1) by blast
  have "survives ModeUtf8 [0, 92, 10, 255]" by (simp add: survives_def)
  then show ?thesis
    using resend_exact [OF f(1)] unfolding one_frame_selected(2-4) f(2) by simp
qed

section \<open>The selection\<close>

text \<open>What can happen to a stream session that is not filtered.\<close>

inductive stream_step :: "stream_session \<Rightarrow> stream_session \<Rightarrow> bool" where
  step_event: "stream_step s (stream_on_io at_now wall_now e s)"
| step_nav: "stream_step s (nav_by delta s)"
| step_top: "stream_step s (nav_top s)"
| step_bottom: "stream_step s (nav_bottom s)"
| step_click: "stream_step s (select_log_row i s)"
| step_send: "send_composer s = Some s' \<Longrightarrow> stream_step s s'"
| step_replay: "stream_step s (replay_selected s)"
| step_load: "stream_step s (load_selected_to_composer s)"
| step_reconnect: "stream_step s (stream_reconnect s)"
| step_focus: "stream_step s (cycle_focus s)"
| step_focus_back: "stream_step s (focus_back s)"
| step_mode: "stream_step s (toggle_composer_mode s)"
| step_format: "stream_step s (cycle_format_dir d s)"
| step_typed: "stream_step s (s\<lparr>ss_composer := ls\<rparr>)"

inductive_cases stream_stepE: "stream_step s s'"

definition selection_ok :: "bool \<Rightarrow> nat \<Rightarrow> nat \<Rightarrow> bool" where
  "selection_ok follow len selected \<longleftrightarrow> selected < max 1 len \<and> (follow \<longrightarrow> selected = len - 1)"

definition selection_inv :: "stream_session \<Rightarrow> bool" where
  "selection_inv s \<longleftrightarrow> ss_filter s = [] \<and> selection_ok (ss_follow s) (length (fb_frames (ss_frames s))) (ss_selected s)"

lemma selection_ok_move:
  assumes "selection_ok follow len selected" "move_selection selected follow len delta = (sel, f)"
  shows "selection_ok f len sel"
  using assms by (cases "len = 0"; cases "delta < 0") (auto simp: selection_ok_def move_selection_def Let_def)

lemma selection_ok_follow:
  "selection_ok follow len selected \<Longrightarrow> len \<le> len' \<Longrightarrow> selection_ok follow len' (follow_frames follow len' selected)"
  by (auto simp: selection_ok_def follow_frames_def)

lemma unfiltered_view: "ss_filter s = [] \<Longrightarrow> stream_view s = fb_frames (ss_frames s)"
  by (simp add: stream_view_def fb_filtered_def matches_filter_def)

lemma fb_push_full_grows:
  "0 < fb_capacity b \<Longrightarrow> length (fb_frames b) \<le> length (fb_frames (fb_push_full at_now wall_now d p peer meta b))"
  by (cases "fb_frames b") (auto simp: fb_push_full_def fb_insert_def Let_def)

lemma fb_push_full_capacity: "fb_capacity (fb_push_full at_now wall_now d p peer meta b) = fb_capacity b"
  by (simp add: fb_push_full_def fb_insert_def Let_def)

definition ring_set :: "stream_session \<Rightarrow> bool" where
  "ring_set s \<longleftrightarrow> 0 < fb_capacity (ss_frames s)"

lemmas selection_simps = selection_inv_def ring_set_def stream_command_def send_bytes_def unfiltered_view

lemma selection_step:
  assumes "stream_step s s'" "selection_inv s" "ring_set s"
  shows "selection_inv s' \<and> ring_set s'"
  using assms(1)
proof cases
  case (step_event at_now wall_now e)
  then show ?thesis
  proof (cases e)
    case (EvFrame d p peer)
    let ?b = "fb_push_full at_now wall_now d p peer None (ss_frames s)"
    have "length (fb_frames (ss_frames s)) \<le> length (fb_frames ?b)"
      using assms(3) fb_push_full_grows unfolding ring_set_def by blast
    moreover have "selection_ok (ss_follow s) (length (fb_frames (ss_frames s))) (ss_selected s)" "ss_filter s = []"
      using assms(2) by (simp_all add: selection_simps)
    ultimately show ?thesis
      using selection_ok_follow assms(3) by (simp add: step_event EvFrame stream_on_io_def Let_def selection_simps fb_push_full_capacity)
  qed (use assms(2,3) in \<open>simp_all add: stream_on_io_def selection_simps\<close>)
next
  case (step_nav delta)
  obtain sel f where m: "move_selection (ss_selected s) (ss_follow s) (length (stream_view s)) delta = (sel, f)"
    by fastforce
  show ?thesis using selection_ok_move [OF _ m] assms(2,3) m by (simp add: step_nav nav_by_def selection_simps)
next
  case step_top
  then show ?thesis using assms(2,3) by (simp add: nav_top_def jump_top_def selection_simps selection_ok_def)
next
  case step_bottom
  then show ?thesis using assms(2,3)
    by (cases "fb_frames (ss_frames s)") (simp_all add: nav_bottom_def jump_bottom_def selection_simps selection_ok_def)
next
  case (step_click i)
  then show ?thesis using assms(2,3) by (auto simp: select_log_row_def Let_def selection_simps selection_ok_def)
next
  case step_send
  then show ?thesis using assms(2,3)
    by (auto simp: send_composer_def selection_simps split: option.splits sum.splits)
next
  case step_replay
  then show ?thesis using assms(2,3) by (simp add: replay_selected_def selection_simps split: option.split)
next
  case step_load
  then show ?thesis using assms(2,3) by (simp add: load_selected_to_composer_def selection_simps split: option.split)
qed (use assms(2,3) in \<open>simp_all add: stream_reconnect_def cycle_focus_def focus_back_def toggle_composer_mode_def
  cycle_format_dir_def selection_simps\<close>)

text \<open>
  C11: In a session started by \<open>StreamSession::start\<close>, after any run of events, keys and clicks
  without a filter, the selection is a row of the log (or 0 when it is empty), and while the log is
  followed it is the newest one.
\<close>

theorem selection_valid:
  assumes "stream_step\<^sup>*\<^sup>* (stream_start t framing max_frames) s"
  shows "ss_selected s < max 1 (length (stream_view s)) \<and> (ss_follow s \<longrightarrow> ss_selected s = length (stream_view s) - 1)"
proof -
  have "selection_inv s \<and> ring_set s"
    using assms
  proof (induction rule: rtranclp_induct)
    case base
    show ?case by (simp add: selection_simps stream_start_def fb_new_def selection_ok_def)
  next
    case (step y z)
    then show ?case using selection_step by blast
  qed
  then show ?thesis by (simp add: selection_inv_def selection_ok_def unfiltered_view)
qed

theorem selection_valid_witness:
  "ss_selected (nav_up (stream_start (TgtTcp ''h'' 1) default_framing 4)) < 1"
proof -
  let ?s = "stream_start (TgtTcp ''h'' 1) default_framing 4"
  have "stream_step\<^sup>*\<^sup>* ?s (nav_up ?s)" unfolding nav_up_def by (intro r_into_rtranclp step_nav)
  from selection_valid [OF this] show ?thesis
    by (simp add: stream_view_def fb_filtered_def nav_up_def nav_by_def move_selection_def stream_start_def fb_new_def)
qed

text \<open>
  When the log is full and not followed, the selection is a row and not a frame: the frame that
  arrives moves every row up, so the frame replayed is the one after the frame chosen.
\<close>

theorem selection_drifts:
  assumes "ss_filter s = []" "\<not> ss_follow s" "length (fb_frames (ss_frames s)) = fb_capacity (ss_frames s)"
    "idx (fb_frames (ss_frames s)) (ss_selected s) = Some f" "idx (fb_frames (ss_frames s)) (ss_selected s + 1) = Some g"
  shows "ss_sent (replay_selected s) = ss_sent s @ [(ss_channel s, CmdSend (fr_payload f) None)] \<and>
    ss_sent (replay_selected (stream_on_io at_now wall_now (EvFrame d p peer) s)) =
      ss_sent s @ [(ss_channel s, CmdSend (fr_payload g) None)]"
proof -
  obtain h tl where fs: "fb_frames (ss_frames s) = h # tl" using assms(4) by (cases "fb_frames (ss_frames s)") (auto simp: idx_def)
  have "idx (tl @ [x]) (ss_selected s) = Some g" for x
    using assms(5) by (simp add: fs idx_def nth_append split: if_splits)
  then have "idx (fb_frames (fb_push_full at_now wall_now d p peer None (ss_frames s))) (ss_selected s) = Some g"
    using assms(3) by (simp add: fb_push_full_def fb_insert_def Let_def fs)
  then show ?thesis
    using assms(1,2,4) by (simp add: replay_selected_def unfiltered_view send_bytes_def stream_command_def
        stream_on_io_def Let_def follow_frames_def)
qed

definition two_frames :: stream_session where
  "two_frames = select_log_row 0 (stream_on_io 0 0 (EvFrame DirIn [2] None)
     (stream_on_io 0 0 (EvFrame DirIn [1] None) (stream_start (TgtTcp ''h'' 1) default_framing 2)))"

theorem selection_drifts_witness:
  "ss_sent (replay_selected two_frames) = [(0, CmdSend [1] None)] \<and>
   ss_sent (replay_selected (stream_on_io 0 0 (EvFrame DirIn [3] None) two_frames)) = [(0, CmdSend [2] None)]"
proof -
  have fr: "fb_frames (ss_frames two_frames) =
      [(frame_new 0 0 1 DirIn [1])\<lparr>fr_peer := None, fr_meta := None, fr_id := 1\<rparr>,
       (frame_new 0 0 2 DirIn [2])\<lparr>fr_peer := None, fr_meta := None, fr_id := 2\<rparr>]"
    "ss_filter two_frames = []" "\<not> ss_follow two_frames" "fb_capacity (ss_frames two_frames) = 2"
    "ss_selected two_frames = 0" "ss_sent two_frames = []" "ss_channel two_frames = 0"
    by (simp_all add: two_frames_def select_log_row_def stream_view_def fb_filtered_def matches_filter_def
        stream_on_io_def stream_start_def fb_new_def fb_push_full_def fb_insert_def Let_def follow_frames_def u64_max_def numeral_2_eq_2)
  show ?thesis
    using selection_drifts [of two_frames "fb_frames (ss_frames two_frames) ! 0" "fb_frames (ss_frames two_frames) ! 1"
        0 0 DirIn "[3]" None]
    by (simp add: fr idx_def frame_new_def)
qed

section \<open>The chosen client\<close>

inductive listen_step :: "listen_session \<Rightarrow> listen_session \<Rightarrow> bool" where
  lstep_event: "listen_step s (listen_on_io at_now wall_now e s)"
| lstep_nav: "listen_step s (listen_nav delta s)"
| lstep_click: "listen_step s (select_client_index i s)"
| lstep_row: "listen_step s (listen_select_row i s)"
| lstep_focus: "listen_step s (listen_cycle_focus reverse s)"
| lstep_broadcast: "listen_step s (s\<lparr>ln_broadcast := \<not> ln_broadcast s\<rparr>)"
| lstep_typed: "listen_step s (s\<lparr>ln_composer := ls\<rparr>)"
| lstep_send: "listen_send_composer s = Some s' \<Longrightarrow> listen_step s s'"

inductive_cases listen_stepE: "listen_step s s'"

definition client_inv :: "listen_session \<Rightarrow> bool" where
  "client_inv s \<longleftrightarrow>
     (ln_selected_client s = None \<longrightarrow> ln_clients s = []) \<and>
     (\<forall>i. ln_selected_client s = Some i \<longrightarrow> i \<in> ci_id ` set (ln_clients s))"

lemma update_first_ids: "(\<And>c. ci_id (f c) = ci_id c) \<Longrightarrow> map ci_id (update_first P f cs) = map ci_id cs"
  by (induction cs) auto

lemma count_bytes_id [simp]: "ci_id (count_bytes d n c) = ci_id c"
  by (cases d) (simp_all add: count_bytes_def)

lemma client_inv_ids:
  "map ci_id (ln_clients s') = map ci_id (ln_clients s) \<Longrightarrow> ln_selected_client s' = ln_selected_client s \<Longrightarrow>
   client_inv s \<Longrightarrow> client_inv s'"
proof -
  assume ids: "map ci_id (ln_clients s') = map ci_id (ln_clients s)"
  have "ci_id ` set (ln_clients s') = ci_id ` set (ln_clients s)" using arg_cong [OF ids, of set] by simp
  moreover have "ln_clients s' = [] \<longleftrightarrow> ln_clients s = []" using arg_cong [OF ids, of "\<lambda>l. l = []"] by simp
  moreover assume "ln_selected_client s' = ln_selected_client s" "client_inv s"
  ultimately show ?thesis by (cases "ln_selected_client s") (auto simp: client_inv_def)
qed

lemma client_inv_select: "client_inv s \<Longrightarrow> client_inv (select_client_index i s)"
  by (auto simp: select_client_index_def client_inv_def idx_def split: option.splits if_splits)

lemma client_inv_event: "client_inv s \<Longrightarrow> client_inv (listen_on_io at_now wall_now e s)"
proof (cases e)
  case (EvFrame d p peer)
  assume "client_inv s"
  then show ?thesis
    by (rule client_inv_ids [rotated 2])
      (auto simp: listen_on_io_def EvFrame Let_def update_first_ids split: option.split)
next
  case (EvJoined i peer)
  assume "client_inv s"
  then show ?thesis by (auto simp: listen_on_io_def EvJoined client_inv_def split: option.splits)
next
  case (EvLeft i)
  assume "client_inv s"
  note inv = this
  let ?cs = "filter (\<lambda>c. ci_id c \<noteq> i) (ln_clients s)"
  show ?thesis
  proof (cases "ln_selected_client s = Some i")
    case True
    then show ?thesis by (cases ?cs) (simp_all add: listen_on_io_def EvLeft client_inv_def Let_def)
  next
    case False
    then show ?thesis using inv
      by (cases "ln_selected_client s") (auto simp: listen_on_io_def EvLeft client_inv_def Let_def)
  qed
qed (simp_all add: listen_on_io_def client_inv_def split: option.splits)

lemma client_inv_step: "listen_step s s' \<Longrightarrow> client_inv s \<Longrightarrow> client_inv s'"
proof (induction rule: listen_step.induct)
  case lstep_event
  then show ?case by (rule client_inv_event)
next
  case lstep_click
  then show ?case by (rule client_inv_select)
next
  case (lstep_nav s delta)
  have rows: "client_inv (s\<lparr>ln_selected := sel, ln_follow := f\<rparr>)" for sel f
    using lstep_nav by (simp add: client_inv_def split: option.splits)
  show ?case
    unfolding listen_nav_def Let_def using lstep_nav client_inv_select [OF lstep_nav] rows
    by (simp split: prod.split)
next
  case (lstep_send s s')
  then show ?case by (auto simp: listen_send_composer_def client_inv_def split: option.splits sum.splits)
qed (simp_all add: listen_select_row_def listen_cycle_focus_def client_inv_def Let_def)

text \<open>
  C36: In a listening session, after any run of clients joining and leaving, traffic, keys and clicks,
  a client is chosen exactly when there is one, and it is one that is there: what the composer sends
  goes to a client that has not left.
\<close>

theorem chosen_client_present:
  assumes "listen_step\<^sup>*\<^sup>* (listen_start t framing max_frames) s"
  shows "(ln_selected_client s = None \<longleftrightarrow> ln_clients s = []) \<and>
    (ln_selected_client s = Some i \<longrightarrow> (\<exists>c \<in> set (ln_clients s). ci_id c = i))"
proof -
  have "client_inv s"
    using assms
  proof (induction rule: rtranclp_induct)
    case base
    show ?case by (simp add: client_inv_def listen_start_def)
  next
    case (step y z)
    then show ?case using client_inv_step by blast
  qed
  then show ?thesis by (cases "ln_selected_client s") (auto simp: client_inv_def)
qed

theorem chosen_client_present_witness:
  "ln_selected_client (listen_on_io 0 0 (EvLeft 1) (listen_on_io 0 0 (EvJoined 2 ''b'')
     (listen_on_io 0 0 (EvJoined 1 ''a'') (listen_start (TgtTcp ''l'' 1) default_framing 4)))) = Some 2"
proof -
  let ?start = "listen_start (TgtTcp ''l'' 1) default_framing 4"
  let ?s = "listen_on_io 0 0 (EvLeft 1) (listen_on_io 0 0 (EvJoined 2 ''b'') (listen_on_io 0 0 (EvJoined 1 ''a'') ?start))"
  have "listen_step\<^sup>*\<^sup>* ?start ?s"
    by (meson lstep_event rtranclp.rtrancl_into_rtrancl rtranclp.rtrancl_refl)
  from chosen_client_present [OF this, of 2] show ?thesis
    by (simp add: listen_on_io_def listen_start_def)
qed

end
