(* ===== verification/HttpClient.thy ===== *)
theory HttpClient
  imports RustStr
begin

text \<open>
  The HTTP client (\<open>src/src/http/client.rs\<close>): authentication, form bodies, the redirect loop of
  \<open>send_request\<close> and the text form of headers.  A \<open>Vec<(String, String)>\<close> of headers is an
  association list.  The crates are fields of \<open>http_env\<close>: URL encoding, base64, the parsers of the
  \<open>http\<close> crate, the file system, the clock and the server, which sees the number of the exchange.
  The timings and the TLS details of a response are left out.
\<close>

section \<open>Requests and responses\<close>

type_synonym headers = "(string \<times> string) list"

datatype auth_kind = AuthNone | AuthBearer | AuthBasic | AuthApiKeyHeader | AuthApiKeyQuery | AuthOAuth2

datatype http_version = VerAuto | VerHttp1 | VerHttp2

datatype body_mode = BodyRaw | BodyUrlEncoded | BodyMultipart | BodyGraphQL

record form_field =
  ff_key :: string
  ff_value :: string
  ff_file :: "string option"

record request_spec =
  rq_method :: string
  rq_url :: string
  rq_headers :: headers
  rq_body :: bytes
  rq_follow_redirects :: bool
  rq_max_redirects :: nat
  rq_auth :: auth_kind
  rq_auth_token :: string
  rq_auth_user :: string
  rq_auth_pass :: string
  rq_auth_key :: string
  rq_auth_value :: string
  rq_body_mode :: body_mode
  rq_form_fields :: "form_field list"
  rq_http_version :: http_version

record redirect_hop =
  rh_status :: nat
  rh_location :: string

record http_response =
  rs_status :: nat
  rs_headers :: headers
  rs_body :: bytes
  rs_redirect_chain :: "redirect_hop list"
  rs_version :: string

text \<open>What goes over the wire; the header map has one value for a name.\<close>

record wire_request =
  wr_method :: string
  wr_url :: string
  wr_headers :: "string \<rightharpoonup> string"
  wr_body :: bytes

record wire_response =
  ws_status :: nat
  ws_version :: string
  ws_headers :: "(string \<times> bytes) list"
  ws_body :: bytes

record http_env =
  he_urlencode :: "string \<Rightarrow> string"
  he_base64 :: "string \<Rightarrow> string"
  he_method :: "string \<Rightarrow> string option"
  he_uri :: "string \<Rightarrow> (string option \<times> string option) option"
  he_header :: "string \<times> string \<Rightarrow> (string \<times> string) option"
  he_build :: "wire_request \<Rightarrow> bool"
  he_read :: "string \<Rightarrow> bytes option"
  he_millis :: nat
  he_server :: "nat \<Rightarrow> wire_request \<Rightarrow> string + wire_response"

datatype client_error =
    ReadFile string
  | ParseUrl string
  | BuildRequest
  | HttpRequest string

definition default_spec :: request_spec where
  "default_spec = \<lparr>rq_method = ''GET'', rq_url = ''https://example.com/'', rq_headers = [(''User-Agent'', ''bitbeak/0.1'')],
     rq_body = [], rq_follow_redirects = True, rq_max_redirects = 10, rq_auth = AuthNone, rq_auth_token = [],
     rq_auth_user = [], rq_auth_pass = [], rq_auth_key = ''X-Api-Key'', rq_auth_value = [], rq_body_mode = BodyRaw,
     rq_form_fields = [], rq_http_version = VerAuto\<rparr>"

section \<open>Headers and authentication\<close>

definition header_get :: "headers \<Rightarrow> string \<Rightarrow> string option" where
  "header_get hs name = map_option snd (find (\<lambda>h. eq_ignore_case (fst h) name) hs)"

fun upsert_header :: "headers \<Rightarrow> string \<Rightarrow> string \<Rightarrow> headers" where
  "upsert_header [] name v = [(name, v)]"
| "upsert_header ((k, w) # hs) name v =
     (if eq_ignore_case k name then (k, v) # hs else (k, w) # upsert_header hs name v)"

definition set_header :: "string \<Rightarrow> string \<Rightarrow> request_spec \<Rightarrow> request_spec" where
  "set_header name v spec = spec\<lparr>rq_headers := upsert_header (rq_headers spec) name v\<rparr>"

definition apply_auth :: "http_env \<Rightarrow> request_spec \<Rightarrow> request_spec" where
  "apply_auth env spec =
     (case rq_auth spec of
        AuthNone \<Rightarrow> spec
      | AuthBearer \<Rightarrow>
          if rq_auth_token spec \<noteq> [] then set_header ''Authorization'' (''Bearer '' @ rq_auth_token spec) spec else spec
      | AuthBasic \<Rightarrow>
          set_header ''Authorization'' (''Basic '' @ he_base64 env (rq_auth_user spec @ '':'' @ rq_auth_pass spec)) spec
      | AuthApiKeyHeader \<Rightarrow>
          if rq_auth_key spec \<noteq> [] then set_header (rq_auth_key spec) (rq_auth_value spec) spec else spec
      | AuthApiKeyQuery \<Rightarrow>
          if rq_auth_key spec \<noteq> []
          then spec\<lparr>rq_url := rq_url spec @ (if CHR ''?'' \<in> set (rq_url spec) then ''&'' else ''?'') @
                 he_urlencode env (rq_auth_key spec) @ ''='' @ he_urlencode env (rq_auth_value spec)\<rparr>
          else spec
      | AuthOAuth2 \<Rightarrow>
          if rq_auth_token spec \<noteq> [] then set_header ''Authorization'' (''Bearer '' @ rq_auth_token spec) spec else spec)"

text \<open>The header the credentials go into, if they go into one.\<close>

definition auth_header :: "http_env \<Rightarrow> request_spec \<Rightarrow> (string \<times> string) option" where
  "auth_header env spec =
     (case rq_auth spec of
        AuthBearer \<Rightarrow> if rq_auth_token spec \<noteq> [] then Some (''Authorization'', ''Bearer '' @ rq_auth_token spec) else None
      | AuthOAuth2 \<Rightarrow> if rq_auth_token spec \<noteq> [] then Some (''Authorization'', ''Bearer '' @ rq_auth_token spec) else None
      | AuthBasic \<Rightarrow> Some (''Authorization'', ''Basic '' @ he_base64 env (rq_auth_user spec @ '':'' @ rq_auth_pass spec))
      | AuthApiKeyHeader \<Rightarrow> if rq_auth_key spec \<noteq> [] then Some (rq_auth_key spec, rq_auth_value spec) else None
      | _ \<Rightarrow> None)"

section \<open>Form bodies\<close>

text \<open>\<open>Path::file_name\<close>: the last component, unless there is none or it is \<open>..\<close>.\<close>

definition file_name :: "string \<Rightarrow> string option" where
  "file_name path =
     (case rev (filter (\<lambda>c. c \<noteq> [] \<and> c \<noteq> ''.'') (split_chr (CHR ''/'') path)) of
        [] \<Rightarrow> None
      | c # _ \<Rightarrow> if c = ''..'' then None else Some c)"

definition crlf :: string where
  "crlf = [CHR 13, CHR 10]"

definition dash :: string where
  "dash = ''--''"

definition quoted :: "string \<Rightarrow> string" where
  "quoted s = [CHR 34] @ s @ [CHR 34]"

definition form_pair :: "http_env \<Rightarrow> form_field \<Rightarrow> string" where
  "form_pair env f = he_urlencode env (ff_key f) @ ''='' @ he_urlencode env (ff_value f)"

definition form_part :: "http_env \<Rightarrow> string \<Rightarrow> form_field \<Rightarrow> client_error + bytes" where
  "form_part env boundary f =
     (let start = as_bytes (dash @ boundary @ crlf) in
      case ff_file f of
        Some path \<Rightarrow>
          (case he_read env path of
             None \<Rightarrow> Inl (ReadFile path)
           | Some data \<Rightarrow>
               Inr (start @ as_bytes (''Content-Disposition: form-data; name='' @ quoted (ff_key f) @ ''; filename='' @
                 quoted (default_to ''file'' (file_name path)) @ crlf @ ''Content-Type: application/octet-stream'' @ crlf @ crlf)
                 @ data @ as_bytes crlf))
      | None \<Rightarrow>
          Inr (start @ as_bytes (''Content-Disposition: form-data; name='' @ quoted (ff_key f) @ crlf @ crlf @ ff_value f @ crlf)))"

fun form_parts :: "http_env \<Rightarrow> string \<Rightarrow> form_field list \<Rightarrow> client_error + bytes" where
  "form_parts env boundary [] = Inr []"
| "form_parts env boundary (f # fs) =
     res_bind (form_part env boundary f) (\<lambda>p. res_bind (form_parts env boundary fs) (\<lambda>ps. Inr (p @ ps)))"

definition build_form_body :: "http_env \<Rightarrow> body_mode \<Rightarrow> form_field list \<Rightarrow> client_error + bytes \<times> string option" where
  "build_form_body env mode fs =
     (case mode of
        BodyRaw \<Rightarrow> Inr ([], None)
      | BodyGraphQL \<Rightarrow> Inr ([], None)
      | BodyUrlEncoded \<Rightarrow>
          Inr (as_bytes (join ''&'' (map (form_pair env) fs)), Some ''application/x-www-form-urlencoded'')
      | BodyMultipart \<Rightarrow>
          let boundary = ''----bitbeak'' @ dec (he_millis env) in
          res_bind (form_parts env boundary fs) (\<lambda>body.
            Inr (body @ as_bytes (dash @ boundary @ dash @ crlf), Some (''multipart/form-data; boundary='' @ boundary))))"

section \<open>Redirects\<close>

definition apply_redirect_method :: "nat \<Rightarrow> string \<Rightarrow> bytes \<Rightarrow> string \<times> bytes" where
  "apply_redirect_method status method body =
     (if 301 \<le> status \<and> status \<le> 303 then (''GET'', []) else (method, body))"

definition resolve_location :: "http_env \<Rightarrow> string \<Rightarrow> string \<Rightarrow> string" where
  "resolve_location env base loc =
     (if starts_with loc ''http://'' \<or> starts_with loc ''https://'' then loc
      else case he_uri env base of
          Some (scheme, authority) \<Rightarrow>
            default_to ''https'' scheme @ ''://'' @ default_to [] authority @
              (if starts_with loc ''/'' then loc else ''/'' @ loc)
        | None \<Rightarrow> loc)"

definition header_map :: "http_env \<Rightarrow> headers \<Rightarrow> string \<rightharpoonup> string" where
  "header_map env hs =
     fold (\<lambda>h m. case he_header env h of None \<Rightarrow> m | Some (name, v) \<Rightarrow> m(name \<mapsto> v)) hs Map.empty"

definition is_redirect :: "nat \<Rightarrow> bool" where
  "is_redirect status \<longleftrightarrow> status = 301 \<or> status = 302 \<or> status = 303 \<or> status = 307 \<or> status = 308"

text \<open>
  The loop of \<open>send_request\<close>, with the requests it makes.  \<open>hops\<close> is below \<open>max_redirects\<close>, an
  \<open>u8\<close>, when it is increased.
\<close>

function send_loop ::
  "http_env \<Rightarrow> request_spec \<Rightarrow> string \<Rightarrow> string \<Rightarrow> bytes \<Rightarrow> nat \<Rightarrow> redirect_hop list \<Rightarrow>
    wire_request list \<times> (client_error + http_response)" where
  "send_loop env spec url method body hops chain =
     (case he_uri env url of
        None \<Rightarrow> ([], Inl (ParseUrl url))
      | Some _ \<Rightarrow>
          let req = \<lparr>wr_method = default_to ''GET'' (he_method env method), wr_url = url,
                wr_headers = header_map env (rq_headers spec), wr_body = body\<rparr> in
          if \<not> he_build env req then ([], Inl BuildRequest)
          else case he_server env hops req of
              Inl e \<Rightarrow> ([req], Inl (HttpRequest e))
            | Inr resp \<Rightarrow>
                let hs = map (\<lambda>(k, v). (k, from_utf8_lossy v)) (ws_headers resp);
                    done = \<lparr>rs_status = ws_status resp, rs_headers = hs, rs_body = ws_body resp,
                      rs_redirect_chain = chain, rs_version = ws_version resp\<rparr> in
                if \<not> (rq_follow_redirects spec \<and> is_redirect (ws_status resp) \<and> hops < rq_max_redirects spec)
                then ([req], Inr done)
                else case header_get hs ''location'' of
                    None \<Rightarrow> ([req], Inr done)
                  | Some loc \<Rightarrow>
                      let chain = chain @ [\<lparr>rh_status = ws_status resp, rh_location = loc\<rparr>];
                          (method, body) = apply_redirect_method (ws_status resp) method body;
                          (reqs, r) = send_loop env spec (resolve_location env url loc) method body (hops + 1) chain
                      in (req # reqs, r))"
  by pat_completeness auto
termination
  by (relation "measure (\<lambda>(env, spec, url, method, body, hops, chain). rq_max_redirects spec - hops)") auto

declare send_loop.simps [simp del]

definition send_request :: "http_env \<Rightarrow> request_spec \<Rightarrow> wire_request list \<times> (client_error + http_response)" where
  "send_request env spec =
     (let spec = apply_auth env spec;
          formed =
            (if (rq_body_mode spec = BodyUrlEncoded \<or> rq_body_mode spec = BodyMultipart) \<and> rq_form_fields spec \<noteq> []
             then res_bind (build_form_body env (rq_body_mode spec) (rq_form_fields spec)) (\<lambda>(body, ctype).
               let spec = spec\<lparr>rq_body := body\<rparr> in
               Inr (case ctype of None \<Rightarrow> spec | Some ct \<Rightarrow> set_header ''Content-Type'' ct spec))
             else Inr spec)
      in case formed of
          Inl e \<Rightarrow> ([], Inl e)
        | Inr spec \<Rightarrow> send_loop env spec (rq_url spec) (rq_method spec) (rq_body spec) 0 [])"

section \<open>Header text\<close>

definition header_line_of :: "string \<Rightarrow> (string \<times> string) option" where
  "header_line_of l =
     (let line = trim l in
      if line = [] then None
      else map_option (\<lambda>(k, v). (trim k, trim v)) (split_once (CHR '':'') line))"

definition parse_header_block :: "string \<Rightarrow> headers" where
  "parse_header_block s = List.map_filter header_line_of (str_lines s)"

definition format_headers :: "headers \<Rightarrow> string" where
  "format_headers hs = join [CHR 10] (map (\<lambda>(k, v). k @ '': '' @ v) hs)"

section \<open>Tables of headers\<close>

lemma eq_ignore_case_refl [simp]: "eq_ignore_case s s"
  by (simp add: eq_ignore_case_def)

text \<open>What a way to set a header promises to those who look it up.\<close>

locale header_table =
  fixes put :: "headers \<Rightarrow> string \<Rightarrow> string \<Rightarrow> headers"
  assumes get_put: "header_get (put hs n v) m = (if eq_ignore_case n m then Some v else header_get hs m)"
begin

definition put_all :: "headers \<Rightarrow> headers \<Rightarrow> headers" where
  "put_all ps hs = fold (\<lambda>p hs. put hs (fst p) (snd p)) ps hs"

lemma get_put_same: "header_get (put hs n v) n = Some v"
  by (simp add: get_put)

lemma get_put_twice: "header_get (put (put hs n v) n w) m = header_get (put hs n w) m"
  by (simp add: get_put)

lemma get_put_all:
  "header_get (put_all ps hs) m = (case header_get (rev ps) m of Some v \<Rightarrow> Some v | None \<Rightarrow> header_get hs m)"
proof (induction ps rule: rev_induct)
  case Nil
  then show ?case by (simp add: put_all_def header_get_def)
next
  case (snoc p ps)
  have "header_get (rev (ps @ [p])) m = (if eq_ignore_case (fst p) m then Some (snd p) else header_get (rev ps) m)"
    by (simp add: header_get_def)
  moreover have "put_all (ps @ [p]) hs = put (put_all ps hs) (fst p) (snd p)" by (simp add: put_all_def)
  ultimately show ?case using snoc by (simp add: get_put)
qed

end

interpretation upsert: header_table upsert_header
proof
  fix hs n v m
  show "header_get (upsert_header hs n v) m = (if eq_ignore_case n m then Some v else header_get hs m)"
    by (induction hs n v rule: upsert_header.induct) (auto simp: header_get_def eq_ignore_case_def)
qed

section \<open>The redirect loop\<close>

lemma map_header_name:
  "header_get (map (\<lambda>(k, v). (k, g v)) hs) n = map_option (\<lambda>h. g (snd h)) (find (\<lambda>h. eq_ignore_case (fst h) n) hs)"
  by (induction hs) (auto simp: header_get_def)

text \<open>How one request follows from the one before and the answer to it.\<close>

definition hop_ok :: "http_env \<Rightarrow> wire_request \<Rightarrow> redirect_hop \<Rightarrow> wire_request \<Rightarrow> bool" where
  "hop_ok env a h b \<longleftrightarrow>
     wr_url b = resolve_location env (wr_url a) (rh_location h) \<and>
     wr_headers b = wr_headers a \<and>
     (if 301 \<le> rh_status h \<and> rh_status h \<le> 303 then wr_method b = ''GET'' \<and> wr_body b = []
      else wr_method b = wr_method a \<and> wr_body b = wr_body a)"

fun hops_ok :: "http_env \<Rightarrow> wire_request list \<Rightarrow> redirect_hop list \<Rightarrow> bool" where
  "hops_ok env (a # b # rs) (h # hs) \<longleftrightarrow> hop_ok env a h b \<and> hops_ok env (b # rs) hs"
| "hops_ok env [a] [] \<longleftrightarrow> True"
| "hops_ok env _ _ \<longleftrightarrow> False"

definition loop_post :: "http_env \<Rightarrow> request_spec \<Rightarrow> string \<Rightarrow> string \<Rightarrow> bytes \<Rightarrow> nat \<Rightarrow> redirect_hop list \<Rightarrow> bool" where
  "loop_post env spec url method body hops chain \<longleftrightarrow>
     (case send_loop env spec url method body hops chain of (reqs, r) \<Rightarrow>
        length reqs + hops \<le> rq_max_redirects spec + 1 \<and>
        (reqs \<noteq> [] \<longrightarrow> wr_url (hd reqs) = url \<and> wr_method (hd reqs) = default_to ''GET'' (he_method env method) \<and>
           wr_body (hd reqs) = body) \<and>
        (\<forall>r \<in> set reqs. wr_headers r = header_map env (rq_headers spec)) \<and>
        (\<forall>resp. r = Inr resp \<longrightarrow>
          (\<exists>hs. rs_redirect_chain resp = chain @ hs \<and> hops_ok env reqs hs \<and> length hs + 1 = length reqs \<and>
             (rq_follow_redirects spec \<and> is_redirect (rs_status resp) \<and> header_get (rs_headers resp) ''location'' \<noteq> None \<longrightarrow>
              hops + length hs = rq_max_redirects spec))))"

lemma send_loop_post:
  assumes "he_method env ''GET'' = Some ''GET''" "hops \<le> rq_max_redirects spec"
  shows "loop_post env spec url meth body hops chain"
  using assms
proof (induction env spec url meth body hops chain rule: send_loop.induct)
  case (1 env spec url meth body hops chain)
  define req where "req = \<lparr>wr_method = default_to ''GET'' (he_method env meth), wr_url = url,
    wr_headers = header_map env (rq_headers spec), wr_body = body\<rparr>"
  show ?case
  proof (cases "he_uri env url = None \<or> \<not> he_build env req")
    case True
    then show ?thesis using 1(3) by (auto simp: loop_post_def send_loop.simps [of env spec url] req_def Let_def split: option.split)
  next
    case built: False
    then obtain u where u: "he_uri env url = Some u" "he_build env req" by auto
    show ?thesis
    proof (cases "he_server env hops req")
      case (Inl e)
      then show ?thesis using u 1(3) by (simp add: loop_post_def send_loop.simps [of env spec url] req_def Let_def)
    next
      case (Inr resp)
      define hs where "hs = map (\<lambda>(k, v). (k, from_utf8_lossy v)) (ws_headers resp)"
      define go where "go \<longleftrightarrow> rq_follow_redirects spec \<and> is_redirect (ws_status resp) \<and> hops < rq_max_redirects spec"
      show ?thesis
      proof (cases "go \<and> header_get hs ''location'' \<noteq> None")
        case False
        then have "send_loop env spec url meth body hops chain = ([req], Inr \<lparr>rs_status = ws_status resp, rs_headers = hs,
            rs_body = ws_body resp, rs_redirect_chain = chain, rs_version = ws_version resp\<rparr>)"
          using u Inr by (auto simp: send_loop.simps [of env spec url] req_def hs_def go_def Let_def split: option.split)
        then show ?thesis using False 1(3) by (auto simp: loop_post_def req_def go_def)
      next
        case True
        then obtain loc where loc: "header_get hs ''location'' = Some loc" and go: go by auto
        define h where "h = \<lparr>rh_status = ws_status resp, rh_location = loc\<rparr>"
        obtain m b where mb: "apply_redirect_method (ws_status resp) meth body = (m, b)" by fastforce
        obtain reqs r where rec: "send_loop env spec (resolve_location env url loc) m b (hops + 1) (chain @ [h]) = (reqs, r)"
          by fastforce
        have eq: "send_loop env spec url meth body hops chain = (req # reqs, r)"
          using u Inr go loc mb rec by (simp add: send_loop.simps [of env spec url] req_def hs_def go_def h_def Let_def)
        have post: "loop_post env spec (resolve_location env url loc) m b (hops + 1) (chain @ [h])"
          using "1.IH" [OF u(1) req_def _ Inr hs_def refl _ loc] u(2) go mb 1(2,3) by (simp add: go_def h_def)
        have step: "reqs \<noteq> [] \<Longrightarrow> hop_ok env req h (hd reqs)"
          using post rec mb 1(2) by (cases reqs) (auto simp: loop_post_def hop_ok_def req_def h_def apply_redirect_method_def default_to_def split: if_splits)
        show ?thesis
          unfolding loop_post_def eq prod.case
        proof (intro conjI allI impI)
          fix resp' assume "r = Inr resp'"
          then obtain hs' where hs': "rs_redirect_chain resp' = (chain @ [h]) @ hs'" "hops_ok env reqs hs'"
            "length hs' + 1 = length reqs"
            "rq_follow_redirects spec \<and> is_redirect (rs_status resp') \<and> header_get (rs_headers resp') ''location'' \<noteq> None \<longrightarrow>
              hops + 1 + length hs' = rq_max_redirects spec"
            using post rec unfolding loop_post_def by auto
          then obtain b' rs where "reqs = b' # rs" by (cases reqs) auto
          then have "hops_ok env (req # reqs) (h # hs')" using hs'(2) step by simp
          then show "\<exists>hs. rs_redirect_chain resp' = chain @ hs \<and> hops_ok env (req # reqs) hs \<and> length hs + 1 = length (req # reqs) \<and>
              (rq_follow_redirects spec \<and> is_redirect (rs_status resp') \<and> header_get (rs_headers resp') ''location'' \<noteq> None \<longrightarrow>
               hops + length hs = rq_max_redirects spec)"
            using hs'(1,4) by (intro exI [of _ "h # hs'"]) (simp add: hs'(3) [symmetric])
        qed (use post rec in \<open>auto simp: loop_post_def req_def\<close>)
      qed
    qed
  qed
qed

lemma auth_keeps [simp]:
  "rq_max_redirects (apply_auth env spec) = rq_max_redirects spec"
  "rq_follow_redirects (apply_auth env spec) = rq_follow_redirects spec"
  "rq_max_redirects (set_header n v spec) = rq_max_redirects spec"
  "rq_follow_redirects (set_header n v spec) = rq_follow_redirects spec"
  by (auto simp: apply_auth_def set_header_def split: auth_kind.split)

lemma send_request_loop:
  assumes "send_request env spec = (reqs, r)"
  shows "(\<exists>e. reqs = [] \<and> r = Inl e) \<or>
    (\<exists>spec'. rq_max_redirects spec' = rq_max_redirects spec \<and> rq_follow_redirects spec' = rq_follow_redirects spec \<and>
      send_loop env spec' (rq_url spec') (rq_method spec') (rq_body spec') 0 [] = (reqs, r))"
proof -
  let ?spec = "apply_auth env spec"
  define formed where "formed =
    (if (rq_body_mode ?spec = BodyUrlEncoded \<or> rq_body_mode ?spec = BodyMultipart) \<and> rq_form_fields ?spec \<noteq> []
     then res_bind (build_form_body env (rq_body_mode ?spec) (rq_form_fields ?spec)) (\<lambda>(body, ctype).
       let spec = ?spec\<lparr>rq_body := body\<rparr> in
       Inr (case ctype of None \<Rightarrow> spec | Some ct \<Rightarrow> set_header ''Content-Type'' ct spec))
     else Inr ?spec)"
  have kept: "rq_max_redirects spec' = rq_max_redirects spec \<and> rq_follow_redirects spec' = rq_follow_redirects spec"
    if "formed = Inr spec'" for spec'
    using that by (auto simp: formed_def Let_def res_bind_Inr split: if_splits option.splits)
  have "send_request env spec = (case formed of Inl e \<Rightarrow> ([], Inl e)
      | Inr spec \<Rightarrow> send_loop env spec (rq_url spec) (rq_method spec) (rq_body spec) 0 [])"
    by (simp add: send_request_def formed_def Let_def)
  then show ?thesis using assms kept by (cases formed) auto
qed

text \<open>
  C22: \<open>send_request\<close> ends whatever the server answers: it makes at most \<open>max_redirects + 1\<close> requests,
  the chain it reports has one entry for each but the last, and an answer that still redirects is
  only returned when the limit is used up.
\<close>

theorem redirects_bounded:
  assumes "he_method env ''GET'' = Some ''GET''" "send_request env spec = (reqs, r)"
  shows "length reqs \<le> rq_max_redirects spec + 1 \<and>
    (\<forall>resp. r = Inr resp \<longrightarrow> length (rs_redirect_chain resp) + 1 = length reqs \<and>
      (rq_follow_redirects spec \<and> is_redirect (rs_status resp) \<and> header_get (rs_headers resp) ''location'' \<noteq> None \<longrightarrow>
       length (rs_redirect_chain resp) = rq_max_redirects spec))"
  using send_request_loop [OF assms(2)]
proof (elim disjE exE conjE)
  fix spec' assume s: "rq_max_redirects spec' = rq_max_redirects spec" "rq_follow_redirects spec' = rq_follow_redirects spec"
    "send_loop env spec' (rq_url spec') (rq_method spec') (rq_body spec') 0 [] = (reqs, r)"
  have "loop_post env spec' (rq_url spec') (rq_method spec') (rq_body spec') 0 []"
    by (rule send_loop_post [OF assms(1)]) simp
  with s show ?thesis by (auto simp: loop_post_def)
qed simp

text \<open>
  C23: Every hop is what the answer before it asks for: the URL is the resolved location, 301 to 303 make
  it a GET without a body, 307 and 308 keep method and body; and the headers are those of the first
  request at every hop, credentials included, whichever host the location names.
\<close>

theorem hops_follow_answers:
  assumes "he_method env ''GET'' = Some ''GET''" "send_request env spec = (reqs, Inr resp)"
  shows "hops_ok env reqs (rs_redirect_chain resp)"
  using send_request_loop [OF assms(2)]
proof (elim disjE exE conjE)
  fix spec' assume s: "send_loop env spec' (rq_url spec') (rq_method spec') (rq_body spec') 0 [] = (reqs, Inr resp)"
  have "loop_post env spec' (rq_url spec') (rq_method spec') (rq_body spec') 0 []"
    by (rule send_loop_post [OF assms(1)]) simp
  with s show ?thesis by (auto simp: loop_post_def)
qed simp

section \<open>Runs\<close>

definition plain_env :: http_env where
  "plain_env = \<lparr>he_urlencode = \<lambda>s. concat (map (\<lambda>c. ''%'' @ hex02 (of_char c)) s), he_base64 = id, he_method = Some,
     he_uri = \<lambda>s. Some (Some ''http'', Some ''a''), he_header = Some, he_build = \<lambda>r. True, he_read = \<lambda>p. None,
     he_millis = 7, he_server = \<lambda>n r. if n = 0 \<and> wr_url r = ''http://a/x''
       then Inr \<lparr>ws_status = 302, ws_version = ''HTTP/1.1'', ws_headers = [(''Location'', as_bytes ''http://b/'')], ws_body = []\<rparr>
       else Inr \<lparr>ws_status = 200, ws_version = ''HTTP/1.1'', ws_headers = [], ws_body = [79, 75]\<rparr>\<rparr>"

definition posted :: request_spec where
  "posted = default_spec\<lparr>rq_method := ''POST'', rq_url := ''http://a/x'', rq_body := [1], rq_auth := AuthBearer, rq_auth_token := ''t''\<rparr>"

lemma posted_run:
  "\<exists>a b. send_request plain_env posted = ([a, b], Inr \<lparr>rs_status = 200, rs_headers = [], rs_body = [79, 75],
     rs_redirect_chain = [\<lparr>rh_status = 302, rh_location = ''http://b/''\<rparr>], rs_version = ''HTTP/1.1''\<rparr>) \<and>
   wr_method a = ''POST'' \<and> wr_body a = [1] \<and> wr_headers a ''Authorization'' = Some ''Bearer t''"
proof -
  have low: "eq_ignore_case ''User-Agent'' ''Authorization'' = False" "eq_ignore_case ''Location'' ''location'' = True" by code_simp+
  have loc: "from_utf8_lossy (as_bytes ''http://b/'') = ''http://b/''" by code_simp
  have http: "starts_with ''http://b/'' ''http://''" by code_simp
  show ?thesis
    unfolding posted_def
    by (simp add: send_request_def send_loop.simps plain_env_def default_spec_def apply_auth_def set_header_def low
        is_redirect_def header_get_def loc resolve_location_def http apply_redirect_method_def header_map_def default_to_def
        del: as_bytes_simps)
qed

theorem redirects_bounded_witness:
  "length (fst (send_request plain_env posted)) \<le> 11"
proof -
  have get: "he_method plain_env ''GET'' = Some ''GET''" by (simp add: plain_env_def)
  obtain reqs r where r: "send_request plain_env posted = (reqs, r)" by fastforce
  from redirects_bounded [OF get r] have "length reqs \<le> rq_max_redirects posted + 1" by blast
  moreover have "rq_max_redirects posted = 10" by (simp add: posted_def default_spec_def)
  ultimately show ?thesis by (simp add: r)
qed

theorem hops_follow_answers_witness:
  "\<exists>a b resp. send_request plain_env posted = ([a, b], Inr resp) \<and> wr_url b = ''http://b/'' \<and> wr_method b = ''GET'' \<and>
     wr_body b = [] \<and> wr_headers b ''Authorization'' = Some ''Bearer t''"
proof -
  have get: "he_method plain_env ''GET'' = Some ''GET''" by (simp add: plain_env_def)
  have http: "starts_with ''http://b/'' ''http://''" by code_simp
  obtain a b where run: "send_request plain_env posted = ([a, b], Inr \<lparr>rs_status = 200, rs_headers = [], rs_body = [79, 75],
     rs_redirect_chain = [\<lparr>rh_status = 302, rh_location = ''http://b/''\<rparr>], rs_version = ''HTTP/1.1''\<rparr>)"
    "wr_headers a ''Authorization'' = Some ''Bearer t''" using posted_run by blast
  from hops_follow_answers [OF get run(1)] run show ?thesis
    by (simp add: hop_ok_def resolve_location_def http)
qed

section \<open>What is sent\<close>

text \<open>
  \<open>apply_auth\<close> leaves the request with the credentials chosen: whatever was in the header before,
  looking it up gives the token, the encoded user and password, or the key, and no other header changes.
\<close>

theorem auth_header_set:
  assumes "auth_header env spec = Some (name, v)"
  shows "header_get (rq_headers (apply_auth env spec)) m =
    (if eq_ignore_case name m then Some v else header_get (rq_headers spec) m)"
  using assms by (auto simp: auth_header_def apply_auth_def set_header_def upsert.get_put split: auth_kind.splits if_splits)

lemma trim_end_space: "trim_end (s @ [CHR '' '']) = trim_end s"
proof -
  have "ws_len_end (s @ [CHR '' '']) = 1"
    by (simp add: ws_len_end_def ws_codes_def ends_with_def starts_with_def)
  then show ?thesis by (simp add: trim_end.simps [of "s @ [CHR '' '']"])
qed

lemma trim_start_graphic: "graphic c \<Longrightarrow> trim_start (c # s) = c # s"
  by (simp add: trim_start.simps ws_len_graphic)

lemma str_lines_join:
  assumes "list_all (\<lambda>l. CHR 10 \<notin> set l \<and> l \<noteq> [] \<and> last l \<noteq> CHR 13) ls"
  shows "str_lines (join [CHR 10] ls) = ls"
proof (cases "ls = []")
  case False
  have "split_chr (CHR 10) (join [CHR 10] ls) = ls"
    using assms by (intro split_chr_join [OF False]) (auto simp: list_all_iff)
  moreover have "last ls \<noteq> []" using assms False by (simp add: list_all_iff)
  moreover have "map (\<lambda>l. if l \<noteq> [] \<and> last l = CHR 13 then butlast l else l) (butlast ls) = butlast ls"
    using assms in_set_butlastD by (intro map_idI) (fastforce simp: list_all_iff)
  ultimately show ?thesis using False by (simp add: str_lines_def)
qed (simp add: str_lines_def)

text \<open>Header names without a colon and values without line ends, neither with blanks at its ends.\<close>

definition edged :: "string \<Rightarrow> bool" where
  "edged s \<longleftrightarrow> s \<noteq> [] \<and> graphic (hd s) \<and> graphic (last s) \<and> CHR 10 \<notin> set s"

definition header_ok :: "string \<times> string \<Rightarrow> bool" where
  "header_ok h \<longleftrightarrow> edged (fst h) \<and> CHR '':'' \<notin> set (fst h) \<and> (snd h = [] \<or> edged (snd h))"

lemma graphic_not_space: "graphic c \<Longrightarrow> c \<noteq> CHR 13 \<and> c \<noteq> CHR '' ''"
  by (auto simp: graphic_def)

lemma edged_trim: "edged s \<Longrightarrow> trim s = s"
  by (simp add: edged_def trim_graphic)

lemma header_line_back:
  assumes "header_ok h"
  shows "header_line_of (fst h @ '': '' @ snd h) = Some h"
proof -
  obtain k v where h: "h = (k, v)" by (cases h)
  have k: "k \<noteq> []" "graphic (hd k)" "trim k = k" "CHR '':'' \<notin> set k"
    using assms edged_trim by (auto simp: h header_ok_def edged_def)
  have colon: "graphic (CHR '':'')" by code_simp
  have nil: "trim [] = []" by code_simp
  have line: "trim (k @ '': '' @ v) = (if v = [] then k @ '':'' else k @ '': '' @ v)"
  proof (cases "v = []")
    case True
    have "trim_start (k @ '': '') = k @ '': ''" using k trim_start_graphic by (cases k) auto
    moreover have "trim_end (k @ '': '') = trim_end (k @ '':'')" using trim_end_space [of "k @ '':''"] by simp
    moreover have "trim (k @ '':'') = k @ '':''" using k colon by (intro trim_graphic) auto
    moreover have "trim_start (k @ '':'') = k @ '':''" using k trim_start_graphic by (cases k) auto
    ultimately show ?thesis using True by (simp add: trim_def)
  next
    case False
    then have "graphic (last v)" using assms by (simp add: h header_ok_def edged_def)
    then show ?thesis using False k by (simp del: append.simps) (intro trim_graphic; simp)
  qed
  have "split_once (CHR '':'') (if v = [] then k @ '':'' else k @ '': '' @ v) = Some (k, if v = [] then [] else CHR '' '' # v)"
    using k(4) split_once_chr [of "CHR '':''" k] by simp
  moreover have "trim (if v = [] then [] else CHR '' '' # v) = v"
    using assms by (auto simp: h header_ok_def nil trim_space edged_trim)
  moreover have "(if v = [] then k @ '':'' else k @ '': '' @ v) \<noteq> []" by simp
  ultimately show ?thesis using k(3) unfolding header_line_of_def Let_def h fst_conv snd_conv line by simp
qed

lemma header_lines:
  assumes "list_all header_ok hs"
  shows "str_lines (format_headers hs) = map (\<lambda>h. fst h @ '': '' @ snd h) hs"
proof -
  let ?line = "\<lambda>h. fst h @ '': '' @ snd h"
  have "CHR 10 \<notin> set (?line h) \<and> ?line h \<noteq> [] \<and> last (?line h) \<noteq> CHR 13" if "header_ok h" for h
  proof -
    have "last (?line h) = (if snd h = [] then CHR '' '' else last (snd h))" by simp
    then show ?thesis using that graphic_not_space by (auto simp: header_ok_def edged_def)
  qed
  then have "list_all (\<lambda>l. CHR 10 \<notin> set l \<and> l \<noteq> [] \<and> last l \<noteq> CHR 13) (map ?line hs)"
    using assms by (simp add: list_all_iff)
  from str_lines_join [OF this] show ?thesis unfolding format_headers_def case_prod_beta .
qed

lemma header_block_back:
  assumes "list_all header_ok hs"
  shows "parse_header_block (format_headers hs) = hs"
proof -
  have "List.map_filter header_line_of (map (\<lambda>h. fst h @ '': '' @ snd h) hs) = hs"
    using assms header_line_back by (induction hs) (auto simp: List.map_filter_def)
  then show ?thesis by (simp add: parse_header_block_def header_lines [OF assms])
qed

text \<open>
  The header block of the request form is read back from its text: formatting any list of headers
  and parsing it gives the list, empty values and repeated names included.
\<close>

theorem header_block_roundtrip:
  assumes "list_all header_ok hs"
  shows "parse_header_block (format_headers hs) = hs"
  using assms by (rule header_block_back)

theorem header_block_roundtrip_witness:
  "parse_header_block (format_headers [(''Accept'', ''*/*''), (''X-Empty'', [])]) = [(''Accept'', ''*/*''), (''X-Empty'', [])]"
  by (rule header_block_roundtrip) code_simp

text \<open>The pairs of an encoded form, as a server takes them apart.\<close>

definition decode_form :: "(string \<Rightarrow> string) \<Rightarrow> string \<Rightarrow> (string \<times> string) list" where
  "decode_form decode s =
     List.map_filter (\<lambda>p. map_option (\<lambda>(k, v). (decode k, decode v)) (split_once (CHR ''='') p)) (split_chr (CHR ''&'') s)"

text \<open>
  An URL-encoded form carries its fields: a server that cuts the body at the ampersands and equal
  signs and decodes the parts has the keys and values in order, provided encoding can be undone and
  writes neither sign.
\<close>

theorem form_fields_arrive:
  assumes "\<And>s. decode (he_urlencode env s) = s" "\<And>s. CHR ''&'' \<notin> set (he_urlencode env s) \<and> CHR ''='' \<notin> set (he_urlencode env s)"
    "fs \<noteq> []" "build_form_body env BodyUrlEncoded fs = Inr (body, ct)"
  shows "decode_form decode (str_of body) = map (\<lambda>f. (ff_key f, ff_value f)) fs \<and> ct = Some ''application/x-www-form-urlencoded''"
proof -
  have body: "body = as_bytes (join ''&'' (map (form_pair env) fs))" "ct = Some ''application/x-www-form-urlencoded''"
    using assms(4) by (simp_all add: build_form_body_def)
  have "split_chr (CHR ''&'') (join ''&'' (map (form_pair env) fs)) = map (form_pair env) fs"
    using assms(2,3) by (intro split_chr_join) (auto simp: list_all_iff form_pair_def)
  moreover have "split_once (CHR ''='') (form_pair env f) = Some (he_urlencode env (ff_key f), he_urlencode env (ff_value f))" for f
    using assms(2) split_once_chr [of "CHR ''=''" "he_urlencode env (ff_key f)"] by (simp add: form_pair_def)
  ultimately show ?thesis
    using assms(1) by (simp add: decode_form_def body List.map_filter_def o_def)
qed

text \<open>An encoding that escapes every byte, and its inverse.\<close>

definition the_default_digit :: "char \<Rightarrow> nat" where
  "the_default_digit c = (let n = of_char c in if n < 58 then n - 48 else n - 87)"

fun unhex :: "string \<Rightarrow> string" where
  "unhex (p # a # b # s) =
     char_of (the_default_digit a * 16 + the_default_digit b) # unhex s"
| "unhex _ = []"

lemma digit_of_digit_chr: "n < 16 \<Longrightarrow> the_default_digit (digit_chr n) = n"
  by (drule less16_cases) (auto simp: the_default_digit_def Let_def)

lemma digit_chr_no_sign: "n < 16 \<Longrightarrow> CHR ''&'' \<noteq> digit_chr n \<and> CHR ''='' \<noteq> digit_chr n"
  by (drule less16_cases) auto

lemma plain_encoding:
  "unhex (he_urlencode plain_env s) = s"
  "CHR ''&'' \<notin> set (he_urlencode plain_env s) \<and> CHR ''='' \<notin> set (he_urlencode plain_env s)"
proof -
  have two: "hex02 (of_char c) = [digit_chr (of_char c div 16), digit_chr (of_char c mod 16)]" for c
    by (rule hex_two) simp
  have d: "of_char c div 16 < (16 :: nat)" for c
    using unat_u8_less [of "byte_of_chr c"] by (intro less_mult_imp_div_less) (simp add: byte_of_chr_def)
  show "unhex (he_urlencode plain_env s) = s"
  proof (induction s)
    case (Cons c s)
    have "char_of (of_char c div 16 * 16 + of_char c mod 16 :: nat) = c" by (simp only: div_mult_mod_eq char_of_char)
    with Cons d [of c] show ?case by (simp add: plain_env_def two digit_of_digit_chr)
  qed (simp add: plain_env_def)
  show "CHR ''&'' \<notin> set (he_urlencode plain_env s) \<and> CHR ''='' \<notin> set (he_urlencode plain_env s)"
  proof (induction s)
    case (Cons c s)
    then show ?case
      using digit_chr_no_sign [OF d [of c]] digit_chr_no_sign [of "of_char c mod 16"] by (simp add: plain_env_def two)
  qed (simp add: plain_env_def)
qed

theorem form_fields_arrive_witness:
  "\<exists>body. build_form_body plain_env BodyUrlEncoded [\<lparr>ff_key = ''a'', ff_value = ''b&c'', ff_file = None\<rparr>] =
     Inr (body, Some ''application/x-www-form-urlencoded'') \<and> decode_form unhex (str_of body) = [(''a'', ''b&c'')]"
proof -
  obtain body ct where b: "build_form_body plain_env BodyUrlEncoded [\<lparr>ff_key = ''a'', ff_value = ''b&c'', ff_file = None\<rparr>] = Inr (body, ct)"
    by (simp add: build_form_body_def)
  from form_fields_arrive [OF plain_encoding _ b] b show ?thesis by simp
qed

theorem auth_header_set_witness:
  "header_get (rq_headers (apply_auth plain_env posted)) ''authorization'' = Some ''Bearer t''"
proof -
  have "auth_header plain_env posted = Some (''Authorization'', ''Bearer '' @ ''t'')"
    by (simp add: auth_header_def posted_def)
  moreover have "eq_ignore_case ''Authorization'' ''authorization''" by code_simp
  ultimately show ?thesis using auth_header_set by simp
qed

end
