(* ===== verification/Grpc.thy ===== *)
theory Grpc
  imports HttpClient
begin

text \<open>
  Unary gRPC (\<open>src/src/http/grpc.rs\<close>): the frames of messages, the names of reply types, the
  metadata of headers and trailers, and the call itself over the connection of a \<open>grpc_env\<close>.
  Descriptors and the protobuf codec are the \<open>prost\<close> crates'.
\<close>

section \<open>Message types\<close>

definition derive_reply_type :: "string \<Rightarrow> string" where
  "derive_reply_type t =
     (if ends_with t ''Request'' then take (length t - length ''Request'') t @ ''Response'' else t)"

definition reply_message_type :: "string \<Rightarrow> string \<Rightarrow> string" where
  "reply_message_type request_type explicit =
     (if explicit \<noteq> [] then explicit else derive_reply_type request_type)"

section \<open>Frames\<close>

datatype grpc_error = TruncatedFrame | CompressedFrame u8 | GrpcBuild | GrpcRequestFailed string

definition encode_frame :: "bytes \<Rightarrow> bytes" where
  "encode_frame msg = [0] @ to_be 4 (length msg) @ msg"

text \<open>\<open>msg.len() as u32\<close> keeps the low 32 bits, as \<open>to_be 4\<close> does.\<close>

function decode_from :: "bytes \<Rightarrow> nat \<Rightarrow> bytes list \<Rightarrow> grpc_error + bytes list" where
  "decode_from data i out =
     (if i + 5 \<le> length data then
        let comp = data ! i;
            len = from_be [data ! (i + 1), data ! (i + 2), data ! (i + 3), data ! (i + 4)];
            i = i + 5 in
        if length data < i + len then Inl TruncatedFrame
        else if comp \<noteq> 0 then Inl (CompressedFrame comp)
        else decode_from data (i + len) (out @ [take len (drop i data)])
      else Inr out)"
  by pat_completeness auto
termination
  by (relation "measure (\<lambda>(data, i, out). length data + 5 - i)") auto

declare decode_from.simps [simp del]

definition decode_frames :: "bytes \<Rightarrow> grpc_error + bytes list" where
  "decode_frames data = decode_from data 0 []"

section \<open>Metadata\<close>

definition put_metadata :: "headers \<Rightarrow> string \<Rightarrow> string \<Rightarrow> headers" where
  "put_metadata hs name v = filter (\<lambda>h. \<not> eq_ignore_case (fst h) name) hs @ [(name, v)]"

definition merge_grpc_metadata :: "headers \<Rightarrow> headers \<Rightarrow> headers" where
  "merge_grpc_metadata hs trailers = fold (\<lambda>t hs. put_metadata hs (fst t) (snd t)) trailers hs"

text \<open>\<open>str::parse::<i32>\<close>: a sign and digits, within the range.\<close>

definition parse_i32 :: "string \<Rightarrow> int option" where
  "parse_i32 s =
     (let number = (\<lambda>mx ds. if ds = [] then None else
        case parse_digits mx 0 ds of Inr n \<Rightarrow> Some (int n) | Inl _ \<Rightarrow> None) in
      case s of
        [] \<Rightarrow> None
      | c # cs \<Rightarrow>
          if c = CHR ''-'' then map_option uminus (number 2147483648 cs)
          else if c = CHR ''+'' then number 2147483647 cs
          else number 2147483647 s)"

definition header_i32 :: "headers \<Rightarrow> string \<Rightarrow> int option" where
  "header_i32 hs name = Option.bind (header_get hs name) parse_i32"

section \<open>The call\<close>

record grpc_request =
  gq_url :: string
  gq_message :: bytes
  gq_authority :: string
  gq_headers :: headers

record grpc_response =
  gr_status :: int
  gr_message :: string
  gr_body :: bytes
  gr_headers :: headers

record grpc_env =
  ge_build :: "string \<Rightarrow> headers \<Rightarrow> bytes \<Rightarrow> bool"
  ge_answer :: "string \<Rightarrow> headers \<Rightarrow> bytes \<Rightarrow> string + (string \<times> bytes) list \<times> bytes \<times> (string \<times> bytes) list option"

definition own_header :: "string \<Rightarrow> bool" where
  "own_header k \<longleftrightarrow> eq_ignore_case k ''content-type'' \<or> eq_ignore_case k ''te'' \<or> eq_ignore_case k ''host'' \<or> starts_with k '':''"

definition call_headers :: "grpc_request \<Rightarrow> headers" where
  "call_headers req =
     [(''content-type'', ''application/grpc''), (''te'', ''trailers''), (''user-agent'', ''bitbeak-grpc/0.1'')] @
     (if gq_authority req \<noteq> [] then [('':authority'', gq_authority req), (''host'', gq_authority req)] else []) @
     filter (\<lambda>h. \<not> own_header (fst h)) (gq_headers req)"

definition lossy_pairs :: "(string \<times> bytes) list \<Rightarrow> headers" where
  "lossy_pairs hs = map (\<lambda>(k, v). (k, from_utf8_lossy v)) hs"

definition unary_call :: "grpc_env \<Rightarrow> grpc_request \<Rightarrow> grpc_error + grpc_response" where
  "unary_call env req =
     (let body = encode_frame (gq_message req); hs = call_headers req in
      if \<not> ge_build env (gq_url req) hs body then Inl GrpcBuild
      else case ge_answer env (gq_url req) hs body of
          Inl e \<Rightarrow> Inl (GrpcRequestFailed e)
        | Inr (head, data, trailers) \<Rightarrow>
            let hs = (case trailers of None \<Rightarrow> lossy_pairs head
                  | Some ts \<Rightarrow> merge_grpc_metadata (lossy_pairs head) (lossy_pairs ts)) in
            res_bind (decode_frames data) (\<lambda>frames. Inr \<lparr>
              gr_status = default_to 0 (header_i32 hs ''grpc-status''),
              gr_message = default_to [] (header_get hs ''grpc-message''),
              gr_body = (case frames of [] \<Rightarrow> [] | m # _ \<Rightarrow> m), gr_headers = hs\<rparr>))"

section \<open>Correctness\<close>

lemma header_get_filter_other:
  "\<not> eq_ignore_case n m \<Longrightarrow> header_get (filter (\<lambda>h. \<not> eq_ignore_case (fst h) n) hs) m = header_get hs m"
  by (induction hs) (auto simp: header_get_def eq_ignore_case_def)

lemma header_get_append: "header_get (xs @ ys) m = (case header_get xs m of None \<Rightarrow> header_get ys m | Some v \<Rightarrow> Some v)"
  by (induction xs) (auto simp: header_get_def)

lemma header_get_filter_same:
  "eq_ignore_case n m \<Longrightarrow> header_get (filter (\<lambda>h. \<not> eq_ignore_case (fst h) n) hs) m = None"
  by (induction hs) (auto simp: header_get_def eq_ignore_case_def)

interpretation metadata: header_table put_metadata
proof
  fix hs n v m
  show "header_get (put_metadata hs n v) m = (if eq_ignore_case n m then Some v else header_get hs m)"
  proof (cases "eq_ignore_case n m")
    case True
    have "header_get [(n, v)] m = Some v" using True by (simp add: header_get_def)
    then show ?thesis using True header_get_filter_same [OF True, of hs] unfolding put_metadata_def header_get_append by simp
  next
    case False
    have "header_get [(n, v)] m = None" using False by (simp add: header_get_def)
    then show ?thesis using False header_get_filter_other [OF False, of hs]
      unfolding put_metadata_def header_get_append by (cases "header_get hs m") simp_all
  qed
qed

text \<open>
  The trailers of a call win over its headers: after merging, a name has its last value among the
  trailers, and its header value only when no trailer has the name.
\<close>

theorem trailers_win:
  "header_get (merge_grpc_metadata hs trailers) name =
    (case header_get (rev trailers) name of Some v \<Rightarrow> Some v | None \<Rightarrow> header_get hs name)"
  using metadata.get_put_all [of trailers hs name] by (simp add: merge_grpc_metadata_def metadata.put_all_def)

lemma decode_one:
  assumes "length msg < 2 ^ 32"
  shows "decode_from (pre @ encode_frame msg @ rest) (length pre) out =
    decode_from (pre @ encode_frame msg @ rest) (length (pre @ encode_frame msg)) (out @ [msg])"
proof -
  define data where "data = pre @ encode_frame msg @ rest"
  define be4 where "be4 = to_be 4 (length msg)"
  then have "length be4 = Suc (Suc (Suc (Suc 0)))" by simp
  then obtain a b c d where "be4 = [a, b, c, d]" by (auto simp: length_Suc_conv)
  then have be: "to_be 4 (length msg) = [a, b, c, d]" by (simp only: be4_def)
  have len: "from_be [a, b, c, d] = length msg" using assms by (simp add: be [symmetric])
  have data: "data = pre @ [0, a, b, c, d] @ msg @ rest" by (simp add: data_def encode_frame_def be)
  have at: "data ! length pre = 0" "data ! (length pre + 1) = a" "data ! (length pre + 2) = b"
    "data ! (length pre + 3) = c" "data ! (length pre + 4) = d"
    by (simp_all add: data nth_append)
  have size: "length data = length pre + 5 + length msg + length rest" by (simp add: data)
  have msg: "take (length msg) (drop (length pre + 5) data) = msg" by (simp add: data)
  have "length (pre @ encode_frame msg) = length pre + 5 + length msg" by (simp add: encode_frame_def)
  then show ?thesis
    unfolding data_def [symmetric]
    by (subst decode_from.simps) (simp only: at len size msg Let_def, simp)
qed

lemma decode_many:
  "\<forall>m \<in> set msgs. length m < 2 ^ 32 \<Longrightarrow> length rest < 5 \<Longrightarrow>
   decode_from (pre @ concat (map encode_frame msgs) @ rest) (length pre) out = Inr (out @ msgs)"
proof (induction msgs arbitrary: pre out)
  case Nil
  then show ?case by (simp add: decode_from.simps)
next
  case (Cons m msgs)
  have "length m < 2 ^ 32" using Cons.prems by simp
  from decode_one [OF this, of pre "concat (map encode_frame msgs) @ rest" out]
  show ?case using Cons.IH [of "pre @ encode_frame m" "out @ [m]"] Cons.prems by simp
qed

text \<open>
  C30: The frames of any messages below four gigabytes are decoded to the messages in order; up to four
  bytes behind the last frame are passed over without a word, a shorter frame header among them.
\<close>

theorem frames_roundtrip:
  assumes "\<forall>m \<in> set msgs. length m < 2 ^ 32" "length rest < 5"
  shows "decode_frames (concat (map encode_frame msgs) @ rest) = Inr msgs"
  using decode_many [OF assms, of "[]" "[]"] by (simp add: decode_frames_def)

theorem frames_roundtrip_witness:
  "decode_frames (concat (map encode_frame [[1, 2], [], [3]]) @ [0, 0]) = Inr [[1, 2], [], [3]]"
  by (rule frames_roundtrip) simp_all

text \<open>
  A call answers with the first message, and with the status and message of the trailers when they
  have them: a status in the headers does not hide that of the trailers.
\<close>

theorem call_answers:
  assumes "ge_build env (gq_url req) (call_headers req) (encode_frame (gq_message req))"
    "ge_answer env (gq_url req) (call_headers req) (encode_frame (gq_message req)) =
       Inr (head, concat (map encode_frame (m # msgs)), Some trailers)"
    "\<forall>m \<in> set (m # msgs). length m < 2 ^ 32"
    "header_get (rev (lossy_pairs trailers)) ''grpc-status'' = Some (dec n)" "n < 2 ^ 31"
  shows "\<exists>resp. unary_call env req = Inr resp \<and> gr_body resp = m \<and> gr_status resp = int n"
proof -
  have frames: "decode_frames (concat (map encode_frame (m # msgs))) = Inr (m # msgs)"
    using decode_many [OF assms(3), of "[]" "[]" "[]"] by (simp add: decode_frames_def)
  obtain c cs where c: "dec n = c # cs" using radix_str_nonempty [of 10 n] by (cases "dec n") (auto simp: dec_def)
  then have "c \<in> set (dec n)" by simp
  then obtain d where "d < 10" "c = digit_chr d" using dec_digits by blast
  then have sign: "c \<noteq> CHR ''-''" "c \<noteq> CHR ''+''" using digit_chr_ne_sign by auto
  have "parse_digits 2147483647 0 (dec n) = Inr n" using assms(5) by (intro parse_digits_dec) simp
  then have "parse_i32 (dec n) = Some (int n)" using sign by (simp add: parse_i32_def c Let_def)
  moreover have "header_get (merge_grpc_metadata (lossy_pairs head) (lossy_pairs trailers)) ''grpc-status'' = Some (dec n)"
    using metadata.get_put_all [of "lossy_pairs trailers" "lossy_pairs head" "''grpc-status''"] assms(4)
    by (simp add: merge_grpc_metadata_def metadata.put_all_def)
  ultimately have "header_i32 (merge_grpc_metadata (lossy_pairs head) (lossy_pairs trailers)) ''grpc-status'' = Some (int n)"
    by (simp add: header_i32_def)
  then show ?thesis
    unfolding unary_call_def Let_def using assms(1,2) frames by (simp add: default_to_def del: concat.simps list.map)
qed

definition answering :: grpc_env where
  "answering = \<lparr>ge_build = \<lambda>u hs b. True,
     ge_answer = \<lambda>u hs b. Inr ([(''grpc-status'', as_bytes ''0'')], concat (map encode_frame [[8, 1]]),
       Some [(''Grpc-Status'', as_bytes (dec 14))])\<rparr>"

theorem call_answers_witness:
  "\<exists>resp. unary_call answering \<lparr>gq_url = ''https://h/s/m'', gq_message = [], gq_authority = [], gq_headers = []\<rparr> = Inr resp \<and>
     gr_body resp = [8, 1] \<and> gr_status resp = 14"
proof -
  let ?req = "\<lparr>gq_url = ''https://h/s/m'', gq_message = [], gq_authority = [], gq_headers = []\<rparr>"
  have a: "ge_answer answering (gq_url ?req) (call_headers ?req) (encode_frame (gq_message ?req)) =
      Inr ([(''grpc-status'', as_bytes ''0'')], concat (map encode_frame ([8, 1] # [])), Some [(''Grpc-Status'', as_bytes (dec 14))])"
    by (simp add: answering_def del: as_bytes_simps)
  have d: "dec 14 = ''14''" by (simp add: dec_rec dec_small)
  have l: "header_get (rev (lossy_pairs [(''Grpc-Status'', as_bytes (dec 14))])) ''grpc-status'' = Some (dec 14)"
    unfolding d by code_simp
  show ?thesis using call_answers [OF _ a _ l] by (simp add: answering_def)
qed

end
