(* ===== verification/Asserts.thy ===== *)
theory Asserts
  imports Json HttpClient
begin

text \<open>
  Assertions on responses (\<open>src/src/http/assert.rs\<close>).  JSON is parsed and printed by \<open>json_codec\<close>; how
  a string is shown with its quotes in a message, \<open>Debug\<close> of \<open>str\<close>, is the argument \<open>debug\<close>.
\<close>

record assert_result =
  ar_expr :: string
  ar_passed :: bool
  ar_detail :: string

record assert_env =
  ae_json :: json_codec
  ae_debug :: "string \<Rightarrow> string"

section \<open>Comparisons\<close>

datatype cmp_op = CmpEq | CmpNe | CmpGe | CmpLe | CmpGt | CmpLt

text \<open>The prefixes in the order they are tried.\<close>

definition cmp_table :: "(string \<times> cmp_op) list" where
  "cmp_table = [(''=='', CmpEq), (''!='', CmpNe), (''>='', CmpGe), (''<='', CmpLe), (''>'', CmpGt), (''<'', CmpLt), (''='', CmpEq)]"

fun cmp_split :: "(string \<times> cmp_op) list \<Rightarrow> string \<Rightarrow> (cmp_op \<times> string) option" where
  "cmp_split [] rest = None"
| "cmp_split ((p, op) # ops) rest =
     (case strip_prefix rest p of Some v \<Rightarrow> Some (op, v) | None \<Rightarrow> cmp_split ops rest)"

fun cmp_holds :: "cmp_op \<Rightarrow> nat \<Rightarrow> nat \<Rightarrow> bool" where
  "cmp_holds CmpEq a b \<longleftrightarrow> a = b"
| "cmp_holds CmpNe a b \<longleftrightarrow> a \<noteq> b"
| "cmp_holds CmpGe a b \<longleftrightarrow> b \<le> a"
| "cmp_holds CmpLe a b \<longleftrightarrow> a \<le> b"
| "cmp_holds CmpGt a b \<longleftrightarrow> b < a"
| "cmp_holds CmpLt a b \<longleftrightarrow> a < b"

definition cmp_u16 :: "string \<Rightarrow> string \<Rightarrow> nat \<Rightarrow> string \<Rightarrow> assert_result" where
  "cmp_u16 label rest actual expr =
     (case cmp_split cmp_table (trim rest) of
        None \<Rightarrow> \<lparr>ar_expr = expr, ar_passed = False, ar_detail = ''bad '' @ label @ '' cmp''\<rparr>
      | Some (op, val_s) \<Rightarrow>
          (case parse_uint u16_max (trim val_s) of
             Inl _ \<Rightarrow> \<lparr>ar_expr = expr, ar_passed = False, ar_detail = ''bad number''\<rparr>
           | Inr expect \<Rightarrow> \<lparr>ar_expr = expr, ar_passed = cmp_holds op actual expect, ar_detail = dec actual\<rparr>))"

definition str_op :: "string \<Rightarrow> string \<Rightarrow> string \<Rightarrow> assert_result" where
  "str_op expr hay op_val =
     (case strip_prefix op_val ''contains '' of
        Some v \<Rightarrow>
          let needle = trim_matches (CHR 34) (trim v);
              ok = contains (to_lower hay) (to_lower needle) in
          \<lparr>ar_expr = expr, ar_passed = ok, ar_detail = (if ok then ''matched'' else ''no match'')\<rparr>
      | None \<Rightarrow>
          (case strip_prefix op_val ''=='' of
             Some v \<Rightarrow>
               let expect = trim_matches (CHR 34) (trim v) in
               \<lparr>ar_expr = expr, ar_passed = (hay = expect), ar_detail = ''got len='' @ dec (length hay)\<rparr>
           | None \<Rightarrow> \<lparr>ar_expr = expr, ar_passed = False, ar_detail = ''bad string op''\<rparr>))"

section \<open>Paths\<close>

fun walk_path :: "json \<Rightarrow> string list \<Rightarrow> json option" where
  "walk_path cur [] = Some cur"
| "walk_path cur (part # parts) = (case json_get part cur of None \<Rightarrow> None | Some next \<Rightarrow> walk_path next parts)"

definition json_pointer :: "json_codec \<Rightarrow> bytes \<Rightarrow> string \<Rightarrow> string option" where
  "json_pointer codec body path =
     (case jc_parse codec body of
        None \<Rightarrow> None
      | Some v \<Rightarrow>
          let path = trim_start_matches ''.'' (trim_start_matches ''$'' (trim path)) in
          if path = [] then Some (jc_print codec v)
          else map_option (\<lambda>cur. case cur of JString s \<Rightarrow> s | other \<Rightarrow> jc_print codec other)
            (walk_path v (split_chr (CHR ''.'') path)))"

section \<open>Assertions\<close>

definition unknown_assertion :: "string \<Rightarrow> assert_result" where
  "unknown_assertion e = \<lparr>ar_expr = e, ar_passed = False, ar_detail = ''unknown assertion''\<rparr>"

definition eval_jsonpath :: "assert_env \<Rightarrow> string \<Rightarrow> string \<Rightarrow> http_response \<Rightarrow> assert_result" where
  "eval_jsonpath env e rest resp =
     (let rest = trim rest;
          (path, op) = (case split_once (CHR '' '') rest of Some (p, r) \<Rightarrow> (trim p, trim r) | None \<Rightarrow> (rest, ''exists''));
          found = json_pointer (ae_json env) (rs_body resp) path in
      if op = ''exists'' then
        \<lparr>ar_expr = e, ar_passed = (found \<noteq> None), ar_detail = (if found \<noteq> None then ''exists'' else ''missing'')\<rparr>
      else case strip_prefix op ''=='' of
          Some rest \<Rightarrow>
            let expect = trim_matches (CHR 34) (trim rest); got = default_to [] found in
            \<lparr>ar_expr = e, ar_passed = (got = expect), ar_detail = ''got '' @ ae_debug env got\<rparr>
        | None \<Rightarrow> unknown_assertion e)"

text \<open>
  A \<open>header\<close> assertion without an operator falls through to the tests below it, which its text
  cannot pass; so does a \<open>jsonpath\<close> one with another operator.
\<close>

definition eval_one :: "assert_env \<Rightarrow> string \<Rightarrow> http_response \<Rightarrow> assert_result" where
  "eval_one env expr resp =
     (let e = trim expr in
      case strip_prefix e ''status'' of
        Some rest \<Rightarrow> cmp_u16 ''status'' rest (rs_status resp) e
      | None \<Rightarrow>
      (case strip_prefix e ''header '' of
         Some rest \<Rightarrow>
           (case split_once (CHR '' '') (trim rest) of
              Some (name, op_val) \<Rightarrow>
                str_op e (default_to [] (header_get (rs_headers resp) (trim name))) (trim op_val)
            | None \<Rightarrow> unknown_assertion e)
       | None \<Rightarrow>
      (case strip_prefix e ''body '' of
         Some rest \<Rightarrow> str_op e (from_utf8_lossy (rs_body resp)) (trim rest)
       | None \<Rightarrow>
      (case strip_prefix e ''jsonpath '' of
         Some rest \<Rightarrow> eval_jsonpath env e rest resp
       | None \<Rightarrow> unknown_assertion e))))"

definition run_tests :: "assert_env \<Rightarrow> string list \<Rightarrow> http_response \<Rightarrow> assert_result list" where
  "run_tests env tests resp = map (\<lambda>t. eval_one env t resp) tests"

section \<open>Correctness\<close>

lemma trim_word_end: "edged w \<Longrightarrow> trim (CHR '' '' # w) = w"
  by (simp add: trim_space edged_trim)

lemma dec_edged: "edged (dec n)"
proof -
  have "dec n \<noteq> []" by (simp add: dec_def)
  moreover have "graphic c \<and> c \<noteq> CHR 10" if "c \<in> set (dec n)" for c
    using dec_chars [OF that] by (auto simp: graphic_def)
  ultimately show ?thesis using hd_in_set last_in_set unfolding edged_def by blast
qed

lemma cmp_split_table:
  assumes "(p, op) \<in> set cmp_table"
  shows "cmp_split cmp_table (p @ CHR '' '' # w) = Some (op, CHR '' '' # w)"
  using assms by (auto simp: cmp_table_def strip_prefix_def starts_with_def)

lemma cmp_table_edged: "(p, op) \<in> set cmp_table \<Longrightarrow> edged p"
proof -
  have "\<forall>x \<in> set cmp_table. edged (fst x)" by code_simp
  then show "(p, op) \<in> set cmp_table \<Longrightarrow> ?thesis" by auto
qed

lemma edged_around:
  assumes "edged a" "edged b" "CHR 10 \<notin> set m"
  shows "edged (a @ m @ b)"
  using assms by (auto simp: edged_def)

lemma keyword_edged: "edged ''status''" "edged ''header''" "edged ''contains''"
  by code_simp+

lemma status_passes:
  assumes "(p, op) \<in> set cmp_table" "n \<le> u16_max"
  shows "ar_passed (eval_one env (''status '' @ p @ '' '' @ dec n) resp) \<longleftrightarrow> cmp_holds op (rs_status resp) n"
proof -
  have p: "edged p" using cmp_table_edged [OF assms(1)] .
  have pd: "edged (p @ '' '' @ dec n)" using edged_around [OF p dec_edged, of "'' ''"] by simp
  have "edged (''status'' @ '' '' @ p @ '' '' @ dec n)"
    using edged_around [OF keyword_edged(1) pd, of "'' ''"] by simp
  then have "trim (''status '' @ p @ '' '' @ dec n) = ''status'' @ CHR '' '' # p @ '' '' @ dec n" using edged_trim by simp
  moreover have "trim (CHR '' '' # p @ '' '' @ dec n) = p @ CHR '' '' # dec n" using trim_word_end [OF pd] by simp
  moreover have "trim (CHR '' '' # dec n) = dec n" using trim_word_end [OF dec_edged] .
  ultimately show ?thesis
    unfolding eval_one_def Let_def cmp_u16_def
    by (simp only: strip_prefix_append option.case cmp_split_table [OF assms(1)] prod.case parse_uint_dec [OF assms(2)] sum.case
        assert_result.select_convs)
qed

text \<open>
  A status assertion tests what it says: for each of the operators, \<open>=\<close> for \<open>==\<close> included, it passes
  exactly on the responses whose status stands in that relation to the number.
\<close>

theorem status_assertion_exact:
  assumes "(p, op) \<in> set cmp_table" "n \<le> u16_max"
  shows "ar_passed (eval_one env (''status '' @ p @ '' '' @ dec n) resp) \<longleftrightarrow> cmp_holds op (rs_status resp) n"
  using assms by (rule status_passes)

theorem status_assertion_exact_witness:
  "ar_passed (eval_one \<lparr>ae_json = \<lparr>jc_parse = \<lambda>_. None, jc_print = \<lambda>_. [], jc_pretty = \<lambda>_. []\<rparr>, ae_debug = id\<rparr> (''status '' @ ''<'' @ '' '' @ dec 400)
     \<lparr>rs_status = 204, rs_headers = [], rs_body = [], rs_redirect_chain = [], rs_version = []\<rparr>)"
  by (subst status_assertion_exact [where op = CmpLt]) (simp_all add: cmp_table_def u16_max_def)

text \<open>Texts the assertion language can carry: no quote at the ends, where quotes are taken off.\<close>

definition needle_ok :: "string \<Rightarrow> bool" where
  "needle_ok w \<longleftrightarrow> edged w \<and> hd w \<noteq> CHR 34 \<and> last w \<noteq> CHR 34"

lemma needle_trim: "needle_ok w \<Longrightarrow> trim_matches (CHR 34) w = w"
proof -
  assume w: "needle_ok w"
  have "dropWhile (\<lambda>x. x = CHR 34) w = w" using w by (cases w) (auto simp: needle_ok_def edged_def)
  moreover have "dropWhile (\<lambda>x. x = CHR 34) (rev w) = rev w"
    using w by (cases w rule: rev_cases) (auto simp: needle_ok_def edged_def)
  ultimately show ?thesis by (simp add: trim_matches_def)
qed

text \<open>
  \<open>header N contains w\<close> passes exactly when the first header of that name, whatever the case of its
  letters, has the text in its value, again whatever the case; a response without the header fails it.
\<close>

theorem header_assertion_exact:
  assumes "edged name" "CHR '' '' \<notin> set name" "needle_ok w"
  shows "ar_passed (eval_one env (''header '' @ name @ '' contains '' @ w) resp) \<longleftrightarrow>
    contains (to_lower (default_to [] (header_get (rs_headers resp) name))) (to_lower w)"
proof -
  have w: "edged w" using assms(3) by (simp add: needle_ok_def)
  have op: "edged (''contains'' @ '' '' @ w)"
    using edged_around [OF keyword_edged(3) w, of "'' ''"] by simp
  have all: "edged (name @ '' '' @ ''contains'' @ '' '' @ w)"
    using edged_around [OF assms(1) op, of "'' ''"] by simp
  then have "edged (''header'' @ '' '' @ name @ '' '' @ ''contains'' @ '' '' @ w)"
    using edged_around [OF keyword_edged(2), of _ "'' ''"] by simp
  then have "trim (''header '' @ name @ '' contains '' @ w) = ''header '' @ name @ '' contains '' @ w" using edged_trim by simp
  moreover have "strip_prefix (''header '' @ s) ''status'' = None" for s by (simp add: strip_prefix_def starts_with_def)
  moreover have "trim (name @ '' contains '' @ w) = name @ CHR '' '' # ''contains '' @ w" using edged_trim [OF all] by simp
  moreover have "trim (''contains '' @ w) = ''contains '' @ w" using edged_trim [OF op] by simp
  ultimately show ?thesis
    unfolding eval_one_def Let_def
    by (simp only: strip_prefix_append option.case split_once_chr [OF assms(2)] prod.case edged_trim [OF assms(1)] str_op_def
        edged_trim [OF w] needle_trim [OF assms(3)] Let_def assert_result.select_convs)
qed

theorem header_assertion_exact_witness:
  "ar_passed (eval_one \<lparr>ae_json = \<lparr>jc_parse = \<lambda>_. None, jc_print = \<lambda>_. [], jc_pretty = \<lambda>_. []\<rparr>, ae_debug = id\<rparr> (''header '' @ ''Content-Type'' @ '' contains '' @ ''JSON'')
     \<lparr>rs_status = 200, rs_headers = [(''content-type'', ''application/json'')], rs_body = [], rs_redirect_chain = [], rs_version = []\<rparr>)"
  by (subst header_assertion_exact) code_simp+

end
