(* ===== verification/Collections.thy ===== *)
theory Collections
  imports HttpClient
begin

text \<open>
  Saved collections (\<open>src/src/collections/mod.rs\<close>): requests, environments and their variables, the
  choice of the request that fits a URL, and the file a collection is kept in.  The TOML text of a
  collection is the crate's, an argument of the file operations; a file system is a map of paths.
\<close>

section \<open>Data\<close>

record environment =
  en_name :: string
  en_vars :: "(string \<times> string) list"

record saved_request =
  sr_name :: string
  sr_kind :: string
  sr_target :: string
  sr_method :: "string option"
  sr_headers :: headers
  sr_body :: string
  sr_auth :: auth_kind
  sr_auth_token :: string
  sr_auth_user :: string
  sr_auth_pass :: string
  sr_auth_key :: string
  sr_auth_value :: string
  sr_body_mode :: body_mode
  sr_form_fields :: "form_field list"
  sr_tests :: "string list"
  sr_follow_redirects :: bool
  sr_max_redirects :: nat
  sr_http_version :: http_version
  sr_graphql_variables :: string
  sr_graphql_operation :: string
  sr_pre_script :: string
  sr_grpc_mode :: bool
  sr_grpc_descriptor :: string
  sr_grpc_message_type :: string
  sr_grpc_reply_type :: string

definition default_request :: saved_request where
  "default_request = \<lparr>sr_name = [], sr_kind = ''http'', sr_target = [], sr_method = Some ''GET'', sr_headers = [], sr_body = [],
     sr_auth = AuthNone, sr_auth_token = [], sr_auth_user = [], sr_auth_pass = [], sr_auth_key = ''X-Api-Key'',
     sr_auth_value = [], sr_body_mode = BodyRaw, sr_form_fields = [], sr_tests = [], sr_follow_redirects = True,
     sr_max_redirects = 10, sr_http_version = VerAuto, sr_graphql_variables = [], sr_graphql_operation = [],
     sr_pre_script = [], sr_grpc_mode = False, sr_grpc_descriptor = [], sr_grpc_message_type = [], sr_grpc_reply_type = []\<rparr>"

record collection =
  co_name :: string
  co_requests :: "saved_request list"
  co_environments :: "environment list"
  co_active_env :: "string option"

definition collection_new :: "string \<Rightarrow> collection" where
  "collection_new name = \<lparr>co_name = name, co_requests = [], co_environments = [], co_active_env = None\<rparr>"

section \<open>Variables\<close>

text \<open>\<open>str::replace\<close> with a non-empty pattern.\<close>

function str_replace :: "string \<Rightarrow> string \<Rightarrow> string \<Rightarrow> string" where
  "str_replace p r s =
     (if p = [] \<or> s = [] then s
      else if starts_with s p then r @ str_replace p r (drop (length p) s)
      else hd s # str_replace p r (tl s))"
  by pat_completeness auto
termination
  by (relation "measure (\<lambda>(p, r, s). length s)") auto

declare str_replace.simps [simp del]

definition placeholder :: "string \<Rightarrow> string" where
  "placeholder k = ''{{'' @ k @ ''}}''"

definition env_named :: "collection \<Rightarrow> string \<Rightarrow> environment option" where
  "env_named c name = find (\<lambda>e. en_name e = name) (co_environments c)"

definition substitute :: "collection \<Rightarrow> string \<Rightarrow> string" where
  "substitute c s =
     (case co_active_env c of
        None \<Rightarrow> s
      | Some name \<Rightarrow>
          (case env_named c name of
             None \<Rightarrow> s
           | Some e \<Rightarrow> fold (\<lambda>(k, v) out. str_replace (placeholder k) v out) (en_vars e) s))"

definition active_env_name :: "collection \<Rightarrow> string" where
  "active_env_name c = default_to ''(none)'' (co_active_env c)"

fun first_index :: "('a \<Rightarrow> bool) \<Rightarrow> 'a list \<Rightarrow> nat option" where
  "first_index P [] = None"
| "first_index P (x # xs) = (if P x then Some 0 else map_option Suc (first_index P xs))"

definition cycle_env :: "collection \<Rightarrow> collection" where
  "cycle_env c =
     (if co_environments c = [] then c\<lparr>co_active_env := None\<rparr>
      else
        let at = Option.bind (co_active_env c) (\<lambda>n. first_index (\<lambda>e. en_name e = n) (co_environments c));
            i = (case at of None \<Rightarrow> 0 | Some i \<Rightarrow> (i + 1) mod length (co_environments c))
        in c\<lparr>co_active_env := Some (en_name (co_environments c ! i))\<rparr>)"

definition set_env :: "string \<Rightarrow> collection \<Rightarrow> collection \<times> bool" where
  "set_env name c =
     (if list_ex (\<lambda>e. en_name e = name) (co_environments c) then (c\<lparr>co_active_env := Some name\<rparr>, True) else (c, False))"

section \<open>Finding a request\<close>

definition find_request :: "string \<Rightarrow> collection \<Rightarrow> saved_request option" where
  "find_request name c = find (\<lambda>r. sr_name r = name \<or> ends_with (sr_name r) (''/'' @ name)) (co_requests c)"

text \<open>\<open>trim_end_matches\<close> with a character.\<close>

definition trim_end_chr :: "char \<Rightarrow> string \<Rightarrow> string" where
  "trim_end_chr c s = rev (dropWhile (\<lambda>x. x = c) (rev s))"

definition normalize_url :: "string \<Rightarrow> string" where
  "normalize_url s = trim_end_chr (CHR ''/'') (trim s)"

definition path_of :: "string \<Rightarrow> string" where
  "path_of url =
     (let rest = (case find_sub url ''://'' of None \<Rightarrow> url | Some i \<Rightarrow> drop (i + 3) url) in
      case find_sub rest ''/'' of None \<Rightarrow> ''/'' | Some i \<Rightarrow> drop i rest)"

definition path_prefix_match :: "string \<Rightarrow> string \<Rightarrow> bool" where
  "path_prefix_match saved want \<longleftrightarrow>
     \<not> (saved = [] \<or> saved = ''/'') \<and> (want = saved \<or> starts_with want (saved @ ''/''))"

definition url_score :: "collection \<Rightarrow> string \<Rightarrow> saved_request \<Rightarrow> nat" where
  "url_score c want req =
     (let want_path = path_of want;
          raw = normalize_url (sr_target req);
          sub = normalize_url (substitute c (sr_target req)) in
      if sub = want \<or> raw = want then 3
      else if want_path \<noteq> ''/'' \<and> (path_of sub = want_path \<or> path_of raw = want_path) then 2
      else if path_prefix_match (path_of sub) want_path \<or> path_prefix_match (path_of raw) want_path then 1
      else 0)"

fun best_of :: "('a \<Rightarrow> nat) \<Rightarrow> (nat \<times> 'a) option \<Rightarrow> 'a list \<Rightarrow> (nat \<times> 'a) option" where
  "best_of score best [] = best"
| "best_of score best (r # rs) =
     best_of score (if (case best of None \<Rightarrow> 0 | Some (s, _) \<Rightarrow> s) < score r then Some (score r, r) else best) rs"

definition best_request_for_url :: "string \<Rightarrow> collection \<Rightarrow> saved_request option" where
  "best_request_for_url url c =
     (let want = normalize_url url in
      if want = [] then None else map_option snd (best_of (url_score c want) None (co_requests c)))"

section \<open>Files\<close>

definition ascii_alnum :: "string \<Rightarrow> bool" where
  "ascii_alnum u = (case u of
     [c] \<Rightarrow> (let n = of_char c :: nat in 48 \<le> n \<and> n \<le> 57 \<or> 65 \<le> n \<and> n \<le> 90 \<or> 97 \<le> n \<and> n \<le> 122)
   | _ \<Rightarrow> False)"

definition safe_char :: "string \<Rightarrow> string" where
  "safe_char u = (if ascii_alnum u \<or> u = ''-'' \<or> u = ''_'' then u else ''_'')"

definition collection_file :: "string \<Rightarrow> string" where
  "collection_file name = concat (map safe_char (chars name)) @ ''.toml''"

type_synonym files = "string \<rightharpoonup> string"

definition collection_path :: "string \<Rightarrow> string \<Rightarrow> string" where
  "collection_path dir name = dir @ ''/'' @ collection_file name"

definition save_collection :: "(collection \<Rightarrow> string) \<Rightarrow> string \<Rightarrow> collection \<Rightarrow> files \<Rightarrow> files" where
  "save_collection to_toml dir c fs = fs(collection_path dir (co_name c) \<mapsto> to_toml c)"

definition load_collection :: "(string \<Rightarrow> collection option) \<Rightarrow> string \<Rightarrow> string \<Rightarrow> files \<Rightarrow> collection option" where
  "load_collection of_toml dir name_or_path fs =
     (let path = (if fs name_or_path \<noteq> None then name_or_path else collection_path dir name_or_path) in
      Option.bind (fs path) of_toml)"

section \<open>Substitution\<close>

text \<open>A text with placeholders.\<close>

datatype piece = Lit string | Var string

fun show_piece :: "piece \<Rightarrow> string" where
  "show_piece (Lit s) = s"
| "show_piece (Var k) = placeholder k"

fun piece_ok :: "piece \<Rightarrow> bool" where
  "piece_ok (Lit s) \<longleftrightarrow> CHR ''{'' \<notin> set s"
| "piece_ok (Var k) \<longleftrightarrow> CHR ''{'' \<notin> set k \<and> CHR ''}'' \<notin> set k"

fun fill :: "(string \<rightharpoonup> string) \<Rightarrow> piece \<Rightarrow> piece" where
  "fill m (Lit s) = Lit s"
| "fill m (Var k) = (case m k of None \<Rightarrow> Var k | Some v \<Rightarrow> Lit v)"

lemma str_replace_Nil [simp]: "str_replace p r [] = []"
  by (simp add: str_replace.simps)

lemma str_replace_here: "p \<noteq> [] \<Longrightarrow> str_replace p r (p @ s) = r @ str_replace p r s"
  using str_replace.simps [of p r "p @ s"] by simp

lemma str_replace_step: "\<not> starts_with (c # s) p \<Longrightarrow> str_replace p r (c # s) = c # str_replace p r s"
  by (cases "p = []") (simp_all add: str_replace.simps [of _ _ "_ # _"] starts_with_def)

lemma str_replace_skip: "a \<notin> set w \<Longrightarrow> str_replace (a # p) r (w @ s) = w @ str_replace (a # p) r s"
proof (induction w)
  case (Cons b w)
  have "\<not> starts_with (b # w @ s) (a # p)" using Cons.prems by (auto simp: starts_with_def)
  from str_replace_step [OF this] Cons show ?case by simp
qed simp

lemma upto_brace:
  assumes "CHR ''}'' \<notin> set k" "CHR ''}'' \<notin> set k'" "k @ CHR ''}'' # u = k' @ CHR ''}'' # v"
  shows "k = k'"
  using assms
proof (induction k arbitrary: k')
  case Nil
  then show ?case by (cases k') auto
next
  case (Cons c k)
  then show ?case by (cases k') auto
qed

lemma str_replace_other:
  assumes "piece_ok (Var k)" "piece_ok (Var k')" "k \<noteq> k'"
  shows "str_replace (placeholder k) r (placeholder k' @ s) = placeholder k' @ str_replace (placeholder k) r s"
proof -
  have p: "placeholder k = CHR ''{'' # CHR ''{'' # k @ ''}}''" by (simp add: placeholder_def)
  have one: "\<not> starts_with (CHR ''{'' # CHR ''{'' # k' @ ''}}'' @ s) (placeholder k)"
  proof
    assume "starts_with (CHR ''{'' # CHR ''{'' # k' @ ''}}'' @ s) (placeholder k)"
    then obtain t where "k' @ CHR ''}'' # CHR ''}'' # s = k @ CHR ''}'' # CHR ''}'' # t" by (auto simp: starts_with_iff p)
    then show False using upto_brace assms by (metis piece_ok.simps(2))
  qed
  have two: "\<not> starts_with (CHR ''{'' # k' @ ''}}'' @ s) (placeholder k)"
    using assms(2) by (cases k') (auto simp: starts_with_iff p)
  have rest: "CHR ''{'' \<notin> set (k' @ ''}}'')" using assms(2) by simp
  show ?thesis
    using str_replace_step [OF one, of r] str_replace_step [OF two, of r]
      str_replace_skip [OF rest, of "CHR ''{'' # k @ ''}}''" r s]
    by (simp add: p placeholder_def [of k'])
qed

lemma str_replace_pieces:
  assumes "piece_ok (Var k)" "list_all piece_ok ps"
  shows "str_replace (placeholder k) v (concat (map show_piece ps)) = concat (map show_piece (map (fill [k \<mapsto> v]) ps))"
  using assms(2)
proof (induction ps)
  case (Cons p ps)
  show ?case
  proof (cases p)
    case (Lit s)
    then have "CHR ''{'' \<notin> set s" using Cons.prems by simp
    from str_replace_skip [OF this, of "CHR ''{'' # k @ ''}}''" v] show ?thesis using Cons Lit by (simp add: placeholder_def)
  next
    case (Var k')
    show ?thesis
    proof (cases "k' = k")
      case True
      then show ?thesis using Cons Var str_replace_here [of "placeholder k" v] by (simp add: placeholder_def)
    next
      case False
      then show ?thesis using Cons Var str_replace_other [OF assms(1), of k' v] by simp
    qed
  qed
qed simp

lemma fill_ok: "CHR ''{'' \<notin> set v \<Longrightarrow> piece_ok p \<Longrightarrow> piece_ok (fill [k \<mapsto> v] p)"
  by (cases p) auto

lemma fill_fill: "fill m (fill [k \<mapsto> v] p) = fill (m(k \<mapsto> v)) p"
  by (cases p) auto

lemma replace_all:
  assumes "\<forall>(k, v) \<in> set vars. piece_ok (Var k) \<and> CHR ''{'' \<notin> set v" "list_all piece_ok ps"
  shows "fold (\<lambda>(k, v) out. str_replace (placeholder k) v out) vars (concat (map show_piece ps)) =
    concat (map show_piece (map (fill (map_of vars)) ps))"
  using assms
proof (induction vars arbitrary: ps)
  case Nil
  have "fill Map.empty p = p" for p by (cases p) simp_all
  then show ?case by (simp add: map_idI)
next
  case (Cons x vars)
  obtain k v where x: "x = (k, v)" by (cases x)
  have kv: "piece_ok (Var k)" "CHR ''{'' \<notin> set v" using Cons.prems(1) x by auto
  have ok: "list_all piece_ok (map (fill [k \<mapsto> v]) ps)"
    using Cons.prems(2) fill_ok [OF kv(2)] by (auto simp: list_all_iff)
  have rest: "\<forall>(k, v) \<in> set vars. piece_ok (Var k) \<and> CHR ''{'' \<notin> set v" using Cons.prems(1) by auto
  have "map (fill (map_of vars)) (map (fill [k \<mapsto> v]) ps) = map (fill (map_of (x # vars))) ps"
    by (simp only: map_map o_def fill_fill x map_of.simps prod.sel)
  then show ?case
    using Cons.IH [OF rest ok] str_replace_pieces [OF kv(1) Cons.prems(2), of v] by (simp only: x fold_simps prod.case)
qed


definition demo :: collection where
  "demo = (collection_new ''demo'')\<lparr>co_environments := [\<lparr>en_name = ''local'', en_vars = [(''base'', ''http://h'')]\<rparr>],
     co_active_env := Some ''local''\<rparr>"


section \<open>Environments in turn\<close>

lemma first_index_Some:
  "first_index P xs = Some i \<longleftrightarrow> i < length xs \<and> P (xs ! i) \<and> (\<forall>j < i. \<not> P (xs ! j))"
proof (induction xs arbitrary: i)
  case (Cons x xs)
  show ?case
  proof (cases i)
    case 0
    then show ?thesis by auto
  next
    case (Suc k)
    have "(\<forall>j < Suc k. \<not> P ((x # xs) ! j)) \<longleftrightarrow> \<not> P x \<and> (\<forall>j < k. \<not> P (xs ! j))"
      using less_Suc_eq_0_disj by auto
    then show ?thesis using Cons Suc by auto
  qed
qed simp

lemma cycle_env_from:
  assumes "distinct (map en_name (co_environments c))" "i < length (co_environments c)"
    "co_active_env c = Some (en_name (co_environments c ! i))"
  shows "co_active_env (cycle_env c) = Some (en_name (co_environments c ! ((i + 1) mod length (co_environments c)))) \<and>
    co_environments (cycle_env c) = co_environments c"
proof -
  let ?es = "co_environments c"
  have "en_name (?es ! j) \<noteq> en_name (?es ! i)" if "j < i" for j
    using assms(1,2) that nth_eq_iff_index_eq [of "map en_name ?es" j i] by simp
  then have "first_index (\<lambda>e. en_name e = en_name (?es ! i)) ?es = Some i"
    using assms(2) by (simp add: first_index_Some)
  moreover have "?es \<noteq> []" using assms(2) by auto
  ultimately show ?thesis by (simp add: cycle_env_def assms(3) Let_def)
qed

lemma cycle_env_runs:
  assumes "distinct (map en_name (co_environments c))" "i < length (co_environments c)"
    "co_active_env c = Some (en_name (co_environments c ! i))"
  shows "co_active_env ((cycle_env ^^ k) c) = Some (en_name (co_environments c ! ((i + k) mod length (co_environments c)))) \<and>
    co_environments ((cycle_env ^^ k) c) = co_environments c"
proof (induction k)
  case (Suc k)
  have "(i + k) mod length (co_environments c) < length (co_environments c)"
    using assms(2) by (intro mod_less_divisor) linarith
  with cycle_env_from [of "(cycle_env ^^ k) c" "(i + k) mod length (co_environments c)"] Suc assms(1)
  show ?case by (simp add: mod_Suc_eq)
qed (use assms in simp)


definition three_envs :: collection where
  "three_envs = (collection_new ''c'')\<lparr>co_environments := map (\<lambda>n. \<lparr>en_name = n, en_vars = []\<rparr>) [''a'', ''b'', ''p''],
     co_active_env := Some ''b''\<rparr>"


text \<open>
  Two environments of one name stop the round: when the active one is followed by another of its
  name, cycling stays there for ever, and the environments behind it are never reached.
\<close>

theorem duplicate_env_sticks:
  assumes "first_index (\<lambda>e. en_name e = name) (co_environments c) = Some i" "i + 1 < length (co_environments c)"
    "en_name (co_environments c ! (i + 1)) = name" "co_active_env c = Some name"
  shows "(cycle_env ^^ k) c = c"
proof -
  have ne: "co_environments c \<noteq> []" using assms(2) by auto
  have "cycle_env c = c\<lparr>co_active_env := Some name\<rparr>"
    unfolding cycle_env_def using ne assms by simp
  also have "\<dots> = c" using assms(4) by simp
  finally have "cycle_env c = c" .
  then show ?thesis by (induction k) simp_all
qed

theorem duplicate_env_sticks_witness:
  "(cycle_env ^^ 9) ((collection_new ''c'')\<lparr>co_environments := map (\<lambda>n. \<lparr>en_name = n, en_vars = []\<rparr>) [''a'', ''a'', ''b''],
     co_active_env := Some ''a''\<rparr>) =
   (collection_new ''c'')\<lparr>co_environments := map (\<lambda>n. \<lparr>en_name = n, en_vars = []\<rparr>) [''a'', ''a'', ''b''], co_active_env := Some ''a''\<rparr>"
  by (rule duplicate_env_sticks [where i = 0]) simp_all

section \<open>The request for a URL\<close>

lemma best_of_correct:
  "(case best of None \<Rightarrow> True | Some (s, _) \<Rightarrow> 0 < s) \<Longrightarrow>
   (case best_of score best rs of
      None \<Rightarrow> best = None \<and> (\<forall>r \<in> set rs. score r = 0)
    | Some (s, r) \<Rightarrow> 0 < s \<and> (\<forall>q \<in> set rs. score q \<le> s) \<and>
        (best = Some (s, r) \<or> s = score r \<and> (case best of None \<Rightarrow> True | Some (t, _) \<Rightarrow> t < s) \<and>
          (\<exists>as bs. rs = as @ r # bs \<and> (\<forall>q \<in> set as. score q < s))))"
proof (induction rs arbitrary: best)
  case Nil
  then show ?case by (auto split: option.splits)
next
  case (Cons x rs)
  define b where "b = (if (case best of None \<Rightarrow> 0 | Some (s, _) \<Rightarrow> s) < score x then Some (score x, x) else best)"
  have "case b of None \<Rightarrow> True | Some (s, _) \<Rightarrow> 0 < s" using Cons.prems by (auto simp: b_def split: option.splits)
  note IH = Cons.IH [OF this]
  have eq: "best_of score best (x # rs) = best_of score b rs" by (simp add: b_def)
  show ?case
  proof (cases "best_of score b rs")
    case None
    then show ?thesis using IH eq by (auto simp: b_def split: if_splits option.splits)
  next
    case (Some p)
    obtain s r where p: "p = (s, r)" by (cases p)
    have post: "0 < s" "\<forall>q \<in> set rs. score q \<le> s"
      "b = Some (s, r) \<or> s = score r \<and> (case b of None \<Rightarrow> True | Some (t, _) \<Rightarrow> t < s) \<and>
          (\<exists>as bs. rs = as @ r # bs \<and> (\<forall>q \<in> set as. score q < s))"
      using IH Some p by auto
    have x: "score x \<le> s" using post(1,3) by (auto simp: b_def split: if_splits option.splits)
    from post(3) show ?thesis
    proof
      assume b: "b = Some (s, r)"
      show ?thesis
      proof (cases "best = Some (s, r)")
        case True
        then show ?thesis using post x eq Some p by simp
      next
        case False
        then have "s = score r" "r = x" "case best of None \<Rightarrow> True | Some (t, _) \<Rightarrow> t < s"
          using b by (auto simp: b_def split: if_splits option.splits)
        moreover have "\<forall>q \<in> set (x # rs). score q \<le> s" using post(2) x by simp
        moreover have "x # rs = [] @ x # rs \<and> (\<forall>q \<in> set []. score q < s)" by simp
        ultimately show ?thesis unfolding eq Some p option.case prod.case using post(1) by blast
      qed
    next
      assume a: "s = score r \<and> (case b of None \<Rightarrow> True | Some (t, _) \<Rightarrow> t < s) \<and>
          (\<exists>as bs. rs = as @ r # bs \<and> (\<forall>q \<in> set as. score q < s))"
      then obtain as bs where ab: "rs = as @ r # bs" "\<forall>q \<in> set as. score q < s" by auto
      have "case best of None \<Rightarrow> True | Some (t, _) \<Rightarrow> t < s" "score x < s"
        using a post(1) by (auto simp: b_def split: if_splits option.splits)
      then have "x # rs = (x # as) @ r # bs \<and> (\<forall>q \<in> set (x # as). score q < s)" using ab by simp
      moreover have "\<forall>q \<in> set (x # rs). score q \<le> s" using post(2) x by simp
      moreover have "s = score r" "case best of None \<Rightarrow> True | Some (t, _) \<Rightarrow> t < s"
        using a \<open>case best of None \<Rightarrow> True | Some (t, _) \<Rightarrow> t < s\<close> by auto
      ultimately show ?thesis unfolding eq Some p option.case prod.case using post(1) by blast
    qed
  qed
qed

text \<open>
  C28: The request taken for a URL is the first of those that fit it best, an equal URL before an equal
  path before a longer path below it, with or without variables filled in; and there is one exactly
  when some request fits at all.
\<close>

theorem best_request_is_best:
  assumes "normalize_url url \<noteq> []"
  shows "case best_request_for_url url c of
      None \<Rightarrow> \<forall>q \<in> set (co_requests c). url_score c (normalize_url url) q = 0
    | Some r \<Rightarrow> 0 < url_score c (normalize_url url) r \<and>
        (\<forall>q \<in> set (co_requests c). url_score c (normalize_url url) q \<le> url_score c (normalize_url url) r) \<and>
        (\<exists>as bs. co_requests c = as @ r # bs \<and>
          (\<forall>q \<in> set as. url_score c (normalize_url url) q < url_score c (normalize_url url) r))"
  using best_of_correct [where best = None and score = "url_score c (normalize_url url)" and rs = "co_requests c"] assms
  by (auto simp: best_request_for_url_def Let_def split: option.splits)

definition two_requests :: collection where
  "two_requests = collection_new ''x''\<lparr>co_requests :=
     [default_request\<lparr>sr_name := ''list'', sr_target := ''http://h/v1''\<rparr>,
      default_request\<lparr>sr_name := ''get'', sr_target := ''http://h/v1/c''\<rparr>]\<rparr>"

theorem best_request_is_best_witness:
  "map_option sr_name (best_request_for_url ''http://h/v1/c/'' two_requests) = Some ''get''"
proof -
  let ?list = "default_request\<lparr>sr_name := ''list'', sr_target := ''http://h/v1''\<rparr>"
  let ?get = "default_request\<lparr>sr_name := ''get'', sr_target := ''http://h/v1/c''\<rparr>"
  let ?score = "url_score two_requests (normalize_url ''http://h/v1/c/'')"
  have "normalize_url ''http://h/v1/c/'' \<noteq> []" by code_simp
  note best = best_request_is_best [OF this, of two_requests]
  have s: "?score ?list = 1" "?score ?get = 3" by code_simp+
  have reqs: "co_requests two_requests = [?list, ?get]" by (simp add: two_requests_def)
  show ?thesis
  proof (cases "best_request_for_url ''http://h/v1/c/'' two_requests")
    case None
    then show ?thesis using best s(1) by (simp add: reqs)
  next
    case (Some r)
    then obtain as bs where ab: "co_requests two_requests = as @ r # bs" "?score ?get \<le> ?score r"
      using best unfolding Some option.case reqs by (meson list.set_intros)
    have "r \<in> set (co_requests two_requests)" unfolding ab(1) by simp
    then have "r = ?list \<or> r = ?get" by (simp add: reqs)
    then have "r = ?get" using ab(2) s by auto
    then show ?thesis using Some by simp
  qed
qed

section \<open>Saving and loading\<close>

text \<open>
  Saving a collection and loading it by its name gives it back, unless a file is called like it; but
  only the letters, digits, hyphens and underscores of a name are kept, so saving another collection
  whose name differs in other characters alone puts that one in its place.
\<close>

theorem saved_collection_loaded:
  assumes "of_toml (to_toml c) = Some c" "of_toml (to_toml d) = Some d" "fs (co_name c) = None"
    "co_name c \<noteq> collection_path dir (co_name c)"
  shows "load_collection of_toml dir (co_name c) (save_collection to_toml dir c fs) = Some c \<and>
    (collection_file (co_name d) = collection_file (co_name c) \<longrightarrow>
     load_collection of_toml dir (co_name c) (save_collection to_toml dir d (save_collection to_toml dir c fs)) = Some d)"
  using assms by (auto simp: load_collection_def save_collection_def collection_path_def)

theorem saved_collection_loaded_witness:
  "load_collection (\<lambda>s. Some (collection_new s)) ''d'' ''a b''
     (save_collection co_name ''d'' (collection_new ''a/b'') (save_collection co_name ''d'' (collection_new ''a b'') Map.empty)) =
   Some (collection_new ''a/b'')"
proof -
  have "collection_file ''a/b'' = collection_file ''a b''" "''a b'' \<noteq> collection_path ''d'' ''a b''" by code_simp+
  then show ?thesis
    using saved_collection_loaded [of "\<lambda>s. Some (collection_new s)" co_name "collection_new ''a b''" "collection_new ''a/b''" Map.empty "''d''"]
    by (simp add: collection_new_def)
qed

end
