(* ===== verification/Import.thy ===== *)
theory Import
  imports Asserts Collections
begin

text \<open>
  Importing Postman collections and OpenAPI documents (\<open>src/src/collections/import.rs\<close>).  The JSON
  and YAML parsers are arguments; YAML comes as the JSON value it is turned into.  Errors are their
  context; reading the file is left out.
\<close>

datatype import_error = ParsePostman | MissingInfo | ParseOpenapiJson | ParseOpenapiYaml | MissingPaths | NoOperations

section \<open>Authentication\<close>

type_synonym auth_parts = "auth_kind \<times> string \<times> string \<times> string \<times> string \<times> string"

definition no_auth :: auth_parts where
  "no_auth = (AuthNone, [], [], [], ''X-Api-Key'', [])"

definition attrs :: "json \<Rightarrow> string \<Rightarrow> (string \<times> string) list" where
  "attrs auth name =
     (case get_array name auth of
        None \<Rightarrow> []
      | Some arr \<Rightarrow> List.map_filter (\<lambda>x. map_option (\<lambda>k. (k, default_to [] (get_str ''value'' x))) (get_str ''key'' x)) arr)"

definition find_attr :: "(string \<times> string) list \<Rightarrow> string \<Rightarrow> string" where
  "find_attr pairs key = default_to [] (map_option snd (find (\<lambda>p. eq_ignore_case (fst p) key) pairs))"

definition postman_auth :: "json option \<Rightarrow> auth_parts" where
  "postman_auth auth =
     (case auth of
        None \<Rightarrow> no_auth
      | Some auth \<Rightarrow>
          let typ = to_lower (default_to ''noauth'' (get_str ''type'' auth)) in
          if typ = ''bearer'' then (AuthBearer, find_attr (attrs auth ''bearer'') ''token'', [], [], ''X-Api-Key'', [])
          else if typ = ''basic'' then
            let pairs = attrs auth ''basic'' in
            (AuthBasic, [], find_attr pairs ''username'', find_attr pairs ''password'', ''X-Api-Key'', [])
          else if typ = ''apikey'' then
            let pairs = attrs auth ''apikey''; key = find_attr pairs ''key'' in
            (if eq_ignore_case (find_attr pairs ''in'') ''query'' then AuthApiKeyQuery else AuthApiKeyHeader,
             [], [], [], if key = [] then ''X-Api-Key'' else key, find_attr pairs ''value'')
          else no_auth)"

section \<open>Scripts\<close>

definition script_lines :: "json list \<Rightarrow> string" where
  "script_lines exec = join [CHR 10] (List.map_filter as_str exec)"

text \<open>The first prerequest script that has lines or a text.\<close>

fun prerequest_of :: "json list \<Rightarrow> string" where
  "prerequest_of [] = []"
| "prerequest_of (ev # evs) =
     (if default_to [] (get_str ''listen'' ev) \<noteq> ''prerequest'' then prerequest_of evs
      else case json_get ''script'' ev of
          None \<Rightarrow> prerequest_of evs
        | Some script \<Rightarrow>
            (case get_array ''exec'' script of
               Some exec \<Rightarrow> script_lines exec
             | None \<Rightarrow> (case get_str ''exec'' script of Some s \<Rightarrow> s | None \<Rightarrow> prerequest_of evs)))"

definition postman_prerequest :: "json option \<Rightarrow> string" where
  "postman_prerequest event = (case Option.bind event as_array of None \<Rightarrow> [] | Some arr \<Rightarrow> prerequest_of arr)"

text \<open>\<open>str::split\<close> with a string, which is not empty.\<close>

function split_str :: "string \<Rightarrow> string \<Rightarrow> string list" where
  "split_str p s =
     (case find_sub s p of
        None \<Rightarrow> [s]
      | Some i \<Rightarrow> if p = [] then [s] else take i s # split_str p (drop (i + length p) s))"
  by pat_completeness auto
termination
proof (relation "measure (\<lambda>(p, s). length s)")
  fix p s i assume f: "find_sub s p = Some i" "p \<noteq> []"
  then have "starts_with (drop i s) p" using find_sub_Some by blast
  then have "length p \<le> length (drop i s)" by (rule starts_with_length)
  moreover have "0 < length p" using f(2) by simp
  ultimately have "length s - (i + length p) < length s" unfolding length_drop by linarith
  then show "((p, drop (i + length p) s), (p, s)) \<in> measure (\<lambda>(p, s). length s)" by simp
qed simp

declare split_str.simps [simp del]

definition status_call :: string where
  "status_call = ''to.have.status(''"

definition status_test :: "nat \<Rightarrow> string" where
  "status_test n = ''status == '' @ dec n"

definition status_tests :: "string \<Rightarrow> string list" where
  "status_tests script =
     List.map_filter (\<lambda>cap. case parse_uint u16_max (trim (hd (split_chr (CHR '')'') cap))) of
         Inr n \<Rightarrow> Some (status_test n) | Inl _ \<Rightarrow> None)
       (tl (split_str status_call script))"

definition open_quote :: string where
  "open_quote = [CHR ''('', CHR 34]"

definition include_tests :: "string \<Rightarrow> string list" where
  "include_tests script =
     (if contains script ''.to.include('' \<or> contains script ''.to.contain('' then
        case or_else (find_sub script (''.to.include'' @ open_quote)) (find_sub script (''.to.contain'' @ open_quote)) of
          None \<Rightarrow> []
        | Some start \<Rightarrow>
            let rest = drop start script in
            (case find_sub rest open_quote of
               None \<Rightarrow> []
             | Some q \<Rightarrow>
                 let after = drop (q + 2) rest in
                 (case find_sub after [CHR 34] of None \<Rightarrow> [] | Some end_at \<Rightarrow> [''body contains '' @ take end_at after]))
      else [])"

definition event_tests :: "json \<Rightarrow> string list" where
  "event_tests ev =
     (if default_to [] (get_str ''listen'' ev) \<noteq> ''test'' then []
      else case json_get ''script'' ev of
          None \<Rightarrow> []
        | Some script \<Rightarrow>
            let t = (case get_array ''exec'' script of
                Some exec \<Rightarrow> script_lines exec | None \<Rightarrow> default_to [] (get_str ''exec'' script))
            in status_tests t @ include_tests t)"

definition postman_tests :: "json option \<Rightarrow> string list" where
  "postman_tests event = (case Option.bind event as_array of None \<Rightarrow> [] | Some arr \<Rightarrow> concat (map event_tests arr))"

section \<open>Requests\<close>

definition str_items :: "json list \<Rightarrow> string list" where
  "str_items xs = List.map_filter as_str xs"

definition postman_url :: "json option \<Rightarrow> string" where
  "postman_url v =
     (case v of
        None \<Rightarrow> []
      | Some v \<Rightarrow>
          (case as_str v of
             Some s \<Rightarrow> s
           | None \<Rightarrow>
               (case get_str ''raw'' v of
                  Some raw \<Rightarrow> raw
                | None \<Rightarrow>
                    let host = join ''.'' (str_items (default_to [] (get_array ''host'' v)));
                        path = join ''/'' (str_items (default_to [] (get_array ''path'' v)));
                        proto = default_to ''https'' (get_str ''protocol'' v) in
                    if host = [] then path
                    else if path = [] then proto @ ''://'' @ host
                    else proto @ ''://'' @ host @ ''/'' @ path)))"

definition disabled :: "json \<Rightarrow> bool" where
  "disabled h \<longleftrightarrow> Option.bind (json_get ''disabled'' h) as_bool = Some True"

definition array_of :: "json option \<Rightarrow> json list" where
  "array_of v = default_to [] (Option.bind v as_array)"

definition postman_headers :: "json option \<Rightarrow> headers" where
  "postman_headers v =
     List.map_filter (\<lambda>h. case get_str ''key'' h of
         None \<Rightarrow> None
       | Some key \<Rightarrow> if disabled h then None else Some (key, default_to [] (get_str ''value'' h))) (array_of v)"

definition form_from_urlencoded :: "json option \<Rightarrow> form_field list" where
  "form_from_urlencoded v =
     List.map_filter (\<lambda>f. if disabled f then None
       else map_option (\<lambda>key. \<lparr>ff_key = key, ff_value = default_to [] (get_str ''value'' f), ff_file = None\<rparr>) (get_str ''key'' f))
       (array_of v)"

definition file_source :: "json \<Rightarrow> string option" where
  "file_source s =
     or_else (as_str s) (case as_array s of Some (x # _) \<Rightarrow> as_str x | _ \<Rightarrow> None)"

definition form_from_formdata :: "json option \<Rightarrow> form_field list" where
  "form_from_formdata v =
     List.map_filter (\<lambda>f. if disabled f then None
       else map_option (\<lambda>key.
           if to_lower (default_to ''text'' (get_str ''type'' f)) = ''file'' then
             let path = default_to [] (Option.bind (json_get ''src'' f) file_source) in
             \<lparr>ff_key = key, ff_value = [], ff_file = (if path = [] then None else Some path)\<rparr>
           else \<lparr>ff_key = key, ff_value = default_to [] (get_str ''value'' f), ff_file = None\<rparr>) (get_str ''key'' f))
       (array_of v)"

definition postman_body_parts :: "json option \<Rightarrow> body_mode \<times> string \<times> form_field list" where
  "postman_body_parts v =
     (case v of
        None \<Rightarrow> (BodyRaw, [], [])
      | Some v \<Rightarrow>
          let mode = to_lower (default_to ''raw'' (get_str ''mode'' v)) in
          if mode = ''urlencoded'' then (BodyUrlEncoded, [], form_from_urlencoded (json_get ''urlencoded'' v))
          else if mode = ''formdata'' then (BodyMultipart, [], form_from_formdata (json_get ''formdata'' v))
          else if mode = ''graphql'' then
            (BodyGraphQL, default_to [] (Option.bind (json_get ''graphql'' v) (get_str ''query'')), [])
          else (BodyRaw, default_to [] (get_str ''raw'' v), []))"

definition full_name :: "string \<Rightarrow> string \<Rightarrow> string" where
  "full_name folder name = (if folder = [] then name else folder @ ''/'' @ name)"

definition item_name :: "json \<Rightarrow> string" where
  "item_name item = default_to ''request'' (get_str ''name'' item)"

definition postman_request :: "string \<Rightarrow> json option \<Rightarrow> json \<Rightarrow> json \<Rightarrow> saved_request" where
  "postman_request folder auth item req =
     (let (mode, body, form) = postman_body_parts (json_get ''body'' req);
          (kind, token, user, pass, key, v) = postman_auth (or_else (json_get ''auth'' req) auth);
          event = or_else (json_get ''event'' item) (json_get ''event'' req)
      in default_request\<lparr>
          sr_name := full_name folder (item_name item),
          sr_kind := (if mode = BodyGraphQL then ''graphql'' else ''http''),
          sr_target := postman_url (json_get ''url'' req),
          sr_method := Some (default_to ''GET'' (get_str ''method'' req)),
          sr_headers := postman_headers (json_get ''header'' req),
          sr_body := body,
          sr_auth := kind, sr_auth_token := token, sr_auth_user := user, sr_auth_pass := pass,
          sr_auth_key := key, sr_auth_value := v,
          sr_body_mode := mode, sr_form_fields := form,
          sr_pre_script := postman_prerequest event, sr_tests := postman_tests event\<rparr>)"

lemma map_of_size: "map_of kvs k = Some v \<Longrightarrow> size v < size (JObject kvs)"
proof -
  assume "map_of kvs k = Some v"
  then have "(k, v) \<in> set kvs" by (rule map_of_SomeD)
  from size_list_estimation' [OF this order_refl, of "size_prod (\<lambda>x. 0) size"] show ?thesis by simp
qed

lemma get_array_size: "get_array k j = Some xs \<Longrightarrow> size_list size xs < size j"
proof -
  assume "get_array k j = Some xs"
  then obtain v where v: "json_get k j = Some v" "as_array v = Some xs" by (auto simp: get_array_def bind_eq_Some_conv)
  then obtain kvs where "j = JObject kvs" by (cases j) auto
  with v(1) have "size v < size j" using map_of_size by simp
  moreover from v(2) have "size_list size xs < size v" by (cases v) auto
  ultimately show ?thesis by linarith
qed

function walk_postman_items :: "json list \<Rightarrow> string \<Rightarrow> json option \<Rightarrow> saved_request list" where
  "walk_postman_items [] folder inherited = []"
| "walk_postman_items (item # items) folder inherited =
     (let auth = or_else (json_get ''auth'' item) inherited in
      (case get_array ''item'' item of
         Some children \<Rightarrow> walk_postman_items children (full_name folder (item_name item)) auth
       | None \<Rightarrow>
           (case json_get ''request'' item of
              None \<Rightarrow> []
            | Some req \<Rightarrow> [postman_request folder auth item req]))
      @ walk_postman_items items folder inherited)"
  by pat_completeness auto
termination
  by (relation "measure (\<lambda>(items, folder, auth). size_list size items)") (auto dest: get_array_size)

definition collection_variables :: "json list \<Rightarrow> (string \<times> string) list" where
  "collection_variables vars =
     List.map_filter (\<lambda>var. let key = default_to [] (get_str ''key'' var) in
       if key = [] then None else Some (key, default_to [] (get_str ''value'' var))) vars"

definition postman_collection :: "json \<Rightarrow> import_error + collection" where
  "postman_collection v =
     (case json_get ''info'' v of
        None \<Rightarrow> Inl MissingInfo
      | Some info \<Rightarrow>
          let col = collection_new (default_to ''postman'' (get_str ''name'' info));
              vars = collection_variables (default_to [] (get_array ''variable'' v));
              col = (if vars = [] then col
                else col\<lparr>co_active_env := Some ''collection'',
                  co_environments := [\<lparr>en_name = ''collection'', en_vars = vars\<rparr>]\<rparr>)
          in Inr (col\<lparr>co_requests := (case get_array ''item'' v of None \<Rightarrow> []
                | Some items \<Rightarrow> walk_postman_items items [] (json_get ''auth'' v))\<rparr>))"

definition import_postman_v21 :: "json_codec \<Rightarrow> string \<Rightarrow> import_error + collection" where
  "import_postman_v21 codec s = (case jc_parse codec (as_bytes s) of None \<Rightarrow> Inl ParsePostman | Some v \<Rightarrow> postman_collection v)"

section \<open>OpenAPI\<close>

definition upper_chr :: "char \<Rightarrow> char" where
  "upper_chr c = (let n = of_char c :: nat in if 97 \<le> n \<and> n \<le> 122 then char_of (n - 32) else c)"

definition openapi_methods :: "string list" where
  "openapi_methods = [''GET'', ''POST'', ''PUT'', ''PATCH'', ''DELETE'', ''HEAD'', ''OPTIONS'']"

definition parameter_example :: "json \<Rightarrow> string \<Rightarrow> string" where
  "parameter_example p name =
     default_to (placeholder name)
       (or_else (get_str ''example'' p)
         (or_else (Option.bind (json_get ''schema'' p) (get_str ''example''))
           (Option.bind (json_get ''schema'' p) (get_str ''default''))))"

definition query_extra :: "json \<Rightarrow> string option" where
  "query_extra p =
     (let name = default_to [] (get_str ''name'' p) in
      if to_lower (default_to [] (get_str ''in'' p)) \<noteq> ''query'' \<or> name = [] then None
      else Some (name @ ''='' @ parameter_example p name))"

definition append_query_params :: "string \<Rightarrow> json \<Rightarrow> string" where
  "append_query_params url op =
     (case get_array ''parameters'' op of
        None \<Rightarrow> url
      | Some params \<Rightarrow>
          let extras = List.map_filter query_extra params in
          if extras = [] then url
          else url @ (if CHR ''?'' \<in> set url then ''&'' else ''?'') @ join ''&'' extras)"

definition openapi_auth :: "json option \<Rightarrow> json \<Rightarrow> auth_parts" where
  "openapi_auth security schemes =
     (case Option.bind security as_array of
        Some (first # _) \<Rightarrow>
          (case as_object first of
             Some ((scheme_name, _) # _) \<Rightarrow>
               (case json_get scheme_name schemes of
                  None \<Rightarrow> no_auth
                | Some scheme \<Rightarrow>
                    let typ = to_lower (default_to [] (get_str ''type'' scheme)) in
                    if typ = ''http'' then
                      if to_lower (default_to ''bearer'' (get_str ''scheme'' scheme)) = ''basic''
                      then (AuthBasic, [], ''{{username}}'', ''{{password}}'', ''X-Api-Key'', [])
                      else (AuthBearer, ''{{token}}'', [], [], ''X-Api-Key'', [])
                    else if typ = ''apikey'' then
                      (if eq_ignore_case (default_to ''header'' (get_str ''in'' scheme)) ''query'' then AuthApiKeyQuery else AuthApiKeyHeader,
                       [], [], [], default_to ''X-Api-Key'' (get_str ''name'' scheme), ''{{api_key}}'')
                    else no_auth)
           | _ \<Rightarrow> no_auth)
      | _ \<Rightarrow> no_auth)"

definition resolve_ref :: "json \<Rightarrow> json \<Rightarrow> json" where
  "resolve_ref doc node =
     (case Option.bind (get_str ''$ref'' node) (\<lambda>r. strip_prefix r ''#/'') of
        None \<Rightarrow> node
      | Some path \<Rightarrow> default_to node (walk_path doc (split_chr (CHR ''/'') path)))"

definition first_value :: "json \<Rightarrow> json option" where
  "first_value j = (case as_object j of Some ((_, v) # _) \<Rightarrow> Some v | _ \<Rightarrow> None)"

definition example_body :: "json_codec \<Rightarrow> json \<Rightarrow> json \<Rightarrow> string" where
  "example_body codec op doc =
     (case Option.bind (Option.bind (map_option (resolve_ref doc) (json_get ''requestBody'' op)) (json_get ''content''))
         (\<lambda>c. or_else (json_get ''application/json'' c) (first_value c)) of
        None \<Rightarrow> []
      | Some media \<Rightarrow>
          let media = resolve_ref doc media in
          (case json_get ''example'' media of
             Some ex \<Rightarrow> jc_pretty codec ex
           | None \<Rightarrow>
               (case Option.bind (map_option (resolve_ref doc) (Option.bind (json_get ''examples'' media) first_value)) (json_get ''value'') of
                  Some ex \<Rightarrow> jc_pretty codec ex
                | None \<Rightarrow> [])))"

fun success_key :: "(string \<times> json) list \<Rightarrow> nat option" where
  "success_key [] = None"
| "success_key ((k, _) # kvs) =
     (case parse_uint u16_max k of
        Inr code \<Rightarrow> if 200 \<le> code \<and> code < 300 then Some code else success_key kvs
      | Inl _ \<Rightarrow> success_key kvs)"

definition first_success_code :: "json \<Rightarrow> nat option" where
  "first_success_code op =
     (case Option.bind (json_get ''responses'' op) as_object of
        None \<Rightarrow> None
      | Some resp \<Rightarrow>
          (case success_key resp of
             Some code \<Rightarrow> Some code
           | None \<Rightarrow> if map_of resp ''default'' \<noteq> None then Some 200 else None))"

definition openapi_request :: "json_codec \<Rightarrow> json \<Rightarrow> string \<Rightarrow> json \<Rightarrow> string \<Rightarrow> string \<Rightarrow> json \<Rightarrow> saved_request option" where
  "openapi_request codec doc base schemes path meth op =
     (let m = map upper_chr meth in
      if m \<notin> set openapi_methods then None
      else
        let op_id = default_to path (or_else (get_str ''operationId'' op) (get_str ''summary'' op));
            (kind, token, user, pass, key, v) = openapi_auth (or_else (json_get ''security'' op) (json_get ''security'' doc)) schemes
        in Some (default_request\<lparr>
            sr_name := m @ '' '' @ op_id, sr_kind := ''http'',
            sr_target := append_query_params (base @ path) op,
            sr_method := Some m, sr_headers := [(''Accept'', ''application/json'')],
            sr_body := example_body codec op doc,
            sr_tests := (case first_success_code op of None \<Rightarrow> [] | Some code \<Rightarrow> [status_test code]),
            sr_auth := kind, sr_auth_token := token, sr_auth_user := user, sr_auth_pass := pass,
            sr_auth_key := key, sr_auth_value := v\<rparr>))"

definition openapi_path :: "json_codec \<Rightarrow> json \<Rightarrow> string \<Rightarrow> json \<Rightarrow> string \<times> json \<Rightarrow> saved_request list" where
  "openapi_path codec doc base schemes entry =
     (case entry of (path, item) \<Rightarrow>
        (case as_object item of
           None \<Rightarrow> []
         | Some obj \<Rightarrow> List.map_filter (\<lambda>(meth, op). openapi_request codec doc base schemes path meth op) obj))"

definition openapi_base :: "json \<Rightarrow> string" where
  "openapi_base v =
     trim_end_chr (CHR ''/'') (default_to []
       (case get_array ''servers'' v of Some (s # _) \<Rightarrow> get_str ''url'' s | _ \<Rightarrow> None))"

definition openapi_from_json :: "json_codec \<Rightarrow> json \<Rightarrow> string \<Rightarrow> import_error + collection" where
  "openapi_from_json codec v fallback_name =
     (let name = default_to fallback_name (Option.bind (json_get ''info'' v) (get_str ''title''));
          schemes = default_to (JObject []) (Option.bind (json_get ''components'' v) (json_get ''securitySchemes'')) in
      case Option.bind (json_get ''paths'' v) as_object of
        None \<Rightarrow> Inl MissingPaths
      | Some paths \<Rightarrow>
          let requests = concat (map (openapi_path codec v (openapi_base v) schemes) paths) in
          if requests = [] then Inl NoOperations
          else Inr ((collection_new name)\<lparr>co_requests := requests\<rparr>))"

definition import_openapi_json :: "json_codec \<Rightarrow> string \<Rightarrow> string \<Rightarrow> import_error + collection" where
  "import_openapi_json codec s name =
     (case jc_parse codec (as_bytes s) of None \<Rightarrow> Inl ParseOpenapiJson | Some v \<Rightarrow> openapi_from_json codec v name)"

definition import_openapi_yaml :: "json_codec \<Rightarrow> (string \<Rightarrow> json option) \<Rightarrow> string \<Rightarrow> string \<Rightarrow> import_error + collection" where
  "import_openapi_yaml codec yaml s name =
     (case yaml s of None \<Rightarrow> Inl ParseOpenapiYaml | Some v \<Rightarrow> openapi_from_json codec v name)"

definition json_key :: "string \<Rightarrow> string" where
  "json_key k = [CHR 34] @ k @ [CHR 34]"

definition import_text :: "json_codec \<Rightarrow> (string \<Rightarrow> json option) \<Rightarrow> string \<Rightarrow> string \<Rightarrow> import_error + collection" where
  "import_text codec yaml s name =
     (if starts_with (trim_start s) ''{'' then
        if contains s (json_key ''openapi'') \<or> contains s (json_key ''swagger'') then import_openapi_json codec s name
        else import_postman_v21 codec s
      else if contains s ''openapi:'' \<or> contains s ''swagger:'' then import_openapi_yaml codec yaml s name
      else case import_postman_v21 codec s of
          Inr col \<Rightarrow> Inr col
        | Inl _ \<Rightarrow> import_openapi_yaml codec yaml s name)"

section \<open>Imported tests\<close>

lemma status_test_passes:
  "n \<le> u16_max \<Longrightarrow> ar_passed (eval_one env (status_test n) resp) \<longleftrightarrow> rs_status resp = n"
  using status_passes [of "''==''" CmpEq n env resp] by (simp add: status_test_def cmp_table_def)

lemma parse_digits_le: "parse_digits mx acc s = Inr n \<Longrightarrow> acc \<le> mx \<Longrightarrow> n \<le> mx"
  by (induction mx acc s rule: parse_digits.induct) (auto split: option.splits if_splits simp: Let_def)

lemma parse_uint_le: "parse_uint mx s = Inr n \<Longrightarrow> n \<le> mx"
  using parse_digits_le [of mx 0] by (auto simp: parse_uint_def split: list.splits if_splits simp del: parse_digits.simps)

lemma map_filter_member: "y \<in> set (List.map_filter f xs) \<longleftrightarrow> (\<exists>x \<in> set xs. f x = Some y)"
  by (induction xs) (auto simp: List.map_filter_def split: option.splits)

definition known_test :: "string \<Rightarrow> bool" where
  "known_test t \<longleftrightarrow> (\<exists>n \<le> u16_max. t = status_test n) \<or> (\<exists>w. t = ''body contains '' @ w)"

lemma include_tests_shape: "include_tests s = [] \<or> (\<exists>w. include_tests s = [''body contains '' @ w])"
  by (simp add: include_tests_def Let_def split: option.split)

lemma postman_tests_known: "t \<in> set (postman_tests ev) \<Longrightarrow> known_test t"
proof -
  assume "t \<in> set (postman_tests ev)"
  then obtain e where "t \<in> set (event_tests e)" by (auto simp: postman_tests_def split: option.splits)
  then obtain s where "t \<in> set (status_tests s) \<or> t \<in> set (include_tests s)"
    by (auto simp: event_tests_def Let_def split: if_splits option.splits)
  then show ?thesis
  proof
    assume "t \<in> set (status_tests s)"
    then obtain cap where "(case parse_uint u16_max (trim (hd (split_chr (CHR '')'') cap))) of
        Inr n \<Rightarrow> Some (status_test n) | Inl _ \<Rightarrow> None) = Some t"
      unfolding status_tests_def map_filter_member by blast
    then obtain n where "parse_uint u16_max (trim (hd (split_chr (CHR '')'') cap))) = Inr n" "t = status_test n"
      by (auto split: sum.splits)
    then show ?thesis using parse_uint_le unfolding known_test_def by blast
  next
    assume "t \<in> set (include_tests s)"
    then have "\<exists>w. t = ''body contains '' @ w" using include_tests_shape [of s] by (metis empty_iff list.set(1) set_ConsD)
    then show ?thesis unfolding known_test_def by blast
  qed
qed

lemma postman_request_tests: "\<exists>ev. sr_tests (postman_request folder auth item req) = postman_tests ev"
  by (auto simp: postman_request_def Let_def split: prod.split)

lemma walk_known: "r \<in> set (walk_postman_items items folder auth) \<Longrightarrow> t \<in> set (sr_tests r) \<Longrightarrow> known_test t"
proof (induction items folder auth rule: walk_postman_items.induct)
  case (2 item items folder inherited)
  let ?auth = "or_else (json_get ''auth'' item) inherited"
  show ?case
  proof (cases "r \<in> set (walk_postman_items items folder inherited)")
    case True
    then show ?thesis using "2.IH"(2) [OF refl] "2.prems"(2) by blast
  next
    case here: False
    show ?thesis
    proof (cases "get_array ''item'' item")
      case None
      then obtain req where "r = postman_request folder ?auth item req"
        using "2.prems"(1) here by (auto simp: Let_def split: option.splits)
      then show ?thesis using "2.prems"(2) postman_request_tests postman_tests_known by metis
    next
      case (Some children)
      then have "r \<in> set (walk_postman_items children (full_name folder (item_name item)) ?auth)"
        using "2.prems"(1) here by (simp add: Let_def)
      then show ?thesis using "2.IH"(1) [OF refl Some] "2.prems"(2) by blast
    qed
  qed
qed simp

lemma success_key_range: "success_key kvs = Some n \<Longrightarrow> 200 \<le> n \<and> n < 300"
  by (induction kvs rule: success_key.induct) (auto split: sum.splits if_splits)

lemma first_success_range: "first_success_code op = Some n \<Longrightarrow> 200 \<le> n \<and> n < 300"
  by (auto simp: first_success_code_def dest: success_key_range split: option.splits if_splits)

lemma openapi_tests:
  assumes "openapi_from_json codec v name = Inr col" "r \<in> set (co_requests col)" "t \<in> set (sr_tests r)"
  shows "\<exists>n. 200 \<le> n \<and> n < 300 \<and> t = status_test n"
proof -
  obtain base schemes path meth op where "openapi_request codec v base schemes path meth op = Some r"
    using assms(1,2)
    by (auto simp: openapi_from_json_def openapi_path_def Let_def map_filter_member split: option.splits if_splits)
  then have "sr_tests r = (case first_success_code op of None \<Rightarrow> [] | Some code \<Rightarrow> [status_test code])"
    by (auto simp: openapi_request_def Let_def split: if_splits prod.splits)
  with assms(3) show ?thesis using first_success_range by (auto split: option.splits)
qed

text \<open>
  C26: Every test an OpenAPI import writes is a test of its own assertion language, and passes on exactly
  the responses with the status it was made from, a status of success.
\<close>

theorem openapi_tests_exact:
  assumes "openapi_from_json codec v name = Inr col" "r \<in> set (co_requests col)" "t \<in> set (sr_tests r)"
  shows "\<exists>n. 200 \<le> n \<and> n < 300 \<and> (\<forall>env resp. ar_passed (eval_one env t resp) \<longleftrightarrow> rs_status resp = n)"
proof -
  obtain n where n: "200 \<le> n" "n < 300" "t = status_test n" using openapi_tests [OF assms] by blast
  then have "n \<le> u16_max" by (simp add: u16_max_def)
  then show ?thesis using n status_test_passes by blast
qed

definition no_codec :: json_codec where
  "no_codec = \<lparr>jc_parse = \<lambda>_. None, jc_print = \<lambda>_. [], jc_pretty = \<lambda>_. []\<rparr>"

definition pet_store :: json where
  "pet_store = JObject [(''paths'', JObject [(''/pets'', JObject [(''post'', JObject [(''responses'', JObject [(''201'', JNull), (''400'', JNull)])])])]),
     (''servers'', JArray [JObject [(''url'', JString ''https://h/'')]])]"

definition pet_request :: saved_request where
  "pet_request = default_request\<lparr>sr_name := ''POST /pets'', sr_target := ''https://h/pets'', sr_method := Some ''POST'',
     sr_headers := [(''Accept'', ''application/json'')], sr_tests := [status_test 201]\<rparr>"

lemma pet_store_import:
  "openapi_from_json no_codec pet_store ''p'' = Inr ((collection_new ''p'')\<lparr>co_requests := [pet_request]\<rparr>)"
proof -
  have "openapi_base pet_store = ''https://h''" by code_simp
  moreover have "parse_uint u16_max ''201'' = Inr 201" using parse_uint_dec [of 201 u16_max] by (simp add: u16_max_def dec_rec dec_small)
  moreover have "map upper_chr ''post'' = ''POST''" by code_simp
  ultimately show ?thesis
    by (simp add: openapi_from_json_def pet_store_def openapi_path_def openapi_request_def openapi_methods_def
        first_success_code_def get_str_def append_query_params_def get_array_def openapi_auth_def no_auth_def
        example_body_def default_request_def pet_request_def List.map_filter_def)
qed

theorem openapi_tests_exact_witness:
  "\<exists>n. 200 \<le> n \<and> n < 300 \<and> (\<forall>env resp. ar_passed (eval_one env (status_test 201) resp) \<longleftrightarrow> rs_status resp = n)"
  by (rule openapi_tests_exact [OF pet_store_import, of pet_request]) (simp_all add: pet_request_def)

text \<open>
  Every test a Postman import writes is an exact status test or a test of the body: no imported
  assertion is one the language does not know.
\<close>

theorem postman_tests_meaningful:
  assumes "postman_collection v = Inr col" "r \<in> set (co_requests col)" "t \<in> set (sr_tests r)"
  shows "(\<exists>n. \<forall>env resp. ar_passed (eval_one env t resp) \<longleftrightarrow> rs_status resp = n) \<or> (\<exists>w. t = ''body contains '' @ w)"
proof -
  obtain items auth where "r \<in> set (walk_postman_items items [] auth)"
    using assms(1,2) by (auto simp: postman_collection_def Let_def collection_new_def split: option.splits if_splits)
  then have "known_test t" using walk_known assms(3) by blast
  then show ?thesis using status_test_passes unfolding known_test_def by blast
qed

section \<open>Folders\<close>

text \<open>A Postman collection as a tree: folders and requests, each with authentication of its own or not.\<close>

datatype ptree = PFolder string "json option" "ptree list" | PRequest string "json option" json

definition auth_entry :: "json option \<Rightarrow> (string \<times> json) list" where
  "auth_entry a = (case a of None \<Rightarrow> [] | Some j \<Rightarrow> [(''auth'', j)])"

fun tree_json :: "ptree \<Rightarrow> json" where
  "tree_json (PFolder name a ts) = JObject (auth_entry a @ [(''item'', JArray (map tree_json ts)), (''name'', JString name)])"
| "tree_json (PRequest name a req) = JObject (auth_entry a @ [(''name'', JString name), (''request'', req)])"

text \<open>The requests with the names on the way to them and the authentication nearest to them.\<close>

fun leaves :: "string list \<Rightarrow> json option \<Rightarrow> ptree \<Rightarrow> (string list \<times> json option \<times> json) list" where
  "leaves names auth (PFolder name a ts) = concat (map (leaves (names @ [name]) (or_else a auth)) ts)"
| "leaves names auth (PRequest name a req) = [(names @ [name], or_else (json_get ''auth'' req) (or_else a auth), req)]"

fun names_ok :: "ptree \<Rightarrow> bool" where
  "names_ok (PFolder name a ts) \<longleftrightarrow> name \<noteq> [] \<and> list_all names_ok ts"
| "names_ok (PRequest name a req) \<longleftrightarrow> True"

definition auth_of :: "saved_request \<Rightarrow> auth_parts" where
  "auth_of r = (sr_auth r, sr_auth_token r, sr_auth_user r, sr_auth_pass r, sr_auth_key r, sr_auth_value r)"

lemma tree_get [simp]:
  "json_get ''auth'' (tree_json (PFolder name a ts)) = a" "json_get ''auth'' (tree_json (PRequest name a req)) = a"
  "get_array ''item'' (tree_json (PFolder name a ts)) = Some (map tree_json ts)"
  "get_array ''item'' (tree_json (PRequest name a req)) = None"
  "json_get ''request'' (tree_json (PRequest name a req)) = Some req"
  "item_name (tree_json (PFolder name a ts)) = name" "item_name (tree_json (PRequest name a req)) = name"
  by (cases a; simp add: auth_entry_def get_array_def item_name_def get_str_def)+

lemma join_snoc: "ns \<noteq> [] \<Longrightarrow> join sep (ns @ [n]) = join sep ns @ sep @ n"
  by (induction sep ns rule: join.induct) auto

lemma join_nonempty: "ns \<noteq> [] \<Longrightarrow> list_all (\<lambda>n. n \<noteq> []) ns \<Longrightarrow> join sep ns \<noteq> []"
  by (induction sep ns rule: join.induct) auto

lemma full_name_join:
  "list_all (\<lambda>n. n \<noteq> []) ns \<Longrightarrow> full_name (join ''/'' ns) n = join ''/'' (ns @ [n])"
proof (cases "ns = []")
  case False
  assume "list_all (\<lambda>n. n \<noteq> []) ns"
  then show ?thesis using False join_nonempty join_snoc by (simp add: full_name_def)
qed (simp add: full_name_def)

lemma postman_request_parts:
  "sr_name (postman_request folder auth item req) = full_name folder (item_name item)"
  "auth_of (postman_request folder auth item req) = postman_auth (or_else (json_get ''auth'' req) auth)"
  by (simp_all add: postman_request_def auth_of_def Let_def split: prod.split)

lemma walk_append: "walk_postman_items (xs @ ys) folder auth = walk_postman_items xs folder auth @ walk_postman_items ys folder auth"
  by (induction xs) (simp_all add: Let_def)

lemma walk_tree:
  assumes "list_all (\<lambda>n. n \<noteq> []) names" "names_ok t"
  shows "map (\<lambda>r. (sr_name r, auth_of r)) (walk_postman_items [tree_json t] (join ''/'' names) auth) =
    map (\<lambda>(ns, a, req). (join ''/'' ns, postman_auth a)) (leaves names auth t)"
  using assms
proof (induction t arbitrary: names auth)
  case (PFolder name a ts)
  have names: "list_all (\<lambda>n. n \<noteq> []) (names @ [name])" using PFolder.prems by simp
  have "map (\<lambda>r. (sr_name r, auth_of r)) (walk_postman_items (map tree_json us) (join ''/'' (names @ [name])) (or_else a auth)) =
    map (\<lambda>(ns, a, req). (join ''/'' ns, postman_auth a)) (concat (map (leaves (names @ [name]) (or_else a auth)) us))"
    if "set us \<subseteq> set ts" for us
    using that
  proof (induction us)
    case (Cons u us)
    have "u \<in> set ts" "names_ok u" using Cons.prems PFolder.prems(2) by (auto simp: list_all_iff)
    from PFolder.IH [OF this(1) names this(2)]
    have "map (\<lambda>r. (sr_name r, auth_of r)) (walk_postman_items [tree_json u] (join ''/'' (names @ [name])) (or_else a auth)) =
      map (\<lambda>(ns, a, req). (join ''/'' ns, postman_auth a)) (leaves (names @ [name]) (or_else a auth) u)" .
    then show ?case
      using Cons walk_append [of "[tree_json u]" "map tree_json us"] by simp
  qed simp
  from this [OF order_refl] show ?case
    using PFolder.prems(1) by (simp add: Let_def full_name_join del: tree_json.simps)
next
  case (PRequest name a req)
  then show ?case by (simp add: Let_def full_name_join postman_request_parts del: tree_json.simps)
qed

text \<open>
  C25: A collection's folders flatten to paths: each request of the tree is imported once, in order, named
  by the folders that lead to it, with its own authentication, else that of the nearest folder that has
  one, else the collection's.
\<close>

theorem folders_flatten:
  assumes "list_all names_ok ts"
  shows "map (\<lambda>r. (sr_name r, auth_of r)) (walk_postman_items (map tree_json ts) [] auth) =
    map (\<lambda>(ns, a, req). (join ''/'' ns, postman_auth a)) (concat (map (leaves [] auth) ts))"
  using assms
proof (induction ts)
  case (Cons t ts)
  then show ?case
    using walk_tree [of "[]" t auth] walk_append [of "[tree_json t]" "map tree_json ts"] by simp
qed simp

definition bearer_auth :: "string \<Rightarrow> json" where
  "bearer_auth tok = JObject [(''bearer'', JArray [JObject [(''key'', JString ''token''), (''value'', JString tok)]]), (''type'', JString ''bearer'')]"

theorem folders_flatten_witness:
  "map (\<lambda>r. (sr_name r, sr_auth_token r)) (walk_postman_items (map tree_json
     [PFolder ''v1'' (Some (bearer_auth ''inner'')) [PFolder ''users'' None [PRequest ''list'' None (JObject [])]], PRequest ''ping'' None (JObject [])])
     [] (Some (bearer_auth ''outer''))) = [(''v1/users/list'', ''inner''), (''ping'', ''outer'')]"
proof -
  let ?ts = "[PFolder ''v1'' (Some (bearer_auth ''inner'')) [PFolder ''users'' None [PRequest ''list'' None (JObject [])]], PRequest ''ping'' None (JObject [])]"
  have "list_all names_ok ?ts" by simp
  from arg_cong [OF folders_flatten [OF this, of "Some (bearer_auth ''outer'')"], of "map (\<lambda>(n, a). (n, fst (snd a)))"]
  have "map (\<lambda>r. (sr_name r, sr_auth_token r)) (walk_postman_items (map tree_json ?ts) [] (Some (bearer_auth ''outer''))) =
    [(''v1/users/list'', fst (snd (postman_auth (Some (bearer_auth ''inner''))))), (''ping'', fst (snd (postman_auth (Some (bearer_auth ''outer'')))))]"
    by (simp add: o_def auth_of_def del: tree_json.simps)
  moreover have "fst (snd (postman_auth (Some (bearer_auth ''inner'')))) = ''inner''" "fst (snd (postman_auth (Some (bearer_auth ''outer'')))) = ''outer''"
    by code_simp+
  ultimately show ?thesis by simp
qed

section \<open>Status calls in scripts\<close>

lemma find_sub_at:
  assumes "p \<noteq> []" "\<not> contains (pre @ butlast p) p"
  shows "find_sub (pre @ p @ rest) p = Some (length pre)"
  using assms(2)
proof (induction pre)
  case Nil
  then show ?case using assms(1) starts_with_append [of p rest] by (cases p) (simp_all del: starts_with_append)
next
  case (Cons c pre)
  have eq: "c # pre @ p @ rest = (c # pre @ butlast p) @ last p # rest"
    using append_butlast_last_id [OF assms(1)] by (metis append.assoc append_Cons append_Nil)
  have "length p \<le> length (c # pre @ butlast p)" by simp
  then have "take (length p) (c # pre @ p @ rest) = take (length p) (c # pre @ butlast p)"
    using eq by (simp only: take_append) simp
  then have "\<not> starts_with (c # pre @ p @ rest) p"
    using Cons.prems by (auto simp: starts_with_def contains_def split: if_splits)
  moreover have "\<not> contains (pre @ butlast p) p" using Cons.prems by (auto simp: contains_def split: if_splits)
  ultimately show ?case using Cons.IH by simp
qed

lemma split_str_at:
  "p \<noteq> [] \<Longrightarrow> \<not> contains (pre @ butlast p) p \<Longrightarrow> split_str p (pre @ p @ rest) = pre # split_str p rest"
  by (subst split_str.simps) (simp add: find_sub_at)

lemma split_str_skip:
  "a \<notin> set w \<Longrightarrow> split_str (a # p) (w @ s) = (w @ hd (split_str (a # p) s)) # tl (split_str (a # p) s)"
  by (simp add: split_str.simps [of _ "w @ s"] split_str.simps [of _ s] find_sub_skip split: option.split)

definition script_of :: "(string \<times> nat) list \<Rightarrow> string \<Rightarrow> string" where
  "script_of calls post = concat (map (\<lambda>(pre, n). pre @ status_call @ dec n @ '')'') calls) @ post"

lemma dec_no: "CHR '')'' \<notin> set (dec n)" "CHR ''t'' \<notin> set (dec n)"
  using dec_codes [of "CHR '')''" n] dec_codes [of "CHR ''t''" n] by auto

lemma status_tests_script:
  assumes "\<forall>(pre, n) \<in> set calls. \<not> contains (pre @ butlast status_call) status_call \<and> n \<le> u16_max" "\<not> contains post status_call"
  shows "status_tests (script_of calls post) = map (\<lambda>(pre, n). status_test n) calls"
  using assms(1)
proof (induction calls)
  case Nil
  have "find_sub post status_call = None" using assms(2) by (simp add: contains_def)
  then show ?case by (simp add: script_of_def status_tests_def split_str.simps List.map_filter_def)
next
  case (Cons x calls)
  obtain pre n where x: "x = (pre, n)" by (cases x)
  let ?rest = "script_of calls post"
  have ok: "\<not> contains (pre @ butlast status_call) status_call" "n \<le> u16_max" using Cons.prems x by auto
  have t: "CHR ''t'' \<notin> set (dec n @ '')'')" using dec_no by simp
  have call: "status_call = CHR ''t'' # ''o.have.status(''" by (simp add: status_call_def)
  have "script_of (x # calls) post = pre @ status_call @ (dec n @ '')'') @ ?rest" by (simp add: script_of_def x)
  then have "split_str status_call (script_of (x # calls) post) = pre # split_str status_call ((dec n @ '')'') @ ?rest)"
    using split_str_at [OF _ ok(1)] by (simp add: call)
  also have "split_str status_call ((dec n @ '')'') @ ?rest) = ((dec n @ '')'') @ hd (split_str status_call ?rest)) # tl (split_str status_call ?rest)"
    unfolding call by (rule split_str_skip [OF t])
  finally have "tl (split_str status_call (script_of (x # calls) post)) =
      ((dec n @ '')'') @ hd (split_str status_call ?rest)) # tl (split_str status_call ?rest)" by simp
  moreover have "hd (split_chr (CHR '')'') ((dec n @ '')'') @ hd (split_str status_call ?rest))) = dec n"
    using split_chr_append [OF dec_no(1), of n] by simp
  moreover have "parse_uint u16_max (dec n) = Inr n" using ok(2) by (rule parse_uint_dec)
  ultimately show ?case
    using Cons by (simp add: status_tests_def List.map_filter_def trim_dec x)
qed

text \<open>
  A test script's status checks are all found: of a script with any number of calls
  \<open>to.have.status(n)\<close>, whatever else is between them, the import makes one assertion for each, in order.
\<close>

theorem status_calls_found:
  assumes "\<forall>(pre, n) \<in> set calls. \<not> contains (pre @ butlast status_call) status_call \<and> n \<le> u16_max"
    "\<not> contains post status_call"
  shows "status_tests (script_of calls post) = map (\<lambda>(pre, n). status_test n) calls"
  using assms by (rule status_tests_script)

theorem status_calls_found_witness:
  "status_tests (script_of [(''pm.response.'', 200), ('' || pm.response.'', 204)] '';'') = [status_test 200, status_test 204]"
proof -
  have "\<not> contains (''pm.response.'' @ butlast status_call) status_call"
    "\<not> contains ('' || pm.response.'' @ butlast status_call) status_call" "\<not> contains '';'' status_call" by code_simp+
  then show ?thesis
    using status_calls_found [of "[(''pm.response.'', 200), ('' || pm.response.'', 204)]" "'';''"] by (simp add: u16_max_def)
qed

text \<open>
  A Postman collection in whose text the word \<open>openapi\<close> or \<open>swagger\<close> stands in quotes is taken for
  an OpenAPI document and refused for its missing paths, although it can be imported.
\<close>

theorem postman_taken_for_openapi:
  assumes "starts_with (trim_start s) ''{''" "contains s (json_key ''openapi'') \<or> contains s (json_key ''swagger'')"
    "jc_parse codec (as_bytes s) = Some v" "json_get ''info'' v \<noteq> None" "json_get ''paths'' v = None"
  shows "import_text codec yaml s name = Inl MissingPaths \<and> (\<exists>col. import_postman_v21 codec s = Inr col)"
  using assms
  by (auto simp: import_text_def import_openapi_json_def openapi_from_json_def import_postman_v21_def postman_collection_def Let_def)

definition tagged :: json where
  "tagged = JObject [(''info'', JObject [(''name'', JString ''openapi'')])]"

theorem postman_taken_for_openapi_witness:
  "import_text (no_codec\<lparr>jc_parse := \<lambda>_. Some tagged\<rparr>) (\<lambda>_. None)
     (''{'' @ json_key ''info'' @ '':{'' @ json_key ''name'' @ '':'' @ json_key ''openapi'' @ ''}}'') ''f'' = Inl MissingPaths"
proof -
  let ?s = "''{'' @ json_key ''info'' @ '':{'' @ json_key ''name'' @ '':'' @ json_key ''openapi'' @ ''}}''"
  have "starts_with (trim_start ?s) ''{''" "contains ?s (json_key ''openapi'')" by code_simp+
  then show ?thesis using postman_taken_for_openapi [of ?s "no_codec\<lparr>jc_parse := \<lambda>_. Some tagged\<rparr>" tagged] by (simp add: tagged_def)
qed

end
