(* ===== verification/Codegen.thy ===== *)
theory Codegen
  imports Json Collections
begin

text \<open>
  Code generation for a collection (\<open>src/src/codegen.rs\<close>): a shell script of curl calls and a Rust
  client.  URL encoding is the crate's, the argument \<open>enc\<close>; the result is the file's name and text.
  The shell's reading of a simple command is the specification the script is held against.
\<close>

section \<open>Curl\<close>

definition sanitize :: "string \<Rightarrow> string" where
  "sanitize name = concat (map (\<lambda>u. if ascii_alnum u then u else ''_'') (chars name))"

text \<open>\<open>replace\<close> of one character.\<close>

definition replace_chr :: "char \<Rightarrow> string \<Rightarrow> string \<Rightarrow> string" where
  "replace_chr c r s = concat (map (\<lambda>x. if x = c then r else [x]) s)"

definition quote :: char where
  "quote = CHR 39"

definition no_quote :: "string \<Rightarrow> string" where
  "no_quote s = replace_chr quote [] s"

text \<open>A backslash, a line end and two blanks.\<close>

definition continued :: string where
  "continued = [CHR '' '', CHR 92, CHR 10, CHR '' '', CHR '' '']"

definition single_quoted :: "string \<Rightarrow> string" where
  "single_quoted s = [quote] @ s @ [quote]"

definition curl_header :: "string \<Rightarrow> string \<Rightarrow> string" where
  "curl_header k v = continued @ ''-H '' @ single_quoted (no_quote k @ '': '' @ no_quote v)"

definition emit_curl_auth :: "saved_request \<Rightarrow> string" where
  "emit_curl_auth r =
     (case sr_auth r of
        AuthNone \<Rightarrow> []
      | AuthApiKeyQuery \<Rightarrow> []
      | AuthBasic \<Rightarrow> continued @ ''-u '' @ single_quoted (no_quote (sr_auth_user r) @ '':'' @ no_quote (sr_auth_pass r))
      | AuthApiKeyHeader \<Rightarrow> if sr_auth_key r \<noteq> [] then curl_header (sr_auth_key r) (sr_auth_value r) else []
      | _ \<Rightarrow>
          if sr_auth_token r \<noteq> []
          then continued @ ''-H '' @ single_quoted (''Authorization: Bearer '' @ no_quote (sr_auth_token r)) else [])"

definition curl_target :: "(string \<Rightarrow> string) \<Rightarrow> saved_request \<Rightarrow> string" where
  "curl_target enc r =
     replace_chr quote ''%27''
       (if sr_auth r = AuthApiKeyQuery \<and> sr_auth_key r \<noteq> []
        then sr_target r @ (if CHR ''?'' \<in> set (sr_target r) then ''&'' else ''?'') @ sr_auth_key r @ ''='' @ enc (sr_auth_value r)
        else sr_target r)"

definition emit_curl_request :: "(string \<Rightarrow> string) \<Rightarrow> saved_request \<Rightarrow> string" where
  "emit_curl_request enc r =
     ''# '' @ sr_name r @ [CHR 10] @ ''curl -sS -X '' @ default_to ''GET'' (sr_method r) @ emit_curl_auth r @
     concat (map (\<lambda>(k, v). curl_header k v) (sr_headers r)) @
     (if sr_body r \<noteq> []
      then continued @ ''--data-binary @- <<'' @ single_quoted ''EOF'' @ [CHR 10] @ sr_body r @ [CHR 10] @ ''EOF'' @ [CHR 10]
        @ ''  '' @ single_quoted (curl_target enc r) @ [CHR 10, CHR 10]
      else continued @ single_quoted (curl_target enc r) @ [CHR 10, CHR 10])"

definition emit_curl :: "(string \<Rightarrow> string) \<Rightarrow> collection \<Rightarrow> string" where
  "emit_curl enc col =
     ''#!/usr/bin/env bash'' @ [CHR 10] @ ''set -euo pipefail'' @ [CHR 10, CHR 10] @
     concat (map (emit_curl_request enc) (co_requests col))"

section \<open>Rust\<close>

definition dquote :: char where
  "dquote = CHR 34"

definition rust_escape :: "string \<Rightarrow> string" where
  "rust_escape s = replace_chr dquote [CHR 92, dquote] s"

definition rust_str :: "string \<Rightarrow> string" where
  "rust_str s = [dquote] @ s @ [dquote]"

definition rust_line :: "string \<Rightarrow> string" where
  "rust_line s = [CHR 10] @ ''        '' @ s"

definition rust_target :: "saved_request \<Rightarrow> string" where
  "rust_target r =
     (if sr_auth r = AuthApiKeyQuery \<and> sr_auth_key r \<noteq> []
      then sr_target r @ (if CHR ''?'' \<in> set (sr_target r) then ''&'' else ''?'') @ sr_auth_key r @ ''='' @ sr_auth_value r
      else sr_target r)"

definition rust_header :: "string \<Rightarrow> string \<Rightarrow> string" where
  "rust_header k v = rust_line (''.header('' @ rust_str (replace_chr dquote [] k) @ '', '' @ rust_str (rust_escape v) @ '')'')"

definition emit_rust_auth :: "saved_request \<Rightarrow> string" where
  "emit_rust_auth r =
     (case sr_auth r of
        AuthNone \<Rightarrow> []
      | AuthApiKeyQuery \<Rightarrow> []
      | AuthBasic \<Rightarrow>
          rust_line (''.basic_auth('' @ rust_str (rust_escape (sr_auth_user r)) @ '', Some('' @ rust_str (rust_escape (sr_auth_pass r)) @ ''))'')
      | AuthApiKeyHeader \<Rightarrow> if sr_auth_key r \<noteq> [] then rust_header (sr_auth_key r) (sr_auth_value r) else []
      | _ \<Rightarrow> if sr_auth_token r \<noteq> [] then rust_line (''.bearer_auth('' @ rust_str (rust_escape (sr_auth_token r)) @ '')'') else [])"

definition emit_rust_request :: "saved_request \<Rightarrow> string" where
  "emit_rust_request r =
     ''    // '' @ sr_name r @ [CHR 10] @
     ''    let _ = client.'' @ to_lower (default_to ''GET'' (sr_method r)) @ ''('' @ rust_str (rust_escape (rust_target r)) @ '')'' @
     emit_rust_auth r @ concat (map (\<lambda>(k, v). rust_header k v) (sr_headers r)) @
     (if sr_body r \<noteq> []
      then rust_line (''.body(r#'' @ [dquote] @ str_replace [dquote, CHR ''#''] [dquote, CHR 92, CHR ''#''] (sr_body r) @ [dquote] @ ''#)'')
      else []) @
     rust_line ''.send().await?;'' @ [CHR 10]"

definition em_dash :: string where
  "em_dash = [CHR 0xE2, CHR 0x80, CHR 0x94]"

definition emit_rust :: "collection \<Rightarrow> string" where
  "emit_rust col =
     ''// Generated by bitbeak codegen '' @ em_dash @ '' AGPL-3.0-or-later'' @ [CHR 10] @ ''use reqwest::Client;'' @ [CHR 10, CHR 10] @
     ''pub async fn run_all() -> Result<(), Box<dyn std::error::Error>> {'' @ [CHR 10] @
     ''    let client = Client::new();'' @ [CHR 10] @
     concat (map emit_rust_request (co_requests col)) @
     ''    Ok(())'' @ [CHR 10] @ ''}'' @ [CHR 10]"

definition codegen_collection :: "(string \<Rightarrow> string) \<Rightarrow> collection \<Rightarrow> string \<Rightarrow> string \<times> string" where
  "codegen_collection enc col lang =
     (if lang = ''rust'' then (sanitize (co_name col) @ ''_client.rs'', emit_rust col)
      else (sanitize (co_name col) @ ''.sh'', emit_curl enc col))"

section \<open>The shell\<close>

text \<open>
  A simple command: words apart by blanks, single quotes around anything, a backslash at the
  line's end to go on in the next line; other characters with a meaning are not part of it.  The value is the words
  and the text from the line end on.
\<close>

definition plain_chr :: "char \<Rightarrow> bool" where
  "plain_chr c \<longleftrightarrow> ascii_alnum [c] \<or> c \<in> set ''-_./:@%+=,<''"

definition end_word :: "string option \<Rightarrow> string list" where
  "end_word w = (case w of None \<Rightarrow> [] | Some s \<Rightarrow> [s])"

definition grow :: "string option \<Rightarrow> string \<Rightarrow> string option" where
  "grow w s = Some (default_to [] w @ s)"

fun sh_quoted :: "string \<Rightarrow> (string \<times> string) option" where
  "sh_quoted [] = None"
| "sh_quoted (c # s) = (if c = quote then Some ([], s) else map_option (\<lambda>(q, r). (c # q, r)) (sh_quoted s))"

lemma sh_quoted_shorter: "sh_quoted s = Some (q, r) \<Longrightarrow> length r < length s"
  by (induction s arbitrary: q) (fastforce split: if_splits)+

function sh_words :: "string option \<Rightarrow> string \<Rightarrow> (string list \<times> string) option" where
  "sh_words w [] = Some (end_word w, [])"
| "sh_words w (c # s) =
     (if c = CHR 10 then Some (end_word w, c # s)
      else if c = CHR '' '' then map_option (\<lambda>(ws, r). (end_word w @ ws, r)) (sh_words None s)
      else if c = quote then
        (case sh_quoted s of None \<Rightarrow> None | Some (q, r) \<Rightarrow> sh_words (grow w q) r)
      else if c = CHR 92 then (case s of [] \<Rightarrow> None | d # s \<Rightarrow> if d = CHR 10 then sh_words w s else sh_words (grow w [d]) s)
      else if plain_chr c then sh_words (grow w [c]) s
      else None)"
  by pat_completeness auto
termination
  by (relation "measure (\<lambda>(w, s). length s)") (auto dest: sh_quoted_shorter)

declare sh_words.simps [simp del]

lemma quote_other [simp]: "quote \<noteq> CHR 10" "quote \<noteq> CHR '' ''" "quote \<noteq> CHR 92"
  by (simp_all add: quote_def)

lemma sh_quoted_text: "quote \<notin> set v \<Longrightarrow> sh_quoted (v @ quote # r) = Some (v, r)"
  by (induction v) auto

lemma sh_plain: "list_all plain_chr v \<Longrightarrow> sh_words w (v @ s) = (if v = [] then sh_words w s else sh_words (grow w v) s)"
proof (induction v arbitrary: w)
  case (Cons c v)
  have "c \<noteq> CHR 10" "c \<noteq> CHR '' ''" "c \<noteq> quote" "c \<noteq> CHR 92"
    using Cons.prems by (auto simp: plain_chr_def ascii_alnum_def quote_def)
  moreover have "grow (grow w [c]) v = grow w (c # v)" by (simp add: grow_def)
  moreover have "v = [] \<Longrightarrow> grow w [c] = grow w (c # v)" by simp
  ultimately show ?case using Cons by (simp add: sh_words.simps)
qed simp

lemma sh_continued: "sh_words w (continued @ s) = map_option (\<lambda>(ws, r). (end_word w @ ws, r)) (sh_words None s)"
  by (simp add: continued_def sh_words.simps quote_def end_word_def option.map_comp o_def split_def option.map_ident)

lemma sh_argument:
  assumes "quote \<notin> set v" "s = CHR '' '' # s' \<or> s = CHR 10 # s'"
  shows "sh_words None (single_quoted v @ s) = map_option (\<lambda>(ws, r). (v # ws, r)) (sh_words None s)"
proof -
  have "sh_words None (single_quoted v @ s) = sh_words (Some v) s"
    using sh_quoted_text [OF assms(1), of s] by (simp add: single_quoted_def sh_words.simps(2) [of None quote] grow_def default_to_def)
  also have "\<dots> = map_option (\<lambda>(ws, r). (v # ws, r)) (sh_words None s)"
    using assms(2) by (auto simp: sh_words.simps(2) end_word_def option.map_comp o_def split_def)
  finally show ?thesis .
qed

lemma sh_glued:
  "quote \<notin> set v \<Longrightarrow> sh_words (Some u) (single_quoted v @ CHR 10 # t) = Some ([u @ v], CHR 10 # t)"
  using sh_quoted_text [of v "CHR 10 # t"]
  by (simp add: single_quoted_def sh_words.simps(2) grow_def end_word_def default_to_def)

text \<open>One option and its quoted value.\<close>

lemma sh_option:
  assumes "quote \<notin> set v" "opt = ''-H'' \<or> opt = ''-u''" "s = CHR '' '' # s' \<or> s = CHR 10 # s'"
  shows "sh_words w (continued @ opt @ '' '' @ single_quoted v @ s) =
    map_option (\<lambda>(ws, r). (end_word w @ [opt, v] @ ws, r)) (sh_words None s)"
proof -
  have "list_all plain_chr opt" "opt \<noteq> []" using assms(2) by (auto simp: plain_chr_def ascii_alnum_def)
  then have "sh_words None (opt @ CHR '' '' # single_quoted v @ s) = sh_words (Some opt) (CHR '' '' # single_quoted v @ s)"
    by (simp add: sh_plain grow_def)
  also have "\<dots> = map_option (\<lambda>(ws, r). (opt # ws, r)) (sh_words None (single_quoted v @ s))"
    by (simp add: sh_words.simps(2) end_word_def)
  finally show ?thesis
    by (simp add: sh_continued sh_argument [OF assms(1,3)] option.map_comp o_def split_def)
qed

section \<open>The commands\<close>

definition auth_args :: "saved_request \<Rightarrow> string list" where
  "auth_args r =
     (case sr_auth r of
        AuthNone \<Rightarrow> []
      | AuthApiKeyQuery \<Rightarrow> []
      | AuthBasic \<Rightarrow> [''-u'', no_quote (sr_auth_user r) @ '':'' @ no_quote (sr_auth_pass r)]
      | AuthApiKeyHeader \<Rightarrow> if sr_auth_key r \<noteq> [] then [''-H'', no_quote (sr_auth_key r) @ '': '' @ no_quote (sr_auth_value r)] else []
      | _ \<Rightarrow> if sr_auth_token r \<noteq> [] then [''-H'', ''Authorization: Bearer '' @ no_quote (sr_auth_token r)] else [])"

definition header_args :: "headers \<Rightarrow> string list" where
  "header_args hs = concat (map (\<lambda>(k, v). [''-H'', no_quote k @ '': '' @ no_quote v]) hs)"

lemma no_quote_free: "quote \<notin> set (no_quote s)"
  by (auto simp: no_quote_def replace_chr_def)

lemma target_free: "quote \<notin> set (curl_target enc r)"
  by (auto simp: curl_target_def replace_chr_def quote_def)

text \<open>What comes behind an option is another one, the target or the line end.\<close>

definition option_end :: "string \<Rightarrow> bool" where
  "option_end s \<longleftrightarrow> (\<exists>s'. s = CHR '' '' # s' \<or> s = CHR 10 # s')"

lemma option_end_continued [simp]: "option_end (continued @ s)" "option_end (CHR 10 # s)"
  by (auto simp: option_end_def continued_def)

lemma sh_header:
  assumes "option_end s"
  shows "sh_words w (curl_header k v @ s) =
    map_option (\<lambda>(ws, r). (end_word w @ [''-H'', no_quote k @ '': '' @ no_quote v] @ ws, r)) (sh_words None s)"
proof -
  have "quote \<notin> set (no_quote k @ '': '' @ no_quote v)" using no_quote_free by (auto simp: quote_def)
  moreover obtain s' where "s = CHR '' '' # s' \<or> s = CHR 10 # s'" using assms option_end_def by blast
  ultimately show ?thesis using sh_option [of _ "''-H''"] by (simp add: curl_header_def)
qed

lemma sh_auth:
  assumes "option_end s"
  shows "sh_words w (emit_curl_auth r @ s) =
    (if auth_args r = [] then sh_words w s
     else map_option (\<lambda>(ws, r'). (end_word w @ auth_args r @ ws, r')) (sh_words None s))"
proof -
  have q: "quote \<notin> set (no_quote u @ '':'' @ no_quote p)" "quote \<notin> set (''Authorization: Bearer '' @ no_quote t)" for u p t
    using no_quote_free by (auto simp: quote_def)
  obtain s' where s: "s = CHR '' '' # s' \<or> s = CHR 10 # s'" using assms option_end_def by blast
  show ?thesis
    using sh_option [OF q(1) disjI2 s] sh_option [OF q(2) disjI1 s] sh_header [OF assms]
    by (cases "sr_auth r") (simp_all add: emit_curl_auth_def auth_args_def)
qed

lemma auth_end: "option_end s \<Longrightarrow> option_end (emit_curl_auth r @ s)"
  by (cases "sr_auth r") (auto simp: emit_curl_auth_def curl_header_def)

lemma header_end: "option_end s \<Longrightarrow> option_end (concat (map (\<lambda>(k, v). curl_header k v) hs) @ s)"
  by (cases hs) (auto simp: curl_header_def)

lemma sh_headers:
  assumes "option_end s"
  shows "sh_words w (concat (map (\<lambda>(k, v). curl_header k v) hs) @ s) =
    (if hs = [] then sh_words w s
     else map_option (\<lambda>(ws, r). (end_word w @ header_args hs @ ws, r)) (sh_words None s))"
proof (induction hs arbitrary: w)
  case (Cons h hs)
  obtain k v where h: "h = (k, v)" by (cases h)
  show ?case
    using sh_header [OF header_end [OF assms], of w k v hs] Cons [of None]
    by (cases "hs = []") (simp_all add: h header_args_def end_word_def option.map_comp o_def split_def)
qed simp

lemma sh_call:
  assumes "list_all plain_chr m" "m \<noteq> []"
  shows "sh_words None (''curl -sS -X '' @ m @ s) = map_option (\<lambda>(ws, r). (''curl'' # ''-sS'' # ''-X'' # ws, r)) (sh_words (Some m) s)"
proof -
  have p: "list_all plain_chr ''curl''" "list_all plain_chr ''-sS''" "list_all plain_chr ''-X''" by code_simp+
  have word: "sh_words None (v @ CHR '' '' # t) = map_option (\<lambda>(ws, r). (v # ws, r)) (sh_words None t)"
    if "list_all plain_chr v" "v \<noteq> []" for v t
    using that by (simp add: sh_plain grow_def sh_words.simps(2) end_word_def)
  have m: "sh_words None (m @ s) = sh_words (Some m) s" using assms by (simp add: sh_plain grow_def)
  have "sh_words None (''curl'' @ CHR '' '' # ''-sS'' @ CHR '' '' # ''-X'' @ CHR '' '' # m @ s) =
    map_option (\<lambda>(ws, r). (''curl'' # ws, r)) (map_option (\<lambda>(ws, r). (''-sS'' # ws, r))
      (map_option (\<lambda>(ws, r). (''-X'' # ws, r)) (sh_words (Some m) s)))"
    unfolding word [OF p(1) list.distinct(2)] word [OF p(2) list.distinct(2)] word [OF p(3) list.distinct(2)] m ..
  then show ?thesis by (simp add: option.map_comp o_def split_def)
qed

text \<open>The lines of a request behind its comment.\<close>

definition curl_command :: "(string \<Rightarrow> string) \<Rightarrow> saved_request \<Rightarrow> string" where
  "curl_command enc r = drop (length (''# '' @ sr_name r @ [CHR 10])) (emit_curl_request enc r)"


definition ping :: saved_request where
  "ping = default_request\<lparr>sr_name := ''ping'', sr_target := ''https://h/?q=$(id)'', sr_auth := AuthBearer,
     sr_auth_token := ''a`b'', sr_headers := [(''X-A'', quote # ''; rm -rf ~'')]\<rparr>"


text \<open>
  With a body the script loses the URL: the here-document starts at the end of the command's line, so
  curl gets every argument but the URL, which stands alone on a line behind the body.
\<close>

theorem body_loses_url:
  assumes "sr_body r \<noteq> []" "list_all plain_chr (default_to ''GET'' (sr_method r))" "default_to ''GET'' (sr_method r) \<noteq> []"
  shows "sh_words None (curl_command enc r) =
    Some ([''curl'', ''-sS'', ''-X'', default_to ''GET'' (sr_method r)] @ auth_args r @ header_args (sr_headers r) @
        [''--data-binary'', ''@-'', ''<<EOF''],
      [CHR 10] @ sr_body r @ [CHR 10] @ ''EOF'' @ [CHR 10] @ ''  '' @ single_quoted (curl_target enc r) @ [CHR 10, CHR 10])"
proof -
  let ?m = "default_to ''GET'' (sr_method r)"
  let ?rest = "[CHR 10] @ sr_body r @ [CHR 10] @ ''EOF'' @ [CHR 10] @ ''  '' @ single_quoted (curl_target enc r) @ [CHR 10, CHR 10]"
  let ?tail = "continued @ ''--data-binary @- <<'' @ single_quoted ''EOF'' @ ?rest"
  let ?hs = "concat (map (\<lambda>(k, v). curl_header k v) (sr_headers r))"
  have command: "curl_command enc r = ''curl -sS -X '' @ ?m @ emit_curl_auth r @ ?hs @ ?tail"
    using assms(1) by (simp add: curl_command_def emit_curl_request_def)
  have p: "list_all plain_chr ''--data-binary''" "list_all plain_chr ''@-''" "list_all plain_chr ''<<''" by code_simp+
  have word: "sh_words None (v @ CHR '' '' # t) = map_option (\<lambda>(ws, r). (v # ws, r)) (sh_words None t)"
    if "list_all plain_chr v" "v \<noteq> []" for v t
    using that by (simp add: sh_plain grow_def default_to_def sh_words.simps(2) end_word_def)
  have "sh_words (Some ''<<'') (single_quoted ''EOF'' @ ?rest) = Some ([''<<EOF''], ?rest)"
    using sh_glued [of "''EOF''" "''<<''"] by (simp add: quote_def)
  then have "sh_words None (''<<'' @ single_quoted ''EOF'' @ ?rest) = Some ([''<<EOF''], ?rest)"
    using p(3) by (subst sh_plain) (simp_all add: grow_def)
  then have "sh_words None (''--data-binary'' @ CHR '' '' # ''@-'' @ CHR '' '' # ''<<'' @ single_quoted ''EOF'' @ ?rest) =
      Some ([''--data-binary'', ''@-'', ''<<EOF''], ?rest)"
    by (simp only: word [OF p(1) list.distinct(2)] word [OF p(2) list.distinct(2)] option.map prod.case)
  then have tail: "sh_words w ?tail = Some (end_word w @ [''--data-binary'', ''@-'', ''<<EOF''], ?rest)" for w
    by (simp add: sh_continued)
  have hs: "sh_words w (?hs @ ?tail) = Some (end_word w @ header_args (sr_headers r) @ [''--data-binary'', ''@-'', ''<<EOF''], ?rest)" for w
    using sh_headers [of ?tail w "sr_headers r"] tail [of w] tail [of None]
    by (simp add: header_args_def end_word_def)
  have "sh_words (Some ?m) (emit_curl_auth r @ ?hs @ ?tail) =
      Some (?m # auth_args r @ header_args (sr_headers r) @ [''--data-binary'', ''@-'', ''<<EOF''], ?rest)"
    using sh_auth [of "?hs @ ?tail" "Some ?m" r] header_end [of ?tail "sr_headers r"] hs [of "Some ?m"] hs [of None]
    by (simp add: end_word_def)
  then show ?thesis unfolding command sh_call [OF assms(2,3)] by simp
qed

theorem body_loses_url_witness:
  "\<exists>rest. sh_words None (curl_command id (ping\<lparr>sr_body := ''x''\<rparr>)) =
     Some ([''curl'', ''-sS'', ''-X'', ''GET''] @ auth_args ping @ header_args (sr_headers ping) @ [''--data-binary'', ''@-'', ''<<EOF''], rest)"
proof -
  have "sr_body (ping\<lparr>sr_body := ''x''\<rparr>) \<noteq> []" "list_all plain_chr (default_to ''GET'' (sr_method (ping\<lparr>sr_body := ''x''\<rparr>)))"
    "default_to ''GET'' (sr_method (ping\<lparr>sr_body := ''x''\<rparr>)) \<noteq> []"
    by (simp_all add: ping_def default_request_def plain_chr_def ascii_alnum_def)
  from body_loses_url [OF this, of id] show ?thesis
    by (simp add: ping_def default_request_def auth_args_def)
qed

end
