(* ===== verification/CaptureSession.thy ===== *)
theory CaptureSession
  imports Session Dissect CapFilter DispFilter Follow Analysis Ring
begin

text \<open>
  Capture sessions (\<open>src/src/session/capture.rs\<close>): the session the interface works on, the thread that
  reads packets for it, and the bounded channel between them.  Instants, what the disk does, what
  opening a device gives and the regular expressions are arguments; an outer \<open>option\<close> is a panic.
  Name resolution and the overlay are left out.
\<close>

section \<open>The session\<close>

datatype capture_source = SrcLive | SrcFile

record capture_env =
  ca_l7 :: l7_env
  ca_regex :: "string \<Rightarrow> string option"
  ca_re_match :: "string \<Rightarrow> string \<Rightarrow> bool"
  ca_hint :: string
  ca_filter_error :: "disp_error \<Rightarrow> string"
  ca_cap_error :: "filter_error \<Rightarrow> string"

record raw_packet =
  rp_data :: bytes
  rp_link :: link_type
  rp_interface :: string
  rp_orig_len :: nat
  rp_wall :: int

record capture_session =
  cx_title :: string
  cx_source :: capture_source
  cx_status :: conn_status
  cx_status_msg :: string
  cx_store :: packet_store
  cx_stats :: capture_stats
  cx_selected :: nat
  cx_tree_selected :: nat
  cx_follow :: bool
  cx_focus :: pane_focus
  cx_display_filter_str :: string
  cx_display_filter :: display_filter
  cx_capture_filter_str :: string
  cx_capturing :: bool
  cx_keylog :: "key_log option"
  cx_ring :: "disk_ring option"
  cx_follow_view :: "follow_result option"
  cx_last_error :: "string option"
  cx_kernel_bpf :: bool

definition new_live :: "capture_env \<Rightarrow> nat \<Rightarrow> string \<Rightarrow> nat \<Rightarrow> capture_session" where
  "new_live env now iface max_packets =
     \<lparr>cx_title = iface, cx_source = SrcLive, cx_status = StIdle, cx_status_msg = ''ready'' @ middot @ ca_hint env,
      cx_store = store_new max_packets, cx_stats = (stats_default now)\<lparr>cs_io := io_new now 120\<rparr>,
      cx_selected = 0, cx_tree_selected = 0, cx_follow = True, cx_focus = PaneLog,
      cx_display_filter_str = [], cx_display_filter = DfTrue, cx_capture_filter_str = [], cx_capturing = False,
      cx_keylog = None, cx_ring = None, cx_follow_view = None, cx_last_error = None, cx_kernel_bpf = True\<rparr>"

text \<open>A dissected packet; the identifier is the store's to give.\<close>

definition packet_of :: "nat \<Rightarrow> nat \<Rightarrow> raw_packet \<Rightarrow> dissected_packet \<Rightarrow> packet_record" where
  "packet_of at orig_len p d =
     \<lparr>pr_id = 0, pr_at = at, pr_wall = rp_wall p, pr_interface = rp_interface p, pr_link_type = rp_link p,
      pr_orig_len = orig_len, pr_data = rp_data p, pr_summary = dp_summary d, pr_flags = dp_flags d,
      pr_expert = dp_expert d, pr_tree = Some (dp_tree d), pr_decrypted = dp_decrypted d, pr_fields = dp_fields d\<rparr>"

definition push_dissected :: "capture_env \<Rightarrow> nat \<Rightarrow> raw_packet \<Rightarrow> capture_session \<Rightarrow> (nat \<times> capture_session) option" where
  "push_dissected env at p s = do {
     d \<leftarrow> dissect (ca_l7 env) (cx_keylog s) (rp_data p) (rp_link p);
     let rec = packet_of at (if rp_orig_len p = 0 then length (rp_data p) else rp_orig_len p) p d in
       Some (st_next_id (cx_store s), s\<lparr>cx_store := store_push rec (cx_store s)\<rparr>) }"

definition ingest_stored :: "nat \<Rightarrow> capture_session \<Rightarrow> capture_session option" where
  "ingest_stored n s =
     (case store_get_by_id (cx_store s) n of
        None \<Rightarrow> Some s
      | Some pkt \<Rightarrow> map_option (\<lambda>stats. s\<lparr>cx_stats := stats\<rparr>) (stats_ingest pkt (cx_stats s)))"

fun load_packets :: "capture_env \<Rightarrow> nat \<Rightarrow> raw_packet list \<Rightarrow> capture_session \<Rightarrow> capture_session option" where
  "load_packets env at [] s = Some s"
| "load_packets env at (p # ps) s = do {
     (n, s) \<leftarrow> push_dissected env at p s;
     s \<leftarrow> ingest_stored n s;
     load_packets env at ps s }"

definition open_file :: "capture_env \<Rightarrow> nat \<Rightarrow> string \<Rightarrow> nat \<Rightarrow> raw_packet list \<Rightarrow> capture_session option" where
  "open_file env now path max_packets packets = do {
     s \<leftarrow> load_packets env now packets ((new_live env now path max_packets)\<lparr>cx_source := SrcFile, cx_status := StConnected\<rparr>);
     let kept = length (st_packets (cx_store s));
         s = s\<lparr>cx_status_msg :=
           (if 0 < st_dropped (cx_store s)
            then ''FILE'' @ middot @ ''showing '' @ dec kept @ ''/'' @ dec (length packets) @ '' (ring max '' @ dec max_packets @
              ''; oldest dropped)'' @ middot @ path
            else ''FILE'' @ middot @ dec kept @ '' packets'' @ middot @ path)\<rparr>
     in Some (if kept = 0 then s else s\<lparr>cx_selected := kept - 1\<rparr>) }"

definition set_display_filter :: "capture_env \<Rightarrow> string \<Rightarrow> capture_session \<Rightarrow> (string + unit) \<times> capture_session" where
  "set_display_filter env q s =
     (case parse_display_filter (ca_regex env) q of
        Inr f \<Rightarrow> (Inr (), s\<lparr>cx_display_filter := f, cx_display_filter_str := q\<rparr>)
      | Inl e \<Rightarrow> (Inl (ca_filter_error env e), s))"

text \<open>Every stored packet is dissected again; its bytes and times stay.\<close>

definition redissected :: "packet_record \<Rightarrow> dissected_packet \<Rightarrow> packet_record" where
  "redissected p d = p\<lparr>pr_summary := dp_summary d, pr_flags := dp_flags d, pr_expert := dp_expert d,
     pr_tree := Some (dp_tree d), pr_decrypted := dp_decrypted d, pr_fields := dp_fields d\<rparr>"

fun redigest :: "capture_env \<Rightarrow> key_log option \<Rightarrow> packet_record list \<Rightarrow> packet_record list option" where
  "redigest env kl [] = Some []"
| "redigest env kl (p # ps) = do {
     d \<leftarrow> dissect (ca_l7 env) kl (pr_data p) (pr_link_type p);
     ps \<leftarrow> redigest env kl ps;
     Some (redissected p d # ps) }"

definition redigest_all :: "capture_env \<Rightarrow> capture_session \<Rightarrow> capture_session option" where
  "redigest_all env s =
     map_option (\<lambda>ps. s\<lparr>cx_store := (cx_store s)\<lparr>st_packets := ps\<rparr>\<rparr>) (redigest env (cx_keylog s) (st_packets (cx_store s)))"

definition load_keylog :: "capture_env \<Rightarrow> string \<Rightarrow> key_log \<Rightarrow> capture_session \<Rightarrow> capture_session option" where
  "load_keylog env path kl s =
     map_option (\<lambda>s. s\<lparr>cx_status_msg := ''keylog loaded '' @ path\<rparr>) (redigest_all env (s\<lparr>cx_keylog := Some kl\<rparr>))"

definition filtered_indices :: "capture_env \<Rightarrow> capture_session \<Rightarrow> nat list" where
  "filtered_indices env s =
     map fst (store_filtered (cx_store s) (df_matches (ca_re_match env) (cx_display_filter s)))"

definition visible_packet :: "capture_env \<Rightarrow> capture_session \<Rightarrow> packet_record option" where
  "visible_packet env s =
     (let is = filtered_indices env s in
      if is = [] then None else store_get (cx_store s) (is ! min (cx_selected s) (length is - 1)))"

definition ring_written :: "ring_io \<Rightarrow> packet_record \<Rightarrow> capture_session \<Rightarrow> capture_session" where
  "ring_written io pkt s =
     (case cx_ring s of None \<Rightarrow> s | Some r \<Rightarrow> s\<lparr>cx_ring := Some (snd (write_packet io pkt r))\<rparr>)"

text \<open>One packet of \<open>drain_packets\<close>.\<close>

definition receive_packet :: "capture_env \<Rightarrow> ring_io \<Rightarrow> packet_record \<Rightarrow> capture_session \<Rightarrow> capture_session option" where
  "receive_packet env io pkt s =
     (let s = ring_written io pkt s in
      case stats_ingest pkt (cx_stats s) of
        None \<Rightarrow> None
      | Some stats \<Rightarrow>
          let s = s\<lparr>cx_stats := stats, cx_store := store_push pkt (cx_store s)\<rparr>;
              n = length (filtered_indices env s)
          in Some (if cx_follow s \<and> 0 < n then s\<lparr>cx_selected := n - 1\<rparr> else s))"

definition capture_ended :: "capture_session \<Rightarrow> capture_session" where
  "capture_ended s = s\<lparr>cx_capturing := False, cx_status := StDisconnected, cx_status_msg := ''capture ended''\<rparr>"

definition capture_stopped :: "capture_session \<Rightarrow> capture_session" where
  "capture_stopped s = s\<lparr>cx_capturing := False, cx_status := StDisconnected, cx_status_msg := ''capture stopped''\<rparr>"

definition cap_filter_of :: "capture_session \<Rightarrow> capture_filter" where
  "cap_filter_of s = (case parse_capture_filter (cx_capture_filter_str s) of Inr f \<Rightarrow> f | Inl _ \<Rightarrow> CfTrue)"

text \<open>The \<open>bool\<close> tells that a running capture has to be stopped and started again.\<close>

definition set_capture_filter :: "capture_env \<Rightarrow> string \<Rightarrow> capture_session \<Rightarrow> (string + bool) \<times> capture_session" where
  "set_capture_filter env q s =
     (if cx_source s = SrcFile
      then (Inl (''capture filter applies to live sniff only '' @ [CHR 0xE2, CHR 0x80, CHR 0x94] @ '' use F8 display filter on files''), s)
      else case parse_capture_filter q of
          Inr _ \<Rightarrow> (Inr (cx_capturing s), s\<lparr>cx_capture_filter_str := q\<rparr>)
        | Inl e \<Rightarrow> (Inl (ca_cap_error env e), s))"

text \<open>What is left of \<open>start_capture\<close> when the device has been opened, and when it has not.\<close>

definition capture_started :: "capture_session \<Rightarrow> capture_session" where
  "capture_started s =
     (let kernel = is_kernel_simple (cap_filter_of s);
          filt = (if cx_capture_filter_str s = [] then ''none''
            else cx_capture_filter_str s @ (if kernel then '' (kernel BPF)'' else '' (userspace)''))
      in s\<lparr>cx_kernel_bpf := kernel, cx_capturing := True, cx_last_error := None, cx_status := StConnected,
          cx_status_msg := ''capturing on '' @ cx_title s @ middot @ ''filter '' @ filt\<rparr>)"

definition capture_refused :: "capture_env \<Rightarrow> string \<Rightarrow> capture_session \<Rightarrow> capture_session" where
  "capture_refused env e s =
     s\<lparr>cx_kernel_bpf := is_kernel_simple (cap_filter_of s), cx_last_error := Some e, cx_status := StError,
       cx_status_msg := e @ middot @ ca_hint env\<rparr>"

definition snapshot_mark :: string where
  "snapshot_mark = middot @ ''snapshot (re-run to refresh)''"

definition follow_selected ::
  "(packet_record list \<Rightarrow> packet_record \<Rightarrow> follow_result) \<Rightarrow> capture_env \<Rightarrow> capture_session \<Rightarrow> bool \<times> capture_session" where
  "follow_selected how env s =
     (case visible_packet env s of
        None \<Rightarrow> (False, s)
      | Some sel \<Rightarrow>
          let r = how (st_packets (cx_store s)) sel in
          (True, s\<lparr>cx_follow_view := Some (r\<lparr>fo_label := fo_label r @ snapshot_mark\<rparr>)\<rparr>))"

definition displayed_packets :: "capture_env \<Rightarrow> capture_session \<Rightarrow> packet_record list" where
  "displayed_packets env s = List.map_filter (store_get (cx_store s)) (filtered_indices env s)"

definition selected_payload :: "capture_env \<Rightarrow> capture_session \<Rightarrow> bytes option" where
  "selected_payload env s =
     (case cx_follow_view s of
        Some f \<Rightarrow> Some (fo_raw f)
      | None \<Rightarrow> map_option (\<lambda>p. default_to (pr_data p) (pr_decrypted p)) (visible_packet env s))"

definition capture_nav :: "capture_env \<Rightarrow> int \<Rightarrow> capture_session \<Rightarrow> capture_session" where
  "capture_nav env delta s =
     (let n = length (filtered_indices env s) in
      if n = 0 then s\<lparr>cx_selected := 0\<rparr>
      else
        let cur = min (cx_selected s) (n - 1);
            sel = (if delta < 0 then cur - nat (- delta) else min (cur + nat delta) (n - 1))
        in s\<lparr>cx_selected := sel, cx_follow := (n \<le> sel + 1), cx_tree_selected := 0\<rparr>)"

section \<open>The capture thread\<close>

text \<open>The thread polls, waits for room in the channel with a packet, or is over.\<close>

datatype thread_pc = ThPolling | ThSending packet_record | ThEnded

record capture_thread =
  th_filter :: capture_filter
  th_keylog :: "key_log option"
  th_pc :: thread_pc
  th_queue :: "packet_record list"
  th_stop :: bool
  th_inject :: "bytes list"

definition channel_room :: nat where
  "channel_room = 4096"

definition thread_new :: "capture_session \<Rightarrow> capture_thread" where
  "thread_new s = \<lparr>th_filter = cap_filter_of s, th_keylog = cx_keylog s, th_pc = ThPolling, th_queue = [],
     th_stop = False, th_inject = []\<rparr>"

text \<open>The interface is free, or waits in \<open>stop_capture\<close> for the thread to end, to start again or not.\<close>

datatype ui_pc = UiFree | UiJoining bool

text \<open>
  The whole: the thread while the session holds its channel, and, for the statements only, the packets
  this thread has made, those of them the session has received, and all it has received.
\<close>

record capture_system =
  sy_session :: capture_session
  sy_thread :: "capture_thread option"
  sy_ui :: ui_pc
  sy_made :: "packet_record list"
  sy_got :: "packet_record list"
  sy_received :: "packet_record list"

definition system_new :: "capture_env \<Rightarrow> nat \<Rightarrow> string \<Rightarrow> nat \<Rightarrow> capture_system" where
  "system_new env now iface max_packets =
     \<lparr>sy_session = new_live env now iface max_packets, sy_thread = None, sy_ui = UiFree, sy_made = [], sy_got = [], sy_received = []\<rparr>"

definition with_thread :: "(capture_thread \<Rightarrow> capture_thread) \<Rightarrow> capture_system \<Rightarrow> capture_system" where
  "with_thread f y = y\<lparr>sy_thread := map_option f (sy_thread y)\<rparr>"

inductive capture_step :: "capture_env \<Rightarrow> capture_system \<Rightarrow> capture_system \<Rightarrow> bool" for env where
  cs_start: "sy_ui y = UiFree \<Longrightarrow> cx_source (sy_session y) = SrcLive \<Longrightarrow> \<not> cx_capturing (sy_session y) \<Longrightarrow>
    capture_step env y (y\<lparr>sy_thread := Some (thread_new (sy_session y)), sy_session := capture_started (sy_session y),
      sy_made := [], sy_got := []\<rparr>)"
| cs_refused: "sy_ui y = UiFree \<Longrightarrow> cx_source (sy_session y) = SrcLive \<Longrightarrow> \<not> cx_capturing (sy_session y) \<Longrightarrow>
    capture_step env y (y\<lparr>sy_session := capture_refused env e (sy_session y)\<rparr>)"
| cs_quit: "sy_thread y = Some t \<Longrightarrow> th_pc t = ThPolling \<Longrightarrow> th_stop t \<Longrightarrow>
    capture_step env y (with_thread (\<lambda>t. t\<lparr>th_pc := ThEnded\<rparr>) y)"
| cs_nothing: "sy_thread y = Some t \<Longrightarrow> th_pc t = ThPolling \<Longrightarrow> \<not> th_stop t \<Longrightarrow>
    capture_step env y (with_thread (\<lambda>t. t\<lparr>th_inject := []\<rparr>) y)"
| cs_packet: "sy_thread y = Some t \<Longrightarrow> th_pc t = ThPolling \<Longrightarrow> \<not> th_stop t \<Longrightarrow> matches_raw (th_filter t) (rp_data p) \<Longrightarrow>
    dissect (ca_l7 env) (th_keylog t) (rp_data p) (rp_link p) = Some d \<Longrightarrow>
    capture_step env y (with_thread (\<lambda>t. t\<lparr>th_inject := [], th_pc := ThSending (packet_of at (rp_orig_len p) p d)\<rparr>)
      (y\<lparr>sy_made := sy_made y @ [packet_of at (rp_orig_len p) p d]\<rparr>))"
| cs_panic: "sy_thread y = Some t \<Longrightarrow> th_pc t = ThPolling \<Longrightarrow> \<not> th_stop t \<Longrightarrow> matches_raw (th_filter t) (rp_data (p :: raw_packet)) \<Longrightarrow>
    dissect (ca_l7 env) (th_keylog t) (rp_data p) (rp_link p) = None \<Longrightarrow>
    capture_step env y (with_thread (\<lambda>t. t\<lparr>th_inject := [], th_pc := ThEnded\<rparr>) y)"
| cs_send: "sy_thread y = Some t \<Longrightarrow> th_pc t = ThSending r \<Longrightarrow> length (th_queue t) < channel_room \<Longrightarrow>
    capture_step env y (with_thread (\<lambda>t. t\<lparr>th_queue := th_queue t @ [r], th_pc := ThPolling\<rparr>) y)"
| cs_receive: "sy_ui y = UiFree \<Longrightarrow> sy_thread y = Some t \<Longrightarrow> th_queue t = r # q \<Longrightarrow>
    receive_packet env io r (sy_session y) = Some s \<Longrightarrow>
    capture_step env y (with_thread (\<lambda>t. t\<lparr>th_queue := q\<rparr>) (y\<lparr>sy_session := s, sy_got := sy_got y @ [r], sy_received := sy_received y @ [r]\<rparr>))"
| cs_stop: "sy_ui y = UiFree \<Longrightarrow> sy_thread y = Some t \<Longrightarrow>
    capture_step env y (with_thread (\<lambda>t. t\<lparr>th_stop := True\<rparr>) (y\<lparr>sy_ui := UiJoining False\<rparr>))"
| cs_stop_idle: "sy_ui y = UiFree \<Longrightarrow> sy_thread y = None \<Longrightarrow>
    capture_step env y (y\<lparr>sy_session := capture_stopped (sy_session y)\<rparr>)"
| cs_filter: "sy_ui y = UiFree \<Longrightarrow> set_capture_filter env q (sy_session y) = (r, s) \<Longrightarrow> r \<noteq> Inr True \<Longrightarrow>
    capture_step env y (y\<lparr>sy_session := s\<rparr>)"
| cs_refilter: "sy_ui y = UiFree \<Longrightarrow> set_capture_filter env q (sy_session y) = (Inr True, s) \<Longrightarrow>
    capture_step env y (with_thread (\<lambda>t. t\<lparr>th_stop := True\<rparr>) (y\<lparr>sy_session := s, sy_ui := UiJoining True\<rparr>))"
| cs_rejoined: "sy_ui y = UiJoining True \<Longrightarrow> sy_thread y = Some t \<Longrightarrow> th_pc t = ThEnded \<Longrightarrow>
    capture_step env y (y\<lparr>sy_ui := UiFree, sy_thread := Some (thread_new (capture_stopped (sy_session y))),
      sy_session := capture_started (capture_stopped (sy_session y)), sy_made := [], sy_got := []\<rparr>)"
| cs_rejoin_refused: "sy_ui y = UiJoining True \<Longrightarrow> sy_thread y = Some t \<Longrightarrow> th_pc t = ThEnded \<Longrightarrow>
    capture_step env y (y\<lparr>sy_ui := UiFree, sy_thread := None,
      sy_session := capture_refused env e (capture_stopped (sy_session y))\<rparr>)"
| cs_disconnected: "sy_ui y = UiFree \<Longrightarrow> sy_thread y = Some t \<Longrightarrow> th_queue t = [] \<Longrightarrow> th_pc t = ThEnded \<Longrightarrow>
    capture_step env y (y\<lparr>sy_session := capture_ended (sy_session y)\<rparr>)"
| cs_joined: "sy_ui y = UiJoining False \<Longrightarrow> sy_thread y = Some t \<Longrightarrow> th_pc t = ThEnded \<Longrightarrow>
    capture_step env y (y\<lparr>sy_ui := UiFree, sy_thread := None, sy_session := capture_stopped (sy_session y)\<rparr>)"
| cs_inject: "sy_ui y = UiFree \<Longrightarrow> sy_thread y = Some t \<Longrightarrow> visible_packet env (sy_session y) = Some p \<Longrightarrow>
    capture_step env y (with_thread (\<lambda>t. t\<lparr>th_inject := th_inject t @ [pr_data p]\<rparr>)
      (y\<lparr>sy_session := (sy_session y)\<lparr>cx_status_msg := ''inject queued''\<rparr>\<rparr>))"
| cs_keylog: "sy_ui y = UiFree \<Longrightarrow> load_keylog env path kl (sy_session y) = Some s \<Longrightarrow>
    capture_step env y (y\<lparr>sy_session := s\<rparr>)"
| cs_nav: "sy_ui y = UiFree \<Longrightarrow> capture_step env y (y\<lparr>sy_session := capture_nav env delta (sy_session y)\<rparr>)"
| cs_display: "sy_ui y = UiFree \<Longrightarrow>
    capture_step env y (y\<lparr>sy_session := snd (set_display_filter env q (sy_session y))\<rparr>)"
| cs_follow: "sy_ui y = UiFree \<Longrightarrow>
    capture_step env y (y\<lparr>sy_session := snd (follow_selected how env (sy_session y))\<rparr>)"

inductive_cases capture_stepE: "capture_step env y y'"

section \<open>The channel\<close>

definition pending :: "thread_pc \<Rightarrow> packet_record list" where
  "pending pc = (case pc of ThSending r \<Rightarrow> [r] | _ \<Rightarrow> [])"

lemma pending_simps [simp]: "pending ThPolling = []" "pending ThEnded = []" "pending (ThSending r) = [r]"
  by (simp_all add: pending_def)

definition channel_ok :: "capture_system \<Rightarrow> bool" where
  "channel_ok y \<longleftrightarrow>
     (\<forall>t. sy_thread y = Some t \<longrightarrow>
        sy_made y = sy_got y @ th_queue t @ pending (th_pc t) \<and> length (th_queue t) \<le> channel_room)"

lemma channel_step: "capture_step env y y' \<Longrightarrow> channel_ok y \<Longrightarrow> channel_ok y'"
  by (induction rule: capture_step.induct) (auto simp: channel_ok_def with_thread_def thread_new_def)

text \<open>
  C10: Between the thread and the session no packet is lost, doubled or out of order while a capture runs:
  what the thread has made is what the session has received, then what waits in the channel, then the
  packet the thread waits with; and at most 4096 wait in the channel.
\<close>

theorem capture_fifo:
  assumes "(capture_step env)\<^sup>*\<^sup>* (system_new env now iface max_packets) y" "sy_thread y = Some t"
  shows "sy_made y = sy_got y @ th_queue t @ pending (th_pc t) \<and> length (th_queue t) \<le> 4096"
proof -
  have "channel_ok y"
    using assms(1)
  proof (induction rule: rtranclp_induct)
    case base
    show ?case by (simp add: channel_ok_def system_new_def)
  next
    case (step y z)
    then show ?case using channel_step by blast
  qed
  then show ?thesis using assms(2) by (simp add: channel_ok_def channel_room_def)
qed

section \<open>What is shown\<close>

lemma session_store [simp]:
  "cx_store (capture_nav env delta s) = cx_store s" "cx_store (snd (set_display_filter env q s)) = cx_store s"
  "cx_store (snd (follow_selected how env s)) = cx_store s" "cx_store (capture_started s) = cx_store s"
  "cx_store (capture_refused env e s) = cx_store s" "cx_store (capture_stopped s) = cx_store s"
  "cx_store (capture_ended s) = cx_store s" "cx_store (snd (set_capture_filter env q s)) = cx_store s"
  by (auto simp: capture_nav_def set_display_filter_def follow_selected_def capture_started_def capture_refused_def
      capture_stopped_def capture_ended_def set_capture_filter_def Let_def split: sum.split option.split)

lemma receive_store:
  "receive_packet env io r s = Some s' \<Longrightarrow> cx_store s' = store_push r (cx_store s)"
  by (auto simp: receive_packet_def ring_written_def Let_def bind_eq_Some_conv split: option.splits if_splits)

lemma redigest_data: "redigest env kl ps = Some qs \<Longrightarrow> map pr_data qs = map pr_data ps"
  by (induction ps arbitrary: qs) (auto simp: bind_eq_Some_conv redissected_def)

lemma keylog_store:
  "load_keylog env path kl s = Some s' \<Longrightarrow>
   \<exists>ps. redigest env (Some kl) (st_packets (cx_store s)) = Some ps \<and> cx_store s' = (cx_store s)\<lparr>st_packets := ps\<rparr>"
  by (auto simp: load_keylog_def redigest_all_def)

definition newest :: "nat \<Rightarrow> 'a list \<Rightarrow> 'a list" where
  "newest n xs = drop (length xs - n) xs"

lemma newest_snoc:
  assumes "0 < n"
  shows "newest n (xs @ [x]) = (if n \<le> length (newest n xs) then tl (newest n xs) else newest n xs) @ [x]"
proof (cases "n \<le> length xs")
  case True
  then have "drop (length xs + 1 - n) xs = tl (drop (length xs - n) xs)" by (simp add: Suc_diff_le drop_Suc tl_drop)
  moreover have "drop (Suc 0 - n) [x] = [x]" using assms by (cases n) auto
  ultimately show ?thesis using True by (simp add: newest_def)
qed (use assms in \<open>auto simp: newest_def drop_Cons' Suc_diff_le\<close>)

definition store_ok :: "nat \<Rightarrow> capture_system \<Rightarrow> bool" where
  "store_ok n y \<longleftrightarrow> 0 < n \<and> st_max (cx_store (sy_session y)) = n \<and>
     map pr_data (st_packets (cx_store (sy_session y))) = newest n (map pr_data (sy_received y)) \<and>
     st_dropped (cx_store (sy_session y)) + length (st_packets (cx_store (sy_session y))) = length (sy_received y)"

lemma store_ok_same:
  "store_ok n y \<Longrightarrow> cx_store (sy_session y') = cx_store (sy_session y) \<Longrightarrow> sy_received y' = sy_received y \<Longrightarrow> store_ok n y'"
  by (simp add: store_ok_def)

lemma store_ok_receive:
  assumes "store_ok n y" "cx_store (sy_session y') = store_push r (cx_store (sy_session y))" "sy_received y' = sy_received y @ [r]"
  shows "store_ok n y'"
proof -
  let ?st = "cx_store (sy_session y)"
  have len: "length (st_packets ?st) = length (newest n (map pr_data (sy_received y)))"
    using assms(1) unfolding store_ok_def by (metis length_map)
  have ok: "0 < n" "st_max ?st = n" "map pr_data (st_packets ?st) = newest n (map pr_data (sy_received y))"
    "st_dropped ?st + length (st_packets ?st) = length (sy_received y)"
    using assms(1) by (simp_all add: store_ok_def)
  have "map pr_data (st_packets (store_push r ?st)) = newest n (map pr_data (sy_received y) @ [pr_data r])"
    using ok len by (simp add: newest_snoc store_push_def Let_def map_tl)
  moreover have "st_dropped (store_push r ?st) + length (st_packets (store_push r ?st)) = length (sy_received y) + 1"
    using ok(1,2) unfolding ok(4) [symmetric] by (cases "st_packets ?st") (auto simp: store_push_def Let_def)
  moreover have "st_max (store_push r ?st) = n" using ok(2) by (simp add: store_push_def Let_def)
  ultimately show ?thesis using assms(2,3) ok(1) by (simp add: store_ok_def)
qed

lemma store_ok_step: "capture_step env y y' \<Longrightarrow> store_ok n y \<Longrightarrow> store_ok n y'"
proof (induction rule: capture_step.induct)
  case (cs_receive y t r q io s)
  then show ?case
    using receive_store [OF cs_receive(4)] by - (rule store_ok_receive [of n y _ r], simp_all add: with_thread_def)
next
  case (cs_keylog y path kl s)
  obtain ps where "redigest env (Some kl) (st_packets (cx_store (sy_session y))) = Some ps"
    "cx_store s = (cx_store (sy_session y))\<lparr>st_packets := ps\<rparr>"
    using keylog_store [OF cs_keylog(2)] by blast
  moreover from this(1) have "map pr_data ps = map pr_data (st_packets (cx_store (sy_session y)))" by (rule redigest_data)
  moreover from this have "length ps = length (st_packets (cx_store (sy_session y)))" by (rule map_eq_imp_length_eq)
  ultimately show ?case using cs_keylog(3) by (simp add: store_ok_def)
next
  case (cs_filter y q r s)
  then show ?case using session_store(8) [of env q "sy_session y"] by - (rule store_ok_same [of n y], simp_all)
next
  case (cs_refilter y q s)
  then show ?case using session_store(8) [of env q "sy_session y"] by - (rule store_ok_same [of n y], simp_all add: with_thread_def)
qed (erule store_ok_same, simp_all (no_asm) add: with_thread_def)+

text \<open>
  C9: The table of a live session is the newest of what it has received: through captures stopped and
  started again, key logs loaded, filters and navigation, the stored packets are byte for byte the last
  ones received, in order, up to the limit, and with the number dropped they are all of them.
\<close>

theorem store_shows_newest:
  assumes "(capture_step env)\<^sup>*\<^sup>* (system_new env now iface max_packets) y"
  shows "map pr_data (st_packets (cx_store (sy_session y))) = newest (max max_packets 1) (map pr_data (sy_received y)) \<and>
    st_dropped (cx_store (sy_session y)) + length (st_packets (cx_store (sy_session y))) = length (sy_received y)"
proof -
  have "store_ok (max max_packets 1) y"
    using assms
  proof (induction rule: rtranclp_induct)
    case base
    show ?case by (simp add: store_ok_def system_new_def new_live_def store_new_def newest_def)
  next
    case (step y z)
    then show ?case using store_ok_step by blast
  qed
  then show ?thesis by (simp add: store_ok_def)
qed

section \<open>Key logs\<close>

definition dissected_with :: "capture_env \<Rightarrow> key_log option \<Rightarrow> packet_record \<Rightarrow> bool" where
  "dissected_with env kl p \<longleftrightarrow>
     (case dissect (ca_l7 env) kl (pr_data p) (pr_link_type p) of
        None \<Rightarrow> False
      | Some d \<Rightarrow> pr_summary p = dp_summary d \<and> pr_flags p = dp_flags d \<and> pr_expert p = dp_expert d \<and>
          pr_tree p = Some (dp_tree d) \<and> pr_decrypted p = dp_decrypted d \<and> pr_fields p = dp_fields d)"

lemma redigest_with: "redigest env kl ps = Some qs \<Longrightarrow> list_all (dissected_with env kl) qs"
  by (induction ps arbitrary: qs) (auto simp: bind_eq_Some_conv redissected_def dissected_with_def)

lemma redigest_ids: "redigest env kl ps = Some qs \<Longrightarrow> map pr_id qs = map pr_id ps"
  by (induction ps arbitrary: qs) (auto simp: bind_eq_Some_conv redissected_def)

text \<open>
  Loading a key log brings every stored packet up to date: each is what dissecting its bytes with the
  new keys gives, and keeps its bytes and number.
\<close>

theorem keylog_redigests:
  assumes "load_keylog env path kl s = Some s'"
  shows "list_all (dissected_with env (Some kl)) (st_packets (cx_store s')) \<and>
    map pr_data (st_packets (cx_store s')) = map pr_data (st_packets (cx_store s)) \<and>
    map pr_id (st_packets (cx_store s')) = map pr_id (st_packets (cx_store s))"
proof -
  obtain ps where "redigest env (Some kl) (st_packets (cx_store s)) = Some ps" "cx_store s' = (cx_store s)\<lparr>st_packets := ps\<rparr>"
    using keylog_store [OF assms] by blast
  then show ?thesis using redigest_with redigest_data redigest_ids by simp
qed

text \<open>One packet on its way from the thread to the table.\<close>

lemma packet_passes:
  fixes p :: raw_packet
  defines "r \<equiv> \<lambda>at d. packet_of at (rp_orig_len p) p d"
  assumes "sy_ui y = UiFree" "sy_thread y = Some t" "th_pc t = ThPolling" "\<not> th_stop t" "th_queue t = []"
    "matches_raw (th_filter t) (rp_data p)" "dissect (ca_l7 env) (th_keylog t) (rp_data p) (rp_link p) = Some d"
    "receive_packet env io (r at d) (sy_session y) = Some s'"
  shows "\<exists>y'. (capture_step env)\<^sup>*\<^sup>* y y' \<and> sy_session y' = s' \<and> sy_received y' = sy_received y @ [r at d]"
proof -
  let ?r = "r at d"
  define y2 where "y2 = with_thread (\<lambda>t. t\<lparr>th_inject := [], th_pc := ThSending ?r\<rparr>) (y\<lparr>sy_made := sy_made y @ [?r]\<rparr>)"
  define y3 where "y3 = with_thread (\<lambda>t. t\<lparr>th_queue := th_queue t @ [?r], th_pc := ThPolling\<rparr>) y2"
  define y4 where "y4 = with_thread (\<lambda>t. t\<lparr>th_queue := []\<rparr>)
    (y3\<lparr>sy_session := s', sy_got := sy_got y3 @ [?r], sy_received := sy_received y3 @ [?r]\<rparr>)"
  have "capture_step env y y2"
    unfolding y2_def using assms by (auto simp: r_def intro!: cs_packet [of _ t])
  moreover have t2: "sy_thread y2 = Some (t\<lparr>th_inject := [], th_pc := ThSending ?r\<rparr>)"
    using assms(3) by (simp add: y2_def with_thread_def)
  then have "capture_step env y2 y3"
    unfolding y3_def using assms(6) by (intro cs_send [OF t2]) (simp_all add: channel_room_def)
  moreover have t3: "sy_thread y3 = Some (t\<lparr>th_inject := [], th_queue := [?r], th_pc := ThPolling\<rparr>)"
    using t2 assms(4,6) by (simp add: y3_def with_thread_def)
  then have "capture_step env y3 y4"
    unfolding y4_def using assms(2,9)
    by (intro cs_receive [OF _ t3]) (simp_all add: y3_def y2_def with_thread_def)
  ultimately have "(capture_step env)\<^sup>*\<^sup>* y y4" by (meson rtranclp.rtrancl_into_rtrancl rtranclp.rtrancl_refl)
  moreover have "sy_session y4 = s'" "sy_received y4 = sy_received y @ [?r]"
    by (simp_all add: y4_def y3_def y2_def with_thread_def)
  ultimately show ?thesis by blast
qed

text \<open>
  The running thread keeps the keys it was started with: a packet captured after a key log has been
  loaded is still dissected with the old one, and is stored that way.
\<close>

theorem thread_keeps_old_keys:
  assumes "sy_ui y = UiFree" "sy_thread y = Some t" "th_pc t = ThPolling" "\<not> th_stop t" "th_queue t = []"
    "load_keylog env path kl (sy_session y) = Some s" "matches_raw (th_filter t) (rp_data p)"
    "dissect (ca_l7 env) (th_keylog t) (rp_data p) (rp_link p) = Some d"
    "receive_packet env io (packet_of at (rp_orig_len p) p d) s = Some s'"
  shows "\<exists>y'. (capture_step env)\<^sup>*\<^sup>* y y' \<and> cx_keylog (sy_session y') = Some kl \<and>
    pr_fields (last (st_packets (cx_store (sy_session y')))) = dp_fields d"
proof -
  let ?y1 = "y\<lparr>sy_session := s\<rparr>"
  have "capture_step env y ?y1" using assms(1,6) by (rule cs_keylog)
  moreover obtain y' where "(capture_step env)\<^sup>*\<^sup>* ?y1 y'" "sy_session y' = s'"
    using packet_passes [of ?y1 t p env d io at s'] assms by auto
  moreover have "cx_keylog s' = Some kl"
  proof -
    have "cx_keylog s = Some kl" using assms(6) by (auto simp: load_keylog_def redigest_all_def)
    then show ?thesis using assms(9)
      by (auto simp: receive_packet_def ring_written_def Let_def bind_eq_Some_conv split: option.splits if_splits)
  qed
  moreover have "pr_fields (last (st_packets (cx_store s'))) = dp_fields d"
    using receive_store [OF assms(9)] by (simp add: store_push_def Let_def packet_of_def)
  ultimately show ?thesis by (metis converse_rtranclp_into_rtranclp)
qed

section \<open>Stopping\<close>

lemma fill_channel:
  fixes p :: raw_packet
  assumes "dissect (ca_l7 env) None (rp_data p) (rp_link p) = Some d" "k \<le> channel_room"
  shows "\<exists>y t. (capture_step env)\<^sup>*\<^sup>* (system_new env now iface max_packets) y \<and> sy_ui y = UiFree \<and> sy_thread y = Some t \<and>
    th_pc t = ThPolling \<and> \<not> th_stop t \<and> length (th_queue t) = k \<and> th_filter t = CfTrue \<and> th_keylog t = None"
  using assms(2)
proof (induction k)
  case 0
  let ?y = "system_new env now iface max_packets"
  let ?z = "?y\<lparr>sy_thread := Some (thread_new (sy_session ?y)), sy_session := capture_started (sy_session ?y), sy_made := [], sy_got := []\<rparr>"
  have "capture_step env ?y ?z" by (rule cs_start) (simp_all add: system_new_def new_live_def)
  then have "(capture_step env)\<^sup>*\<^sup>* ?y ?z" by (rule r_into_rtranclp)
  moreover have "cap_filter_of (sy_session ?y) = CfTrue"
  proof -
    have "cx_capture_filter_str (sy_session ?y) = []" by (simp add: system_new_def new_live_def)
    moreover have "parse_capture_filter [] = Inr CfTrue" by code_simp
    ultimately show ?thesis by (simp add: cap_filter_of_def)
  qed
  moreover have "cx_keylog (sy_session ?y) = None" "sy_ui ?y = UiFree" by (simp_all add: system_new_def new_live_def)
  ultimately show ?case by (intro exI [of _ ?z] exI [of _ "thread_new (sy_session ?y)"]) (simp add: thread_new_def)
next
  case (Suc k)
  then obtain y t where y: "(capture_step env)\<^sup>*\<^sup>* (system_new env now iface max_packets) y" "sy_ui y = UiFree" "sy_thread y = Some t"
    "th_pc t = ThPolling" "\<not> th_stop t" "length (th_queue t) = k" "th_filter t = CfTrue" "th_keylog t = None" by auto
  let ?r = "packet_of 0 (rp_orig_len p) p d"
  define y2 where "y2 = with_thread (\<lambda>t. t\<lparr>th_inject := [], th_pc := ThSending ?r\<rparr>) (y\<lparr>sy_made := sy_made y @ [?r]\<rparr>)"
  define y3 where "y3 = with_thread (\<lambda>t. t\<lparr>th_queue := th_queue t @ [?r], th_pc := ThPolling\<rparr>) y2"
  have "capture_step env y y2"
    unfolding y2_def using y assms(1) by (intro cs_packet [of _ t]) simp_all
  moreover have t2: "sy_thread y2 = Some (t\<lparr>th_inject := [], th_pc := ThSending ?r\<rparr>)"
    using y(3) by (simp add: y2_def with_thread_def)
  then have "capture_step env y2 y3"
    unfolding y3_def using y(6) Suc.prems by (intro cs_send [OF t2]) simp_all
  ultimately have "(capture_step env)\<^sup>*\<^sup>* (system_new env now iface max_packets) y3"
    using y(1) by (meson rtranclp.rtrancl_into_rtrancl)
  then show ?case
    using y t2 by (intro exI [of _ y3] exI [of _ "t\<lparr>th_inject := [], th_pc := ThPolling, th_queue := th_queue t @ [?r]\<rparr>"])
      (simp add: y3_def y2_def with_thread_def)
qed

text \<open>
  C40: Stopping a capture can hang for ever: when the channel is full the thread waits for room and the
  interface, which would make room, waits for the thread; no step of either is possible any more.
\<close>

theorem stop_can_hang:
  fixes p :: raw_packet
  assumes "dissect (ca_l7 env) None (rp_data p) (rp_link p) = Some d"
  shows "\<exists>y. (capture_step env)\<^sup>*\<^sup>* (system_new env now iface max_packets) y \<and> sy_ui y = UiJoining False \<and>
    (\<forall>y'. \<not> capture_step env y y')"
proof -
  obtain y t where y: "(capture_step env)\<^sup>*\<^sup>* (system_new env now iface max_packets) y" "sy_ui y = UiFree" "sy_thread y = Some t"
    "th_pc t = ThPolling" "\<not> th_stop t" "length (th_queue t) = channel_room" "th_filter t = CfTrue" "th_keylog t = None"
    using fill_channel [OF assms order_refl] by blast
  let ?r = "packet_of 0 (rp_orig_len p) p d"
  define y2 where "y2 = with_thread (\<lambda>t. t\<lparr>th_inject := [], th_pc := ThSending ?r\<rparr>) (y\<lparr>sy_made := sy_made y @ [?r]\<rparr>)"
  define y3 where "y3 = with_thread (\<lambda>t. t\<lparr>th_stop := True\<rparr>) (y2\<lparr>sy_ui := UiJoining False\<rparr>)"
  have "capture_step env y y2"
    unfolding y2_def using y assms by (intro cs_packet [of _ t]) simp_all
  moreover have t2: "sy_thread y2 = Some (t\<lparr>th_inject := [], th_pc := ThSending ?r\<rparr>)"
    using y(3) by (simp add: y2_def with_thread_def)
  then have "capture_step env y2 y3"
    unfolding y3_def using y(2) by (intro cs_stop [OF _ t2]) (simp add: y2_def with_thread_def)
  ultimately have "(capture_step env)\<^sup>*\<^sup>* (system_new env now iface max_packets) y3"
    using y(1) by (meson rtranclp.rtrancl_into_rtrancl)
  moreover have ui: "sy_ui y3 = UiJoining False" by (simp add: y3_def with_thread_def)
  moreover have t3: "sy_thread y3 = Some (t\<lparr>th_inject := [], th_pc := ThSending ?r, th_stop := True\<rparr>)"
    using t2 by (simp add: y3_def with_thread_def)
  moreover have "\<not> capture_step env y3 y'" for y'
  proof
    assume "capture_step env y3 y'"
    then show False by cases (use ui t3 y(6) in auto)
  qed
  ultimately show ?thesis by blast
qed

section \<open>A session at work\<close>

text \<open>Empty packets, captured on an interface with room for one packet in the table.\<close>

definition sample_capture :: capture_env where
  "sample_capture = \<lparr>ca_l7 = refusing_env, ca_regex = \<lambda>_. None, ca_re_match = \<lambda>_ _. False, ca_hint = ''run as root'',
     ca_filter_error = \<lambda>_. ''bad filter'', ca_cap_error = \<lambda>_. ''bad filter''\<rparr>"

definition sample_raw :: raw_packet where
  "sample_raw = \<lparr>rp_data = [], rp_link = LtRaw, rp_interface = ''lo'', rp_orig_len = 0, rp_wall = 0\<rparr>"

definition sample_disk :: ring_io where
  "sample_disk = \<lparr>io_create = True, io_writer = True, io_section = True, io_iface = True, io_packet = None\<rparr>"

lemma sample_dissect: "\<exists>d. dissect (ca_l7 sample_capture) kl (rp_data sample_raw) lt = Some d \<and> dp_fields d = Map.empty"
  by (simp add: sample_raw_def dissect_def Let_def)

lemma sample_receive:
  assumes "cx_stats s = (stats_default 0)\<lparr>cs_io := io_new 0 120\<rparr>"
  shows "\<exists>s'. receive_packet sample_capture sample_disk (packet_of 0 0 sample_raw d) s = Some s'"
proof -
  have "hist_ingest (packet_of 0 0 sample_raw d) (replicate 7 0) \<noteq> None"
    by (simp add: hist_ingest_def packet_of_def sample_raw_def length_bucket_def idx_def vec_set_def Let_def)
  moreover have "io_ingest (packet_of 0 0 sample_raw d) (io_new 0 120) \<noteq> None"
    by (simp add: io_ingest_def packet_of_def sample_raw_def io_new_def seconds_since_def idx_def vec_set_def Let_def)
  ultimately have "stats_ingest (packet_of 0 0 sample_raw d) ((stats_default 0)\<lparr>cs_io := io_new 0 120\<rparr>) \<noteq> None"
    by (auto simp: stats_ingest_def stats_default_def)
  then obtain st where st: "stats_ingest (packet_of 0 0 sample_raw d) ((stats_default 0)\<lparr>cs_io := io_new 0 120\<rparr>) = Some st" by blast
  have "cx_stats (ring_written sample_disk (packet_of 0 0 sample_raw d) s) = cx_stats s"
    by (simp add: ring_written_def split: option.split)
  then show ?thesis using assms st by (simp add: receive_packet_def Let_def)
qed

theorem capture_fifo_witness:
  "\<exists>y t. (capture_step sample_capture)\<^sup>*\<^sup>* (system_new sample_capture 0 ''lo'' 1) y \<and> sy_thread y = Some t \<and>
     length (th_queue t) = 2 \<and> sy_made y = sy_got y @ th_queue t @ pending (th_pc t)"
proof -
  obtain d where "dissect (ca_l7 sample_capture) None (rp_data sample_raw) (rp_link sample_raw) = Some d"
    using sample_dissect by blast
  from fill_channel [OF this, of 2 0 "''lo''" 1] obtain y t
    where y: "(capture_step sample_capture)\<^sup>*\<^sup>* (system_new sample_capture 0 ''lo'' 1) y" "sy_thread y = Some t" "length (th_queue t) = 2"
    by (auto simp: channel_room_def)
  with capture_fifo [OF y(1,2)] show ?thesis by blast
qed

theorem stop_can_hang_witness:
  "\<exists>y. (capture_step sample_capture)\<^sup>*\<^sup>* (system_new sample_capture 0 ''lo'' 1) y \<and> sy_ui y = UiJoining False \<and>
     (\<forall>y'. \<not> capture_step sample_capture y y')"
proof -
  obtain d where "dissect (ca_l7 sample_capture) None (rp_data sample_raw) (rp_link sample_raw) = Some d"
    using sample_dissect by blast
  then show ?thesis by (rule stop_can_hang)
qed

definition sample_running :: capture_system where
  "sample_running =
     (let y = system_new sample_capture 0 ''lo'' 1 in
      y\<lparr>sy_thread := Some (thread_new (sy_session y)), sy_session := capture_started (sy_session y), sy_made := [], sy_got := []\<rparr>)"

lemma sample_keylog:
  "\<exists>s. load_keylog sample_capture ''keys'' kl_empty (sy_session sample_running) = Some s \<and>
     cx_stats s = (stats_default 0)\<lparr>cs_io := io_new 0 120\<rparr> \<and> cx_store s = store_new 1"
  by (simp add: sample_running_def system_new_def new_live_def capture_started_def load_keylog_def redigest_all_def store_new_def Let_def)

lemma sample_thread:
  "sy_ui sample_running = UiFree" "sy_thread sample_running =
     Some \<lparr>th_filter = CfTrue, th_keylog = None, th_pc = ThPolling, th_queue = [], th_stop = False, th_inject = []\<rparr>"
proof -
  have "parse_capture_filter [] = Inr CfTrue" by code_simp
  then show "sy_thread sample_running =
     Some \<lparr>th_filter = CfTrue, th_keylog = None, th_pc = ThPolling, th_queue = [], th_stop = False, th_inject = []\<rparr>"
    by (simp add: sample_running_def system_new_def new_live_def thread_new_def cap_filter_of_def Let_def)
qed (simp add: sample_running_def system_new_def Let_def)

theorem thread_keeps_old_keys_witness:
  "\<exists>y'. (capture_step sample_capture)\<^sup>*\<^sup>* sample_running y' \<and> cx_keylog (sy_session y') = Some kl_empty \<and>
     pr_fields (last (st_packets (cx_store (sy_session y')))) = Map.empty"
proof -
  obtain s where s: "load_keylog sample_capture ''keys'' kl_empty (sy_session sample_running) = Some s"
    "cx_stats s = (stats_default 0)\<lparr>cs_io := io_new 0 120\<rparr>" using sample_keylog by blast
  obtain d where d: "dissect (ca_l7 sample_capture) None (rp_data sample_raw) (rp_link sample_raw) = Some d" "dp_fields d = Map.empty"
    using sample_dissect by blast
  obtain s' where s': "receive_packet sample_capture sample_disk (packet_of 0 0 sample_raw d) s = Some s'"
    using sample_receive [OF s(2)] by blast
  have "rp_orig_len sample_raw = 0" by (simp add: sample_raw_def)
  with thread_keeps_old_keys [of sample_running _ sample_capture "''keys''" kl_empty s sample_raw d sample_disk 0 s'] sample_thread s(1) d s'
  show ?thesis by simp
qed

text \<open>The same session with its first packet.\<close>

lemma sample_first:
  "\<exists>y. (capture_step sample_capture)\<^sup>*\<^sup>* (system_new sample_capture 0 ''lo'' 1) y \<and> map pr_data (sy_received y) = [[]] \<and>
     map pr_data (st_packets (cx_store (sy_session y))) = [[]]"
proof -
  obtain d where d: "dissect (ca_l7 sample_capture) None (rp_data sample_raw) (rp_link sample_raw) = Some d"
    using sample_dissect by blast
  have s: "cx_stats (sy_session sample_running) = (stats_default 0)\<lparr>cs_io := io_new 0 120\<rparr>"
    "cx_store (sy_session sample_running) = store_new 1"
    by (simp_all add: sample_running_def system_new_def new_live_def capture_started_def Let_def)
  obtain s' where s': "receive_packet sample_capture sample_disk (packet_of 0 0 sample_raw d) (sy_session sample_running) = Some s'"
    using sample_receive [OF s(1)] by blast
  have "rp_orig_len sample_raw = 0" by (simp add: sample_raw_def)
  then obtain y where y: "(capture_step sample_capture)\<^sup>*\<^sup>* sample_running y" "sy_session y = s'"
    "sy_received y = sy_received sample_running @ [packet_of 0 0 sample_raw d]"
    using packet_passes [of sample_running _ sample_raw sample_capture d sample_disk 0 s'] sample_thread d s' by auto
  have "capture_step sample_capture (system_new sample_capture 0 ''lo'' 1) sample_running"
    unfolding sample_running_def Let_def by (rule cs_start) (simp_all add: system_new_def new_live_def)
  then have "(capture_step sample_capture)\<^sup>*\<^sup>* (system_new sample_capture 0 ''lo'' 1) y"
    using y(1) by (rule converse_rtranclp_into_rtranclp)
  moreover have "sy_received sample_running = []" by (simp add: sample_running_def system_new_def Let_def)
  moreover have "cx_store s' = store_push (packet_of 0 0 sample_raw d) (store_new 1)"
    using receive_store [OF s'] s(2) by simp
  ultimately show ?thesis
    using y by (intro exI [of _ y]) (simp add: store_push_def store_new_def packet_of_def sample_raw_def Let_def)
qed

theorem store_shows_newest_witness:
  "\<exists>y. (capture_step sample_capture)\<^sup>*\<^sup>* (system_new sample_capture 0 ''lo'' 1) y \<and>
     map pr_data (st_packets (cx_store (sy_session y))) = newest 1 [[]] \<and>
     st_dropped (cx_store (sy_session y)) + length (st_packets (cx_store (sy_session y))) = 1"
proof -
  obtain y where y: "(capture_step sample_capture)\<^sup>*\<^sup>* (system_new sample_capture 0 ''lo'' 1) y" "map pr_data (sy_received y) = [[]]"
    using sample_first by (elim exE conjE)
  have "length (map pr_data (sy_received y)) = 1" unfolding y(2) by simp
  then have "length (sy_received y) = 1" by simp
  moreover have "newest (max 1 1) (map pr_data (sy_received y)) = newest 1 [[]]" unfolding y(2) by simp
  ultimately show ?thesis using store_shows_newest [OF y(1)] y(1) by (intro exI [of _ y] conjI) argo+
qed

theorem keylog_redigests_witness:
  "\<exists>s s'. load_keylog sample_capture ''keys'' kl_empty s = Some s' \<and> length (st_packets (cx_store s')) = 1 \<and>
     list_all (dissected_with sample_capture (Some kl_empty)) (st_packets (cx_store s'))"
proof -
  obtain y where "(capture_step sample_capture)\<^sup>*\<^sup>* (system_new sample_capture 0 ''lo'' 1) y"
    and y: "map pr_data (st_packets (cx_store (sy_session y))) = [[]]" using sample_first by (elim exE conjE)
  then obtain p where p: "st_packets (cx_store (sy_session y)) = [p]" "pr_data p = []" by auto
  then have "redigest sample_capture (Some kl_empty) [p] \<noteq> None" by (simp add: dissect_def Let_def)
  then obtain s' where s': "load_keylog sample_capture ''keys'' kl_empty (sy_session y) = Some s'"
    using p by (auto simp: load_keylog_def redigest_all_def simp del: redigest.simps)
  from keylog_redigests [OF this] p have "length (st_packets (cx_store s')) = 1"
    by (metis length_map length_Cons list.size(3) One_nat_def)
  with s' keylog_redigests [OF s'] show ?thesis by blast
qed

end
