(* ===== verification/History.thy ===== *)
theory History
  imports HttpClient "HOL-Library.AList" "HOL-Library.List_Lexorder" "HOL-Library.Char_ord"
begin

text \<open>
  The request history (\<open>src/src/http/history.rs\<close>): one file per exchange in a directory, here the
  entries by file name, without the extension every one of them has.  A file keeps its place when it is
  written again.  The clock and the time an exchange took are arguments; the file operations succeed.
\<close>

record history_entry =
  hy_id :: string
  hy_at_unix :: nat
  hy_method :: string
  hy_url :: string
  hy_status :: nat
  hy_total_ms :: nat
  hy_body_preview :: string
  hy_request_headers :: headers
  hy_request_body :: string

type_synonym history_dir = "(string \<times> history_entry) list"

definition history_id :: "nat \<Rightarrow> nat \<Rightarrow> string" where
  "history_id now status = dec now @ ''-'' @ dec status"

definition history_of :: "nat \<Rightarrow> nat \<Rightarrow> request_spec \<Rightarrow> http_response \<Rightarrow> history_entry" where
  "history_of now ms spec resp =
     \<lparr>hy_id = history_id now (rs_status resp), hy_at_unix = now, hy_method = rq_method spec, hy_url = rq_url spec,
      hy_status = rs_status resp, hy_total_ms = ms, hy_body_preview = from_utf8_lossy (take 512 (rs_body resp)),
      hy_request_headers = rq_headers spec, hy_request_body = from_utf8_lossy (rq_body spec)\<rparr>"

text \<open>The names first in order are removed; all paths have the same directory and extension.\<close>

definition prune :: "nat \<Rightarrow> history_dir \<Rightarrow> history_dir" where
  "prune keep dir =
     (let old = take (length dir - keep) (sort (map (\<lambda>(n, _). n @ ''.json'') dir)) in
      filter (\<lambda>(n, _). n @ ''.json'' \<notin> set old) dir)"

definition append_history :: "nat \<Rightarrow> nat \<Rightarrow> request_spec \<Rightarrow> http_response \<Rightarrow> history_dir \<Rightarrow> history_dir" where
  "append_history now ms spec resp dir =
     prune 200 (AList.update (history_id now (rs_status resp)) (history_of now ms spec resp) dir)"

text \<open>\<open>sort_by_key\<close> is stable, as \<open>sort_key\<close> is.\<close>

definition list_history :: "nat \<Rightarrow> history_dir \<Rightarrow> history_entry list" where
  "list_history limit dir = take limit (sort_key (\<lambda>e. - int (hy_at_unix e)) (map snd dir))"

definition load_history_entry :: "string \<Rightarrow> history_dir \<Rightarrow> history_entry option" where
  "load_history_entry n dir = map_of dir n"

section \<open>Correctness\<close>

lemma prune_length:
  assumes "distinct (map fst dir)"
  shows "length (prune keep dir) = min keep (length dir)"
proof -
  let ?ns = "map (\<lambda>(n, _). n @ ''.json'') dir"
  let ?old = "take (length dir - keep) (sort ?ns)"
  have d: "distinct ?ns"
  proof -
    have "distinct (map (\<lambda>n. n @ ''.json'') (map fst dir))"
      using assms by (subst distinct_map) (simp add: inj_on_def)
    then show ?thesis by (simp add: comp_def split_def)
  qed
  then have sub: "set ?old \<subseteq> set ?ns" "distinct ?old"
    using set_take_subset [of "length dir - keep" "sort ?ns"] by simp_all
  have "length (prune keep dir) = length (filter (\<lambda>x. x \<notin> set ?old) ?ns)"
    by (simp add: prune_def Let_def filter_map comp_def split_def)
  also have "\<dots> = card (set ?ns - set ?old)"
  proof -
    have "card (set (filter (\<lambda>x. x \<notin> set ?old) ?ns)) = length (filter (\<lambda>x. x \<notin> set ?old) ?ns)"
      by (rule distinct_card) (rule distinct_filter [OF d])
    then show ?thesis by (simp only: set_filter set_diff_eq)
  qed
  also have "\<dots> = length ?ns - length ?old"
    using d sub by (simp add: card_Diff_subset distinct_card del: set_map)
  finally show ?thesis by simp
qed

lemma prune_names: "distinct (map fst dir) \<Longrightarrow> distinct (map fst (prune keep dir))"
  by (simp add: prune_def Let_def distinct_map_filter)

lemma append_length:
  assumes "distinct (map fst dir)"
  shows "length (append_history now ms spec resp dir) \<le> 200"
  using prune_length [of "AList.update (history_id now (rs_status resp)) (history_of now ms spec resp) dir" 200]
    distinct_update [OF assms] by (simp add: append_history_def)

text \<open>
  The history is bounded and its files stay apart: after an exchange has been stored at most 200 entries
  are kept, under distinct names, and the list shown is the newest of them, in descending order of time.
\<close>

theorem history_bounded:
  assumes "distinct (map fst dir)"
  shows "length (append_history now ms spec resp dir) \<le> 200 \<and> distinct (map fst (append_history now ms spec resp dir)) \<and>
    sorted_wrt (\<lambda>a b. hy_at_unix b \<le> hy_at_unix a) (list_history limit (append_history now ms spec resp dir))"
proof -
  have "sorted_wrt (\<lambda>a b. hy_at_unix b \<le> hy_at_unix a) (sort_key (\<lambda>e. - int (hy_at_unix e)) xs)" for xs
  proof -
    have "sorted (map (\<lambda>e. - int (hy_at_unix e)) (sort_key (\<lambda>e. - int (hy_at_unix e)) xs))" by simp
    then show ?thesis by (simp add: sorted_map sorted_wrt_map)
  qed
  then have "sorted_wrt (\<lambda>a b. hy_at_unix b \<le> hy_at_unix a) (list_history limit d)" for d
    unfolding list_history_def by (rule sorted_wrt_take)
  then show ?thesis using assms append_length prune_names [OF distinct_update] by (simp add: append_history_def)
qed

definition sample_answer :: http_response where
  "sample_answer = \<lparr>rs_status = 200, rs_headers = [], rs_body = [], rs_redirect_chain = [], rs_version = ''HTTP/1.1''\<rparr>"

theorem history_bounded_witness:
  "length (append_history 7 1 default_spec sample_answer []) \<le> 200 \<and>
   sorted_wrt (\<lambda>a b. hy_at_unix b \<le> hy_at_unix a) (list_history 40 (append_history 7 1 default_spec sample_answer []))"
  using history_bounded [of "[]"] by simp

text \<open>
  A file is named by second and status: of two exchanges with the same status in one second only the
  second is kept, and the first can no longer be replayed.
\<close>

theorem same_second_overwrites:
  assumes "rs_status resp1 = rs_status resp2" "distinct (map fst dir)" "length dir < 200"
  shows "map_of (append_history now ms2 spec2 resp2 (append_history now ms1 spec1 resp1 dir)) =
    map_of (append_history now ms2 spec2 resp2 dir)"
proof -
  have keep: "prune 200 d = d" if "length d \<le> 200" for d using that by (simp add: prune_def)
  have "length (AList.update k v d) \<le> Suc (length d)" for k v and d :: history_dir
    by (induction d) auto
  then have len: "length (AList.update k v dir) \<le> 200" for k v
    using assms(3) by (meson Suc_leI le_trans)
  have len2: "length (AList.update k v (AList.update k w dir)) \<le> 200" for k v w
  proof -
    have "length (AList.update k v (AList.update k w dir)) = length (AList.update k w dir)"
      by (induction dir) auto
    then show ?thesis using len by simp
  qed
  show ?thesis using assms(1) by (auto simp: append_history_def keep len len2 update_conv')
qed

theorem same_second_overwrites_witness:
  "map_of (append_history 7 1 default_spec sample_answer (append_history 7 9 (default_spec\<lparr>rq_url := ''http://a/''\<rparr>) sample_answer [])) =
   map_of (append_history 7 1 default_spec sample_answer [])"
  by (rule same_second_overwrites) simp_all

end
