(* ===== verification/HttpSession.thy ===== *)
theory HttpSession
  imports Session Grpc Asserts Collections Cookies Follow History
begin

text \<open>
  HTTP sessions (\<open>src/src/session/http_session.rs\<close>, with the form keys of \<open>app.rs\<close>, \<open>http/graphql.rs\<close> and
  \<open>http/scripts.rs\<close>): the request editor, the specification it builds and what an exchange does to the
  session.  The HTTP and gRPC exchange, the script engine, the descriptors and the JSON library are
  fields of \<open>session_env\<close>; clock and duration are arguments; an outer \<open>option\<close> is a panic.  Cursor
  styles are left out, and the TLS details of a response are an argument of the summary.
\<close>

section \<open>The session\<close>

datatype http_field =
    FldMethod | FldUrl | FldAuthKind | FldAuthToken | FldAuthUser | FldAuthPass | FldAuthKey | FldAuthValue
  | FldHeaders | FldBody | FldForm | FldGraphqlVars | FldGraphqlOp

datatype form_cell = CellKey | CellValue | CellFile

text \<open>The values of a script; a map is the list of its entries by key.\<close>

datatype dynamic = DynString string | DynMap "(string \<times> dynamic) list" | DynOther

record session_env =
  se_http :: http_env
  se_grpc :: grpc_env
  se_assert :: assert_env
  se_json :: json_codec
  se_script :: "string \<Rightarrow> (string \<times> dynamic) list \<Rightarrow> string + (string \<times> dynamic) list"
  se_to_protobuf :: "string \<Rightarrow> string \<Rightarrow> string \<Rightarrow> string + bytes"
  se_from_protobuf :: "string \<Rightarrow> string \<Rightarrow> bytes \<Rightarrow> string option"
  se_json_error :: "string \<Rightarrow> string"
  se_client_error :: "client_error \<Rightarrow> string"
  se_grpc_error :: "grpc_error \<Rightarrow> string"

record http_session =
  hx_target :: target
  hx_status :: conn_status
  hx_frames :: frame_buffer
  hx_selected :: nat
  hx_follow :: bool
  hx_focus :: pane_focus
  hx_inspect :: inspect_mode
  hx_field :: http_field
  hx_method :: "string list"
  hx_url :: "string list"
  hx_headers :: "string list"
  hx_body :: "string list"
  hx_auth_token :: "string list"
  hx_auth_user :: "string list"
  hx_auth_pass :: "string list"
  hx_auth_key :: "string list"
  hx_auth_value :: "string list"
  hx_form_key :: "string list"
  hx_form_value :: "string list"
  hx_form_file :: "string list"
  hx_graphql_vars :: "string list"
  hx_graphql_op :: "string list"
  hx_composer_mode :: composer_mode
  hx_last_response :: "http_response option"
  hx_history :: "string list"
  hx_history_ids :: "string list"
  hx_history_cursor :: nat
  hx_history_scroll :: nat
  hx_status_msg :: string
  hx_filter :: string
  hx_in_flight :: bool
  hx_auth :: auth_kind
  hx_body_mode :: body_mode
  hx_form_fields :: "form_field list"
  hx_form_row :: nat
  hx_form_cell :: form_cell
  hx_tests :: "string list"
  hx_last_assert :: "assert_result list"
  hx_follow_redirects :: bool
  hx_max_redirects :: nat
  hx_cookies :: cookie_jar
  hx_http_version :: http_version
  hx_pre_script :: string
  hx_grpc_mode :: bool
  hx_grpc_descriptor :: string
  hx_grpc_message_type :: string
  hx_grpc_reply_type :: string
  hx_oauth_scopes :: string

definition right_arrow :: string where
  "right_arrow = '' '' @ [CHR 0xE2, CHR 0x86, CHR 0x92] @ '' ''"

definition history_line :: "history_entry \<Rightarrow> string" where
  "history_line e =
     hy_method e @ '' '' @ hy_url e @ right_arrow @ dec (hy_status e) @ '' ('' @ dec (hy_total_ms e) @ '' ms)''"

definition reload_history_pane :: "history_dir \<Rightarrow> http_session \<Rightarrow> http_session" where
  "reload_history_pane dir s =
     (let es = list_history 40 dir in
      s\<lparr>hx_history_ids := map hy_id es, hx_history := map history_line es, hx_history_cursor := 0, hx_history_scroll := 0\<rparr>)"

definition http_session_new :: "cookie_jar \<Rightarrow> history_dir \<Rightarrow> target \<Rightarrow> nat \<Rightarrow> http_session" where
  "http_session_new jar dir t max_frames =
     reload_history_pane dir
       \<lparr>hx_target = t, hx_status = StIdle, hx_frames = fb_new max_frames, hx_selected = 0, hx_follow = True, hx_focus = PaneForm,
        hx_inspect = InspectRaw, hx_field = FldUrl, hx_method = single_line ''GET'', hx_url = single_line (display t),
        hx_headers = multi_line (''User-Agent: bitbeak/0.1'' @ [CHR 10] @ ''Accept: */*'' @ [CHR 10]), hx_body = multi_line [],
        hx_auth_token = single_line [], hx_auth_user = single_line [], hx_auth_pass = single_line [],
        hx_auth_key = single_line ''X-Api-Key'', hx_auth_value = single_line [], hx_form_key = single_line [],
        hx_form_value = single_line [], hx_form_file = single_line [], hx_graphql_vars = multi_line ''{}'',
        hx_graphql_op = single_line [], hx_composer_mode = ModeUtf8, hx_last_response = None, hx_history = [],
        hx_history_ids = [], hx_history_cursor = 0, hx_history_scroll = 0,
        hx_status_msg = ''Tab fields'' @ middot @ ''Enter Send'' @ middot @ ''History: focus + Enter replay'',
        hx_filter = [], hx_in_flight = False, hx_auth = AuthNone, hx_body_mode = BodyRaw, hx_form_fields = [],
        hx_form_row = 0, hx_form_cell = CellKey, hx_tests = [], hx_last_assert = [], hx_follow_redirects = True,
        hx_max_redirects = 10, hx_cookies = jar, hx_http_version = VerAuto, hx_pre_script = [], hx_grpc_mode = False,
        hx_grpc_descriptor = [], hx_grpc_message_type = [], hx_grpc_reply_type = [], hx_oauth_scopes = ''openid''\<rparr>"

section \<open>Editing\<close>

definition form_mode :: "body_mode \<Rightarrow> bool" where
  "form_mode m \<longleftrightarrow> m = BodyUrlEncoded \<or> m = BodyMultipart"

definition edited_field :: "http_session \<Rightarrow> form_field" where
  "edited_field s =
     (let file = text_of (hx_form_file s) in
      \<lparr>ff_key = text_of (hx_form_key s), ff_value = text_of (hx_form_value s), ff_file = (if file = [] then None else Some file)\<rparr>)"

definition sync_form_editor_from_row :: "http_session \<Rightarrow> http_session" where
  "sync_form_editor_from_row s =
     (case idx (hx_form_fields s) (hx_form_row s) of
        Some f \<Rightarrow> s\<lparr>hx_form_key := set_text (ff_key f), hx_form_value := set_text (ff_value f),
          hx_form_file := set_text (default_to [] (ff_file f))\<rparr>
      | None \<Rightarrow> s\<lparr>hx_form_key := set_text [], hx_form_value := set_text [], hx_form_file := set_text []\<rparr>)"

definition commit_form_editor_to_row :: "http_session \<Rightarrow> http_session" where
  "commit_form_editor_to_row s =
     (if hx_form_fields s = [] then s
      else
        let row = (if length (hx_form_fields s) \<le> hx_form_row s then length (hx_form_fields s) - 1 else hx_form_row s)
        in s\<lparr>hx_form_row := row, hx_form_fields := (hx_form_fields s)[row := edited_field s]\<rparr>)"

definition form_add_row :: "http_session \<Rightarrow> http_session" where
  "form_add_row s =
     (let s = commit_form_editor_to_row s;
          s = s\<lparr>hx_form_fields := hx_form_fields s @ [\<lparr>ff_key = [], ff_value = [], ff_file = None\<rparr>]\<rparr>
      in (sync_form_editor_from_row (s\<lparr>hx_form_row := length (hx_form_fields s) - 1\<rparr>))\<lparr>hx_field := FldForm\<rparr>)"

text \<open>\<open>Vec::remove\<close> panics at an index that is not there.\<close>

definition form_delete_row :: "http_session \<Rightarrow> http_session option" where
  "form_delete_row s =
     (if hx_form_fields s = [] then Some s
      else if length (hx_form_fields s) \<le> hx_form_row s then None
      else
        let fs = take (hx_form_row s) (hx_form_fields s) @ drop (hx_form_row s + 1) (hx_form_fields s);
            row = (if 0 < hx_form_row s \<and> length fs \<le> hx_form_row s then hx_form_row s - 1 else hx_form_row s)
        in Some (sync_form_editor_from_row (s\<lparr>hx_form_fields := fs, hx_form_row := row\<rparr>)))"

text \<open>Up and Down in the form.\<close>

definition form_row_up :: "http_session \<Rightarrow> http_session" where
  "form_row_up s =
     (let s = commit_form_editor_to_row s in sync_form_editor_from_row (s\<lparr>hx_form_row := hx_form_row s - 1\<rparr>))"

definition form_row_down :: "http_session \<Rightarrow> http_session" where
  "form_row_down s =
     (let s = commit_form_editor_to_row s in
      sync_form_editor_from_row
        (if hx_form_row s + 1 < length (hx_form_fields s) then s\<lparr>hx_form_row := hx_form_row s + 1\<rparr> else s))"

definition next_cell :: "bool \<Rightarrow> http_session \<Rightarrow> http_session" where
  "next_cell back s =
     (let last_cell = (if hx_body_mode s = BodyMultipart then CellFile else if back then CellValue else CellKey) in
      s\<lparr>hx_form_cell :=
        (if back then (case hx_form_cell s of CellKey \<Rightarrow> last_cell | CellValue \<Rightarrow> CellKey | CellFile \<Rightarrow> CellValue)
         else (case hx_form_cell s of CellKey \<Rightarrow> CellValue | CellValue \<Rightarrow> last_cell | CellFile \<Rightarrow> CellKey))\<rparr>)"

definition commit_auth_and_form :: "http_session \<Rightarrow> http_session" where
  "commit_auth_and_form s = (if hx_field s = FldForm then commit_form_editor_to_row s else s)"

fun field_after :: "auth_kind \<Rightarrow> body_mode \<Rightarrow> http_field \<Rightarrow> http_field" where
  "field_after a m FldMethod = FldUrl"
| "field_after a m FldUrl = FldAuthKind"
| "field_after a m FldAuthKind =
     (case a of AuthNone \<Rightarrow> FldHeaders | AuthBearer \<Rightarrow> FldAuthToken | AuthBasic \<Rightarrow> FldAuthUser
      | AuthApiKeyHeader \<Rightarrow> FldAuthKey | AuthApiKeyQuery \<Rightarrow> FldAuthKey | AuthOAuth2 \<Rightarrow> FldAuthUser)"
| "field_after a m FldAuthUser = FldAuthPass"
| "field_after a m FldAuthPass = (if a = AuthOAuth2 then FldAuthKey else FldHeaders)"
| "field_after a m FldAuthKey = FldAuthValue"
| "field_after a m FldAuthValue = (if a = AuthOAuth2 then FldAuthToken else FldHeaders)"
| "field_after a m FldAuthToken = FldHeaders"
| "field_after a m FldHeaders = (if form_mode m then FldForm else FldBody)"
| "field_after a m FldBody = (if m = BodyGraphQL then FldGraphqlVars else FldMethod)"
| "field_after a m FldGraphqlVars = FldGraphqlOp"
| "field_after a m FldGraphqlOp = FldMethod"
| "field_after a m FldForm = FldMethod"

definition cycle_field :: "http_session \<Rightarrow> http_session" where
  "cycle_field s =
     (let s = commit_auth_and_form s;
          s = s\<lparr>hx_field := field_after (hx_auth s) (hx_body_mode s) (hx_field s)\<rparr>
      in if hx_field s = FldForm then sync_form_editor_from_row s else s)"

fun auth_after :: "auth_kind \<Rightarrow> auth_kind" where
  "auth_after AuthNone = AuthBearer"
| "auth_after AuthBearer = AuthBasic"
| "auth_after AuthBasic = AuthApiKeyHeader"
| "auth_after AuthApiKeyHeader = AuthApiKeyQuery"
| "auth_after AuthApiKeyQuery = AuthOAuth2"
| "auth_after AuthOAuth2 = AuthNone"

definition cycle_auth :: "http_session \<Rightarrow> http_session" where
  "cycle_auth s = s\<lparr>hx_auth := auth_after (hx_auth s), hx_field := FldAuthKind\<rparr>"

fun body_mode_after :: "body_mode \<Rightarrow> body_mode" where
  "body_mode_after BodyRaw = BodyUrlEncoded"
| "body_mode_after BodyUrlEncoded = BodyMultipart"
| "body_mode_after BodyMultipart = BodyGraphQL"
| "body_mode_after BodyGraphQL = BodyRaw"

definition cycle_body_mode :: "http_session \<Rightarrow> http_session" where
  "cycle_body_mode s =
     (let s = commit_form_editor_to_row s;
          s = s\<lparr>hx_body_mode := body_mode_after (hx_body_mode s)\<rparr>;
          s = (if form_mode (hx_body_mode s) \<and> hx_form_fields s = [] then form_add_row s else s)
      in if form_mode (hx_body_mode s) then sync_form_editor_from_row (s\<lparr>hx_field := FldForm\<rparr>)
         else
           let s = s\<lparr>hx_field := FldBody\<rparr> in
           if hx_body_mode s = BodyGraphQL \<and> eq_ignore_case (text_of (hx_method s)) ''GET''
           then s\<lparr>hx_method := set_text ''POST''\<rparr> else s)"

fun version_after :: "http_version \<Rightarrow> http_version" where
  "version_after VerAuto = VerHttp1"
| "version_after VerHttp1 = VerHttp2"
| "version_after VerHttp2 = VerAuto"

definition cycle_http_version :: "http_session \<Rightarrow> http_session" where
  "cycle_http_version s = s\<lparr>hx_http_version := version_after (hx_http_version s)\<rparr>"

definition set_field :: "http_field \<Rightarrow> http_session \<Rightarrow> http_session" where
  "set_field f s =
     (let s = (commit_auth_and_form s)\<lparr>hx_field := f, hx_focus := PaneForm\<rparr> in
      if f = FldForm then sync_form_editor_from_row s else s)"

text \<open>Typing: the area of the field in focus gets new lines.\<close>

definition type_in :: "string list \<Rightarrow> http_session \<Rightarrow> http_session" where
  "type_in ls s =
     (if hx_focus s \<noteq> PaneForm then s
      else case hx_field s of
        FldMethod \<Rightarrow> s\<lparr>hx_method := ls\<rparr>
      | FldUrl \<Rightarrow> s\<lparr>hx_url := ls\<rparr>
      | FldHeaders \<Rightarrow> s\<lparr>hx_headers := ls\<rparr>
      | FldBody \<Rightarrow> s\<lparr>hx_body := ls\<rparr>
      | FldAuthToken \<Rightarrow> s\<lparr>hx_auth_token := ls\<rparr>
      | FldAuthUser \<Rightarrow> s\<lparr>hx_auth_user := ls\<rparr>
      | FldAuthPass \<Rightarrow> s\<lparr>hx_auth_pass := ls\<rparr>
      | FldAuthKey \<Rightarrow> s\<lparr>hx_auth_key := ls\<rparr>
      | FldAuthValue \<Rightarrow> s\<lparr>hx_auth_value := ls\<rparr>
      | FldGraphqlVars \<Rightarrow> s\<lparr>hx_graphql_vars := ls\<rparr>
      | FldGraphqlOp \<Rightarrow> s\<lparr>hx_graphql_op := ls\<rparr>
      | FldForm \<Rightarrow> (case hx_form_cell s of
            CellKey \<Rightarrow> s\<lparr>hx_form_key := ls\<rparr>
          | CellValue \<Rightarrow> s\<lparr>hx_form_value := ls\<rparr>
          | CellFile \<Rightarrow> s\<lparr>hx_form_file := ls\<rparr>)
      | FldAuthKind \<Rightarrow> s)"

section \<open>Loading and saving\<close>

definition load_history :: "history_entry \<Rightarrow> http_session \<Rightarrow> http_session" where
  "load_history e s =
     s\<lparr>hx_method := set_text (hy_method e), hx_url := set_text (hy_url e),
       hx_headers := set_text (format_headers (hy_request_headers e)), hx_body := set_text (hy_request_body e),
       hx_body_mode := BodyRaw, hx_status_msg := ''replay ready: '' @ hy_id e, hx_focus := PaneForm, hx_field := FldUrl\<rparr>"

definition load_http_object :: "http_object \<Rightarrow> http_session \<Rightarrow> http_session" where
  "load_http_object obj s =
     s\<lparr>hx_method := set_text (if ho_method obj = [] then ''GET'' else ho_method obj),
       hx_url := (if ho_url obj \<noteq> [] then set_text (ho_url obj) else hx_url s),
       hx_headers := set_text (format_headers (ho_headers obj)), hx_body := set_text (from_utf8_lossy (ho_data obj)),
       hx_body_mode := BodyRaw, hx_status_msg := ''loaded from follow: '' @ ho_name obj, hx_focus := PaneForm, hx_field := FldUrl\<rparr>"

definition replay_history_at_cursor :: "(string \<Rightarrow> string) \<Rightarrow> history_dir \<Rightarrow> http_session \<Rightarrow> http_session" where
  "replay_history_at_cursor err dir s =
     (case idx (hx_history_ids s) (hx_history_cursor s) of
        None \<Rightarrow> s
      | Some n \<Rightarrow> (case load_history_entry n dir of
            Some e \<Rightarrow> load_history e s
          | None \<Rightarrow> s\<lparr>hx_status_msg := ''history: '' @ err n\<rparr>))"

definition load_saved :: "saved_request \<Rightarrow> http_session \<Rightarrow> http_session" where
  "load_saved req s =
     (let s = s\<lparr>hx_method := set_text (default_to ''GET'' (sr_method req)), hx_url := set_text (sr_target req),
            hx_headers := set_text (format_headers (sr_headers req)), hx_body := set_text (sr_body req),
            hx_auth := sr_auth req, hx_auth_token := set_text (sr_auth_token req), hx_auth_user := set_text (sr_auth_user req),
            hx_auth_pass := set_text (sr_auth_pass req),
            hx_auth_key := set_text (if sr_auth_key req = [] then ''X-Api-Key'' else sr_auth_key req),
            hx_auth_value := set_text (sr_auth_value req), hx_body_mode := sr_body_mode req,
            hx_form_fields := sr_form_fields req, hx_form_row := 0\<rparr>;
          s = (sync_form_editor_from_row s)\<lparr>hx_tests := sr_tests req, hx_follow_redirects := sr_follow_redirects req,
            hx_max_redirects := sr_max_redirects req, hx_http_version := sr_http_version req,
            hx_graphql_vars := set_text (sr_graphql_variables req), hx_graphql_op := set_text (sr_graphql_operation req),
            hx_pre_script := sr_pre_script req, hx_grpc_mode := sr_grpc_mode req, hx_grpc_descriptor := sr_grpc_descriptor req,
            hx_grpc_message_type := sr_grpc_message_type req, hx_grpc_reply_type := sr_grpc_reply_type req\<rparr>;
          s = (if sr_kind req = ''graphql'' then s\<lparr>hx_body_mode := BodyGraphQL\<rparr> else s);
          s = (if sr_kind req = ''grpc'' then s\<lparr>hx_grpc_mode := True\<rparr> else s)
      in s\<lparr>hx_status_msg := ''loaded '' @ sr_name req\<rparr>)"

definition apply_collection :: "collection \<Rightarrow> http_session \<Rightarrow> http_session" where
  "apply_collection col s =
     (let url = text_of (hx_url s) in
      case best_request_for_url url col of
        None \<Rightarrow> s
      | Some req \<Rightarrow>
          let s = load_saved req s;
              s = (if trim url \<noteq> [] then s\<lparr>hx_url := set_text (trim url)\<rparr> else s)
          in s\<lparr>hx_status_msg := ''loaded '' @ sr_name req @ middot @ ''Enter Send''\<rparr>)"

text \<open>The form with the row in the editor.\<close>

definition current_form :: "http_session \<Rightarrow> form_field list" where
  "current_form s =
     (if form_mode (hx_body_mode s) \<and> hx_form_fields s \<noteq> [] \<and> hx_form_row s < length (hx_form_fields s)
      then (hx_form_fields s)[hx_form_row s := edited_field s] else hx_form_fields s)"

definition to_saved :: "string \<Rightarrow> http_session \<Rightarrow> saved_request" where
  "to_saved name s =
     \<lparr>sr_name = name,
      sr_kind = (if hx_grpc_mode s then ''grpc'' else if hx_body_mode s = BodyGraphQL then ''graphql'' else ''http''),
      sr_target = text_of (hx_url s), sr_method = Some (text_of (hx_method s)),
      sr_headers = parse_header_block (text_of (hx_headers s)), sr_body = text_of (hx_body s), sr_auth = hx_auth s,
      sr_auth_token = text_of (hx_auth_token s), sr_auth_user = text_of (hx_auth_user s), sr_auth_pass = text_of (hx_auth_pass s),
      sr_auth_key = text_of (hx_auth_key s), sr_auth_value = text_of (hx_auth_value s), sr_body_mode = hx_body_mode s,
      sr_form_fields = current_form s, sr_tests = hx_tests s, sr_follow_redirects = hx_follow_redirects s,
      sr_max_redirects = hx_max_redirects s, sr_http_version = hx_http_version s,
      sr_graphql_variables = text_of (hx_graphql_vars s), sr_graphql_operation = text_of (hx_graphql_op s),
      sr_pre_script = hx_pre_script s, sr_grpc_mode = hx_grpc_mode s, sr_grpc_descriptor = hx_grpc_descriptor s,
      sr_grpc_message_type = hx_grpc_message_type s, sr_grpc_reply_type = hx_grpc_reply_type s\<rparr>"

section \<open>The request sent\<close>

definition build_graphql_body :: "session_env \<Rightarrow> string \<Rightarrow> string \<Rightarrow> string \<Rightarrow> string + string" where
  "build_graphql_body env query variables operation =
     res_bind
       (if trim variables = [] then Inr (JObject [])
        else case jc_parse (se_json env) (as_bytes variables) of
            None \<Rightarrow> Inl (''variables JSON: '' @ se_json_error env variables)
          | Some v \<Rightarrow> Inr v)
       (\<lambda>vars. Inr (jc_pretty (se_json env) (JObject
          ((if trim operation \<noteq> [] then [(''operationName'', JString (trim operation))] else []) @
           [(''query'', JString query), (''variables'', vars)]))))"

text \<open>The pairs of a body typed into the raw editor, at an equals sign or a colon.\<close>

definition pair_of :: "string \<Rightarrow> form_field option" where
  "pair_of part =
     (let part = trim part; field = \<lambda>(k, v). \<lparr>ff_key = trim k, ff_value = trim v, ff_file = None\<rparr> in
      if part = [] then None
      else case split_once (CHR ''='') part of
          Some kv \<Rightarrow> Some (field kv)
        | None \<Rightarrow> map_option field (split_once (CHR '':'') part))"

definition split_pairs :: "string \<Rightarrow> form_field list" where
  "split_pairs t = List.map_filter pair_of (concat (map (split_chr (CHR 10)) (split_chr (CHR ''&'') t)))"

definition substitute_spec :: "collection \<Rightarrow> request_spec \<Rightarrow> request_spec" where
  "substitute_spec col spec =
     spec\<lparr>rq_url := substitute col (rq_url spec), rq_auth_token := substitute col (rq_auth_token spec),
       rq_auth_user := substitute col (rq_auth_user spec), rq_auth_pass := substitute col (rq_auth_pass spec),
       rq_auth_value := substitute col (rq_auth_value spec),
       rq_headers := map (\<lambda>(k, v). (k, substitute col v)) (rq_headers spec),
       rq_body :=
         (let sub = substitute col (from_utf8_lossy (rq_body spec)) in
          if as_bytes sub \<noteq> rq_body spec then as_bytes sub else rq_body spec),
       rq_form_fields :=
         map (\<lambda>f. f\<lparr>ff_key := substitute col (ff_key f), ff_value := substitute col (ff_value f)\<rparr>) (rq_form_fields spec)\<rparr>"

definition graphql_spec :: "session_env \<Rightarrow> http_session \<Rightarrow> request_spec \<Rightarrow> string + request_spec" where
  "graphql_spec env s spec =
     res_bind (build_graphql_body env (text_of (hx_body s)) (text_of (hx_graphql_vars s)) (text_of (hx_graphql_op s))) (\<lambda>json.
       let spec = spec\<lparr>rq_body := as_bytes json, rq_body_mode := BodyRaw\<rparr>;
           spec = (if header_get (rq_headers spec) ''Content-Type'' = None
             then spec\<lparr>rq_headers := rq_headers spec @ [(''Content-Type'', ''application/json'')]\<rparr> else spec)
       in Inr (if eq_ignore_case (rq_method spec) ''GET'' then spec\<lparr>rq_method := ''POST''\<rparr> else spec))"

definition edited_spec :: "bytes \<Rightarrow> http_session \<Rightarrow> request_spec" where
  "edited_spec body s =
     \<lparr>rq_method = text_of (hx_method s), rq_url = text_of (hx_url s), rq_headers = parse_header_block (text_of (hx_headers s)),
      rq_body = body, rq_follow_redirects = hx_follow_redirects s, rq_max_redirects = hx_max_redirects s,
      rq_auth = hx_auth s, rq_auth_token = text_of (hx_auth_token s), rq_auth_user = text_of (hx_auth_user s),
      rq_auth_pass = text_of (hx_auth_pass s), rq_auth_key = text_of (hx_auth_key s), rq_auth_value = text_of (hx_auth_value s),
      rq_body_mode = hx_body_mode s, rq_form_fields = current_form s, rq_http_version = hx_http_version s\<rparr>"

text \<open>From the substitution on; the header set for the cookies is the first one of that name.\<close>

definition finish_spec :: "nat \<Rightarrow> collection option \<Rightarrow> cookie_jar \<Rightarrow> request_spec \<Rightarrow> request_spec" where
  "finish_spec now col jar spec =
     (let spec = (case col of None \<Rightarrow> spec | Some c \<Rightarrow> substitute_spec c spec);
          spec = (if rq_body_mode spec = BodyUrlEncoded \<and> rq_form_fields spec = []
            then spec\<lparr>rq_form_fields := split_pairs (from_utf8_lossy (rq_body spec))\<rparr> else spec)
      in case cookie_header_for now jar (rq_url spec) of
           None \<Rightarrow> spec
         | Some cookie \<Rightarrow> set_header ''Cookie'' cookie spec)"

definition build_spec :: "session_env \<Rightarrow> nat \<Rightarrow> collection option \<Rightarrow> http_session \<Rightarrow> (string + request_spec) option" where
  "build_spec env now col s =
     map_option
       (\<lambda>body. res_bind body (\<lambda>body.
          let spec = edited_spec body s in
          res_bind (if hx_body_mode s = BodyGraphQL then graphql_spec env s spec else Inr spec)
            (\<lambda>spec. Inr (finish_spec now col (hx_cookies s) spec))))
       (decode_payload (text_of (hx_body s)) (hx_composer_mode s))"

subsection \<open>Scripts\<close>

text \<open>Inserting into a map keeps it in order of the keys and replaces an equal one.\<close>

fun str_less :: "string \<Rightarrow> string \<Rightarrow> bool" where
  "str_less _ [] = False"
| "str_less [] (_ # _) = True"
| "str_less (a # s) (b # t) = (of_char a < (of_char b :: nat) \<or> a = b \<and> str_less s t)"

fun map_insert :: "string \<Rightarrow> 'a \<Rightarrow> (string \<times> 'a) list \<Rightarrow> (string \<times> 'a) list" where
  "map_insert k v [] = [(k, v)]"
| "map_insert k v ((q, w) # m) =
     (if k = q then (k, v) # m else if str_less k q then (k, v) # (q, w) # m else (q, w) # map_insert k v m)"

definition string_map :: "(string \<times> string) list \<Rightarrow> dynamic" where
  "string_map kvs = DynMap (fold (\<lambda>(k, v). map_insert k (DynString v)) kvs [])"

definition script_scope :: "request_spec \<Rightarrow> (string \<times> string) list \<Rightarrow> (string \<times> dynamic) list" where
  "script_scope spec vars =
     [(''req'', DynMap [(''body'', DynString (from_utf8_lossy (rq_body spec))), (''headers'', string_map (rq_headers spec)),
        (''method'', DynString (rq_method spec)), (''url'', DynString (rq_url spec))]),
      (''env'', string_map vars)]"

fun dyn_string :: "dynamic \<Rightarrow> string option" where
  "dyn_string (DynString s) = Some s"
| "dyn_string _ = None"

definition dyn_get :: "string \<Rightarrow> (string \<times> dynamic) list \<Rightarrow> string option" where
  "dyn_get k m = Option.bind (map_of m k) dyn_string"

definition script_result :: "(string \<times> dynamic) list \<Rightarrow> request_spec \<Rightarrow> request_spec" where
  "script_result scope spec =
     (case map_of scope ''req'' of
        Some (DynMap m) \<Rightarrow>
          spec\<lparr>rq_url := default_to (rq_url spec) (dyn_get ''url'' m), rq_method := default_to (rq_method spec) (dyn_get ''method'' m),
            rq_body := (case dyn_get ''body'' m of Some t \<Rightarrow> as_bytes t | None \<Rightarrow> rq_body spec),
            rq_headers := (case map_of m ''headers'' of
                Some (DynMap hs) \<Rightarrow> List.map_filter (\<lambda>(k, v). map_option (Pair k) (dyn_string v)) hs
              | _ \<Rightarrow> rq_headers spec)\<rparr>
      | _ \<Rightarrow> spec)"

definition run_pre_script :: "session_env \<Rightarrow> string \<Rightarrow> request_spec \<Rightarrow> (string \<times> string) list \<Rightarrow> string + request_spec" where
  "run_pre_script env script spec vars =
     (if trim script = [] then Inr spec
      else case se_script env script (script_scope spec vars) of
          Inl e \<Rightarrow> Inl (''pre-script: '' @ e)
        | Inr scope \<Rightarrow> Inr (script_result scope spec))"

section \<open>The exchange\<close>

definition assert_summary :: "assert_result list \<Rightarrow> string" where
  "assert_summary rs =
     (if rs = [] then []
      else middot @ ''tests '' @ dec (length (filter ar_passed rs)) @ ''/'' @ dec (length rs))"

definition authority_from_url :: "string \<Rightarrow> string" where
  "authority_from_url url =
     hd (split_chr (CHR ''/'')
       (case strip_prefix url ''https://'' of Some r \<Rightarrow> r
        | None \<Rightarrow> default_to url (strip_prefix url ''http://'')))"

definition int_dec :: "int \<Rightarrow> string" where
  "int_dec n = (if n < 0 then ''-'' @ dec (nat (- n)) else dec (nat n))"

text \<open>
  The clocks of an exchange: instant and time of day of the two frames, the second it is stored in and
  its duration in milliseconds.
\<close>

record exchange_times =
  xt_out :: nat
  xt_in :: nat
  xt_wall_out :: int
  xt_wall_in :: int
  xt_now :: nat
  xt_ms :: nat

definition log_exchange ::
    "exchange_times \<Rightarrow> bytes \<Rightarrow> string \<Rightarrow> bytes \<Rightarrow> string \<Rightarrow> http_session \<Rightarrow> http_session" where
  "log_exchange xt out out_meta inp in_meta s =
     s\<lparr>hx_frames := fb_push_full (xt_in xt) (xt_wall_in xt) DirIn inp None (Some in_meta)
         (fb_push_full (xt_out xt) (xt_wall_out xt) DirOut out None (Some out_meta) (hx_frames s))\<rparr>"

definition grpc_preview :: "session_env \<Rightarrow> http_session \<Rightarrow> grpc_response \<Rightarrow> string" where
  "grpc_preview env s resp =
     (let head = ''grpc-status='' @ int_dec (gr_status resp);
          plain = head @ [CHR 10] @ from_utf8_lossy (gr_body resp) in
      if hx_grpc_descriptor s \<noteq> [] \<and> hx_grpc_message_type s \<noteq> [] \<and> gr_body resp \<noteq> [] then
        (case se_from_protobuf env (hx_grpc_descriptor s)
            (reply_message_type (hx_grpc_message_type s) (hx_grpc_reply_type s)) (gr_body resp) of
           Some j \<Rightarrow> head @ [CHR 10] @ j
         | None \<Rightarrow> plain)
      else if gr_body resp = [] then head @ '' '' @ gr_message resp
      else plain)"

definition send_grpc ::
    "session_env \<Rightarrow> exchange_times \<Rightarrow> request_spec \<Rightarrow> history_dir \<Rightarrow> http_session \<Rightarrow> history_dir \<times> http_session" where
  "send_grpc env xt spec dir s =
     (let spec = apply_auth (se_http env) spec in
      case (if hx_grpc_descriptor s \<noteq> [] \<and> hx_grpc_message_type s \<noteq> []
            then se_to_protobuf env (hx_grpc_descriptor s) (hx_grpc_message_type s) (from_utf8_lossy (rq_body spec))
            else Inr (rq_body spec)) of
        Inl e \<Rightarrow> (dir, s\<lparr>hx_status := StError, hx_in_flight := False,
          hx_status_msg := ''grpc json'' @ [CHR 0xE2, CHR 0x86, CHR 0x92] @ ''protobuf: '' @ e\<rparr>)
      | Inr message \<Rightarrow>
          (case unary_call (se_grpc env) \<lparr>gq_url = rq_url spec, gq_message = message,
              gq_authority = authority_from_url (rq_url spec), gq_headers = rq_headers spec\<rparr> of
             Inl e \<Rightarrow> (dir, s\<lparr>hx_status := StError, hx_status_msg := se_grpc_error env e, hx_in_flight := False\<rparr>)
           | Inr resp \<Rightarrow>
               let preview = grpc_preview env s resp;
                   s = log_exchange xt (as_bytes (''gRPC '' @ rq_url spec)) ''grpc-request'' (as_bytes preview)
                     (''grpc '' @ int_dec (gr_status resp)) (s\<lparr>hx_status := StConnected\<rparr>);
                   http_resp = \<lparr>rs_status = nat (gr_status resp mod 2 ^ 16), rs_headers = gr_headers resp,
                     rs_body = as_bytes preview, rs_redirect_chain = [], rs_version = ''h2''\<rparr>;
                   dir = append_history (xt_now xt) 0 spec http_resp dir;
                   s = reload_history_pane dir s;
                   asserts = run_tests (se_assert env) (hx_tests s) http_resp
               in (dir, s\<lparr>hx_last_assert := asserts, hx_last_response := Some http_resp, hx_in_flight := False,
                 hx_status_msg := ''grpc-status='' @ int_dec (gr_status resp) @ middot @ dec (length preview) @ '' B'' @
                   assert_summary asserts\<rparr>)))"

definition send_http ::
    "session_env \<Rightarrow> exchange_times \<Rightarrow> request_spec \<Rightarrow> history_dir \<Rightarrow> http_session \<Rightarrow> (history_dir \<times> http_session) option" where
  "send_http env xt spec dir s =
     (case snd (send_request (se_http env) spec) of
        Inl e \<Rightarrow> Some (dir, s\<lparr>hx_status := StError, hx_status_msg := se_client_error env e, hx_in_flight := False\<rparr>)
      | Inr resp \<Rightarrow>
          map_option
            (\<lambda>jar.
              let dir = append_history (xt_now xt) (xt_ms xt) spec resp dir;
                  s = reload_history_pane dir (s\<lparr>hx_status := StConnected, hx_cookies := jar\<rparr>);
                  asserts = run_tests (se_assert env) (hx_tests s) resp;
                  s = log_exchange xt (as_bytes (rq_method spec @ '' '' @ rq_url spec)) ''request'' (rs_body resp)
                    (''HTTP '' @ dec (rs_status resp) @ '' ('' @ rs_version resp @ '')'') (s\<lparr>hx_last_assert := asserts\<rparr>);
                  s = s\<lparr>hx_status_msg := dec (rs_status resp) @ middot @ rs_version resp @ middot @ dec (xt_ms xt) @ '' ms'' @ middot @
                    dec (length (rs_body resp)) @ '' B'' @ assert_summary asserts\<rparr>;
                  n = fb_len (hx_frames s);
                  s = (if hx_follow s \<and> 0 < n then s\<lparr>hx_selected := n - 1\<rparr> else s)
              in (dir, s\<lparr>hx_last_response := Some resp, hx_in_flight := False\<rparr>))
            (store_from_response (xt_now xt) (rq_url spec) (rs_headers resp) (hx_cookies s)))"

definition active_vars :: "collection option \<Rightarrow> (string \<times> string) list" where
  "active_vars col =
     (case col of None \<Rightarrow> []
      | Some c \<Rightarrow> (case find (\<lambda>e. Some (en_name e) = co_active_env c) (co_environments c) of
            None \<Rightarrow> [] | Some e \<Rightarrow> en_vars e))"

definition send_now ::
    "session_env \<Rightarrow> exchange_times \<Rightarrow> collection option \<Rightarrow> history_dir \<Rightarrow> http_session \<Rightarrow>
      (history_dir \<times> http_session) option" where
  "send_now env xt col dir s =
     (if hx_in_flight s then Some (dir, s)
      else
        let s = commit_form_editor_to_row s in
        case build_spec env (xt_now xt) col s of
          None \<Rightarrow> None
        | Some (Inl e) \<Rightarrow> Some (dir, s\<lparr>hx_status_msg := e\<rparr>)
        | Some (Inr spec) \<Rightarrow>
            (case run_pre_script env (hx_pre_script s) spec (active_vars col) of
               Inl e \<Rightarrow> Some (dir, s\<lparr>hx_status_msg := e\<rparr>)
             | Inr spec \<Rightarrow>
                 let s = s\<lparr>hx_in_flight := True, hx_status := StConnecting, hx_status_msg := ''sending'' @ ellipsis\<rparr> in
                 if hx_grpc_mode s then Some (send_grpc env xt spec dir s) else send_http env xt spec dir s))"

section \<open>What is shown\<close>

definition bullets :: string where
  "bullets = concat (replicate 4 [CHR 0xE2, CHR 0x80, CHR 0xA2])"

definition auth_label :: "http_session \<Rightarrow> string" where
  "auth_label s =
     (case hx_auth s of
        AuthNone \<Rightarrow> ''auth:none''
      | AuthBearer \<Rightarrow> ''auth:bearer '' @ (if text_of (hx_auth_token s) = [] then ''(empty)'' else bullets)
      | AuthBasic \<Rightarrow> ''auth:basic '' @ text_of (hx_auth_user s)
      | AuthApiKeyHeader \<Rightarrow> ''auth:header '' @ text_of (hx_auth_key s)
      | AuthApiKeyQuery \<Rightarrow> ''auth:query '' @ text_of (hx_auth_key s)
      | AuthOAuth2 \<Rightarrow> ''auth:oauth2 '' @ (if text_of (hx_auth_token s) = [] then ''(no token)'' else bullets))"

fun field_hint :: "http_field \<Rightarrow> string" where
  "field_hint FldMethod = ''METHOD''"
| "field_hint FldUrl = ''URL''"
| "field_hint FldAuthKind = ''AUTH''"
| "field_hint FldAuthToken = ''TOKEN''"
| "field_hint FldAuthUser = ''USER''"
| "field_hint FldAuthPass = ''PASS''"
| "field_hint FldAuthKey = ''KEY''"
| "field_hint FldAuthValue = ''VALUE''"
| "field_hint FldHeaders = ''HEADERS''"
| "field_hint FldBody = ''BODY''"
| "field_hint FldForm = ''FORM''"
| "field_hint FldGraphqlVars = ''GQL-VARS''"
| "field_hint FldGraphqlOp = ''GQL-OP''"

datatype response_line_kind = LineNormal | LineSection | LinePass | LineFail | LineRedirect

definition section_title :: "string \<Rightarrow> string" where
  "section_title t = concat (replicate 2 [CHR 0xE2, CHR 0x94, CHR 0x80]) @ '' '' @ t @ '' '' @ concat (replicate 2 [CHR 0xE2, CHR 0x94, CHR 0x80])"

definition graphql_errors :: "session_env \<Rightarrow> http_session \<Rightarrow> http_response \<Rightarrow> (string \<times> response_line_kind) list" where
  "graphql_errors env s resp =
     (if hx_body_mode s = BodyGraphQL \<or> starts_with (rs_body resp) (as_bytes ''{'') then
        (case Option.bind (jc_parse (se_json env) (rs_body resp)) (get_array ''errors'') of
           Some (e # es) \<Rightarrow>
             [([], LineNormal), (section_title (''GRAPHQL ERRORS ('' @ dec (length (e # es)) @ '')''), LineSection)] @
             map (\<lambda>e. (''  '' @ default_to ''(error)'' (get_str ''message'' e), LineFail)) (take 8 (e # es))
         | _ \<Rightarrow> [])
      else [])"

text \<open>The line of the timings and those of the TLS details are given.\<close>

definition response_summary_lines ::
    "session_env \<Rightarrow> string \<Rightarrow> string list option \<Rightarrow> http_session \<Rightarrow> (string \<times> response_line_kind) list" where
  "response_summary_lines env timings tls s =
     (case hx_last_response s of
        None \<Rightarrow> [(''(no response yet)'', LineNormal)]
      | Some resp \<Rightarrow>
          [(''status: '' @ dec (rs_status resp), LineNormal), (timings, LineNormal)] @
          (if hx_last_assert s = [] then []
           else (section_title (''TESTS ('' @ dec (length (filter ar_passed (hx_last_assert s))) @ ''/'' @
               dec (length (hx_last_assert s)) @ '')''), LineSection) #
             map (\<lambda>a. (''  '' @ (if ar_passed a then ''PASS'' else ''FAIL'') @ '' '' @ ar_expr a @ '' ('' @ ar_detail a @ '')'',
               if ar_passed a then LinePass else LineFail)) (hx_last_assert s)) @
          (if rs_redirect_chain resp = [] then []
           else (section_title (''REDIRECTS ('' @ dec (length (rs_redirect_chain resp)) @ '')''), LineSection) #
             map (\<lambda>h. (''  '' @ dec (rh_status h) @ right_arrow @ rh_location h, LineRedirect)) (rs_redirect_chain resp)) @
          [([], LineNormal), (section_title ''headers'', LineSection)] @
          map (\<lambda>l. (l, LineNormal)) (str_lines (format_headers (rs_headers resp))) @
          graphql_errors env s resp @
          (case tls of None \<Rightarrow> []
           | Some ls \<Rightarrow> [([], LineNormal), (section_title ''tls'', LineSection)] @ map (\<lambda>l. (l, LineNormal)) ls))"

section \<open>Saving and loading\<close>

lemma split_nonempty: "split_chr c s \<noteq> []"
  by (induction s) (auto split: list.split)

lemma join_split: "join [c] (split_chr c s) = s"
proof (induction s)
  case (Cons x s)
  obtain p ps where "split_chr c s = p # ps" using split_nonempty [of c s] by (cases "split_chr c s") auto
  with Cons show ?case by (cases ps) auto
qed simp

lemma split_none: "c \<notin> set p" if "p \<in> set (split_chr c s)" for p
  using that by (induction s arbitrary: p) (auto split: list.splits if_splits)

lemma split_other: "x \<notin> set s \<Longrightarrow> p \<in> set (split_chr c s) \<Longrightarrow> x \<notin> set p"
  by (induction s arbitrary: p) (auto split: list.splits if_splits)

lemma split_last: "s \<noteq> [] \<Longrightarrow> last s \<noteq> c \<Longrightarrow> last (split_chr c s) \<noteq> []"
  by (induction s) (auto simp: split_nonempty split: list.splits if_splits)

text \<open>Texts an area keeps: one line, or lines apart by line feeds only, the last one not empty.\<close>

definition area_keeps :: "string \<Rightarrow> bool" where
  "area_keeps t \<longleftrightarrow> CHR 10 \<notin> set t \<or> CHR 13 \<notin> set t \<and> last t \<noteq> CHR 10"

lemma area_text: "area_keeps t \<Longrightarrow> text_of (set_text t) = t"
proof (cases "CHR 10 \<in> set t")
  case True
  assume "area_keeps t"
  with True have t: "CHR 13 \<notin> set t" "last t \<noteq> CHR 10" "t \<noteq> []" by (auto simp: area_keeps_def)
  have "map (\<lambda>l. if l \<noteq> [] \<and> last l = CHR 13 then butlast l else l) (butlast (split_chr (CHR 10) t)) = butlast (split_chr (CHR 10) t)"
    using split_other [OF t(1)] by (intro map_idI) (metis in_set_butlastD last_in_set)
  then have "str_lines t = split_chr (CHR 10) t"
    using split_last [OF t(3,2)] append_butlast_last_id [OF split_nonempty] by (simp add: str_lines_def Let_def)
  then show ?thesis using True t(3) join_split [of "CHR 10" t]
    by (simp add: set_text_def multi_line_def single_line_def text_of_def)
qed (simp add: one_line_area)

lemma header_area:
  assumes "list_all header_ok hs"
  shows "text_of (set_text (format_headers hs)) = format_headers hs"
proof (cases "format_headers hs = []")
  case False
  have "join [CHR 10] (str_lines (format_headers hs)) = format_headers hs"
    unfolding header_lines [OF assms] by (simp add: format_headers_def split_def)
  then show ?thesis using False by (simp add: set_text_def multi_line_def single_line_def text_of_def)
qed (simp add: one_line_area)

definition row_ok :: "form_field \<Rightarrow> bool" where
  "row_ok f \<longleftrightarrow> area_keeps (ff_key f) \<and> area_keeps (ff_value f) \<and>
     (case ff_file f of None \<Rightarrow> True | Some p \<Rightarrow> area_keeps p \<and> p \<noteq> [])"

text \<open>A request the editor can hold.\<close>

definition editable :: "saved_request \<Rightarrow> bool" where
  "editable r \<longleftrightarrow>
     (case sr_method r of None \<Rightarrow> False | Some m \<Rightarrow> area_keeps m) \<and>
     list_all area_keeps [sr_target r, sr_body r, sr_auth_token r, sr_auth_user r, sr_auth_pass r, sr_auth_key r,
       sr_auth_value r, sr_graphql_variables r, sr_graphql_operation r] \<and>
     list_all header_ok (sr_headers r) \<and> sr_auth_key r \<noteq> [] \<and>
     (sr_form_fields r \<noteq> [] \<longrightarrow> row_ok (hd (sr_form_fields r))) \<and>
     sr_kind r = (if sr_grpc_mode r then ''grpc'' else if sr_body_mode r = BodyGraphQL then ''graphql'' else ''http'')"

lemma load_saved_fields:
  "hx_method (load_saved r s) = set_text (default_to ''GET'' (sr_method r))"
  "hx_url (load_saved r s) = set_text (sr_target r)"
  "hx_headers (load_saved r s) = set_text (format_headers (sr_headers r))"
  "hx_body (load_saved r s) = set_text (sr_body r)"
  "hx_auth (load_saved r s) = sr_auth r"
  "hx_auth_token (load_saved r s) = set_text (sr_auth_token r)"
  "hx_auth_user (load_saved r s) = set_text (sr_auth_user r)"
  "hx_auth_pass (load_saved r s) = set_text (sr_auth_pass r)"
  "hx_auth_key (load_saved r s) = set_text (if sr_auth_key r = [] then ''X-Api-Key'' else sr_auth_key r)"
  "hx_auth_value (load_saved r s) = set_text (sr_auth_value r)"
  "hx_body_mode (load_saved r s) = (if sr_kind r = ''graphql'' then BodyGraphQL else sr_body_mode r)"
  "hx_form_fields (load_saved r s) = sr_form_fields r"
  "hx_form_row (load_saved r s) = 0"
  "hx_form_key (load_saved r s) = set_text (case sr_form_fields r of [] \<Rightarrow> [] | f # _ \<Rightarrow> ff_key f)"
  "hx_form_value (load_saved r s) = set_text (case sr_form_fields r of [] \<Rightarrow> [] | f # _ \<Rightarrow> ff_value f)"
  "hx_form_file (load_saved r s) = set_text (case sr_form_fields r of [] \<Rightarrow> [] | f # _ \<Rightarrow> default_to [] (ff_file f))"
  "hx_tests (load_saved r s) = sr_tests r"
  "hx_follow_redirects (load_saved r s) = sr_follow_redirects r"
  "hx_max_redirects (load_saved r s) = sr_max_redirects r"
  "hx_http_version (load_saved r s) = sr_http_version r"
  "hx_graphql_vars (load_saved r s) = set_text (sr_graphql_variables r)"
  "hx_graphql_op (load_saved r s) = set_text (sr_graphql_operation r)"
  "hx_pre_script (load_saved r s) = sr_pre_script r"
  "hx_grpc_mode (load_saved r s) = (sr_kind r = ''grpc'' \<or> sr_grpc_mode r)"
  "hx_grpc_descriptor (load_saved r s) = sr_grpc_descriptor r"
  "hx_grpc_message_type (load_saved r s) = sr_grpc_message_type r"
  "hx_grpc_reply_type (load_saved r s) = sr_grpc_reply_type r"
  "hx_composer_mode (load_saved r s) = hx_composer_mode s"
  "hx_cookies (load_saved r s) = hx_cookies s"
  by (cases "sr_form_fields r"; simp add: load_saved_def sync_form_editor_from_row_def idx_def Let_def)+

lemma row_back:
  assumes "row_ok f"
  shows "edited_field (s\<lparr>hx_form_key := set_text (ff_key f), hx_form_value := set_text (ff_value f),
    hx_form_file := set_text (default_to [] (ff_file f))\<rparr>) = f"
proof -
  have "text_of (set_text []) = []" by (rule one_line_area) simp
  then show ?thesis
    using assms by (cases f) (auto simp: edited_field_def row_ok_def area_text split: option.splits)
qed

lemma loaded_form: "editable r \<Longrightarrow> current_form (load_saved r s) = sr_form_fields r"
proof (cases "sr_form_fields r")
  case Nil
  then show ?thesis by (simp add: load_saved_fields current_form_def)
next
  case (Cons f fs)
  assume "editable r"
  then have "row_ok f" using Cons by (simp add: editable_def)
  from row_back [OF this] have "edited_field (load_saved r s) = f"
    using Cons by (simp add: load_saved_fields edited_field_def)
  then show ?thesis using Cons by (simp add: load_saved_fields current_form_def)
qed

lemma loaded_texts:
  assumes "editable r"
  shows "t \<in> {sr_target r, sr_body r, sr_auth_token r, sr_auth_user r, sr_auth_pass r, sr_auth_key r, sr_auth_value r,
      sr_graphql_variables r, sr_graphql_operation r} \<Longrightarrow> text_of (set_text t) = t"
    "parse_header_block (text_of (set_text (format_headers (sr_headers r)))) = sr_headers r"
    "text_of (set_text (default_to ''GET'' (sr_method r))) = default_to ''GET'' (sr_method r)"
proof -
  show "text_of (set_text t) = t" if "t \<in> {sr_target r, sr_body r, sr_auth_token r, sr_auth_user r, sr_auth_pass r, sr_auth_key r,
      sr_auth_value r, sr_graphql_variables r, sr_graphql_operation r}"
    using that assms by (intro area_text) (auto simp: editable_def)
  show "parse_header_block (text_of (set_text (format_headers (sr_headers r)))) = sr_headers r"
    using assms header_area header_block_back by (simp add: editable_def)
  show "text_of (set_text (default_to ''GET'' (sr_method r))) = default_to ''GET'' (sr_method r)"
    using assms by (intro area_text) (auto simp: editable_def split: option.splits)
qed

text \<open>
  C?: Loading a saved request into the editor and saving it again gives the request: nothing the
  editor can hold is lost or changed on the way, from the headers to the row of the form.
\<close>

theorem saved_roundtrip:
  assumes "editable r"
  shows "to_saved (sr_name r) (load_saved r s) = r"
proof -
  obtain m where m: "sr_method r = Some m" using assms by (auto simp: editable_def split: option.splits)
  have kind: "sr_kind r = (if sr_grpc_mode r then ''grpc'' else if sr_body_mode r = BodyGraphQL then ''graphql'' else ''http'')"
    and key: "sr_auth_key r \<noteq> []" using assms by (simp_all add: editable_def)
  have mode: "(if sr_kind r = ''graphql'' then BodyGraphQL else sr_body_mode r) = sr_body_mode r"
    "(sr_kind r = ''grpc'' \<or> sr_grpc_mode r) = sr_grpc_mode r" using kind by (auto split: if_splits)
  show ?thesis
    using m loaded_texts(3) [OF assms]
    by (intro saved_request.equality)
      (simp_all only: to_saved_def saved_request.select_convs load_saved_fields mode kind [symmetric] key
        loaded_texts(1,2) [OF assms] loaded_form [OF assms] insert_iff simp_thms option.case default_to_simps if_False, simp)
qed

definition sample_request :: saved_request where
  "sample_request = default_request\<lparr>sr_name := ''login'', sr_target := ''http://h/login'', sr_method := Some ''POST'',
     sr_headers := [(''Accept'', ''*/*''), (''X-Empty'', [])], sr_body_mode := BodyUrlEncoded,
     sr_form_fields := [\<lparr>ff_key = ''user'', ff_value = ''a b'', ff_file = None\<rparr>]\<rparr>"

lemma sample_editable: "editable sample_request"
  by code_simp

definition sample_session :: http_session where
  "sample_session = http_session_new \<lparr>cj_enabled = False, cj_cookies = []\<rparr> [] (TgtHttp ''http://a/'' False) 8"

theorem saved_roundtrip_witness:
  "to_saved ''login'' (load_saved sample_request sample_session) = sample_request"
proof -
  have "sr_name sample_request = ''login''" by (simp add: sample_request_def)
  then show ?thesis using saved_roundtrip [OF sample_editable] by metis
qed

section \<open>The form\<close>

datatype form_op =
    OpAddRow | OpDeleteRow | OpRowUp | OpRowDown | OpCell bool | OpNextField | OpSetField http_field | OpNextAuth
  | OpNextMode | OpType "string list" | OpLoadSaved saved_request | OpLoadEntry history_entry
  | OpLoadObject http_object | OpCollection collection

fun form_step :: "form_op \<Rightarrow> http_session \<Rightarrow> http_session option" where
  "form_step OpAddRow s = Some (form_add_row s)"
| "form_step OpDeleteRow s = form_delete_row s"
| "form_step OpRowUp s = Some (form_row_up s)"
| "form_step OpRowDown s = Some (form_row_down s)"
| "form_step (OpCell back) s = Some (next_cell back s)"
| "form_step OpNextField s = Some (cycle_field s)"
| "form_step (OpSetField f) s = Some (set_field f s)"
| "form_step OpNextAuth s = Some (cycle_auth s)"
| "form_step OpNextMode s = Some (cycle_body_mode s)"
| "form_step (OpType ls) s = Some (type_in ls s)"
| "form_step (OpLoadSaved r) s = Some (load_saved r s)"
| "form_step (OpLoadEntry e) s = Some (load_history e s)"
| "form_step (OpLoadObject obj) s = Some (load_http_object obj s)"
| "form_step (OpCollection c) s = Some (apply_collection c s)"

fun form_run :: "form_op list \<Rightarrow> http_session \<Rightarrow> http_session option" where
  "form_run [] s = Some s"
| "form_run (op # ops) s = Option.bind (form_step op s) (form_run ops)"

definition form_ok :: "http_session \<Rightarrow> bool" where
  "form_ok s \<longleftrightarrow> hx_form_row s < length (hx_form_fields s) \<or> hx_form_fields s = [] \<and> hx_form_row s = 0"

lemma sync_form [simp]:
  "hx_form_fields (sync_form_editor_from_row s) = hx_form_fields s"
  "hx_form_row (sync_form_editor_from_row s) = hx_form_row s"
  "hx_field (sync_form_editor_from_row s) = hx_field s"
  "hx_auth (sync_form_editor_from_row s) = hx_auth s"
  "hx_body_mode (sync_form_editor_from_row s) = hx_body_mode s"
  by (simp_all add: sync_form_editor_from_row_def split: option.split)

lemma commit_form [simp]:
  "length (hx_form_fields (commit_form_editor_to_row s)) = length (hx_form_fields s)"
  "hx_field (commit_form_editor_to_row s) = hx_field s"
  "hx_auth (commit_form_editor_to_row s) = hx_auth s"
  "hx_body_mode (commit_form_editor_to_row s) = hx_body_mode s"
  by (simp_all add: commit_form_editor_to_row_def Let_def)

lemma commit_ok: "form_ok (commit_form_editor_to_row s) \<longleftrightarrow> form_ok s \<or> hx_form_fields s \<noteq> []"
  by (auto simp: commit_form_editor_to_row_def form_ok_def Let_def)

lemma form_ok_update:
  "form_ok s \<Longrightarrow> hx_form_fields s' = hx_form_fields s \<Longrightarrow> hx_form_row s' = hx_form_row s \<Longrightarrow> form_ok s'"
  by (simp add: form_ok_def)

lemma add_row_ok: "form_ok (form_add_row s)"
  by (simp add: form_add_row_def form_ok_def Let_def)

lemma add_row_mode [simp]: "hx_body_mode (form_add_row s) = hx_body_mode s"
  by (simp add: form_add_row_def Let_def)

lemma loaded_ok: "form_ok (load_saved r s)"
  by (simp add: form_ok_def load_saved_fields)

lemma mode_ok:
  assumes "form_ok s"
  shows "form_ok (cycle_body_mode s)"
proof -
  define t where "t = (commit_form_editor_to_row s)\<lparr>hx_body_mode := body_mode_after (hx_body_mode (commit_form_editor_to_row s))\<rparr>"
  define u where "u = (if form_mode (hx_body_mode t) \<and> hx_form_fields t = [] then form_add_row t else t)"
  have "form_ok (commit_form_editor_to_row s)" using assms commit_ok by blast
  then have "form_ok t" by (rule form_ok_update) (simp_all add: t_def)
  then have "form_ok u" by (simp add: u_def add_row_ok)
  moreover have "cycle_body_mode s =
      (if form_mode (hx_body_mode u) then sync_form_editor_from_row (u\<lparr>hx_field := FldForm\<rparr>)
       else if hx_body_mode (u\<lparr>hx_field := FldBody\<rparr>) = BodyGraphQL \<and> eq_ignore_case (text_of (hx_method (u\<lparr>hx_field := FldBody\<rparr>))) ''GET''
       then u\<lparr>hx_field := FldBody, hx_method := set_text ''POST''\<rparr> else u\<lparr>hx_field := FldBody\<rparr>)"
    unfolding cycle_body_mode_def Let_def t_def [symmetric] u_def [symmetric] by (rule refl)
  ultimately show ?thesis by (simp add: form_ok_def)
qed

lemma form_step_ok:
  assumes "form_ok s"
  shows "\<exists>s'. form_step op s = Some s' \<and> form_ok s'"
proof (cases op)
  case OpDeleteRow
  then show ?thesis using assms by (auto simp: form_delete_row_def form_ok_def Let_def)
next
  case OpRowUp
  have "form_ok (commit_form_editor_to_row s)" using assms commit_ok by blast
  then show ?thesis using OpRowUp by (auto simp: form_row_up_def form_ok_def Let_def)
next
  case OpRowDown
  have "form_ok (commit_form_editor_to_row s)" using assms commit_ok by blast
  then show ?thesis using OpRowDown by (auto simp: form_row_down_def form_ok_def Let_def)
next
  case OpNextField
  then show ?thesis using assms commit_ok [of s] by (auto simp: cycle_field_def commit_auth_and_form_def form_ok_def Let_def)
next
  case (OpSetField f)
  then show ?thesis using assms commit_ok [of s] by (auto simp: set_field_def commit_auth_and_form_def form_ok_def Let_def)
next
  case OpNextMode
  then show ?thesis using mode_ok [OF assms] by simp
next
  case (OpType ls)
  have "form_ok (type_in ls s)"
    using assms by (rule form_ok_update) (simp_all add: type_in_def split: http_field.split form_cell.split)
  then show ?thesis using OpType by simp
next
  case (OpLoadEntry e)
  then show ?thesis using assms by (simp add: load_history_def form_ok_def)
next
  case (OpLoadObject obj)
  then show ?thesis using assms by (simp add: load_http_object_def form_ok_def)
next
  case (OpCollection c)
  then show ?thesis using assms loaded_ok by (auto simp: apply_collection_def form_ok_def Let_def split: option.split)
qed (use assms add_row_ok loaded_ok in \<open>simp_all add: next_cell_def cycle_auth_def form_ok_def Let_def\<close>)

lemma form_run_ok: "form_ok s \<Longrightarrow> \<exists>s'. form_run ops s = Some s' \<and> form_ok s'"
proof (induction ops arbitrary: s)
  case (Cons op ops)
  then show ?case using form_step_ok [OF Cons.prems, of op] by fastforce
qed simp

text \<open>
  C?: The form editor never panics: whatever is added, deleted, typed, loaded and switched, in any
  order, the row being edited is one of the form, or the form is empty.
\<close>

theorem form_never_panics:
  "\<exists>s. form_run ops (http_session_new jar dir t n) = Some s \<and>
     (hx_form_fields s = [] \<or> hx_form_row s < length (hx_form_fields s))"
proof -
  have "form_ok (http_session_new jar dir t n)"
    by (simp add: form_ok_def http_session_new_def reload_history_pane_def Let_def)
  from form_run_ok [OF this] show ?thesis by (fastforce simp: form_ok_def)
qed

section \<open>Going through the fields\<close>

text \<open>The fields the request depends on, by the kind of authentication and of body.\<close>

definition auth_fields :: "auth_kind \<Rightarrow> http_field set" where
  "auth_fields a =
     (case a of AuthNone \<Rightarrow> {} | AuthBearer \<Rightarrow> {FldAuthToken} | AuthBasic \<Rightarrow> {FldAuthUser, FldAuthPass}
      | AuthApiKeyHeader \<Rightarrow> {FldAuthKey, FldAuthValue} | AuthApiKeyQuery \<Rightarrow> {FldAuthKey, FldAuthValue}
      | AuthOAuth2 \<Rightarrow> {FldAuthUser, FldAuthPass, FldAuthKey, FldAuthValue, FldAuthToken})"

definition body_fields :: "body_mode \<Rightarrow> http_field set" where
  "body_fields m =
     (case m of BodyRaw \<Rightarrow> {FldBody} | BodyUrlEncoded \<Rightarrow> {FldForm} | BodyMultipart \<Rightarrow> {FldForm}
      | BodyGraphQL \<Rightarrow> {FldBody, FldGraphqlVars, FldGraphqlOp})"

definition used_fields :: "auth_kind \<Rightarrow> body_mode \<Rightarrow> http_field set" where
  "used_fields a m = {FldMethod, FldUrl, FldAuthKind, FldHeaders} \<union> auth_fields a \<union> body_fields m"

lemma commit_auth [simp]:
  "hx_field (commit_auth_and_form s) = hx_field s" "hx_auth (commit_auth_and_form s) = hx_auth s"
  "hx_body_mode (commit_auth_and_form s) = hx_body_mode s"
  by (simp_all add: commit_auth_and_form_def)

lemma cycle_field_kinds [simp]:
  "hx_auth (cycle_field s) = hx_auth s" "hx_body_mode (cycle_field s) = hx_body_mode s"
  "hx_field (cycle_field s) = field_after (hx_auth s) (hx_body_mode s) (hx_field s)"
  by (simp_all add: cycle_field_def Let_def)

lemma cycle_field_iter:
  "hx_auth ((cycle_field ^^ k) s) = hx_auth s \<and> hx_body_mode ((cycle_field ^^ k) s) = hx_body_mode s \<and>
   hx_field ((cycle_field ^^ k) s) = (field_after (hx_auth s) (hx_body_mode s) ^^ k) (hx_field s)"
  by (induction k) simp_all

lemma field_round:
  "\<exists>n > 0. (field_after a m ^^ n) FldMethod = FldMethod \<and>
     distinct (map (\<lambda>k. (field_after a m ^^ k) FldMethod) [0..<n]) \<and>
     set (map (\<lambda>k. (field_after a m ^^ k) FldMethod) [0..<n]) = used_fields a m"
proof -
  define n where "n = card (used_fields a m)"
  have "n > 0 \<and> (field_after a m ^^ n) FldMethod = FldMethod \<and>
     distinct (map (\<lambda>k. (field_after a m ^^ k) FldMethod) [0..<n]) \<and>
     set (map (\<lambda>k. (field_after a m ^^ k) FldMethod) [0..<n]) = used_fields a m"
    unfolding n_def
    by (cases a; cases m)
      (auto simp: used_fields_def auth_fields_def body_fields_def form_mode_def numeral_eq_Suc upt_rec)
  then show ?thesis by blast
qed

text \<open>
  C?: Tab goes through exactly the fields that matter: from the method it comes to every field the
  chosen authentication and body depend on, to each of them once, to no other, and back to the method.
\<close>

theorem tab_round:
  assumes "hx_field s = FldMethod"
  shows "\<exists>n > 0. hx_field ((cycle_field ^^ n) s) = FldMethod \<and>
    distinct (map (\<lambda>k. hx_field ((cycle_field ^^ k) s)) [0..<n]) \<and>
    set (map (\<lambda>k. hx_field ((cycle_field ^^ k) s)) [0..<n]) = used_fields (hx_auth s) (hx_body_mode s)"
  using field_round [of "hx_auth s" "hx_body_mode s"] by (simp add: cycle_field_iter assms)

theorem tab_round_witness:
  "\<exists>n > 0. hx_field ((cycle_field ^^ n) (set_field FldMethod sample_session)) = FldMethod"
  using tab_round [of "set_field FldMethod sample_session"] by (auto simp: set_field_def Let_def)

section \<open>What is saved is what is sent\<close>

definition spec_of :: "saved_request \<Rightarrow> request_spec" where
  "spec_of r =
     \<lparr>rq_method = default_to ''GET'' (sr_method r), rq_url = sr_target r, rq_headers = sr_headers r, rq_body = as_bytes (sr_body r),
      rq_follow_redirects = sr_follow_redirects r, rq_max_redirects = sr_max_redirects r, rq_auth = sr_auth r,
      rq_auth_token = sr_auth_token r, rq_auth_user = sr_auth_user r, rq_auth_pass = sr_auth_pass r, rq_auth_key = sr_auth_key r,
      rq_auth_value = sr_auth_value r, rq_body_mode = sr_body_mode r, rq_form_fields = sr_form_fields r,
      rq_http_version = sr_http_version r\<rparr>"

lemma loaded_spec:
  assumes "editable r" "sr_kind r \<noteq> ''graphql''"
  shows "edited_spec body (load_saved r s) = (spec_of r)\<lparr>rq_body := body\<rparr>"
proof -
  have key: "sr_auth_key r \<noteq> []" using assms(1) by (simp add: editable_def)
  show ?thesis
    unfolding edited_spec_def spec_of_def load_saved_fields loaded_form [OF assms(1)] loaded_texts(2,3) [OF assms(1)]
    using key assms(2) by (simp add: loaded_texts(1) [OF assms(1)])
qed

lemma no_backslash: "CHR 92 \<notin> set t \<Longrightarrow> 92 \<notin> set (as_bytes t)"
proof
  assume t: "CHR 92 \<notin> set t" "92 \<in> set (as_bytes t)"
  then obtain c where "c \<in> set t" "(92 :: u8) = byte_of_chr c" unfolding as_bytes_members by blast
  moreover have "chr_of_byte 92 = CHR 92" by code_simp
  ultimately show False using t(1) byte_of_chr_inverse by metis
qed

text \<open>
  C?: A saved request is sent as it was saved: without a collection and without cookies the request built
  from the loaded editor has the saved method, URL, headers, body, form and credentials, for any body in
  UTF-8 without a backslash.
\<close>

theorem saved_is_sent:
  assumes "editable r" "sr_body_mode r \<noteq> BodyGraphQL" "sr_body_mode r = BodyUrlEncoded \<longrightarrow> sr_form_fields r \<noteq> []"
    "utf8_valid (as_bytes (sr_body r))" "CHR 92 \<notin> set (sr_body r)"
    "hx_composer_mode s = ModeUtf8" "cookie_header_for now (hx_cookies s) (sr_target r) = None"
  shows "build_spec env now None (load_saved r s) = Some (Inr (spec_of r))"
proof -
  have kind: "sr_kind r \<noteq> ''graphql''" using assms(1,2) by (auto simp: editable_def)
  from esc_loop_plain [OF assms(4) no_backslash [OF assms(5)], of "[]"]
  have "decode_payload (text_of (hx_body (load_saved r s))) (hx_composer_mode (load_saved r s)) = Some (Inr (as_bytes (sr_body r)))"
    using loaded_texts(1) [OF assms(1), of "sr_body r"] assms(6) by (simp add: load_saved_fields decode_payload_def decode_utf8_escapes_def)
  moreover have "hx_body_mode (load_saved r s) \<noteq> BodyGraphQL" using assms(2) kind by (simp add: load_saved_fields)
  moreover have "(spec_of r)\<lparr>rq_body := as_bytes (sr_body r)\<rparr> = spec_of r" by (simp add: spec_of_def)
  moreover have "finish_spec now None (hx_cookies (load_saved r s)) (spec_of r) = spec_of r"
    using assms(3,7) by (auto simp: finish_spec_def load_saved_fields spec_of_def)
  ultimately show ?thesis using loaded_spec [OF assms(1) kind] by (simp add: build_spec_def)
qed

definition sample_session_env :: session_env where
  "sample_session_env =
     \<lparr>se_http = plain_env, se_grpc = answering,
      se_assert = \<lparr>ae_json = \<lparr>jc_parse = \<lambda>_. None, jc_print = \<lambda>_. [], jc_pretty = \<lambda>_. []\<rparr>, ae_debug = id\<rparr>,
      se_json = \<lparr>jc_parse = \<lambda>_. None, jc_print = \<lambda>_. [], jc_pretty = \<lambda>_. []\<rparr>, se_script = \<lambda>_ scope. Inr scope,
      se_to_protobuf = \<lambda>_ _ _. Inr [], se_from_protobuf = \<lambda>_ _ _. None, se_json_error = \<lambda>_. ''bad'',
      se_client_error = \<lambda>_. ''failed'', se_grpc_error = \<lambda>_. ''failed''\<rparr>"

lemma sample_fields: "hx_composer_mode sample_session = ModeUtf8" "hx_cookies sample_session = \<lparr>cj_enabled = False, cj_cookies = []\<rparr>"
    "hx_body_mode sample_session = BodyRaw"
  by (simp_all add: sample_session_def http_session_new_def reload_history_pane_def Let_def)

theorem saved_is_sent_witness:
  "build_spec sample_session_env 0 None (load_saved sample_request sample_session) = Some (Inr (spec_of sample_request))"
proof (rule saved_is_sent [OF sample_editable])
  show "utf8_valid (as_bytes (sr_body sample_request))"
    by (simp add: sample_request_def default_request_def as_bytes_def utf8_valid.simps)
qed (simp_all add: sample_fields cookie_header_for_def sample_request_def default_request_def)

lemma esc_loop_ascii_run:
  "list_all (\<lambda>c. of_char c < (128 :: nat) \<and> c \<noteq> CHR 92) u \<Longrightarrow> esc_loop out (as_bytes u @ r) = esc_loop (out @ as_bytes u) r"
proof (induction u arbitrary: out)
  case (Cons c u)
  have "92 \<notin> set (as_bytes [c])" using Cons.prems by (intro no_backslash) auto
  then have "byte_of_chr c \<noteq> 92" by (simp add: as_bytes_def)
  moreover have "unat (byte_of_chr c) < 128" using Cons.prems by (simp add: byte_of_chr_def)
  ultimately show ?case using Cons by (simp add: as_bytes_def)
qed (simp add: as_bytes_def)

text \<open>
  C?: The body editor undoes escapes that belong to the body: where a JSON text has \<open>\\n\<close> inside a string,
  the request has a line feed, which JSON does not allow there.
\<close>

theorem json_escapes_undone:
  assumes "hx_composer_mode s = ModeUtf8" "hx_body_mode s = BodyRaw"
    "text_of (hx_body s) = u @ [CHR 92, CHR ''n''] @ v"
    "list_all (\<lambda>c. of_char c < (128 :: nat) \<and> c \<noteq> CHR 92) u" "utf8_valid (as_bytes v)" "CHR 92 \<notin> set v"
  shows "\<exists>spec. build_spec env now None s = Some (Inr spec) \<and> rq_body spec = as_bytes u @ [10] @ as_bytes v"
proof -
  have "decode_payload (text_of (hx_body s)) (hx_composer_mode s) = Some (Inr (as_bytes u @ [10] @ as_bytes v))"
  proof -
    have "esc_loop [] (as_bytes (u @ [CHR 92, CHR ''n''] @ v)) = esc_loop (as_bytes u) (as_bytes [CHR 92, CHR ''n''] @ as_bytes v)"
      using esc_loop_ascii_run [OF assms(4), of "[]" "as_bytes [CHR 92, CHR ''n''] @ as_bytes v"] by (simp add: as_bytes_def)
    also have "as_bytes [CHR 92, CHR ''n''] = [92, 110]" by code_simp
    also have "esc_loop (as_bytes u) ([92, 110] @ as_bytes v) = esc_loop (as_bytes u @ [10]) (as_bytes v)" by simp
    also have "\<dots> = Some (Inr ((as_bytes u @ [10]) @ as_bytes v))"
      by (rule esc_loop_plain [OF assms(5) no_backslash [OF assms(6)]])
    finally show ?thesis by (simp add: assms(1,3) decode_payload_def decode_utf8_escapes_def)
  qed
  moreover have "rq_body (finish_spec now None jar spec) = rq_body spec" if "rq_body_mode spec = BodyRaw" for jar spec
    using that by (simp add: finish_spec_def set_header_def Let_def split: option.split)
  ultimately show ?thesis using assms(2) by (simp add: build_spec_def edited_spec_def)
qed

theorem json_escapes_undone_witness:
  "\<exists>spec. build_spec sample_session_env 0 None (sample_session\<lparr>hx_body := [[CHR 34, CHR ''a'', CHR 92, CHR ''n'', CHR 34]]\<rparr>) = Some (Inr spec) \<and>
     rq_body spec = [34, 97, 10, 34]"
proof -
  have bs: "as_bytes [CHR 34, CHR ''a''] @ [10] @ as_bytes [CHR 34] = [34, 97, 10, 34]" by code_simp
  have v: "utf8_valid (as_bytes [CHR 34])" by (rule utf8_valid_ascii) (auto simp: as_bytes_def byte_of_chr_def)
  show ?thesis
    using json_escapes_undone [of "sample_session\<lparr>hx_body := [[CHR 34, CHR ''a'', CHR 92, CHR ''n'', CHR 34]]\<rparr>" "[CHR 34, CHR ''a'']" "[CHR 34]"
        sample_session_env 0] v bs
    by (simp add: sample_fields text_of_def del: as_bytes_simps)
qed

section \<open>Exchanges\<close>

definition recorded ::
    "session_env \<Rightarrow> exchange_times \<Rightarrow> http_session \<Rightarrow> history_dir \<Rightarrow> history_dir \<Rightarrow> http_session \<Rightarrow> bool" where
  "recorded env xt s dir dir' s' \<longleftrightarrow>
     (\<exists>spec ms resp out om inp im. dir' = append_history (xt_now xt) ms spec resp dir \<and> hx_last_response s' = Some resp \<and>
        hx_last_assert s' = run_tests (se_assert env) (hx_tests s) resp \<and>
        hx_frames s' = fb_push_full (xt_in xt) (xt_wall_in xt) DirIn inp None (Some im)
          (fb_push_full (xt_out xt) (xt_wall_out xt) DirOut out None (Some om) (hx_frames s)))"

definition unchanged :: "http_session \<Rightarrow> history_dir \<Rightarrow> history_dir \<Rightarrow> http_session \<Rightarrow> bool" where
  "unchanged s dir dir' s' \<longleftrightarrow> dir' = dir \<and> hx_frames s' = hx_frames s \<and> hx_last_response s' = hx_last_response s"

lemma send_http_settles:
  assumes "send_http env xt spec dir s = Some (dir', s')"
  shows "\<not> hx_in_flight s' \<and> (unchanged s dir dir' s' \<or> recorded env xt s dir dir' s')"
proof (cases "snd (send_request (se_http env) spec)")
  case (Inl e)
  then show ?thesis using assms by (auto simp: send_http_def unchanged_def)
next
  case (Inr resp)
  let ?in = "fb_push_full (xt_in xt) (xt_wall_in xt) DirIn (rs_body resp) None
    (Some (''HTTP '' @ dec (rs_status resp) @ '' ('' @ rs_version resp @ '')''))"
  let ?out = "fb_push_full (xt_out xt) (xt_wall_out xt) DirOut (as_bytes (rq_method spec @ '' '' @ rq_url spec)) None (Some ''request'')"
  have "dir' = append_history (xt_now xt) (xt_ms xt) spec resp dir" "hx_last_response s' = Some resp" "\<not> hx_in_flight s'"
    "hx_last_assert s' = run_tests (se_assert env) (hx_tests s) resp" "hx_frames s' = ?in (?out (hx_frames s))"
    using assms Inr by (auto simp: send_http_def Let_def log_exchange_def reload_history_pane_def simp del: as_bytes_simps append.simps)
  then show ?thesis unfolding recorded_def by blast
qed

lemma send_grpc_settles:
  assumes "send_grpc env xt spec0 dir s = (dir', s')"
  shows "\<not> hx_in_flight s' \<and> (unchanged s dir dir' s' \<or> recorded env xt s dir dir' s')"
proof -
  define spec where "spec = apply_auth (se_http env) spec0"
  define msg where "msg = (if hx_grpc_descriptor s \<noteq> [] \<and> hx_grpc_message_type s \<noteq> []
      then se_to_protobuf env (hx_grpc_descriptor s) (hx_grpc_message_type s) (from_utf8_lossy (rq_body spec)) else Inr (rq_body spec))"
  note unfolded = assms [unfolded send_grpc_def Let_def, folded spec_def, folded msg_def]
  show ?thesis
  proof (cases msg)
    case (Inl e)
    then show ?thesis using unfolded by (auto simp: unchanged_def)
  next
    case (Inr message)
    let ?req = "\<lparr>gq_url = rq_url spec, gq_message = message, gq_authority = authority_from_url (rq_url spec), gq_headers = rq_headers spec\<rparr>"
    show ?thesis
    proof (cases "unary_call (se_grpc env) ?req")
      case (Inl e)
      then show ?thesis using unfolded Inr by (auto simp: unchanged_def)
    next
      case resp: (Inr resp)
      let ?resp = "\<lparr>rs_status = nat (gr_status resp mod 2 ^ 16), rs_headers = gr_headers resp,
        rs_body = as_bytes (grpc_preview env s resp), rs_redirect_chain = [], rs_version = ''h2''\<rparr>"
      let ?in = "fb_push_full (xt_in xt) (xt_wall_in xt) DirIn (as_bytes (grpc_preview env s resp)) None (Some (''grpc '' @ int_dec (gr_status resp)))"
      let ?out = "fb_push_full (xt_out xt) (xt_wall_out xt) DirOut (as_bytes (''gRPC '' @ rq_url spec)) None (Some ''grpc-request'')"
      have "dir' = append_history (xt_now xt) 0 spec ?resp dir" "hx_last_response s' = Some ?resp" "\<not> hx_in_flight s'"
        "hx_last_assert s' = run_tests (se_assert env) (hx_tests s) ?resp" "hx_frames s' = ?in (?out (hx_frames s))"
        using unfolded Inr resp
        by (auto simp: log_exchange_def reload_history_pane_def Let_def simp del: as_bytes_simps append.simps)
      then show ?thesis unfolding recorded_def by blast
    qed
  qed
qed

text \<open>
  C?: An exchange is recorded as a whole or not at all: after sending, the session is ready again, and
  either the log, the history and the last response are as before, or the log has one frame out and
  one frame in more, the history has the response, and the tests have been run on it.
\<close>

theorem send_settles:
  assumes "send_now env xt col dir s = Some (dir', s')" "\<not> hx_in_flight s"
  shows "\<not> hx_in_flight s' \<and> (unchanged s dir dir' s' \<or> recorded env xt s dir dir' s')"
proof -
  define t where "t = commit_form_editor_to_row s"
  have t: "hx_frames t = hx_frames s" "hx_last_response t = hx_last_response s" "hx_tests t = hx_tests s" "hx_in_flight t = hx_in_flight s"
    by (simp_all add: t_def commit_form_editor_to_row_def Let_def)
  define go where "go = t\<lparr>hx_in_flight := True, hx_status := StConnecting, hx_status_msg := ''sending'' @ ellipsis\<rparr>"
  have go: "unchanged go d d' u = unchanged s d d' u" "recorded env xt go d d' u = recorded env xt s d d' u" for d d' u
    by (simp_all add: unchanged_def recorded_def go_def t)
  consider (none) e where "dir' = dir" "s' = t\<lparr>hx_status_msg := e\<rparr>"
    | (grpc) spec where "send_grpc env xt spec dir go = (dir', s')"
    | (http) spec where "send_http env xt spec dir go = Some (dir', s')"
    using assms unfolding send_now_def Let_def t_def [symmetric] go_def [symmetric]
    by (auto split: option.splits sum.splits if_splits)
  then show ?thesis
  proof cases
    case none
    then show ?thesis using t assms(2) by (simp add: unchanged_def)
  next
    case grpc
    then show ?thesis using send_grpc_settles go by blast
  next
    case http
    then show ?thesis using send_http_settles go by blast
  qed
qed

definition sample_times :: exchange_times where
  "sample_times = \<lparr>xt_out = 1, xt_in = 2, xt_wall_out = 0, xt_wall_in = 0, xt_now = 7, xt_ms = 3\<rparr>"

lemma sample_spec: "\<exists>spec. build_spec sample_session_env 7 None sample_session = Some (Inr spec)"
proof -
  have "decode_payload (text_of (hx_body sample_session)) ModeUtf8 = Some (Inr [])" by code_simp
  then show ?thesis by (simp add: build_spec_def sample_fields)
qed

lemma sample_sent: "\<exists>dir' s'. send_now sample_session_env sample_times None [] sample_session = Some (dir', s')"
proof -
  have s: "commit_form_editor_to_row sample_session = sample_session" "\<not> hx_in_flight sample_session" "hx_pre_script sample_session = []"
    "\<not> hx_grpc_mode sample_session"
    by (simp_all add: sample_session_def http_session_new_def reload_history_pane_def commit_form_editor_to_row_def Let_def)
  obtain spec where spec: "build_spec sample_session_env 7 None sample_session = Some (Inr spec)" using sample_spec by blast
  have "trim [] = []" by code_simp
  moreover have "send_http env xt spec dir t \<noteq> None" if "\<not> cj_enabled (hx_cookies t)" for env xt dir t
    using that by (auto simp: send_http_def store_from_response_def split: sum.split)
  ultimately show ?thesis
    using s spec sample_fields(2) by (auto simp: send_now_def sample_times_def run_pre_script_def Let_def)
qed

theorem send_settles_witness:
  "\<exists>dir' s'. send_now sample_session_env sample_times None [] sample_session = Some (dir', s') \<and> \<not> hx_in_flight s'"
proof -
  obtain dir' s' where "send_now sample_session_env sample_times None [] sample_session = Some (dir', s')" using sample_sent by blast
  moreover have "\<not> hx_in_flight sample_session" by (simp add: sample_session_def http_session_new_def reload_history_pane_def Let_def)
  ultimately show ?thesis using send_settles by blast
qed

end
