(* ===== verification/Spec2Isabelle.thy ===== *)
theory Spec2Isabelle
  imports Framing Frame Composer Fuzz Tree Packet Pcap Expert Decrypt Dissect Reassembly Coloring CapFilter Bpf DispFilter Secrets Export Follow Analysis Ring Rpcap Cookies Proxy Targets Session HttpClient Grpc Asserts Collections Import Codegen CaptureSession History HttpSession
begin

text \<open>
  Bitbeak is a terminal network workbench: it talks raw bytes to TCP, UDP, Unix and WebSocket peers,
  intercepts connections, sends HTTP and gRPC requests kept in collections, and captures, dissects and
  filters packets.  This library models the logic of \<open>src/src/\<close> as executable definitions and states
  what makes each part correct.

  \<^bold>\<open>Parts.\<close>  Bytes reach the program in two ways.  Transports hand reads to a stream session, which
  frames them (\<open>framing.rs\<close>), keeps them in a bounded ring (\<open>frame.rs\<close>) and sends what the composer
  holds; the proxy sits between two transports.  A capture thread hands packets to a capture session,
  which dissects them into a tree, flags, fields and warnings, keeps them in a bounded store, counts
  them, and shows those a display filter selects; a capture filter, compiled for the kernel where it
  can be, decides what the thread keeps.  HTTP requests are built from collections, sent along
  redirects, checked by assertions and turned into scripts.

  \<^bold>\<open>Theories.\<close>
  \<^item> \<open>Prelude\<close>, \<open>RustStr\<close>, \<open>NetAddr\<close>, \<open>Json\<close>: what the code uses of the standard library: byte orders,
    indexing and slicing, \<open>str\<close> over UTF-8 bytes, address parsing, JSON values.
  \<^item> \<open>Framing\<close>, \<open>Frame\<close>, \<open>Composer\<close>, \<open>Fuzz\<close>, \<open>Pcap\<close>, \<open>Export\<close>: \<open>framing.rs\<close> with \<open>transport/tcp.rs\<close>,
    \<open>frame.rs\<close>, \<open>composer.rs\<close>, \<open>fuzz.rs\<close>, \<open>pcap.rs\<close> and its reading back.
  \<^item> \<open>Tree\<close>, \<open>Packet\<close>, \<open>Layers\<close>, \<open>L7\<close>, \<open>Quic\<close>, \<open>L4\<close>, \<open>L3\<close>, \<open>L2\<close>, \<open>Expert\<close>, \<open>Decrypt\<close>, \<open>Secrets\<close>, \<open>Dissect\<close>,
    \<open>Reassembly\<close>, \<open>Coloring\<close>, \<open>Follow\<close>, \<open>Analysis\<close>: \<open>dissect/\<close>, one theory per layer, from the protocol
    tree up to the driver, and the tables made of its results.
  \<^item> \<open>FilterText\<close>, \<open>CapFilter\<close>, \<open>Bpf\<close>, \<open>DispFilter\<close>, \<open>Ring\<close>, \<open>Rpcap\<close>, \<open>CaptureSession\<close>: \<open>capture/\<close> and
    \<open>session/capture.rs\<close>: the two filter languages with the parser they share, the BPF compiler, the
    capture files, the remote client, the capture session with its thread.
  \<^item> \<open>Mitm\<close>, \<open>Assembler\<close>, \<open>Proxy\<close>, \<open>Targets\<close>, \<open>Session\<close>: \<open>tls_mitm.rs\<close>, \<open>session/proxy.rs\<close>, \<open>cli.rs\<close>,
    \<open>session/stream.rs\<close>, \<open>session/listen.rs\<close> and what \<open>app.rs\<close> makes of keys and clicks for them.
  \<^item> \<open>HttpClient\<close>, \<open>Grpc\<close>, \<open>Cookies\<close>, \<open>Asserts\<close>, \<open>Collections\<close>, \<open>Import\<close>, \<open>Codegen\<close>: \<open>http/\<close>,
    \<open>collections/\<close> and \<open>codegen.rs\<close>.
  This root theory holds what spans components: filters against dissected packets, and exported
  packets against dissector and capture filter.

  \<^bold>\<open>Correspondence.\<close>  A Rust struct is a record, an enum a datatype with its variants, a function a
  definition of the same name (with a suffix or prefix where the name is taken).  \<open>Bytes\<close> are lists of
  8-bit words, \<open>String\<close> is the list of its UTF-8 bytes as characters, checksums, masks and keys are
  words of their width, and lengths are naturals; where an addition or a cast can leave its width the
  definition says so.  A \<open>Result\<close> is a sum and an early return its \<open>Inl\<close>.  A panic is the value
  \<open>None\<close> of an outer \<open>option\<close>: indexing, slicing, division and unwrapping are written with the checked
  operations of \<open>Prelude\<close>, so that totality is a theorem about the code.  Arithmetic that overflows
  only in principle (counters of 64 bits) is modelled on naturals, saturating where the code does.
  Random numbers, clock readings, file outcomes, what a peer answers and what the libraries do
  (cryptography, DNS, httparse, HPACK, regular expressions, JSON text, percent encoding) are arguments:
  fields of an environment record such as \<open>l7_env\<close> or \<open>http_env\<close>, with the facts used of them as
  hypotheses of the theorem that needs them.

  \<^bold>\<open>Concurrency.\<close>  The proxy and the capture session are step relations: \<open>proxy_step\<close> interleaves the
  accept loop and the two directions of every splice, \<open>capture_step\<close> the capture thread, the bounded
  channel of 4096 packets and the interface, which may block in \<open>stop_capture\<close>.  Their properties are
  proved by rule induction on the relation and hold of every reachable state.

  \<^bold>\<open>Interfaces.\<close>  \<open>frame_decoder\<close> states what a codec promises to a reader and gives the independence
  of reads; \<open>id_ring\<close> is the bounded buffer with ascending numbers, interpreted on the frame ring and
  the packet store; \<open>layer\<close> is the contract of a dissector (the tree stays well-formed and the rest of
  the payload in range), interpreted on the layers that are total by themselves; \<open>filter_parser\<close> is
  printing and parsing of the connectives, interpreted on both filter languages; \<open>header_table\<close> is a
  table with case-insensitive names, interpreted on request headers and gRPC metadata.

  \<^bold>\<open>Groups of lemmas.\<close>  Round trips show that printing and parsing, encoding and decoding agree
  (filters, frames, targets, headers, key logs, gRPC, scripts); invariants show that trees, rings,
  stores, jars, selections and the proxy stay well-formed; refinements show that rings and tables hold
  the newest part of the history; totality shows that no input panics; and a number of theorems show
  defects, each by a reachable state or an input class for which the code does what it should not.

  \<^bold>\<open>Fuel and bounds.\<close>  Running out of fuel is \<open>None\<close>, like a panic, so every theorem that a result exists
  shows that the fuel is enough.  \<open>drain_fuel\<close> is twice the length of the buffer plus three: each frame
  but an empty one takes a byte.  The TLS record loops run with the length of the data plus one, a
  record taking at least one byte of it by the hypothesis on the parser; \<open>p_hash\<close> with the length asked
  for, each block giving at least one byte; IPv6 packets quoted in ICMPv6 errors with the length of the
  data, a quoted packet being 48 bytes shorter; the rows of a protocol tree with the number of its
  nodes, a child having a greater index than its parent.  Other loops are structural or have a measure.

  \<^bold>\<open>Not modelled.\<close>  Terminal rendering (\<open>ui/\<close>) and the event loop and palettes of \<open>app.rs\<close>; raw
  sockets and FFI (\<open>capture/linux.rs\<close>, \<open>macos.rs\<close>, \<open>windows.rs\<close>, \<open>npcap_install.rs\<close>); the asynchronous
  socket code of \<open>transport/\<close> but for its receive path and messages; TLS handshakes and certificates;
  the script engine, OAuth listener, history file and load generator; GeoIP and system name lookups;
  reading and writing files, except where their outcomes are arguments.  These parts are calls into
  libraries or the operating system with little logic of their own.
\<close>

section \<open>Filters on dissected packets\<close>

text \<open>No stored, guessed or computed field carries a name that ends in a comparison sign.\<close>

lemma eq_comparisons_cases:
  assumes "(opr, fld) \<in> set eq_comparisons"
    and "fld = ''frame.len'' \<Longrightarrow> thesis" "fld = ''frame.len !'' \<Longrightarrow> thesis"
    "fld = ''frame.len <'' \<Longrightarrow> thesis" "fld = ''frame.len >'' \<Longrightarrow> thesis"
  shows thesis
  using assms by (auto simp: eq_comparisons_def)

lemma no_such_field:
  assumes "fields_known (pr_fields pkt)" "(opr, fld) \<in> set eq_comparisons"
  shows "packet_field pkt fld = None"
proof -
  have names: "fld \<notin> known_fields" "fld \<noteq> ''http.host''" "\<And>f s. field_heuristic fld f s = None"
    "\<And>s. field_computed fld s = None"
    using assms(2) by (elim eq_comparisons_cases; simp add: known_fields_def field_heuristic_def field_computed_def)+
  then have "pr_fields pkt fld = None" using assms(1) by (auto simp: fields_known_def)
  with names show ?thesis by (simp add: packet_field_def field_candidates_def)
qed

lemma pushed_fields:
  assumes "push_raw env t data lt interface orig_len wall s = Some s'"
  shows "fields_known (pr_fields (last (st_packets s')))"
  using assms by (auto simp: push_raw_def store_push_def Let_def bind_eq_Some_conv dest: dissect_known)

text \<open>
  The display filters \<open>frame.len == n\<close>, \<open>!= n\<close>, \<open><= n\<close> and \<open>>= n\<close> parse without an
  error, but no packet a store receives ever matches one, whatever its length: the equals sign
  makes the parser read them as a comparison of a field named \<open>frame.len\<close> (or \<open>frame.len !\<close>,
  and so on), which no packet has.
\<close>

theorem frame_len_equality_never_matches:
  assumes "push_raw env t data lt interface orig_len wall s = Some s'"
    and "(opr, fld) \<in> set eq_comparisons"
  shows "\<exists>f. parse_display_filter re (''frame.len'' @ opr @ dec n) = Inr f \<and>
    \<not> df_matches re_match f (last (st_packets s'))"
proof -
  have "packet_field (last (st_packets s')) fld = None"
    by (rule no_such_field [OF pushed_fields [OF assms(1)] assms(2)])
  then show ?thesis
    using eq_comparison_parses [OF assms(2), of re n] by (simp add: some_and_def field_sliced_def)
qed

lemma empty_push: "\<exists>s. push_raw env 0 [] LtRaw [] 0 0 (store_new 4) = Some s"
  by (simp add: push_raw_def dissect_def Let_def)

theorem frame_len_equality_never_matches_witness:
  "\<exists>s f. push_raw refusing_env 0 [] LtRaw [] 0 0 (store_new 4) = Some s \<and>
     parse_display_filter (\<lambda>_. None) (''frame.len'' @ '' == '' @ dec 0) = Inr f \<and>
     length (pr_data (last (st_packets s))) = 0 \<and> \<not> df_matches (\<lambda>_ _. True) f (last (st_packets s))"
proof -
  obtain s where s: "push_raw refusing_env 0 [] LtRaw [] 0 0 (store_new 4) = Some s" using empty_push by blast
  then have "pr_data (last (st_packets s)) = []"
    by (auto simp: push_raw_def dissect_def Let_def store_push_def)
  with s frame_len_equality_never_matches [OF s, of "'' == ''" "''frame.len''" "\<lambda>_. None" 0 "\<lambda>_ _. True"]
  show ?thesis by (auto simp: eq_comparisons_def simp del: append.simps)
qed

section \<open>Export and dissection\<close>



text \<open>
  C38: The capture filter selects the exported packets by exactly what they were built from: a
  host, source or destination filter matches if and only if the address is the one exported, a
  port filter likewise, \<open>tcp\<close> matches and \<open>udp\<close> does not.
\<close>

theorem exported_capture_filter:
  "matches_raw (CfSrcHost (V4 ip)) (build_tcp_packet src dst payload n) = (ip = sa_ip src) \<and>
   matches_raw (CfDstHost (V4 ip)) (build_tcp_packet src dst payload n) = (ip = sa_ip dst) \<and>
   matches_raw (CfHost (V4 ip)) (build_tcp_packet src dst payload n) = (ip = sa_ip src \<or> ip = sa_ip dst) \<and>
   matches_raw (CfSrcPort p) (build_tcp_packet src dst payload n) = (p = unat (sa_port src)) \<and>
   matches_raw (CfDstPort p) (build_tcp_packet src dst payload n) = (p = unat (sa_port dst)) \<and>
   matches_raw (CfProto ''tcp'') (build_tcp_packet src dst payload n) \<and>
   \<not> matches_raw (CfProto ''udp'') (build_tcp_packet src dst payload n)"
  by (auto simp: has_host_def has_port_def matches_proto_def has_ip_proto_def built_offsets built_hosts built_ports
      length_built octets_inject by_dir_def built_proto)

end
